(* ===== verification/Sponge_Prelude.thy ===== *)
theory Sponge_Prelude
  imports Main "HOL-Library.Word"
begin

text \<open>
  Shared vocabulary of the development: the machine types of the C++ sources, exceptions as
  values, the fact collections, generic list and word lemmas, and the two interfaces that most
  components share (an operation-driven machine with an invariant, and a byte codec).
\<close>

unbundle bit_operations_syntax

section \<open>Machine types\<close>

type_synonym byte = "8 word"
type_synonym u8 = "8 word"
type_synonym u16 = "16 word"
type_synonym u32 = "32 word"
type_synonym u64 = "64 word"

section \<open>Numbers in words\<close>

lemma unat_of_nat_u16: "n < 2 ^ 16 \<Longrightarrow> unat (of_nat n :: u16) = n"
  by (simp add: unsigned_of_nat take_bit_nat_eq_self)

lemma uint_of_nat_u64:
  assumes "int n < 2 ^ 64"
  shows "uint (of_nat n :: u64) = int n"
  using assms by (simp add: unsigned_of_nat take_bit_eq_mod zmod_int)

section \<open>Exceptions as values\<close>

text \<open>
  A C++ function that may throw returns \<open>exn + 'a\<close>: \<open>Inl\<close> is the exception, \<open>Inr\<close>
  the value. \<open>Undefined_Behaviour\<close> marks an execution on which the C++ standard gives no
  meaning (reading through an invalidated iterator, shifting a word by its width).
\<close>

datatype exn =
    Out_Of_Range string
  | Runtime_Error string
  | Invalid_Argument string
  | Tagged_Error string int
  | Undefined_Behaviour string

text \<open>
  \<open>Tagged_Error attempt code\<close> is \<open>tagged_error\<close> and \<open>unix_error\<close> of util.hh: what was attempted and
  the error number. \<open>andthen m f\<close> runs \<open>m\<close> and gives its value to \<open>f\<close>, unless \<open>m\<close> throws.
\<close>

fun andthen :: "exn + 'a \<Rightarrow> ('a \<Rightarrow> exn + 'b) \<Rightarrow> exn + 'b" where
  "andthen (Inl e) f = Inl e"
| "andthen (Inr x) f = f x"

lemma andthen_cong [fundef_cong]:
  "m = m' \<Longrightarrow> (\<And>x. m' = Inr x \<Longrightarrow> f x = f' x) \<Longrightarrow> andthen m f = andthen m' f'"
  by (cases m') auto

lemma andthen_Inr [iff]: "andthen m f = Inr y \<longleftrightarrow> (\<exists>x. m = Inr x \<and> f x = Inr y)"
  by (cases m) auto

section \<open>Fact collections\<close>

named_theorems buf_simps \<open>functional behaviour of the buffer classes\<close>
named_theorems stream_simps \<open>functional behaviour of the byte stream\<close>
named_theorems parse_simps \<open>functional behaviour of the parser and unparser\<close>
named_theorems wire_defs \<open>serialisers and parsers of the headers\<close>

section \<open>Lists\<close>

text \<open>\<open>excerpt f i n\<close> lists the \<open>n\<close> bytes of the infinite byte sequence \<open>f\<close> from index \<open>i\<close>.\<close>

definition excerpt :: "(nat \<Rightarrow> 'a) \<Rightarrow> nat \<Rightarrow> nat \<Rightarrow> 'a list" where
  "excerpt f i n = map f [i ..< i + n]"

lemma length_excerpt [simp]: "length (excerpt f i n) = n"
  by (simp add: excerpt_def)

lemma excerpt_0 [simp]: "excerpt f i 0 = []"
  by (simp add: excerpt_def)

lemma nth_excerpt [simp]: "k < n \<Longrightarrow> excerpt f i n ! k = f (i + k)"
  by (simp add: excerpt_def)

lemma excerpt_append: "excerpt f i m @ excerpt f (i + m) n = excerpt f i (m + n)"
  by (rule nth_equalityI) (auto simp: nth_append)

lemma take_excerpt [simp]: "take k (excerpt f i n) = excerpt f i (min k n)"
  by (rule nth_equalityI) auto

lemma drop_excerpt [simp]: "drop k (excerpt f i n) = excerpt f (i + k) (n - k)"
  by (rule nth_equalityI) (auto simp: add.assoc)

lemma excerpt_take_drop:
  "i + n \<le> length xs \<Longrightarrow> excerpt (\<lambda>k. xs ! k) i n = take n (drop i xs)"
  by (rule nth_equalityI) (auto simp: excerpt_def)

lemma take_map_nth: "n \<le> length xs \<Longrightarrow> take n xs = map ((!) xs) [0..<n]"
  by (rule nth_equalityI) auto

section \<open>Initial segments\<close>

text \<open>The first element that a filter keeps.\<close>

lemma filter_first:
  assumes "filter P xs \<noteq> []"
  obtains p where "p < length xs" "P (xs ! p)" "\<And>j. j < p \<Longrightarrow> \<not> P (xs ! j)"
    "filter P xs = [last xs] \<longleftrightarrow> p = length xs - 1"
proof -
  obtain as x bs where xs: "xs = as @ x # bs" and x: "P x" and as: "\<forall>a\<in>set as. \<not> P a"
    using assms by (metis filter_empty_conv split_list_first_prop)
  have kept: "filter P xs = x # filter P bs" using x as by (simp add: xs)
  have "filter P xs = [last xs] \<longleftrightarrow> bs = []"
  proof
    assume only: "filter P xs = [last xs]"
    show "bs = []"
    proof (rule ccontr)
      assume bs: "bs \<noteq> []"
      then have "last bs = x" "filter P bs = []" using only kept by (auto simp: xs)
      then show False using x bs by (metis filter_empty_conv last_in_set)
    qed
  qed (use kept in \<open>simp add: xs\<close>)
  moreover have "\<not> P (xs ! j)" if "j < length as" for j
    using as that by (simp add: xs nth_append)
  ultimately show thesis using x by (intro that [of "length as"]) (auto simp: xs)
qed

lemma initial_segment_full:
  fixes C :: "nat set"
  assumes "{..<h} \<subseteq> C" and "h \<notin> C" and "C \<subseteq> {..<n}" and "m \<in> C" and "n = Suc m"
  shows "C \<subseteq> {..<h} \<longleftrightarrow> {..<n} \<subseteq> C" and "C \<subseteq> {..<h} \<Longrightarrow> h = n"
proof -
  show eq: "h = n" if "C \<subseteq> {..<h}"
  proof -
    have "m < h" using that assms(4) by auto
    moreover have "\<not> n < h" using assms(1,3) by auto
    ultimately show ?thesis using assms(5) by simp
  qed
  show "C \<subseteq> {..<h} \<longleftrightarrow> {..<n} \<subseteq> C"
  proof
    assume "C \<subseteq> {..<h}"
    then show "{..<n} \<subseteq> C" using eq assms(1) by simp
  next
    assume "{..<n} \<subseteq> C"
    then have "\<not> h < n" using assms(2) by auto
    then show "C \<subseteq> {..<h}" using assms(3) by auto
  qed
qed

section \<open>Operation-driven machines\<close>

text \<open>
  A component with mutable state is a start predicate and a step function from operations and
  states to states. Every component of the development interprets this interface with its
  invariant; \<open>run_inv\<close> then gives the invariant after any sequence of its operations.
\<close>

fun all_steps :: "('e \<Rightarrow> 's \<Rightarrow> bool) \<Rightarrow> ('e \<Rightarrow> 's \<Rightarrow> 's) \<Rightarrow> 'e list \<Rightarrow> 's \<Rightarrow> bool" where
  "all_steps ok step [] s = True"
| "all_steps ok step (e # es) s = (ok e s \<and> all_steps ok step es (step e s))"

locale machine =
  fixes start :: "'s \<Rightarrow> bool"
    and guard :: "'e \<Rightarrow> 's \<Rightarrow> bool"
    and step :: "'e \<Rightarrow> 's \<Rightarrow> 's"
    and inv :: "'s \<Rightarrow> bool"
  assumes start_inv: "start s \<Longrightarrow> inv s"
    and step_inv: "inv s \<Longrightarrow> guard e s \<Longrightarrow> inv (step e s)"
begin

lemma fold_inv: "inv s \<Longrightarrow> all_steps guard step es s \<Longrightarrow> inv (fold step es s)"
  by (induction es arbitrary: s) (auto intro: step_inv)

lemma run_inv: "start s \<Longrightarrow> all_steps guard step es s \<Longrightarrow> inv (fold step es s)"
  by (blast intro: start_inv fold_inv)

end

text \<open>The machine whose operations are always allowed.\<close>

abbreviation always :: "'e \<Rightarrow> 's \<Rightarrow> bool" where
  "always \<equiv> (\<lambda>_ _. True)"

lemma all_steps_always [simp]: "all_steps always step es s"
  by (induction es arbitrary: s) auto

section \<open>Observation traces and simulation\<close>

text \<open>
  What a client sees of a component is the list of results of its calls. A relation that every
  operation preserves, with equal results on both sides, makes the traces equal: this is the
  refinement argument of the components that have an abstract specification. The specification
  may restrict the calls a client makes (\<open>allowed\<close>): the traces are equal for the clients that
  keep to it.
\<close>

fun trace :: "('e \<Rightarrow> 's \<Rightarrow> 'b \<times> 's) \<Rightarrow> 'e list \<Rightarrow> 's \<Rightarrow> 'b list" where
  "trace exec [] s = []"
| "trace exec (e # es) s = fst (exec e s) # trace exec es (snd (exec e s))"

locale simulation =
  fixes exec_c :: "'e \<Rightarrow> 'c \<Rightarrow> 'b \<times> 'c"
    and exec_a :: "'e \<Rightarrow> 'a \<Rightarrow> 'b \<times> 'a"
    and allowed :: "'e \<Rightarrow> 'a \<Rightarrow> bool"
    and rel :: "'c \<Rightarrow> 'a \<Rightarrow> bool"
  assumes same_result: "rel c a \<Longrightarrow> allowed e a \<Longrightarrow> fst (exec_c e c) = fst (exec_a e a)"
    and next_related: "rel c a \<Longrightarrow> allowed e a \<Longrightarrow> rel (snd (exec_c e c)) (snd (exec_a e a))"
begin

lemma trace_refines:
  "rel c a \<Longrightarrow> all_steps allowed (\<lambda>e s. snd (exec_a e s)) es a \<Longrightarrow>
   trace exec_c es c = trace exec_a es a"
  by (induction es arbitrary: c a) (auto simp: same_result next_related)

end

section \<open>Byte codecs\<close>

text \<open>
  A serialiser and a parser that consumes a prefix of its input agree on the valid values.
  Unique decoding and injectivity follow once for every header format.
\<close>

locale codec =
  fixes valid :: "'a \<Rightarrow> bool"
    and put :: "'a \<Rightarrow> byte list"
    and get :: "byte list \<Rightarrow> ('a \<times> byte list) option"
  assumes get_put: "valid x \<Longrightarrow> get (put x @ rest) = Some (x, rest)"
begin

lemma put_prefix_unique:
  assumes "valid x" and "valid y" and "put x @ r = put y @ r'"
  shows "x = y \<and> r = r'"
proof -
  have "get (put x @ r) = get (put y @ r')" using assms(3) by simp
  then show ?thesis using assms(1,2) by (simp add: get_put)
qed

lemma put_inj: "valid x \<Longrightarrow> valid y \<Longrightarrow> put x = put y \<Longrightarrow> x = y"
  using put_prefix_unique [of x y "[]" "[]"] by simp

end

end
