(* ===== verification/Buffers.thy ===== *)
theory Buffers
  imports Sponge_Prelude
begin

text \<open>
  \<open>libsponge/util/buffer.{hh,cc}\<close>: the reference-counted string \<open>Buffer\<close>, the
  discontiguous string \<open>BufferList\<close> and the non-owning \<open>BufferViewList\<close>. A shared string is
  never written through a \<open>Buffer\<close>, so a copy of a \<open>Buffer\<close> is modelled by its value.
\<close>

section \<open>Buffer\<close>

record buffer =
  storage :: "byte list option"
  starting_offset :: nat

definition empty_buffer :: buffer where
  "empty_buffer = \<lparr>storage = None, starting_offset = 0\<rparr>"

definition buffer_of_string :: "byte list \<Rightarrow> buffer" where
  "buffer_of_string str = \<lparr>storage = Some str, starting_offset = 0\<rparr>"

definition buffer_str :: "buffer \<Rightarrow> byte list" where
  "buffer_str b = (case storage b of None \<Rightarrow> [] | Some s \<Rightarrow> drop (starting_offset b) s)"

definition buffer_at :: "nat \<Rightarrow> buffer \<Rightarrow> exn + u8" where
  "buffer_at n b =
     (if n < length (buffer_str b) then Inr (buffer_str b ! n)
      else Inl (Out_Of_Range ''string_view::at''))"

definition buffer_size :: "buffer \<Rightarrow> nat" where
  "buffer_size b = length (buffer_str b)"

definition buffer_copy :: "buffer \<Rightarrow> byte list" where
  "buffer_copy b = buffer_str b"

definition buffer_remove_prefix :: "nat \<Rightarrow> buffer \<Rightarrow> exn + buffer" where
  "buffer_remove_prefix n b =
     (if n > length (buffer_str b) then Inl (Out_Of_Range ''Buffer::remove_prefix'')
      else let b' = b\<lparr>starting_offset := starting_offset b + n\<rparr> in
        Inr (case storage b' of
               None \<Rightarrow> b'
             | Some s \<Rightarrow> if starting_offset b' = length s then b'\<lparr>storage := None\<rparr> else b'))"

text \<open>
  The offset never passes the end of the string, so the subtraction in \<open>str()\<close> never wraps.
\<close>

definition buffer_wf :: "buffer \<Rightarrow> bool" where
  "buffer_wf b = (case storage b of None \<Rightarrow> True | Some s \<Rightarrow> starting_offset b \<le> length s)"

lemma buffer_str_of_string [buf_simps, simp]: "buffer_str (buffer_of_string s) = s"
  by (simp add: buffer_str_def buffer_of_string_def)

lemma buffer_str_empty [buf_simps, simp]: "buffer_str empty_buffer = []"
  by (simp add: buffer_str_def empty_buffer_def)

lemma buffer_remove_prefix_ok [buf_simps]:
  assumes "n \<le> length (buffer_str b)"
  obtains b' where "buffer_remove_prefix n b = Inr b'" and "buffer_str b' = drop n (buffer_str b)"
    and "buffer_wf b \<Longrightarrow> buffer_wf b'"
  using assms
  by (fastforce simp: buffer_remove_prefix_def buffer_str_def buffer_wf_def Let_def add.commute
      split: option.splits if_splits)

lemma buffer_wf_of_string [simp]: "buffer_wf (buffer_of_string s)" "buffer_wf empty_buffer"
  by (simp_all add: buffer_wf_def buffer_of_string_def empty_buffer_def)

section \<open>BufferList\<close>

type_synonym buffer_list = "buffer list"

definition bl_of_buffer :: "buffer \<Rightarrow> buffer_list" where
  "bl_of_buffer b = [b]"

definition bl_append :: "buffer_list \<Rightarrow> buffer_list \<Rightarrow> buffer_list" where
  "bl_append bufs other = fold (\<lambda>buf acc. acc @ [buf]) other bufs"

definition bl_of_string :: "byte list \<Rightarrow> buffer_list" where
  "bl_of_string s = bl_append [] (bl_of_buffer (buffer_of_string s))"

definition bl_to_buffer :: "buffer_list \<Rightarrow> exn + buffer" where
  "bl_to_buffer bufs =
     (case bufs of
        [] \<Rightarrow> Inr empty_buffer
      | [b] \<Rightarrow> Inr b
      | _ \<Rightarrow> Inl (Runtime_Error ''BufferList: please use concatenate() to combine a multi-Buffer BufferList into one Buffer''))"

definition bl_concatenate :: "buffer_list \<Rightarrow> byte list" where
  "bl_concatenate bufs = fold (\<lambda>buf ret. ret @ buffer_str buf) bufs []"

definition bl_size :: "buffer_list \<Rightarrow> nat" where
  "bl_size bufs = fold (\<lambda>buf ret. ret + buffer_size buf) bufs 0"

fun bl_remove_prefix :: "nat \<Rightarrow> buffer_list \<Rightarrow> exn + buffer_list" where
  "bl_remove_prefix n [] =
     (if n > 0 then Inl (Out_Of_Range ''BufferList::remove_prefix'') else Inr [])"
| "bl_remove_prefix n (b # rest) =
     (if n > 0 then
        if n < length (buffer_str b) then
          (case buffer_remove_prefix n b of Inl e \<Rightarrow> Inl e | Inr b' \<Rightarrow> Inr (b' # rest))
        else bl_remove_prefix (n - length (buffer_str b)) rest
      else Inr (b # rest))"

lemma bl_append_eq [buf_simps, simp]: "bl_append xs ys = xs @ ys"
  unfolding bl_append_def by (induction ys arbitrary: xs) auto

lemma bl_of_string_eq [buf_simps]: "bl_of_string s = [buffer_of_string s]"
  by (simp add: bl_of_string_def bl_of_buffer_def)

lemma bl_concatenate_fold:
  "fold (\<lambda>buf ret. ret @ buffer_str buf) bufs acc = acc @ concat (map buffer_str bufs)"
  by (induction bufs arbitrary: acc) auto

lemma bl_concatenate_eq [buf_simps]: "bl_concatenate bufs = concat (map buffer_str bufs)"
  by (simp add: bl_concatenate_def bl_concatenate_fold)

lemma bl_concatenate_simps [simp]:
  "bl_concatenate [] = []"
  "bl_concatenate (b # bs) = buffer_str b @ bl_concatenate bs"
  "bl_concatenate (xs @ ys) = bl_concatenate xs @ bl_concatenate ys"
  by (simp_all add: bl_concatenate_eq)

lemma bl_concatenate_of_string [simp]: "bl_concatenate (bl_of_string s) = s"
  by (simp add: bl_of_string_eq)

lemma bl_size_fold:
  "fold (\<lambda>buf ret. ret + buffer_size buf) bufs n = n + length (bl_concatenate bufs)"
  by (induction bufs arbitrary: n) (auto simp: buffer_size_def)

lemma bl_size_eq [buf_simps, simp]: "bl_size bufs = length (bl_concatenate bufs)"
  by (simp add: bl_size_def bl_size_fold)

lemma bl_remove_prefix_ok:
  "n \<le> length (bl_concatenate bufs) \<Longrightarrow>
     \<exists>bufs'. bl_remove_prefix n bufs = Inr bufs' \<and> bl_concatenate bufs' = drop n (bl_concatenate bufs)"
proof (induction n bufs rule: bl_remove_prefix.induct)
  case (1 n)
  then show ?case by simp
next
  case (2 n b rest)
  show ?case
  proof (cases "0 < n \<and> n < length (buffer_str b)")
    case True
    then obtain b' where "buffer_remove_prefix n b = Inr b'" "buffer_str b' = drop n (buffer_str b)"
      using buffer_remove_prefix_ok [of n b] by auto
    with True show ?thesis by simp
  next
    case False
    with 2 show ?thesis by auto
  qed
qed

lemma bl_remove_prefix_throws:
  "length (bl_concatenate bufs) < n \<Longrightarrow>
     bl_remove_prefix n bufs = Inl (Out_Of_Range ''BufferList::remove_prefix'')"
  by (induction n bufs rule: bl_remove_prefix.induct) auto

lemma bl_remove_prefix_wf:
  "bl_remove_prefix n bufs = Inr bufs' \<Longrightarrow> \<forall>b\<in>set bufs. buffer_wf b \<Longrightarrow> \<forall>b\<in>set bufs'. buffer_wf b"
proof (induction n bufs rule: bl_remove_prefix.induct)
  case (1 n)
  then show ?case by (auto split: if_splits)
next
  case (2 n b rest)
  show ?case
  proof (cases "0 < n \<and> n < length (buffer_str b)")
    case True
    then obtain b' where "buffer_remove_prefix n b = Inr b'" "buffer_wf b \<Longrightarrow> buffer_wf b'"
      using buffer_remove_prefix_ok [of n b] by auto
    with True 2(2,3) show ?thesis by auto
  next
    case False
    with 2 show ?thesis by (auto split: if_splits)
  qed
qed

section \<open>BufferViewList\<close>

type_synonym buffer_view_list = "byte list list"

definition bvl_of_string :: "byte list \<Rightarrow> buffer_view_list" where
  "bvl_of_string s = [s]"

definition bvl_of_buffer_list :: "buffer_list \<Rightarrow> buffer_view_list" where
  "bvl_of_buffer_list bufs = fold (\<lambda>x acc. acc @ [buffer_str x]) bufs []"

fun bvl_remove_prefix :: "nat \<Rightarrow> buffer_view_list \<Rightarrow> exn + buffer_view_list" where
  "bvl_remove_prefix n [] =
     (if n > 0 then Inl (Out_Of_Range ''BufferListView::remove_prefix'') else Inr [])"
| "bvl_remove_prefix n (v # rest) =
     (if n > 0 then
        if n < length v then Inr (drop n v # rest)
        else bvl_remove_prefix (n - length v) rest
      else Inr (v # rest))"

definition bvl_size :: "buffer_view_list \<Rightarrow> nat" where
  "bvl_size views = fold (\<lambda>buf ret. ret + length buf) views 0"

lemma bvl_of_buffer_list_eq [buf_simps]: "bvl_of_buffer_list bufs = map buffer_str bufs"
proof -
  have "fold (\<lambda>x acc. acc @ [buffer_str x]) bufs acc = acc @ map buffer_str bufs" for acc
    by (induction bufs arbitrary: acc) auto
  then show ?thesis by (simp add: bvl_of_buffer_list_def)
qed

lemma bvl_size_eq [buf_simps]: "bvl_size views = length (concat views)"
proof -
  have "fold (\<lambda>buf ret. ret + length buf) views n = n + length (concat views)" for n
    by (induction views arbitrary: n) auto
  then show ?thesis by (simp add: bvl_size_def)
qed

lemma bvl_remove_prefix_ok:
  "n \<le> length (concat views) \<Longrightarrow>
     \<exists>views'. bvl_remove_prefix n views = Inr views' \<and> concat views' = drop n (concat views)"
  by (induction n views rule: bvl_remove_prefix.induct) auto

end
