(* ===== verification/Byte_Stream.thy ===== *)
theory Byte_Stream
  imports Buffers
begin

text \<open>
  \<open>libsponge/byte_stream.{hh,cc}\<close>: the flow-controlled in-memory byte stream. The definitions
  keep the \<open>BufferList\<close> of the code; \<open>bs_content\<close> is the unread byte string it stands for.
  The counters \<open>_written\<close> and \<open>_readden\<close> are \<open>size_t\<close> and are modelled as \<open>nat\<close>: they
  wrap only after \<open>2^64\<close> bytes. The subtraction \<open>_capacity - _buffer.size()\<close> never goes below
  zero (\<open>bs_inv\<close>), so \<open>nat\<close> subtraction is the \<open>size_t\<close> subtraction of the code.
\<close>

section \<open>State and operations\<close>

record byte_stream =
  bs_capacity :: nat
  bs_written :: nat
  bs_readden :: nat
  bs_input_end :: bool
  bs_buffer :: buffer_list
  bs_err :: bool

definition bs_new :: "nat \<Rightarrow> byte_stream" where
  "bs_new capacity =
     \<lparr>bs_capacity = capacity, bs_written = 0, bs_readden = 0, bs_input_end = False,
      bs_buffer = [], bs_err = False\<rparr>"

definition bs_write :: "byte list \<Rightarrow> byte_stream \<Rightarrow> nat \<times> byte_stream" where
  "bs_write data b =
     (let len = length data;
          len = (if len < bs_capacity b - bl_size (bs_buffer b) then len
                 else bs_capacity b - bl_size (bs_buffer b))
      in (len, b\<lparr>bs_written := bs_written b + len,
                 bs_buffer := bl_append (bs_buffer b) (bl_of_string (take len data))\<rparr>))"

definition bs_peek_output :: "nat \<Rightarrow> byte_stream \<Rightarrow> byte list" where
  "bs_peek_output len b =
     (let length = min len (bl_size (bs_buffer b)); s = bl_concatenate (bs_buffer b)
      in take length s)"

definition bs_pop_output :: "nat \<Rightarrow> byte_stream \<Rightarrow> exn + byte_stream" where
  "bs_pop_output len b =
     (let length = min len (bl_size (bs_buffer b)) in
      case bl_remove_prefix length (bs_buffer b) of
        Inl e \<Rightarrow> Inl e
      | Inr buf \<Rightarrow> Inr (b\<lparr>bs_readden := bs_readden b + length, bs_buffer := buf\<rparr>))"

definition bs_read :: "nat \<Rightarrow> byte_stream \<Rightarrow> exn + (byte list \<times> byte_stream)" where
  "bs_read len b =
     (let length = min len (bl_size (bs_buffer b)); res = bs_peek_output length b in
      case bs_pop_output length b of Inl e \<Rightarrow> Inl e | Inr b' \<Rightarrow> Inr (res, b'))"

definition bs_end_input :: "byte_stream \<Rightarrow> byte_stream" where
  "bs_end_input b = b\<lparr>bs_input_end := True\<rparr>"

definition bs_set_error :: "byte_stream \<Rightarrow> byte_stream" where
  "bs_set_error b = b\<lparr>bs_err := True\<rparr>"

definition bs_input_ended :: "byte_stream \<Rightarrow> bool" where
  "bs_input_ended b = bs_input_end b"

definition bs_error :: "byte_stream \<Rightarrow> bool" where
  "bs_error b = bs_err b"

definition bs_buffer_size :: "byte_stream \<Rightarrow> nat" where
  "bs_buffer_size b = bl_size (bs_buffer b)"

definition bs_buffer_empty :: "byte_stream \<Rightarrow> bool" where
  "bs_buffer_empty b = (bl_size (bs_buffer b) = 0)"

definition bs_eof :: "byte_stream \<Rightarrow> bool" where
  "bs_eof b = (bs_buffer_empty b \<and> bs_input_ended b)"

definition bs_bytes_written :: "byte_stream \<Rightarrow> nat" where
  "bs_bytes_written b = bs_written b"

definition bs_bytes_read :: "byte_stream \<Rightarrow> nat" where
  "bs_bytes_read b = bs_readden b"

definition bs_remaining_capacity :: "byte_stream \<Rightarrow> nat" where
  "bs_remaining_capacity b = bs_capacity b - bl_size (bs_buffer b)"

lemmas bs_accessor_defs =
  bs_input_ended_def bs_error_def bs_buffer_size_def bs_buffer_empty_def bs_eof_def
  bs_bytes_written_def bs_bytes_read_def bs_remaining_capacity_def

section \<open>The unread contents\<close>

definition bs_content :: "byte_stream \<Rightarrow> byte list" where
  "bs_content b = bl_concatenate (bs_buffer b)"

definition bs_inv :: "byte_stream \<Rightarrow> bool" where
  "bs_inv b \<longleftrightarrow> length (bs_content b) \<le> bs_capacity b \<and>
     bs_written b = bs_readden b + length (bs_content b)"

lemma bs_new_simps [simp]:
  "bs_content (bs_new c) = []" "bs_capacity (bs_new c) = c" "bs_written (bs_new c) = 0"
  "bs_readden (bs_new c) = 0" "bs_input_end (bs_new c) = False" "bs_err (bs_new c) = False"
  "bs_inv (bs_new c)"
  by (simp_all add: bs_new_def bs_content_def bs_inv_def)

lemma bs_write_fst [stream_simps]:
  "fst (bs_write d b) = min (length d) (bs_capacity b - length (bs_content b))"
  by (simp add: bs_write_def bs_content_def Let_def min_def)

lemma bs_write_snd [stream_simps]:
  "bs_content (snd (bs_write d b)) = bs_content b @ take (bs_capacity b - length (bs_content b)) d"
  "bs_capacity (snd (bs_write d b)) = bs_capacity b"
  "bs_written (snd (bs_write d b)) =
     bs_written b + min (length d) (bs_capacity b - length (bs_content b))"
  "bs_readden (snd (bs_write d b)) = bs_readden b"
  "bs_input_end (snd (bs_write d b)) = bs_input_end b"
  "bs_err (snd (bs_write d b)) = bs_err b"
  by (auto simp: bs_write_def bs_content_def Let_def min_def)

lemma bs_pop_output_total:
  "\<exists>b'. bs_pop_output len b = Inr b' \<and> bs_content b' = drop len (bs_content b) \<and>
     bs_readden b' = bs_readden b + min len (length (bs_content b)) \<and>
     bs_written b' = bs_written b \<and> bs_capacity b' = bs_capacity b \<and>
     bs_input_end b' = bs_input_end b \<and> bs_err b' = bs_err b"
proof -
  let ?n = "min len (length (bl_concatenate (bs_buffer b)))"
  obtain buf where "bl_remove_prefix ?n (bs_buffer b) = Inr buf"
    "bl_concatenate buf = drop ?n (bl_concatenate (bs_buffer b))"
    using bl_remove_prefix_ok [of ?n "bs_buffer b"] by auto
  then show ?thesis
    by (auto simp: bs_pop_output_def bs_content_def Let_def min_def)
qed

lemma bs_read_total:
  "\<exists>b'. bs_read len b = Inr (take len (bs_content b), b') \<and>
     bs_content b' = drop len (bs_content b) \<and>
     bs_readden b' = bs_readden b + min len (length (bs_content b)) \<and>
     bs_written b' = bs_written b \<and> bs_capacity b' = bs_capacity b \<and>
     bs_input_end b' = bs_input_end b \<and> bs_err b' = bs_err b"
proof -
  let ?n = "min len (length (bs_content b))"
  obtain b' where "bs_pop_output ?n b = Inr b'" "bs_content b' = drop ?n (bs_content b)"
    "bs_readden b' = bs_readden b + min ?n (length (bs_content b))"
    "bs_written b' = bs_written b" "bs_capacity b' = bs_capacity b"
    "bs_input_end b' = bs_input_end b" "bs_err b' = bs_err b"
    using bs_pop_output_total [of ?n b] by auto
  then show ?thesis
    by (auto simp: bs_read_def bs_peek_output_def bs_content_def [symmetric] Let_def min_def)
qed

text \<open>
  Neither call can throw, so a caller always gets the value: \<open>projr\<close> reads it. These are the
  facts the other components use.
\<close>

lemma bs_pop_simps [stream_simps]:
  "bs_content (projr (bs_pop_output n b)) = drop n (bs_content b)"
  "bs_readden (projr (bs_pop_output n b)) = bs_readden b + min n (length (bs_content b))"
  "bs_written (projr (bs_pop_output n b)) = bs_written b"
  "bs_capacity (projr (bs_pop_output n b)) = bs_capacity b"
  "bs_input_end (projr (bs_pop_output n b)) = bs_input_end b"
  "bs_err (projr (bs_pop_output n b)) = bs_err b"
  using bs_pop_output_total [of n b] by auto

lemma bs_read_fst [stream_simps]: "fst (projr (bs_read n b)) = take n (bs_content b)"
  using bs_read_total [of n b] by auto

lemma bs_read_snd [stream_simps]:
  "bs_content (snd (projr (bs_read n b))) = drop n (bs_content b)"
  "bs_readden (snd (projr (bs_read n b))) = bs_readden b + min n (length (bs_content b))"
  "bs_written (snd (projr (bs_read n b))) = bs_written b"
  "bs_capacity (snd (projr (bs_read n b))) = bs_capacity b"
  "bs_input_end (snd (projr (bs_read n b))) = bs_input_end b"
  "bs_err (snd (projr (bs_read n b))) = bs_err b"
  using bs_read_total [of n b] by auto

lemma bs_flag_simps [simp]:
  "bs_content (bs_end_input b) = bs_content b" "bs_content (bs_set_error b) = bs_content b"
  "bs_capacity (bs_end_input b) = bs_capacity b" "bs_capacity (bs_set_error b) = bs_capacity b"
  "bs_written (bs_end_input b) = bs_written b" "bs_written (bs_set_error b) = bs_written b"
  "bs_readden (bs_end_input b) = bs_readden b" "bs_readden (bs_set_error b) = bs_readden b"
  "bs_input_end (bs_end_input b)" "bs_input_end (bs_set_error b) = bs_input_end b"
  "bs_err (bs_end_input b) = bs_err b" "bs_err (bs_set_error b)"
  by (simp_all add: bs_end_input_def bs_set_error_def bs_content_def)

lemma bs_accessors [stream_simps]:
  "bs_input_ended b = bs_input_end b" "bs_error b = bs_err b"
  "bs_buffer_size b = length (bs_content b)" "bs_buffer_empty b = (bs_content b = [])"
  "bs_eof b = (bs_content b = [] \<and> bs_input_end b)"
  "bs_bytes_written b = bs_written b" "bs_bytes_read b = bs_readden b"
  "bs_remaining_capacity b = bs_capacity b - length (bs_content b)"
  by (simp_all add: bs_accessor_defs bs_content_def)

lemma bs_peek_content [stream_simps]: "bs_peek_output n b = take n (bs_content b)"
  by (simp add: bs_peek_output_def bs_content_def min_def Let_def)

lemma bs_inv_write [simp]: "bs_inv b \<Longrightarrow> bs_inv (snd (bs_write d b))"
  by (auto simp: bs_inv_def stream_simps)

lemma bs_inv_pop [simp]: "bs_inv b \<Longrightarrow> bs_inv (projr (bs_pop_output n b))"
  by (auto simp: bs_inv_def stream_simps)

lemma bs_inv_read [simp]: "bs_inv b \<Longrightarrow> bs_inv (snd (projr (bs_read n b)))"
  by (auto simp: bs_inv_def stream_simps)

lemma bs_inv_flags [simp]:
  "bs_inv (bs_end_input b) = bs_inv b" "bs_inv (bs_set_error b) = bs_inv b"
  by (simp_all add: bs_inv_def)

section \<open>The stream as an operation-driven machine\<close>

datatype bs_op =
    Write "byte list"
  | Peek nat
  | Pop nat
  | Read nat
  | End_Input
  | Set_Error

datatype bs_obs = Accepted nat | Bytes "byte list" | Done | Threw exn

fun bs_exec :: "bs_op \<Rightarrow> byte_stream \<Rightarrow> bs_obs \<times> byte_stream" where
  "bs_exec (Write d) b = (let (n, b') = bs_write d b in (Accepted n, b'))"
| "bs_exec (Peek n) b = (Bytes (bs_peek_output n b), b)"
| "bs_exec (Pop n) b = (case bs_pop_output n b of Inl e \<Rightarrow> (Threw e, b) | Inr b' \<Rightarrow> (Done, b'))"
| "bs_exec (Read n) b =
     (case bs_read n b of Inl e \<Rightarrow> (Threw e, b) | Inr (d, b') \<Rightarrow> (Bytes d, b'))"
| "bs_exec End_Input b = (Done, bs_end_input b)"
| "bs_exec Set_Error b = (Done, bs_set_error b)"

definition bs_step :: "bs_op \<Rightarrow> byte_stream \<Rightarrow> byte_stream" where
  "bs_step op b = snd (bs_exec op b)"

lemma bs_step_simps:
  "bs_step (Write d) b = snd (bs_write d b)"
  "bs_step (Peek n) b = b"
  "bs_step (Pop n) b = projr (bs_pop_output n b)"
  "bs_step (Read n) b = snd (projr (bs_read n b))"
  "bs_step End_Input b = bs_end_input b"
  "bs_step Set_Error b = bs_set_error b"
  using bs_pop_output_total [of n b] bs_read_total [of n b]
  by (auto simp: bs_step_def split: prod.splits sum.splits)

interpretation bs_machine: machine "\<lambda>b. b = bs_new c" always bs_step "\<lambda>b. bs_inv b \<and> bs_capacity b = c"
proof unfold_locales
  fix b op
  assume "bs_inv b \<and> bs_capacity b = c"
  then show "bs_inv (bs_step op b) \<and> bs_capacity (bs_step op b) = c"
    by (cases op) (auto simp: bs_step_simps stream_simps)
qed simp

section \<open>The byte-pipe interface\<close>

text \<open>
  What the reassembler, the sender and the applications rely on: a bounded queue of bytes whose
  writes are cut to the room that is left and whose reads take from the front.
\<close>

datatype pipe_op = PWrite "byte list" | PRead nat

locale byte_pipe =
  fixes content :: "'s \<Rightarrow> byte list"
    and room :: "'s \<Rightarrow> nat"
    and wr :: "byte list \<Rightarrow> 's \<Rightarrow> nat \<times> 's"
    and rd :: "nat \<Rightarrow> 's \<Rightarrow> byte list \<times> 's"
    and ok :: "'s \<Rightarrow> bool"
  assumes wr_count: "ok s \<Longrightarrow> fst (wr d s) = min (length d) (room s)"
    and wr_content: "ok s \<Longrightarrow> content (snd (wr d s)) = content s @ take (room s) d"
    and wr_room: "ok s \<Longrightarrow> room (snd (wr d s)) = room s - length d"
    and wr_ok: "ok s \<Longrightarrow> ok (snd (wr d s))"
    and rd_data: "ok s \<Longrightarrow> fst (rd n s) = take n (content s)"
    and rd_content: "ok s \<Longrightarrow> content (snd (rd n s)) = drop n (content s)"
    and rd_room: "ok s \<Longrightarrow> room (snd (rd n s)) = room s + min n (length (content s))"
    and rd_ok: "ok s \<Longrightarrow> ok (snd (rd n s))"
begin

text \<open>One run: the bytes accepted, the bytes delivered and the final state.\<close>

fun pipe_run :: "pipe_op list \<Rightarrow> 's \<Rightarrow> byte list \<times> byte list \<times> 's" where
  "pipe_run [] s = ([], [], s)"
| "pipe_run (PWrite d # ops) s =
     (let (i, out, s') = pipe_run ops (snd (wr d s)) in (take (fst (wr d s)) d @ i, out, s'))"
| "pipe_run (PRead n # ops) s =
     (let (i, out, s') = pipe_run ops (snd (rd n s)) in (i, fst (rd n s) @ out, s'))"

lemma pipe_fifo:
  "ok s \<Longrightarrow> pipe_run ops s = (i, out, s') \<Longrightarrow> content s @ i = out @ content s' \<and> ok s'"
proof (induction ops arbitrary: s i out s')
  case Nil
  then show ?case by simp
next
  case (Cons x ops)
  show ?case
  proof (cases x)
    case (PWrite d)
    obtain i1 o1 s1 where r: "pipe_run ops (snd (wr d s)) = (i1, o1, s1)"
      by (cases "pipe_run ops (snd (wr d s))") auto
    have "content (snd (wr d s)) @ i1 = o1 @ content s1 \<and> ok s1"
      by (rule Cons.IH [OF wr_ok [OF Cons.prems(1)] r])
    moreover have "take (fst (wr d s)) d = take (room s) d"
      using Cons.prems(1) by (simp add: wr_count min_def)
    ultimately show ?thesis
      using Cons.prems PWrite r by (auto simp: wr_content)
  next
    case (PRead n)
    obtain i1 o1 s1 where r: "pipe_run ops (snd (rd n s)) = (i1, o1, s1)"
      by (cases "pipe_run ops (snd (rd n s))") auto
    have "content (snd (rd n s)) @ i1 = o1 @ content s1 \<and> ok s1"
      by (rule Cons.IH [OF rd_ok [OF Cons.prems(1)] r])
    then show ?thesis
      using Cons.prems PRead r
      by (auto simp: rd_content rd_data) (metis append_assoc append_take_drop_id)
  qed
qed

end

interpretation bs_pipe: byte_pipe bs_content bs_remaining_capacity bs_write
  "\<lambda>n b. projr (bs_read n b)" bs_inv
  by unfold_locales (auto simp: stream_simps bs_inv_def)

section \<open>Refinement of the history specification\<close>

text \<open>
  What a client can see of a stream between two calls: the eight accessors of the class.
\<close>

record stream_view =
  vw_input_ended :: bool
  vw_error :: bool
  vw_buffer_size :: nat
  vw_buffer_empty :: bool
  vw_eof :: bool
  vw_bytes_written :: nat
  vw_bytes_read :: nat
  vw_remaining_capacity :: nat

definition bs_view :: "byte_stream \<Rightarrow> stream_view" where
  "bs_view b =
     \<lparr>vw_input_ended = bs_input_ended b, vw_error = bs_error b,
      vw_buffer_size = bs_buffer_size b, vw_buffer_empty = bs_buffer_empty b,
      vw_eof = bs_eof b, vw_bytes_written = bs_bytes_written b,
      vw_bytes_read = bs_bytes_read b, vw_remaining_capacity = bs_remaining_capacity b\<rparr>"

definition bs_observe :: "bs_op \<Rightarrow> byte_stream \<Rightarrow> (bs_obs \<times> stream_view) \<times> byte_stream" where
  "bs_observe op b = (let (r, b') = bs_exec op b in ((r, bs_view b'), b'))"

text \<open>
  The abstract stream is its whole history: the bytes accepted so far, how many of them have
  been consumed, and whether the writer ended it or signalled an error. There is no buffer to
  manage and nothing can throw. It is the stream of the class comment: the writer can end the
  input, "and then no more bytes can be written", so a write to an ended stream accepts nothing.
\<close>

record stream_spec =
  sp_capacity :: nat
  sp_history :: "byte list"
  sp_consumed :: nat
  sp_ended :: bool
  sp_failed :: bool

definition spec_new :: "nat \<Rightarrow> stream_spec" where
  "spec_new c =
     \<lparr>sp_capacity = c, sp_history = [], sp_consumed = 0, sp_ended = False, sp_failed = False\<rparr>"

definition spec_unread :: "stream_spec \<Rightarrow> byte list" where
  "spec_unread s = drop (sp_consumed s) (sp_history s)"

definition spec_consume :: "nat \<Rightarrow> stream_spec \<Rightarrow> stream_spec" where
  "spec_consume n s = s\<lparr>sp_consumed := min (sp_consumed s + n) (length (sp_history s))\<rparr>"

fun spec_exec :: "bs_op \<Rightarrow> stream_spec \<Rightarrow> bs_obs \<times> stream_spec" where
  "spec_exec (Write d) s =
     (let n = if sp_ended s then 0 else min (length d) (sp_capacity s - length (spec_unread s))
      in (Accepted n, s\<lparr>sp_history := sp_history s @ take n d\<rparr>))"
| "spec_exec (Peek n) s = (Bytes (take n (spec_unread s)), s)"
| "spec_exec (Pop n) s = (Done, spec_consume n s)"
| "spec_exec (Read n) s = (Bytes (take n (spec_unread s)), spec_consume n s)"
| "spec_exec End_Input s = (Done, s\<lparr>sp_ended := True\<rparr>)"
| "spec_exec Set_Error s = (Done, s\<lparr>sp_failed := True\<rparr>)"

definition spec_view :: "stream_spec \<Rightarrow> stream_view" where
  "spec_view s =
     \<lparr>vw_input_ended = sp_ended s, vw_error = sp_failed s,
      vw_buffer_size = length (sp_history s) - sp_consumed s,
      vw_buffer_empty = (sp_consumed s = length (sp_history s)),
      vw_eof = (sp_ended s \<and> sp_consumed s = length (sp_history s)),
      vw_bytes_written = length (sp_history s), vw_bytes_read = sp_consumed s,
      vw_remaining_capacity = sp_capacity s - (length (sp_history s) - sp_consumed s)\<rparr>"

definition spec_observe :: "bs_op \<Rightarrow> stream_spec \<Rightarrow> (bs_obs \<times> stream_view) \<times> stream_spec" where
  "spec_observe op s = ((fst (spec_exec op s), spec_view (snd (spec_exec op s))), snd (spec_exec op s))"

text \<open>The clients the class comment speaks of: none writes bytes after it has ended the input.\<close>

fun ends_once_written :: "bs_op \<Rightarrow> stream_spec \<Rightarrow> bool" where
  "ends_once_written (Write d) s = (sp_ended s \<longrightarrow> d = [])"
| "ends_once_written _ s = True"

definition well_behaved_writer :: "nat \<Rightarrow> bs_op list \<Rightarrow> bool" where
  "well_behaved_writer c ops =
     all_steps ends_once_written (\<lambda>op s. snd (spec_observe op s)) ops (spec_new c)"

definition spec_rel :: "byte_stream \<Rightarrow> stream_spec \<Rightarrow> bool" where
  "spec_rel b s \<longleftrightarrow> bs_capacity b = sp_capacity s \<and> sp_consumed s \<le> length (sp_history s) \<and>
     bs_content b = drop (sp_consumed s) (sp_history s) \<and>
     bs_written b = length (sp_history s) \<and> bs_readden b = sp_consumed s \<and>
     bs_input_end b = sp_ended s \<and> bs_err b = sp_failed s"

lemma spec_rel_new: "spec_rel (bs_new c) (spec_new c)"
  by (simp add: spec_rel_def spec_new_def)

lemma spec_rel_view: "spec_rel b s \<Longrightarrow> bs_view b = spec_view s"
  by (auto simp: spec_rel_def bs_view_def spec_view_def stream_simps)

lemma bs_exec_simps:
  "bs_exec (Write d) b = (Accepted (fst (bs_write d b)), snd (bs_write d b))"
  "bs_exec (Pop n) b = (Done, projr (bs_pop_output n b))"
  "bs_exec (Read n) b = (Bytes (fst (projr (bs_read n b))), snd (projr (bs_read n b)))"
  using bs_pop_output_total [of n b] bs_read_total [of n b]
  by (auto split: prod.splits sum.splits)

lemma spec_rel_result:
  "spec_rel b s \<Longrightarrow> ends_once_written op s \<Longrightarrow> fst (bs_exec op b) = fst (spec_exec op s)"
  by (cases op) (auto simp: bs_exec_simps stream_simps spec_rel_def spec_unread_def Let_def
      simp del: bs_exec.simps(1,3,4))

lemma spec_rel_next:
  "spec_rel b s \<Longrightarrow> ends_once_written op s \<Longrightarrow> spec_rel (snd (bs_exec op b)) (snd (spec_exec op s))"
  by (cases op) (auto simp: bs_exec_simps stream_simps spec_rel_def spec_unread_def
      spec_consume_def Let_def min_def add.commute simp del: bs_exec.simps(1,3,4))

interpretation bs_refines: simulation bs_observe spec_observe ends_once_written spec_rel
  by unfold_locales
    (auto simp: bs_observe_def spec_observe_def split_beta Let_def spec_rel_result spec_rel_next
      intro!: spec_rel_view)

section \<open>Properties\<close>

text \<open>C10: Whatever sequence of writes, peeks, pops, reads, end-of-input and error
  signals a client performs on a new \<open>ByteStream\<close>, every call returns exactly what the history
  specification returns (the write counts, and the bytes of the accepted history in order, each
  delivered once), and after every call all eight accessors of the class say what the history
  says: \<open>input_ended\<close>, \<open>error\<close>, \<open>buffer_size\<close>, \<open>buffer_empty\<close>, \<open>eof\<close>, \<open>bytes_written\<close>,
  \<open>bytes_read\<close> and \<open>remaining_capacity\<close>. The client must not write bytes after it has ended the
  input: the class comment rules that out, and the code, which does not check it, departs from the
  specification there (\<open>write_after_end_accepted\<close>).\<close>

theorem byte_stream_refines_history:
  assumes "well_behaved_writer c ops"
  shows "trace bs_observe ops (bs_new c) = trace spec_observe ops (spec_new c)"
  using assms by (auto simp: well_behaved_writer_def intro!: bs_refines.trace_refines spec_rel_new)

theorem byte_stream_refines_history_witness:
  "trace bs_observe [Write [1, 2, 3, 4], Read 2, Write [5], End_Input, Pop 9] (bs_new 3) =
     trace spec_observe [Write [1, 2, 3, 4], Read 2, Write [5], End_Input, Pop 9] (spec_new 3) \<and>
   map (vw_eof \<circ> snd) (trace bs_observe [Write [1, 2, 3, 4], Read 2, Write [5], End_Input, Pop 9] (bs_new 3)) =
     [False, False, False, False, True]"
proof -
  have "trace bs_observe [Write [1, 2, 3, 4], Read 2, Write [5], End_Input, Pop 9] (bs_new 3) =
     trace spec_observe [Write [1, 2, 3, 4], Read 2, Write [5], End_Input, Pop 9] (spec_new 3)"
    by (rule byte_stream_refines_history)
      (simp add: well_behaved_writer_def spec_new_def spec_observe_def spec_unread_def spec_consume_def)
  then show ?thesis
    by (simp add: spec_new_def spec_observe_def spec_unread_def spec_consume_def spec_view_def)
qed

text \<open>A write that follows \<open>end_input\<close> does what it would have done before: \<open>write\<close> does not look
  at the flag.\<close>

lemma bs_write_ignores_end:
  "bs_write d (bs_end_input b) = (fst (bs_write d b), bs_end_input (snd (bs_write d b)))"
  by (simp add: bs_write_def bs_end_input_def Let_def)

text \<open>After any sequence of operations the stream holds at most its capacity,
  \<open>bytes_written\<close> is \<open>bytes_read\<close> plus the bytes still buffered, and \<open>remaining_capacity\<close> plus
  \<open>buffer_size\<close> is the capacity, so the unsigned subtraction in the code cannot wrap.\<close>

theorem byte_stream_accounting:
  "let b = fold bs_step ops (bs_new c) in
     bs_buffer_size b \<le> c \<and> bs_bytes_written b = bs_bytes_read b + bs_buffer_size b \<and>
     bs_remaining_capacity b + bs_buffer_size b = c"
proof -
  have "bs_inv (fold bs_step ops (bs_new c)) \<and> bs_capacity (fold bs_step ops (bs_new c)) = c"
    by (rule bs_machine.run_inv) simp_all
  then show ?thesis by (auto simp: Let_def stream_simps bs_inv_def)
qed

text \<open>\<open>pop_output\<close> and \<open>read\<close> never throw, whatever length they are asked
  for and whatever happened before: the \<open>out_of_range\<close> of \<open>BufferList::remove_prefix\<close> is out of
  reach, because the length is cut to the buffered size first.\<close>

theorem byte_stream_never_throws: "Threw e \<notin> set (trace bs_exec ops b)"
proof (induction ops arbitrary: b)
  case (Cons op ops)
  have "fst (bs_exec op b) \<noteq> Threw e"
    by (cases op) (simp_all add: bs_exec_simps del: bs_exec.simps(1,3,4))
  with Cons show ?case by auto
qed simp

text \<open>\<open>BufferList::remove_prefix\<close> drops exactly the first \<open>n\<close> bytes of the
  concatenation across buffer boundaries, and throws \<open>out_of_range\<close> exactly when the list holds
  fewer than \<open>n\<close> bytes.\<close>

theorem bl_remove_prefix_spec:
  "map_sum id bl_concatenate (bl_remove_prefix n bufs) =
     (if n \<le> length (bl_concatenate bufs) then Inr (drop n (bl_concatenate bufs))
      else Inl (Out_Of_Range ''BufferList::remove_prefix''))"
  using bl_remove_prefix_ok [of n bufs] bl_remove_prefix_throws [of bufs n] by auto

text \<open>The header says that no bytes can be written after the writer ends the
  input; the code does not check it: after \<open>end_input\<close> a write is accepted like any other, and a
  stream that had reached \<open>eof\<close> is no longer at \<open>eof\<close>.\<close>

theorem write_after_end_accepted:
  assumes "bs_inv b" and "d \<noteq> []" and "length (bs_content b) < bs_capacity b"
  shows "0 < fst (bs_write d (bs_end_input b)) \<and> \<not> bs_eof (snd (bs_write d (bs_end_input b)))"
  using assms by (auto simp: stream_simps)

theorem write_after_end_accepted_witness:
  "0 < fst (bs_write [7] (bs_end_input (bs_new 3))) \<and>
   \<not> bs_eof (snd (bs_write [7] (bs_end_input (bs_new 3))))"
  by (rule write_after_end_accepted) simp_all

end
