(* ===== verification/Reassembler.thy ===== *)
theory Reassembler
  imports Byte_Stream
begin

text \<open>
  \<open>libsponge/stream_reassembler.{hh,cc}\<close>: excerpts of a byte stream, out of order and
  overlapping, are kept as blocks in a \<open>std::set\<close> and written to the output stream when they
  become contiguous. The set is modelled by the list of its elements in the order of
  \<open>operator<\<close>, an iterator by its position in that list. The indices are \<open>size_t\<close> and are
  modelled as \<open>nat\<close>; their sums stay below \<open>2^64\<close> while the stream does. The member
  \<open>_buffer\<close> is resized once and never read or written again, so the model has no field for it.
\<close>

section \<open>Blocks and the block set\<close>

datatype block_node =
  Block_Node (blk_begin: nat) (blk_length: nat) (blk_data: "byte list")

text \<open>\<open>operator<\<close>, and the library's order on the type with it.\<close>

definition block_less :: "block_node \<Rightarrow> block_node \<Rightarrow> bool" where
  "block_less a b \<longleftrightarrow> blk_begin a < blk_begin b"

instantiation block_node :: preorder
begin

definition less_eq_block_node :: "block_node \<Rightarrow> block_node \<Rightarrow> bool" where
  "less_eq_block_node a b \<longleftrightarrow> blk_begin a \<le> blk_begin b"

definition less_block_node :: "block_node \<Rightarrow> block_node \<Rightarrow> bool" where
  "less_block_node a b \<longleftrightarrow> block_less a b"

instance
  by standard (auto simp: less_eq_block_node_def less_block_node_def block_less_def)

end

lemma block_less_iff: "a < b \<longleftrightarrow> blk_begin a < blk_begin b" for a b :: block_node
  by (simp add: less_block_node_def block_less_def)

definition set_lower_bound :: "block_node \<Rightarrow> block_node list \<Rightarrow> nat" where
  "set_lower_bound elm blocks = length (takeWhile (\<lambda>b. b < elm) blocks)"

definition set_erase :: "nat \<Rightarrow> block_node list \<Rightarrow> block_node list" where
  "set_erase iter blocks = take iter blocks @ drop (Suc iter) blocks"

definition set_insert :: "block_node \<Rightarrow> block_node list \<Rightarrow> block_node list" where
  "set_insert elm blocks =
     (let iter = set_lower_bound elm blocks in
      if iter < length blocks \<and> \<not> elm < blocks ! iter then blocks
      else take iter blocks @ elm # drop iter blocks)"

text \<open>
  \<open>merge_block\<close> returns the merged length, or \<open>-1\<close> when the blocks neither overlap nor touch, and
  the new value of its first argument. The \<open>substr\<close> of the code starts inside \<open>y.data\<close>, since a
  block's \<open>length\<close> is the length of its \<open>data\<close>.
\<close>

definition merge_block :: "block_node \<Rightarrow> block_node \<Rightarrow> int \<times> block_node" where
  "merge_block elm1 elm2 =
     (let (x, y) = (if blk_begin elm1 > blk_begin elm2 then (elm2, elm1) else (elm1, elm2)) in
      if blk_begin x + blk_length x < blk_begin y then (-1, elm1)
      else if blk_begin x + blk_length x \<ge> blk_begin y + blk_length y then (int (blk_length y), x)
      else let d = blk_data x @ drop (blk_begin x + blk_length x - blk_begin y) (blk_data y) in
        (int (blk_begin x + blk_length x - blk_begin y), Block_Node (blk_begin x) (length d) d))"

section \<open>The reassembler\<close>

record reassembler =
  ra_blocks :: "block_node list"
  ra_unassembled_byte :: nat
  ra_head_index :: nat
  ra_eof_flag :: bool
  ra_output :: byte_stream
  ra_capacity :: nat

definition ra_new :: "nat \<Rightarrow> reassembler" where
  "ra_new capacity =
     \<lparr>ra_blocks = [], ra_unassembled_byte = 0, ra_head_index = 0, ra_eof_flag = False,
      ra_output = bs_new capacity, ra_capacity = capacity\<rparr>"

definition ra_unassembled_bytes :: "reassembler \<Rightarrow> nat" where
  "ra_unassembled_bytes r = ra_unassembled_byte r"

definition ra_empty :: "reassembler \<Rightarrow> bool" where
  "ra_empty r = (ra_unassembled_byte r = 0)"

definition ra_clip :: "byte list \<Rightarrow> nat \<Rightarrow> nat \<Rightarrow> block_node" where
  "ra_clip data index head =
     (if index < head then
        let offset = head - index; d = drop offset data in Block_Node (index + offset) (length d) d
      else Block_Node index (length data) data)"

text \<open>The loop that merges the following blocks, and the one that merges the preceding blocks.\<close>

function merge_next :: "block_node \<Rightarrow> block_node list \<Rightarrow> nat \<Rightarrow> block_node \<times> block_node list \<times> nat" where
  "merge_next elm blocks un =
     (let iter = set_lower_bound elm blocks in
      if iter < length blocks then
        (let (merged_bytes, elm') = merge_block elm (blocks ! iter) in
         if merged_bytes \<ge> 0 then merge_next elm' (set_erase iter blocks) (un - nat merged_bytes)
         else (elm, blocks, un))
      else (elm, blocks, un))"
  by pat_completeness auto
termination
  by (relation "measure (\<lambda>(elm, blocks, un). length blocks)") (auto simp: set_erase_def)

function merge_prev :: "block_node \<Rightarrow> block_node list \<Rightarrow> nat \<Rightarrow> block_node \<times> block_node list \<times> nat" where
  "merge_prev elm blocks un =
     (let iter = set_lower_bound elm blocks in
      if iter = 0 then (elm, blocks, un)
      else
        (let (merged_bytes, elm') = merge_block elm (blocks ! (iter - 1)) in
         if merged_bytes \<ge> 0 then merge_prev elm' (set_erase (iter - 1) blocks) (un - nat merged_bytes)
         else (elm, blocks, un)))"
  by pat_completeness auto
termination
proof (relation "measure (\<lambda>(elm, blocks, un). length blocks)", goal_cases)
  case (2 elm blocks un iter m elm')
  have "iter \<le> length blocks" using 2 by (simp add: set_lower_bound_def length_takeWhile_le)
  then show ?case using 2 by (auto simp: set_erase_def)
qed simp

declare merge_next.simps [simp del] merge_prev.simps [simp del]

definition ra_store :: "block_node \<Rightarrow> reassembler \<Rightarrow> reassembler" where
  "ra_store elm r =
     (let un = ra_unassembled_byte r + blk_length elm;
          (elm, blocks, un) = merge_next elm (ra_blocks r) un;
          (elm, blocks, un) = merge_prev elm blocks un
      in r\<lparr>ra_blocks := set_insert elm blocks, ra_unassembled_byte := un\<rparr>)"

definition ra_flush :: "reassembler \<Rightarrow> reassembler" where
  "ra_flush r =
     (if ra_blocks r \<noteq> [] \<and> blk_begin (hd (ra_blocks r)) = ra_head_index r then
        let head_block = hd (ra_blocks r);
            (write_bytes, out) = bs_write (blk_data head_block) (ra_output r)
        in r\<lparr>ra_output := out,
             ra_head_index := ra_head_index r + write_bytes,
             ra_unassembled_byte := ra_unassembled_byte r - write_bytes,
             ra_blocks := tl (ra_blocks r)\<rparr>
      else r)"

definition ra_judge_eof :: "bool \<Rightarrow> reassembler \<Rightarrow> reassembler" where
  "ra_judge_eof eof r =
     (let r = (if eof then r\<lparr>ra_eof_flag := True\<rparr> else r) in
      if ra_eof_flag r \<and> ra_empty r then r\<lparr>ra_output := bs_end_input (ra_output r)\<rparr> else r)"

definition push_substring :: "byte list \<Rightarrow> nat \<Rightarrow> bool \<Rightarrow> reassembler \<Rightarrow> reassembler" where
  "push_substring data index eof r =
     (if index \<ge> ra_head_index r + ra_capacity r then r
      else
        let r' = (if index + length data \<le> ra_head_index r then r
                  else ra_flush (ra_store (ra_clip data index (ra_head_index r)) r))
        in ra_judge_eof eof r')"

section \<open>Laws of segments\<close>

text \<open>
  What is known about a byte string placed at a stream index, stable under cutting and joining.
  Everything below is proved once for any such law and then used for two: the trivial one (all
  inputs, even contradictory ones) and "these bytes are the bytes of the stream \<open>f\<close>".
\<close>

locale segment_law =
  fixes P :: "nat \<Rightarrow> byte list \<Rightarrow> bool"
  assumes seg_nil: "P i []"
    and seg_drop: "P i d \<Longrightarrow> k \<le> length d \<Longrightarrow> P (i + k) (drop k d)"
    and seg_take: "P i d \<Longrightarrow> P i (take k d)"
    and seg_join: "P i d \<Longrightarrow> P (i + length d) e \<Longrightarrow> P i (d @ e)"

definition any_bytes :: "nat \<Rightarrow> byte list \<Rightarrow> bool" where
  "any_bytes i d = True"

definition bytes_of :: "(nat \<Rightarrow> byte) \<Rightarrow> nat \<Rightarrow> byte list \<Rightarrow> bool" where
  "bytes_of f i d \<longleftrightarrow> d = excerpt f i (length d)"

lemma bytes_of_excerpt [simp]: "bytes_of f i (excerpt f i n)"
  by (simp add: bytes_of_def)

interpretation any_law: segment_law any_bytes
  by unfold_locales (simp_all add: any_bytes_def)

lemma bytes_of_nth: "bytes_of f i d \<longleftrightarrow> (\<forall>k < length d. d ! k = f (i + k))"
  by (auto simp: bytes_of_def list_eq_iff_nth_eq)

lemma bytes_of_join:
  assumes "bytes_of f i d" and "bytes_of f (i + length d) e"
  shows "bytes_of f i (d @ e)"
  unfolding bytes_of_nth
proof (intro allI impI)
  fix k
  assume k: "k < length (d @ e)"
  show "(d @ e) ! k = f (i + k)"
  proof (cases "k < length d")
    case True
    then show ?thesis using assms(1) by (simp add: bytes_of_nth nth_append)
  next
    case False
    then obtain j where "k = length d + j" "j < length e"
      using k by (auto simp: not_less le_iff_add)
    then show ?thesis using assms(2) by (simp add: bytes_of_nth add.assoc)
  qed
qed

lemma bytes_of_cut:
  "bytes_of f i []"
  "bytes_of f i d \<Longrightarrow> k \<le> length d \<Longrightarrow> bytes_of f (i + k) (drop k d)"
  "bytes_of f i d \<Longrightarrow> bytes_of f i (take k d)"
  by (simp_all add: bytes_of_nth add.assoc)

interpretation stream_law: segment_law "bytes_of f"
  by unfold_locales (fact bytes_of_cut bytes_of_join)+

abbreviation blk_end :: "block_node \<Rightarrow> nat" where
  "blk_end b \<equiv> blk_begin b + blk_length b"

definition blk_cover :: "block_node \<Rightarrow> nat set" where
  "blk_cover b = {blk_begin b ..< blk_end b}"

definition blocks_cover :: "block_node list \<Rightarrow> nat set" where
  "blocks_cover bs = (\<Union>b\<in>set bs. blk_cover b)"

definition blocks_total :: "block_node list \<Rightarrow> nat" where
  "blocks_total bs = sum_list (map blk_length bs)"

definition blk_ok :: "(nat \<Rightarrow> byte list \<Rightarrow> bool) \<Rightarrow> block_node \<Rightarrow> bool" where
  "blk_ok P b \<longleftrightarrow> blk_length b = length (blk_data b) \<and> P (blk_begin b) (blk_data b)"

abbreviation gap_sorted :: "block_node list \<Rightarrow> bool" where
  "gap_sorted \<equiv> sorted_wrt (\<lambda>a b. blk_end a < blk_begin b)"

definition blocks_ok :: "(nat \<Rightarrow> byte list \<Rightarrow> bool) \<Rightarrow> block_node list \<Rightarrow> bool" where
  "blocks_ok P bs \<longleftrightarrow> (\<forall>b\<in>set bs. blk_ok P b) \<and> gap_sorted bs"

lemma blocks_cover_simps [simp]:
  "blocks_cover [] = {}"
  "blocks_cover (b # bs) = blk_cover b \<union> blocks_cover bs"
  "blocks_cover (xs @ ys) = blocks_cover xs \<union> blocks_cover ys"
  by (auto simp: blocks_cover_def)

lemma blocks_total_simps [simp]:
  "blocks_total [] = 0"
  "blocks_total (b # bs) = blk_length b + blocks_total bs"
  "blocks_total (xs @ ys) = blocks_total xs + blocks_total ys"
  by (auto simp: blocks_total_def)

lemma finite_blocks_cover [simp]: "finite (blocks_cover bs)"
  by (simp add: blocks_cover_def blk_cover_def)

lemma card_blocks_cover: "gap_sorted bs \<Longrightarrow> card (blocks_cover bs) = blocks_total bs"
proof (induction bs)
  case (Cons b bs)
  have "blk_cover b \<inter> blocks_cover bs = {}"
    using Cons.prems by (fastforce simp: blk_cover_def blocks_cover_def)
  moreover have "card (blk_cover b) = blk_length b" "finite (blk_cover b)"
    by (simp_all add: blk_cover_def)
  ultimately show ?case
    using Cons by (simp add: card_Un_disjoint)
qed simp

lemma lower_bound_split:
  assumes "gap_sorted blocks"
  obtains pre post where "blocks = pre @ post" and "set_lower_bound elm blocks = length pre"
    and "\<forall>b\<in>set pre. blk_begin b < blk_begin elm" and "\<forall>b\<in>set post. blk_begin elm \<le> blk_begin b"
proof
  let ?p = "\<lambda>b. b < elm"
  show "blocks = takeWhile ?p blocks @ dropWhile ?p blocks" by simp
  show "set_lower_bound elm blocks = length (takeWhile ?p blocks)"
    by (simp add: set_lower_bound_def)
  show "\<forall>b\<in>set (takeWhile ?p blocks). blk_begin b < blk_begin elm"
    by (auto simp: block_less_iff dest: set_takeWhileD)
  show "\<forall>b\<in>set (dropWhile ?p blocks). blk_begin elm \<le> blk_begin b"
  proof (cases "dropWhile ?p blocks")
    case Nil
    show ?thesis unfolding Nil by simp
  next
    case (Cons c cs)
    then have "\<not> c < elm" using hd_dropWhile [of ?p blocks] by simp
    moreover have "gap_sorted (takeWhile ?p blocks @ c # cs)"
      using assms Cons by (metis takeWhile_dropWhile_id)
    ultimately show ?thesis
      using Cons by (fastforce simp: block_less_iff sorted_wrt_append)
  qed
qed

lemma set_erase_at [simp]: "set_erase (length pre) (pre @ b # post) = pre @ post"
  by (simp add: set_erase_def)

lemma merge_next_end:
  "set_lower_bound elm blocks = length blocks \<Longrightarrow> merge_next elm blocks un = (elm, blocks, un)"
  by (subst merge_next.simps) simp

lemma merge_next_step:
  assumes "set_lower_bound elm (pre @ b # post) = length pre"
  shows "merge_next elm (pre @ b # post) un =
    (if 0 \<le> fst (merge_block elm b)
     then merge_next (snd (merge_block elm b)) (pre @ post) (un - nat (fst (merge_block elm b)))
     else (elm, pre @ b # post, un))"
  using assms by (subst merge_next.simps) (simp add: Let_def split: prod.splits)

lemma merge_prev_end:
  "set_lower_bound elm blocks = 0 \<Longrightarrow> merge_prev elm blocks un = (elm, blocks, un)"
  by (subst merge_prev.simps) simp

lemma merge_prev_step:
  assumes "set_lower_bound elm (pre @ b # post) = Suc (length pre)"
  shows "merge_prev elm (pre @ b # post) un =
    (if 0 \<le> fst (merge_block elm b)
     then merge_prev (snd (merge_block elm b)) (pre @ post) (un - nat (fst (merge_block elm b)))
     else (elm, pre @ b # post, un))"
  using assms by (subst merge_prev.simps) (simp add: Let_def split: prod.splits)

lemma merge_block_apart:
  "fst (merge_block a b) < 0 \<longleftrightarrow> blk_end a < blk_begin b \<or> blk_end b < blk_begin a"
  by (auto simp: merge_block_def Let_def split: prod.splits)

lemma merge_block_fail: "fst (merge_block a b) < 0 \<Longrightarrow> snd (merge_block a b) = a"
  by (auto simp: merge_block_def Let_def split: prod.splits if_splits)

text \<open>A loop state: the element being merged, the blocks left, and the running byte count.\<close>

definition loop_inv ::
  "(nat \<Rightarrow> byte list \<Rightarrow> bool) \<Rightarrow> nat \<Rightarrow> nat set \<Rightarrow> nat \<Rightarrow> block_node \<Rightarrow> block_node list \<Rightarrow> nat \<Rightarrow> bool"
where
  "loop_inv P extra C h elm blocks un \<longleftrightarrow>
     blocks_ok P blocks \<and> blk_ok P elm \<and> un = extra + blocks_total blocks + blk_length elm \<and>
     blocks_cover blocks \<union> blk_cover elm = C \<and>
     (\<forall>b\<in>set blocks. h < blk_begin b) \<and> h \<le> blk_begin elm"

definition apart_right :: "block_node \<Rightarrow> block_node list \<Rightarrow> bool" where
  "apart_right elm bs \<longleftrightarrow> (\<forall>b\<in>set bs. blk_begin elm \<le> blk_begin b \<longrightarrow> blk_end elm < blk_begin b)"

definition apart_left :: "block_node \<Rightarrow> block_node list \<Rightarrow> bool" where
  "apart_left elm bs \<longleftrightarrow> (\<forall>b\<in>set bs. blk_begin b < blk_begin elm \<longrightarrow> blk_end b < blk_begin elm)"

context segment_law
begin

lemma merge_block_ok:
  assumes "blk_ok P a" and "blk_ok P b" and "0 \<le> fst (merge_block a b)"
  defines "c \<equiv> snd (merge_block a b)"
  shows "blk_ok P c" and "blk_begin c = min (blk_begin a) (blk_begin b)"
    and "blk_end c = max (blk_end a) (blk_end b)"
    and "blk_length c + nat (fst (merge_block a b)) = blk_length a + blk_length b"
proof -
  have join: "blk_ok P (Block_Node (blk_begin x) (length d) d) \<and>
      length d + (blk_end x - blk_begin y) = blk_length x + blk_length y"
    if "blk_ok P x" "blk_ok P y" "blk_begin x \<le> blk_begin y" "blk_begin y \<le> blk_end x"
      "blk_end x < blk_end y" "d = blk_data x @ drop (blk_end x - blk_begin y) (blk_data y)" for x y d
  proof -
    let ?k = "blk_end x - blk_begin y"
    have "P (blk_begin y + ?k) (drop ?k (blk_data y))"
      using that by (intro seg_drop) (auto simp: blk_ok_def)
    moreover have "blk_begin y + ?k = blk_begin x + length (blk_data x)"
      using that by (auto simp: blk_ok_def)
    ultimately have "P (blk_begin x) d"
      using that by (auto simp: blk_ok_def intro: seg_join)
    then show ?thesis using that by (auto simp: blk_ok_def)
  qed
  have res: "blk_ok P c \<and> blk_begin c = min (blk_begin a) (blk_begin b) \<and>
    blk_end c = max (blk_end a) (blk_end b) \<and>
    blk_length c + nat (fst (merge_block a b)) = blk_length a + blk_length b"
  proof (cases "blk_begin a > blk_begin b")
    case True
    then show ?thesis
      using assms(1-3) join [OF assms(2,1) _ _ _ refl]
      by (auto simp: c_def merge_block_def Let_def nat_diff_distrib split: if_splits)
  next
    case False
    then show ?thesis
      using assms(1-3) join [OF assms(1,2) _ _ _ refl]
      by (auto simp: c_def merge_block_def Let_def nat_diff_distrib split: if_splits)
  qed
  then show "blk_ok P c" and "blk_begin c = min (blk_begin a) (blk_begin b)"
    and "blk_end c = max (blk_end a) (blk_end b)"
    and "blk_length c + nat (fst (merge_block a b)) = blk_length a + blk_length b"
    by blast+
qed

lemma merge_block_cover:
  assumes "blk_ok P a" and "blk_ok P b" and "0 \<le> fst (merge_block a b)"
  shows "blk_cover (snd (merge_block a b)) = blk_cover a \<union> blk_cover b"
proof -
  have "blk_begin b \<le> blk_end a \<and> blk_begin a \<le> blk_end b"
    using assms(3) merge_block_apart [of a b] by linarith
  then show ?thesis
    using merge_block_ok(2,3) [OF assms] by (auto simp: blk_cover_def min_def max_def split: if_splits)
qed

lemma loop_inv_merge:
  assumes inv: "loop_inv P extra C h elm (pre @ b # post) un" and m: "0 \<le> fst (merge_block elm b)"
  shows "loop_inv P extra C h (snd (merge_block elm b)) (pre @ post)
           (un - nat (fst (merge_block elm b)))"
proof -
  have ok: "blk_ok P elm" "blk_ok P b"
    using inv by (auto simp: loop_inv_def blocks_ok_def)
  note facts = merge_block_ok [OF ok m] merge_block_cover [OF ok m]
  have "blocks_ok P (pre @ post)"
    using inv by (auto simp: loop_inv_def blocks_ok_def sorted_wrt_append)
  moreover have "un - nat (fst (merge_block elm b)) =
      extra + blocks_total (pre @ post) + blk_length (snd (merge_block elm b))"
    using inv facts(4) by (simp add: loop_inv_def)
  ultimately show ?thesis
    using inv facts(1,2,5) by (auto simp: loop_inv_def)
qed

lemma merge_next_inv:
  assumes "loop_inv P extra C h elm blocks un"
    and "merge_next elm blocks un = (elm', blocks', un')"
  shows "loop_inv P extra C h elm' blocks' un' \<and> apart_right elm' blocks'"
  using assms
proof (induction elm blocks un rule: merge_next.induct)
  case (1 elm blocks un)
  have gs: "gap_sorted blocks" using "1.prems"(1) by (simp add: loop_inv_def blocks_ok_def)
  obtain pre post where sp: "blocks = pre @ post" "set_lower_bound elm blocks = length pre"
    "\<forall>b\<in>set pre. blk_begin b < blk_begin elm" "\<forall>b\<in>set post. blk_begin elm \<le> blk_begin b"
    using lower_bound_split [OF gs, of elm] by blast
  show ?case
  proof (cases post)
    case Nil
    then have "(elm', blocks', un') = (elm, blocks, un)"
      using "1.prems"(2) sp by (simp add: merge_next_end)
    then show ?thesis
      using "1.prems"(1) sp Nil by (auto simp: apart_right_def)
  next
    case (Cons b post')
    show ?thesis
    proof (cases "0 \<le> fst (merge_block elm b)")
      case True
      let ?c = "snd (merge_block elm b)"
      have step: "merge_next elm blocks un =
          merge_next ?c (pre @ post') (un - nat (fst (merge_block elm b)))"
        using sp Cons True by (simp add: merge_next_step)
      have "loop_inv P extra C h ?c (pre @ post') (un - nat (fst (merge_block elm b)))"
        using loop_inv_merge "1.prems"(1) sp Cons True by blast
      then show ?thesis
        using "1.IH" [of "length pre" "merge_block elm b" "fst (merge_block elm b)" ?c]
          "1.prems"(2) sp Cons True step by simp
    next
      case False
      then have "(elm', blocks', un') = (elm, blocks, un)"
        using "1.prems"(2) sp Cons by (simp add: merge_next_step)
      moreover have "blk_end elm < blk_begin b"
        using False merge_block_apart [of elm b] sp Cons by auto
      moreover have "\<forall>c\<in>set post'. blk_begin b \<le> blk_begin c"
        using gs sp Cons by (fastforce simp: sorted_wrt_append)
      ultimately show ?thesis
        using "1.prems"(1) sp Cons by (fastforce simp: apart_right_def)
    qed
  qed
qed

lemma merge_prev_inv:
  assumes "loop_inv P extra C h elm blocks un" and "apart_right elm blocks"
    and "merge_prev elm blocks un = (elm', blocks', un')"
  shows "loop_inv P extra C h elm' blocks' un' \<and> apart_right elm' blocks' \<and> apart_left elm' blocks'"
  using assms
proof (induction elm blocks un rule: merge_prev.induct)
  case (1 elm blocks un)
  have gs: "gap_sorted blocks" using "1.prems"(1) by (simp add: loop_inv_def blocks_ok_def)
  obtain pre post where sp: "blocks = pre @ post" "set_lower_bound elm blocks = length pre"
    "\<forall>b\<in>set pre. blk_begin b < blk_begin elm" "\<forall>b\<in>set post. blk_begin elm \<le> blk_begin b"
    using lower_bound_split [OF gs, of elm] by blast
  show ?case
  proof (cases pre rule: rev_cases)
    case Nil
    then have "(elm', blocks', un') = (elm, blocks, un)"
      using "1.prems"(3) sp by (simp add: merge_prev_end)
    then show ?thesis
      using "1.prems"(1,2) sp Nil by (auto simp: apart_left_def)
  next
    case (snoc pre' b)
    have bs: "blocks = pre' @ b # post" and lp: "length pre = Suc (length pre')"
      using sp snoc by simp_all
    have nb: "blk_begin b < blk_begin elm" using sp snoc by simp
    have srt: "\<forall>c\<in>set pre'. blk_end c < blk_begin b" "\<forall>c\<in>set post. blk_end b < blk_begin c"
      using gs bs by (auto simp: sorted_wrt_append)
    show ?thesis
    proof (cases "0 \<le> fst (merge_block elm b)")
      case True
      let ?c = "snd (merge_block elm b)"
      have step: "merge_prev elm blocks un =
          merge_prev ?c (pre' @ post) (un - nat (fst (merge_block elm b)))"
        using sp(2) lp bs True by (simp add: merge_prev_step)
      have inv: "loop_inv P extra C h ?c (pre' @ post) (un - nat (fst (merge_block elm b)))"
        using loop_inv_merge "1.prems"(1) bs True by blast
      have "blk_ok P elm" "blk_ok P b"
        using "1.prems"(1) bs by (auto simp: loop_inv_def blocks_ok_def)
      note facts = merge_block_ok(2,3) [OF this True]
      have "apart_right ?c (pre' @ post)"
        using facts nb srt "1.prems"(2) sp(4) bs by (fastforce simp: apart_right_def)
      then show ?thesis
        using "1.IH" [of "length pre" "merge_block elm b" "fst (merge_block elm b)" ?c]
          "1.prems"(3) sp(2) lp bs True step inv by simp
    next
      case False
      then have "(elm', blocks', un') = (elm, blocks, un)"
        using "1.prems"(3) sp(2) lp bs by (simp add: merge_prev_step)
      moreover have "blk_end b < blk_begin elm"
        using False merge_block_apart [of elm b] nb by auto
      ultimately show ?thesis
        using "1.prems"(1,2) sp(4) bs srt nb by (fastforce simp: apart_left_def)
    qed
  qed
qed

end

section \<open>Invariant of the reassembler\<close>

text \<open>
  \<open>ra_lost\<close> is the part of \<open>_unassembled_byte\<close> that no stored block accounts for; it is zero as
  long as the output stream always had room for the block that became contiguous.
\<close>

definition ra_lost :: "reassembler \<Rightarrow> nat" where
  "ra_lost r = ra_unassembled_byte r - blocks_total (ra_blocks r)"

definition ra_inv :: "(nat \<Rightarrow> byte list \<Rightarrow> bool) \<Rightarrow> reassembler \<Rightarrow> bool" where
  "ra_inv P r \<longleftrightarrow>
     bs_inv (ra_output r) \<and> bs_capacity (ra_output r) = ra_capacity r \<and>
     ra_head_index r = bs_written (ra_output r) \<and>
     P (bs_readden (ra_output r)) (bs_content (ra_output r)) \<and>
     blocks_ok P (ra_blocks r) \<and> (\<forall>b\<in>set (ra_blocks r). ra_head_index r < blk_begin b) \<and>
     blocks_total (ra_blocks r) \<le> ra_unassembled_byte r"

definition ra_covered :: "reassembler \<Rightarrow> nat set" where
  "ra_covered r = {..<ra_head_index r} \<union> blocks_cover (ra_blocks r)"

lemma set_insert_apart:
  assumes "gap_sorted blocks" and "apart_left elm blocks" and "apart_right elm blocks"
  shows "gap_sorted (set_insert elm blocks) \<and> set (set_insert elm blocks) = insert elm (set blocks) \<and>
    blocks_total (set_insert elm blocks) = blk_length elm + blocks_total blocks"
proof -
  obtain pre post where sp: "blocks = pre @ post" "set_lower_bound elm blocks = length pre"
    "\<forall>b\<in>set pre. blk_begin b < blk_begin elm" "\<forall>b\<in>set post. blk_begin elm \<le> blk_begin b"
    using lower_bound_split [OF assms(1), of elm] by blast
  have r: "\<forall>b\<in>set post. blk_end elm < blk_begin b" and l: "\<forall>b\<in>set pre. blk_end b < blk_begin elm"
    using sp assms(2,3) by (auto simp: apart_left_def apart_right_def)
  have "elm < hd post" if "post \<noteq> []"
    using r that by (cases post) (auto simp: block_less_iff)
  then have "set_insert elm blocks = pre @ elm # post"
    using sp by (cases post) (auto simp: set_insert_def Let_def)
  then show ?thesis
    using assms(1) sp(1) r l by (auto simp: sorted_wrt_append)
qed

context segment_law
begin

lemma ra_store_ok:
  assumes "blocks_ok P (ra_blocks r)" and "blk_ok P elm" and "h \<le> blk_begin elm"
    and "\<forall>b\<in>set (ra_blocks r). h < blk_begin b"
    and "ra_unassembled_byte r = extra + blocks_total (ra_blocks r)"
  shows "\<exists>blocks un. ra_store elm r = r\<lparr>ra_blocks := blocks, ra_unassembled_byte := un\<rparr> \<and>
     blocks_ok P blocks \<and> un = extra + blocks_total blocks \<and>
     blocks_cover blocks = blocks_cover (ra_blocks r) \<union> blk_cover elm \<and>
     (\<forall>b\<in>set blocks. h \<le> blk_begin b)"
proof -
  let ?un = "ra_unassembled_byte r + blk_length elm" and ?C = "blocks_cover (ra_blocks r) \<union> blk_cover elm"
  obtain e1 b1 u1 where n: "merge_next elm (ra_blocks r) ?un = (e1, b1, u1)" by (metis prod_cases3)
  obtain e2 b2 u2 where p: "merge_prev e1 b1 u1 = (e2, b2, u2)" by (metis prod_cases3)
  have "loop_inv P extra ?C h elm (ra_blocks r) ?un"
    using assms by (simp add: loop_inv_def)
  with n have "loop_inv P extra ?C h e1 b1 u1" "apart_right e1 b1"
    using merge_next_inv by blast+
  with p have inv: "loop_inv P extra ?C h e2 b2 u2" and ap: "apart_right e2 b2" "apart_left e2 b2"
    using merge_prev_inv by blast+
  have ins: "gap_sorted (set_insert e2 b2) \<and> set (set_insert e2 b2) = insert e2 (set b2) \<and>
      blocks_total (set_insert e2 b2) = blk_length e2 + blocks_total b2"
    using inv ap by (intro set_insert_apart) (simp_all add: loop_inv_def blocks_ok_def)
  have "ra_store elm r = r\<lparr>ra_blocks := set_insert e2 b2, ra_unassembled_byte := u2\<rparr>"
    using n p by (simp add: ra_store_def Let_def)
  moreover have "blocks_cover (set_insert e2 b2) = blk_cover e2 \<union> blocks_cover b2"
    using ins by (simp add: blocks_cover_def)
  ultimately show ?thesis
    using inv ins
    by (intro exI [of _ "set_insert e2 b2"] exI [of _ u2]) (auto simp: loop_inv_def blocks_ok_def)
qed

text \<open>Writing the block at the head: what the output, the head and the lost count become.\<close>

lemma ra_flush_ok:
  assumes "bs_inv (ra_output r)" and "bs_capacity (ra_output r) = ra_capacity r"
    and "ra_head_index r = bs_written (ra_output r)"
    and "P (bs_readden (ra_output r)) (bs_content (ra_output r))"
    and "blocks_ok P (ra_blocks r)" and "\<forall>b\<in>set (ra_blocks r). ra_head_index r \<le> blk_begin b"
    and un: "ra_unassembled_byte r = extra + blocks_total (ra_blocks r)"
  shows "ra_inv P (ra_flush r)" and "extra \<le> ra_lost (ra_flush r)"
    and "ra_head_index r \<le> ra_head_index (ra_flush r)"
    and "\<forall>k\<in>blocks_cover (ra_blocks r). k < ra_head_index r + bs_remaining_capacity (ra_output r) \<Longrightarrow>
      ra_lost (ra_flush r) = extra \<and> ra_covered (ra_flush r) = ra_covered r"
proof -
  have "ra_inv P (ra_flush r) \<and> extra \<le> ra_lost (ra_flush r) \<and>
      ra_head_index r \<le> ra_head_index (ra_flush r) \<and>
      ((\<forall>k\<in>blocks_cover (ra_blocks r). k < ra_head_index r + bs_remaining_capacity (ra_output r)) \<longrightarrow>
      ra_lost (ra_flush r) = extra \<and> ra_covered (ra_flush r) = ra_covered r)"
  proof (cases "ra_blocks r \<noteq> [] \<and> blk_begin (hd (ra_blocks r)) = ra_head_index r")
    case False
    have "\<forall>b\<in>set (ra_blocks r). ra_head_index r < blk_begin b"
    proof (cases "ra_blocks r")
      case (Cons b bs)
      then have "ra_head_index r < blk_begin b" using False assms(6) by fastforce
      then show ?thesis using Cons assms(5) by (fastforce simp: blocks_ok_def)
    qed simp
    then show ?thesis
      using False assms by (auto simp: ra_flush_def ra_inv_def ra_lost_def)
  next
    case True
    then obtain b bs where bl: "ra_blocks r = b # bs" "blk_begin b = ra_head_index r"
      by (cases "ra_blocks r") auto
    have okb: "blk_length b = length (blk_data b)" "P (blk_begin b) (blk_data b)"
      using bl assms(5) by (auto simp: blocks_ok_def blk_ok_def)
    let ?room = "bs_capacity (ra_output r) - length (bs_content (ra_output r))"
    let ?w = "min (blk_length b) ?room"
    have fl: "ra_flush r = r\<lparr>ra_output := snd (bs_write (blk_data b) (ra_output r)),
        ra_head_index := ra_head_index r + ?w, ra_unassembled_byte := ra_unassembled_byte r - ?w,
        ra_blocks := bs\<rparr>"
      using True bl okb bs_write_fst [of "blk_data b" "ra_output r"]
      by (auto simp: ra_flush_def Let_def split: prod.splits)
    have later: "\<forall>c\<in>set bs. blk_end b < blk_begin c"
      using bl assms(5) by (auto simp: blocks_ok_def)
    have "P (bs_readden (ra_output r))
        (bs_content (ra_output r) @ take ?room (blk_data b))"
      using assms(1,3,4) bl okb by (intro seg_join seg_take) (simp_all add: bs_inv_def)
    then have "ra_inv P (ra_flush r)"
      using assms(1-3,5) bl okb later un
      by (auto simp: fl ra_inv_def stream_simps blocks_ok_def)
    moreover have lost: "ra_lost (ra_flush r) = extra + (blk_length b - ?w)"
      using un bl by (simp add: fl ra_lost_def)
    moreover have "extra \<le> ra_lost (ra_flush r)"
      unfolding lost by (rule le_add1)
    moreover have "ra_covered (ra_flush r) = ra_covered r" if "?w = blk_length b"
      using bl that unfolding ra_covered_def fl
      by (auto simp: blk_cover_def not_less)
    moreover have "?w = blk_length b"
      if "\<forall>k\<in>blocks_cover (ra_blocks r). k < ra_head_index r + bs_remaining_capacity (ra_output r)"
    proof (cases "blk_length b = 0")
      case False
      then have "blk_end b - 1 \<in> blocks_cover (ra_blocks r)"
        using bl by (auto simp: blk_cover_def)
      then have "blk_end b - 1 < ra_head_index r + ?room"
        using that by (auto simp: stream_simps)
      then show ?thesis using bl False by simp
    qed simp
    moreover have "ra_head_index r \<le> ra_head_index (ra_flush r)" by (simp add: fl)
    ultimately show ?thesis by (metis add_0_right diff_self_eq_0)
  qed
  then show "ra_inv P (ra_flush r)" and "extra \<le> ra_lost (ra_flush r)"
    and "ra_head_index r \<le> ra_head_index (ra_flush r)"
    and "\<forall>k\<in>blocks_cover (ra_blocks r). k < ra_head_index r + bs_remaining_capacity (ra_output r) \<Longrightarrow>
      ra_lost (ra_flush r) = extra \<and> ra_covered (ra_flush r) = ra_covered r"
    by blast+
qed

end

lemma ra_judge_eof_simps [simp]:
  "ra_blocks (ra_judge_eof e r) = ra_blocks r"
  "ra_unassembled_byte (ra_judge_eof e r) = ra_unassembled_byte r"
  "ra_head_index (ra_judge_eof e r) = ra_head_index r"
  "ra_capacity (ra_judge_eof e r) = ra_capacity r"
  "ra_lost (ra_judge_eof e r) = ra_lost r"
  "ra_covered (ra_judge_eof e r) = ra_covered r"
  "bs_content (ra_output (ra_judge_eof e r)) = bs_content (ra_output r)"
  "bs_written (ra_output (ra_judge_eof e r)) = bs_written (ra_output r)"
  "bs_readden (ra_output (ra_judge_eof e r)) = bs_readden (ra_output r)"
  "bs_err (ra_output (ra_judge_eof e r)) = bs_err (ra_output r)"
  "bs_capacity (ra_output (ra_judge_eof e r)) = bs_capacity (ra_output r)"
  "ra_inv P (ra_judge_eof e r) = ra_inv P r"
  by (simp_all add: ra_judge_eof_def Let_def ra_lost_def ra_covered_def ra_inv_def)

lemma ra_flush_simps [simp]:
  "ra_capacity (ra_flush r) = ra_capacity r"
  "ra_eof_flag (ra_flush r) = ra_eof_flag r"
  "bs_readden (ra_output (ra_flush r)) = bs_readden (ra_output r)"
  "bs_input_end (ra_output (ra_flush r)) = bs_input_end (ra_output r)"
  "bs_err (ra_output (ra_flush r)) = bs_err (ra_output r)"
  using bs_write_snd [of "blk_data (hd (ra_blocks r))" "ra_output r"]
  by (auto simp: ra_flush_def Let_def split: prod.splits)

lemma ra_flush_bounds:
  assumes "blocks_ok P (ra_blocks r)"
  shows "ra_unassembled_byte (ra_flush r) \<le> ra_unassembled_byte r"
    and "bs_written (ra_output (ra_flush r)) \<le> bs_written (ra_output r) + blocks_total (ra_blocks r)"
proof -
  have "length (blk_data (hd (ra_blocks r))) \<le> blocks_total (ra_blocks r)" if "ra_blocks r \<noteq> []"
    using that assms by (cases "ra_blocks r") (auto simp: blocks_ok_def blk_ok_def)
  then show "bs_written (ra_output (ra_flush r)) \<le> bs_written (ra_output r) + blocks_total (ra_blocks r)"
    using bs_write_snd(3) [of "blk_data (hd (ra_blocks r))" "ra_output r"]
    by (fastforce simp: ra_flush_def Let_def split: prod.splits)
  show "ra_unassembled_byte (ra_flush r) \<le> ra_unassembled_byte r"
    by (auto simp: ra_flush_def Let_def split: prod.splits)
qed

lemma ra_store_simps [simp]:
  "ra_output (ra_store e r) = ra_output r" "ra_head_index (ra_store e r) = ra_head_index r"
  "ra_capacity (ra_store e r) = ra_capacity r" "ra_eof_flag (ra_store e r) = ra_eof_flag r"
  by (simp_all add: ra_store_def Let_def split: prod.splits)

text \<open>The index after the last byte that still fits into the output stream.\<close>

definition ra_limit :: "reassembler \<Rightarrow> nat" where
  "ra_limit r = bs_readden (ra_output r) + ra_capacity r"

definition ra_good :: "reassembler \<Rightarrow> bool" where
  "ra_good r \<longleftrightarrow> ra_inv any_bytes r \<and> ra_lost r = 0 \<and> (\<forall>k\<in>ra_covered r. k < ra_limit r)"

lemma ra_limit_room:
  "ra_inv P r \<Longrightarrow> ra_limit r = ra_head_index r + bs_remaining_capacity (ra_output r)"
  by (auto simp: ra_inv_def bs_inv_def ra_limit_def stream_simps)

context segment_law
begin

lemma ra_clip_ok:
  assumes "P index data" and "\<not> index + length data \<le> head"
  shows "blk_ok P (ra_clip data index head)" and "head \<le> blk_begin (ra_clip data index head)"
    and "{..<head} \<union> blk_cover (ra_clip data index head) = {..<head} \<union> {index ..< index + length data}"
    and "blk_end (ra_clip data index head) = index + length data"
  using assms seg_drop [of index data "head - index"]
  by (auto simp: ra_clip_def Let_def blk_ok_def blk_cover_def)

lemma ra_accept_ok:
  assumes inv: "ra_inv P r" and d: "P index data" and new: "\<not> index + length data \<le> ra_head_index r"
  defines "s \<equiv> ra_flush (ra_store (ra_clip data index (ra_head_index r)) r)"
  shows "ra_inv P s" and "ra_lost r \<le> ra_lost s" and "ra_head_index r \<le> ra_head_index s"
    and "\<forall>k\<in>ra_covered r. k < ra_limit r \<Longrightarrow> index + length data \<le> ra_limit r \<Longrightarrow>
      ra_lost s = ra_lost r \<and> ra_covered s = ra_covered r \<union> {index ..< index + length data}"
proof -
  let ?elm = "ra_clip data index (ra_head_index r)"
  note clip = ra_clip_ok [OF d new]
  have un: "ra_unassembled_byte r = ra_lost r + blocks_total (ra_blocks r)"
    using inv by (simp add: ra_inv_def ra_lost_def)
  obtain blocks un' where st: "ra_store ?elm r = r\<lparr>ra_blocks := blocks, ra_unassembled_byte := un'\<rparr>"
    "blocks_ok P blocks" "un' = ra_lost r + blocks_total blocks"
    "blocks_cover blocks = blocks_cover (ra_blocks r) \<union> blk_cover ?elm"
    "\<forall>b\<in>set blocks. ra_head_index r \<le> blk_begin b"
    using ra_store_ok [of r ?elm "ra_head_index r" "ra_lost r"] inv clip(1,2) un
    by (auto simp: ra_inv_def)
  let ?t = "r\<lparr>ra_blocks := blocks, ra_unassembled_byte := un'\<rparr>"
  have pre: "bs_inv (ra_output ?t)" "bs_capacity (ra_output ?t) = ra_capacity ?t"
    "ra_head_index ?t = bs_written (ra_output ?t)"
    "P (bs_readden (ra_output ?t)) (bs_content (ra_output ?t))"
    "blocks_ok P (ra_blocks ?t)" "\<forall>b\<in>set (ra_blocks ?t). ra_head_index ?t \<le> blk_begin b"
    "ra_unassembled_byte ?t = ra_lost r + blocks_total (ra_blocks ?t)"
    using inv st by (auto simp: ra_inv_def)
  note fl = ra_flush_ok [OF pre]
  have s: "s = ra_flush ?t" by (simp add: s_def st(1))
  show "ra_inv P s" and "ra_lost r \<le> ra_lost s" and "ra_head_index r \<le> ra_head_index s"
    using fl(1-3) by (simp_all add: s)
  have cov: "ra_covered ?t = ra_covered r \<union> {index ..< index + length data}"
    using clip(3) st(4) by (auto simp: ra_covered_def)
  assume fits: "\<forall>k\<in>ra_covered r. k < ra_limit r" "index + length data \<le> ra_limit r"
  have "\<forall>k\<in>blocks_cover (ra_blocks ?t). k < ra_head_index ?t + bs_remaining_capacity (ra_output ?t)"
  proof
    fix k
    assume "k \<in> blocks_cover (ra_blocks ?t)"
    then have "k \<in> ra_covered r \<union> {index ..< index + length data}"
      unfolding cov [symmetric] by (simp add: ra_covered_def)
    then have "k < ra_limit r" using fits by auto
    then show "k < ra_head_index ?t + bs_remaining_capacity (ra_output ?t)"
      using ra_limit_room [OF inv] by simp
  qed
  then show "ra_lost s = ra_lost r \<and> ra_covered s = ra_covered r \<union> {index ..< index + length data}"
    using fl(4) cov by (simp add: s)
qed

lemma push_substring_inv:
  "ra_inv P r \<Longrightarrow> P index data \<Longrightarrow>
     ra_inv P (push_substring data index eof r) \<and> ra_lost r \<le> ra_lost (push_substring data index eof r)"
  using ra_accept_ok(1,2) [of r index data]
  by (auto simp: push_substring_def Let_def)

end

lemma push_substring_frame [simp]:
  "ra_capacity (push_substring d i e r) = ra_capacity r"
  "ra_limit (push_substring d i e r) = ra_limit r"
  "bs_err (ra_output (push_substring d i e r)) = bs_err (ra_output r)"
  by (auto simp: push_substring_def Let_def ra_limit_def)

lemma push_substring_good:
  assumes good: "ra_good r" and fits: "index + length data \<le> ra_limit r"
  shows "ra_good (push_substring data index eof r) \<and>
    ra_covered (push_substring data index eof r) = ra_covered r \<union> {index ..< index + length data}"
proof -
  have inv: "ra_inv any_bytes r" and "ra_lost r = 0" and cov: "\<forall>k\<in>ra_covered r. k < ra_limit r"
    using good by (auto simp: ra_good_def)
  have "bs_readden (ra_output r) \<le> ra_head_index r"
    using inv by (simp add: ra_inv_def bs_inv_def)
  then have "length data = 0" if "index \<ge> ra_head_index r + ra_capacity r"
    using that fits unfolding ra_limit_def by linarith
  then have early: "data = []" if "index \<ge> ra_head_index r + ra_capacity r"
    using that by simp
  have any: "any_bytes index data" by (simp add: any_bytes_def)
  consider (far) "index \<ge> ra_head_index r + ra_capacity r"
    | (old) "index < ra_head_index r + ra_capacity r" "index + length data \<le> ra_head_index r"
    | (new) "index < ra_head_index r + ra_capacity r" "\<not> index + length data \<le> ra_head_index r"
    by linarith
  then show ?thesis
  proof cases
    case far
    then show ?thesis using early good by (simp add: push_substring_def)
  next
    case old
    then have "{index ..< index + length data} \<subseteq> ra_covered r" by (auto simp: ra_covered_def)
    then show ?thesis
      using old good by (auto simp: push_substring_def ra_good_def ra_limit_def)
  next
    case new
    let ?s = "ra_flush (ra_store (ra_clip data index (ra_head_index r)) r)"
    note a = any_law.ra_accept_ok [OF inv any new(2)]
    have "ra_limit ?s = ra_limit r" by (simp add: ra_limit_def)
    then show ?thesis
      using a(1) a(4) [OF cov fits] new good fits
      by (auto simp: push_substring_def ra_good_def ra_limit_def)
  qed
qed

section \<open>The reassembler as an operation-driven machine\<close>

text \<open>
  Pushes come from the receiver; the reads, pops, \<open>end_input\<close> and \<open>set_error\<close> are what the
  receiver, the connection and the application do through \<open>stream_out()\<close>.
\<close>

datatype ra_op =
    Push "byte list" nat bool
  | Out_Read nat
  | Out_Pop nat
  | Out_End
  | Out_Error

fun ra_step :: "ra_op \<Rightarrow> reassembler \<Rightarrow> reassembler" where
  "ra_step (Push d i e) r = push_substring d i e r"
| "ra_step (Out_Read n) r = r\<lparr>ra_output := snd (projr (bs_read n (ra_output r)))\<rparr>"
| "ra_step (Out_Pop n) r = r\<lparr>ra_output := projr (bs_pop_output n (ra_output r))\<rparr>"
| "ra_step Out_End r = r\<lparr>ra_output := bs_end_input (ra_output r)\<rparr>"
| "ra_step Out_Error r = r\<lparr>ra_output := bs_set_error (ra_output r)\<rparr>"

fun pushes :: "((nat \<Rightarrow> byte list \<Rightarrow> bool)) \<Rightarrow> ra_op \<Rightarrow> reassembler \<Rightarrow> bool" where
  "pushes P (Push d i e) r = P i d"
| "pushes P _ r = True"

fun in_window :: "ra_op \<Rightarrow> reassembler \<Rightarrow> bool" where
  "in_window (Push d i e) r = (i + length d \<le> ra_limit r)"
| "in_window _ r = True"

fun received_by :: "ra_op \<Rightarrow> nat set" where
  "received_by (Push d i e) = {i ..< i + length d}"
| "received_by _ = {}"

definition received :: "ra_op list \<Rightarrow> nat set" where
  "received ops = (\<Union>op\<in>set ops. received_by op)"

lemma ra_new_capacity [simp]: "ra_capacity (ra_new c) = c"
  by (simp add: ra_new_def)

lemma ra_new_inv [simp]: "P 0 [] \<Longrightarrow> ra_inv P (ra_new c)" "ra_good (ra_new c)"
  by (auto simp: ra_inv_def ra_new_def blocks_ok_def ra_good_def any_bytes_def ra_lost_def ra_covered_def)

context segment_law
begin

lemma ra_step_inv:
  "ra_inv P r \<Longrightarrow> pushes P op r \<Longrightarrow> ra_inv P (ra_step op r) \<and> ra_lost r \<le> ra_lost (ra_step op r)"
proof (cases op)
  case (Push d i e)
  assume "ra_inv P r" and "pushes P op r"
  then show ?thesis using Push push_substring_inv [of r i d e] by simp
qed (auto simp: ra_inv_def ra_lost_def stream_simps bs_inv_def min_def dest: seg_drop)

end

interpretation stream_machine:
  machine "\<lambda>r. r = ra_new c" "pushes (bytes_of f)" ra_step
    "\<lambda>r. ra_inv (bytes_of f) r \<and> ra_capacity r = c"
proof unfold_locales
  fix r op
  assume "ra_inv (bytes_of f) r \<and> ra_capacity r = c" and "pushes (bytes_of f) op r"
  then show "ra_inv (bytes_of f) (ra_step op r) \<and> ra_capacity (ra_step op r) = c"
    using stream_law.ra_step_inv [of f r op] by (cases op) auto
qed (simp add: bytes_of_def)

text \<open>Operations on the output side leave the blocks alone and can only widen the window.\<close>

lemma ra_good_output:
  assumes "ra_good r" and "ra_inv any_bytes (r\<lparr>ra_output := out\<rparr>)"
    and "bs_readden (ra_output r) \<le> bs_readden out"
  shows "ra_good (r\<lparr>ra_output := out\<rparr>) \<and> ra_covered (r\<lparr>ra_output := out\<rparr>) = ra_covered r"
proof -
  have "ra_limit r \<le> ra_limit (r\<lparr>ra_output := out\<rparr>)"
    using assms(3) by (simp add: ra_limit_def)
  moreover have cov: "ra_covered (r\<lparr>ra_output := out\<rparr>) = ra_covered r"
    by (simp add: ra_covered_def)
  ultimately show ?thesis
    using assms(1,2) unfolding ra_good_def cov by (auto simp: ra_lost_def)
qed

lemma ra_step_good:
  assumes "ra_good r" and "in_window op r"
  shows "ra_good (ra_step op r) \<and> ra_covered (ra_step op r) = ra_covered r \<union> received_by op"
proof (cases "\<exists>d i e. op = Push d i e")
  case True
  then show ?thesis using push_substring_good assms by auto
next
  case False
  then have p: "pushes any_bytes op r" and emp: "received_by op = {}" by (cases op; simp)+
  have inv: "ra_inv any_bytes (ra_step op r)"
    using any_law.ra_step_inv [OF _ p] assms(1) by (simp add: ra_good_def)
  obtain out where out: "ra_step op r = r\<lparr>ra_output := out\<rparr>" "bs_readden (ra_output r) \<le> bs_readden out"
    using False by (cases op) (auto simp: stream_simps)
  then show ?thesis
    using ra_good_output [OF assms(1) inv [unfolded out(1)] out(2)] emp by simp
qed

interpretation window_machine: machine "\<lambda>r. r = ra_new c" in_window ra_step ra_good
  by unfold_locales (use ra_step_good in auto)

lemma ra_covered_run:
  "ra_good r \<Longrightarrow> all_steps in_window ra_step ops r \<Longrightarrow>
     ra_covered (fold ra_step ops r) = ra_covered r \<union> received ops"
proof (induction ops arbitrary: r)
  case Nil
  then show ?case by (simp add: received_def)
next
  case (Cons op ops)
  then have "ra_good (ra_step op r)" "ra_covered (ra_step op r) = ra_covered r \<union> received_by op"
    using ra_step_good by auto
  then show ?case using Cons by (auto simp: received_def)
qed

text \<open>In a good state the head is the least index that is not covered.\<close>

lemma ra_good_head:
  assumes "ra_good r"
  shows "ra_head_index r = (LEAST k. k \<notin> ra_covered r)"
    and "ra_unassembled_byte r = card {k \<in> ra_covered r. ra_head_index r \<le> k}"
proof -
  have gaps: "\<forall>b\<in>set (ra_blocks r). ra_head_index r < blk_begin b" and gs: "gap_sorted (ra_blocks r)"
    and "ra_lost r = 0" and "blocks_total (ra_blocks r) \<le> ra_unassembled_byte r"
    using assms by (auto simp: ra_good_def ra_inv_def blocks_ok_def)
  have "ra_head_index r \<notin> ra_covered r"
    using gaps by (fastforce simp: ra_covered_def blocks_cover_def blk_cover_def)
  then show "ra_head_index r = (LEAST k. k \<notin> ra_covered r)"
    by (intro Least_equality [symmetric]) (auto simp: ra_covered_def not_less [symmetric])
  have "{k \<in> ra_covered r. ra_head_index r \<le> k} = blocks_cover (ra_blocks r)"
    using gaps by (fastforce simp: ra_covered_def blocks_cover_def blk_cover_def)
  then show "ra_unassembled_byte r = card {k \<in> ra_covered r. ra_head_index r \<le> k}"
    using card_blocks_cover [OF gs] \<open>ra_lost r = 0\<close> \<open>blocks_total (ra_blocks r) \<le> _\<close>
    by (simp add: ra_lost_def)
qed

section \<open>Properties\<close>

text \<open>C5: If every pushed substring is a piece of one stream \<open>f\<close> at its index,
  then in whatever order, overlap and repetition the pieces arrive, and however the application
  reads in between, the bytes waiting in the output stream are exactly the bytes of \<open>f\<close> from the
  number of bytes already read onwards, and they fit the capacity.\<close>

theorem reassembler_delivers_stream:
  assumes "all_steps (pushes (bytes_of f)) ra_step ops (ra_new c)"
  defines "out \<equiv> ra_output (fold ra_step ops (ra_new c))"
  shows "bs_content out = excerpt f (bs_bytes_read out) (bs_buffer_size out) \<and>
    bs_bytes_written out = bs_bytes_read out + bs_buffer_size out \<and> bs_buffer_size out \<le> c"
proof -
  have "ra_inv (bytes_of f) (fold ra_step ops (ra_new c)) \<and> ra_capacity (fold ra_step ops (ra_new c)) = c"
    by (rule stream_machine.run_inv [OF refl assms(1)])
  then show ?thesis
    by (auto simp: out_def ra_inv_def bs_inv_def stream_simps bytes_of_def)
qed

theorem reassembler_delivers_stream_witness:
  "let out = ra_output (fold ra_step [Push [3, 4] 3 False, Push [1, 2] 1 False, Push [0, 1] 0 False,
      Out_Read 2] (ra_new 8)) in
   bs_content out = excerpt of_nat (bs_bytes_read out) (bs_buffer_size out) \<and>
   bs_bytes_written out = bs_bytes_read out + bs_buffer_size out \<and> bs_buffer_size out \<le> 8"
proof -
  have all_ok: "all_steps (pushes (bytes_of of_nat)) ra_step
      [Push [3, 4] 3 False, Push [1, 2] 1 False, Push [0, 1] 0 False, Out_Read 2] (ra_new 8)"
    by (auto simp: bytes_of_def excerpt_def)
  show ?thesis
    unfolding Let_def by (rule reassembler_delivers_stream [OF all_ok])
qed

text \<open>C12: (completeness) If every pushed substring ends before the first byte that does not fit
  (the number of bytes read plus the capacity), nothing is ever lost: the number of bytes written
  to the output stream is the least index not received so far, \<open>unassembled_bytes\<close> counts exactly
  the received bytes beyond it, each once, and together with the buffered bytes they stay within
  the capacity.\<close>

theorem reassembler_writes_all_contiguous:
  assumes "all_steps in_window ra_step ops (ra_new c)"
  defines "r \<equiv> fold ra_step ops (ra_new c)"
  shows "bs_bytes_written (ra_output r) = (LEAST k. k \<notin> received ops) \<and>
    ra_unassembled_bytes r = card {k \<in> received ops. bs_bytes_written (ra_output r) \<le> k} \<and>
    ra_unassembled_bytes r + bs_buffer_size (ra_output r) \<le> ra_capacity r"
proof (intro conjI)
  have good: "ra_good r"
    unfolding r_def by (rule window_machine.run_inv [OF refl assms(1)])
  have cov: "ra_covered r = received ops"
    using ra_covered_run [OF _ assms(1)] by (simp add: r_def) (simp add: ra_new_def ra_covered_def)
  have w: "bs_bytes_written (ra_output r) = ra_head_index r"
    using good by (simp add: ra_good_def ra_inv_def stream_simps)
  show "bs_bytes_written (ra_output r) = (LEAST k. k \<notin> received ops)"
    using ra_good_head(1) [OF good] cov w by simp
  show u: "ra_unassembled_bytes r = card {k \<in> received ops. bs_bytes_written (ra_output r) \<le> k}"
    using ra_good_head(2) [OF good] cov w by (simp add: ra_unassembled_bytes_def)
  have "{k \<in> received ops. bs_bytes_written (ra_output r) \<le> k} \<subseteq> {ra_head_index r ..< ra_limit r}"
    using good cov w by (auto simp: ra_good_def)
  then have "ra_unassembled_bytes r \<le> ra_limit r - ra_head_index r"
    using card_mono [of "{ra_head_index r ..< ra_limit r}"] u by fastforce
  moreover have "bs_inv (ra_output r)" "ra_head_index r = bs_written (ra_output r)"
    "bs_capacity (ra_output r) = ra_capacity r"
    using good by (auto simp: ra_good_def ra_inv_def)
  ultimately show "ra_unassembled_bytes r + bs_buffer_size (ra_output r) \<le> ra_capacity r"
    by (auto simp: ra_limit_def bs_inv_def stream_simps)
qed

theorem reassembler_writes_all_contiguous_witness:
  "let ops = [Push [3, 4] 3 False, Push [1, 2] 1 False]; r = fold ra_step ops (ra_new 8) in
   bs_bytes_written (ra_output r) = (LEAST k. k \<notin> received ops) \<and>
   ra_unassembled_bytes r = card {k \<in> received ops. bs_bytes_written (ra_output r) \<le> k} \<and>
   ra_unassembled_bytes r + bs_buffer_size (ra_output r) \<le> ra_capacity r"
proof -
  have lim: "ra_limit (ra_new 8) = 8" by (simp add: ra_limit_def ra_new_def)
  have all_ok: "all_steps in_window ra_step [Push [3, 4] 3 False, Push [1, 2] 1 False] (ra_new 8)"
    by (simp add: lim)
  show ?thesis
    unfolding Let_def using reassembler_writes_all_contiguous [OF all_ok] by blast
qed

lemma push_substring_ends:
  assumes "index < ra_head_index r + ra_capacity r"
  shows "bs_input_end (ra_output (push_substring data index eof r)) \<longleftrightarrow>
    bs_input_end (ra_output r) \<or>
    ((eof \<or> ra_eof_flag r) \<and> ra_unassembled_byte (push_substring data index eof r) = 0)"
  using assms by (auto simp: push_substring_def ra_judge_eof_def ra_empty_def Let_def)

text \<open>(end of stream) For a push that carries data, fits the window, is marked as the end of the
  stream and ends after every byte received so far: the output stream is ended exactly when every
  byte before its end has been received, and then all of them have been written.\<close>

theorem eof_with_data_exact:
  assumes good: "ra_good r" and fits: "index + length data \<le> ra_limit r" and "data \<noteq> []"
    and open_out: "\<not> bs_input_end (ra_output r)"
    and last: "\<forall>k\<in>ra_covered r. k < index + length data"
  defines "r' \<equiv> push_substring data index True r"
  shows "bs_input_end (ra_output r') =
      ({..<index + length data} \<subseteq> ra_covered r \<union> {index ..< index + length data}) \<and>
    (bs_input_end (ra_output r') \<longrightarrow> bs_bytes_written (ra_output r') = index + length data)"
proof -
  let ?n = "index + length data" and ?C = "ra_covered r \<union> {index ..< index + length data}"
  have g: "ra_good r'" and cov: "ra_covered r' = ?C"
    using push_substring_good [OF good fits] by (simp_all add: r'_def)
  have "bs_readden (ra_output r) \<le> ra_head_index r"
    using good by (simp add: ra_good_def ra_inv_def bs_inv_def)
  then have near: "index < ra_head_index r + ra_capacity r"
    using fits \<open>data \<noteq> []\<close> by (cases data) (auto simp: ra_limit_def)
  have ended: "bs_input_end (ra_output r') \<longleftrightarrow> ra_unassembled_byte r' = 0"
    using push_substring_ends [OF near] open_out by (simp add: r'_def)
  have "finite ?C" by (rule finite_subset [of _ "{..<?n}"]) (use last in auto)
  then have "finite {k \<in> ?C. ra_head_index r' \<le> k}" by simp
  then have emp: "ra_unassembled_byte r' = 0 \<longleftrightarrow> ?C \<subseteq> {..<ra_head_index r'}"
    unfolding ra_good_head(2) [OF g] cov by (subst card_0_eq) (auto simp del: atLeastLessThan_iff)
  have "{..<ra_head_index r'} \<subseteq> ?C" unfolding cov [symmetric] by (auto simp: ra_covered_def)
  moreover have "ra_head_index r' \<notin> ?C"
    using g unfolding cov [symmetric]
    by (fastforce simp: ra_good_def ra_inv_def ra_covered_def blocks_cover_def blk_cover_def)
  moreover have "?n - 1 \<in> ?C" "?n = Suc (?n - 1)" using \<open>data \<noteq> []\<close> by (cases data; simp)+
  moreover have "?C \<subseteq> {..<?n}" using last by auto
  ultimately have iff: "ra_unassembled_byte r' = 0 \<longleftrightarrow> {..<?n} \<subseteq> ?C"
    and hd: "ra_unassembled_byte r' = 0 \<Longrightarrow> ra_head_index r' = ?n"
    using initial_segment_full [of "ra_head_index r'" ?C ?n "?n - 1"] unfolding emp by blast+
  have "bs_bytes_written (ra_output r') = ra_head_index r'"
    using g by (simp add: ra_good_def ra_inv_def stream_simps)
  then show ?thesis using ended iff hd by simp
qed

theorem eof_with_data_exact_witness:
  "let r = push_substring [5, 6] 2 False (ra_new 8); r' = push_substring [7] 4 True r in
   bs_input_end (ra_output r') = ({..<4 + length [7 :: byte]} \<subseteq> ra_covered r \<union> {4 ..< 4 + length [7 :: byte]}) \<and>
   (bs_input_end (ra_output r') \<longrightarrow> bs_bytes_written (ra_output r') = 4 + length [7 :: byte])"
proof -
  let ?r = "push_substring [5, 6] 2 False (ra_new 8)"
  have lim: "ra_limit (ra_new 8) = 8" "ra_covered (ra_new 8) = {}"
    by (simp_all add: ra_limit_def ra_new_def ra_covered_def)
  have r: "ra_good ?r \<and> ra_covered ?r = {} \<union> {2 ..< 2 + length [5, 6 :: byte]}"
    using push_substring_good [of "ra_new 8" 2 "[5, 6]" False] lim by simp
  have "\<not> bs_input_end (ra_output ?r)"
    by (subst push_substring_ends) (simp_all add: ra_new_def)
  then show ?thesis
    unfolding Let_def using r lim by (intro eof_with_data_exact) auto
qed

text \<open>(premature end of stream) An empty substring marked as the end of the stream, at an index
  ahead of the head, while nothing else is stored, ends the output stream at once although the
  bytes before it have not arrived: the end is recorded as soon as \<open>empty()\<close> holds, and
  \<open>empty()\<close> does not look at the gap.\<close>

theorem eof_empty_ahead_ends_early:
  assumes "ra_inv P r" and "ra_unassembled_bytes r = 0"
    and "ra_head_index r < index" and "index < ra_head_index r + ra_capacity r"
  defines "r' \<equiv> push_substring [] index True r"
  shows "bs_input_ended (ra_output r') \<and> bs_bytes_written (ra_output r') < index"
proof -
  have inv: "ra_inv any_bytes r"
    using assms(1) by (auto simp: ra_inv_def blocks_ok_def blk_ok_def any_bytes_def)
  have un: "ra_unassembled_byte r = 0" using assms(2) by (simp add: ra_unassembled_bytes_def)
  let ?elm = "ra_clip [] index (ra_head_index r)"
  have "blk_ok any_bytes ?elm" "ra_head_index r < blk_begin ?elm" "blk_length ?elm = 0"
    using assms(3) by (auto simp: ra_clip_def blk_ok_def any_bytes_def)
  then obtain blocks un' where st: "ra_store ?elm r = r\<lparr>ra_blocks := blocks, ra_unassembled_byte := un'\<rparr>"
    "un' = blocks_total blocks" "blocks_ok any_bytes blocks"
    "blocks_cover blocks = blocks_cover (ra_blocks r) \<union> blk_cover ?elm"
    "\<forall>b\<in>set blocks. ra_head_index r \<le> blk_begin b"
    using any_law.ra_store_ok [of r ?elm "ra_head_index r" 0] inv un by (auto simp: ra_inv_def)
  have "blocks_total (ra_blocks r) = 0" using inv un by (simp add: ra_inv_def)
  then have "card (blocks_cover blocks) = 0"
    using st(4) inv card_blocks_cover [of "ra_blocks r"] \<open>blk_length ?elm = 0\<close>
    by (simp add: ra_inv_def blocks_ok_def blk_cover_def)
  then have "un' = 0"
    using st(2,3) card_blocks_cover [of blocks] by (simp add: blocks_ok_def)
  then have z: "ra_unassembled_byte (ra_flush (ra_store ?elm r)) = 0"
    and "bs_written (ra_output (ra_flush (ra_store ?elm r))) \<le> ra_head_index r"
    using ra_flush_bounds [of any_bytes "ra_store ?elm r"] st(1,2,3) inv by (auto simp: ra_inv_def)
  then have "bs_written (ra_output r') < index"
    using assms(3,4) by (simp add: r'_def push_substring_def)
  moreover have "bs_input_end (ra_output r')"
    using push_substring_ends [OF assms(4), of "[]" True] z assms(3,4)
    by (simp add: r'_def push_substring_def)
  ultimately show ?thesis by (simp add: stream_simps)
qed

theorem eof_empty_ahead_ends_early_witness:
  "let r' = push_substring [] 5 True (ra_new 8) in
   bs_input_ended (ra_output r') \<and> bs_bytes_written (ra_output r') < 5"
  unfolding Let_def
  by (rule eof_empty_ahead_ends_early [of any_bytes])
    (simp_all add: any_bytes_def ra_unassembled_bytes_def, simp_all add: ra_new_def)

text \<open>(lost bytes) When a block became contiguous and did not fit the output stream, the code
  erases the whole block but subtracts only the written bytes: the reassembler is then never
  \<open>empty()\<close> again, and no further push, whatever it brings, can end the output stream.\<close>

theorem truncated_write_blocks_end:
  assumes "ra_inv P r" and "0 < ra_lost r" and "\<not> bs_input_ended (ra_output r)"
    and "all_steps (\<lambda>op r. op \<noteq> Out_End) ra_step ops r"
  shows "\<not> bs_input_ended (ra_output (fold ra_step ops r)) \<and> 0 < ra_unassembled_bytes (fold ra_step ops r)"
proof -
  have "ra_inv any_bytes r"
    using assms(1) by (auto simp: ra_inv_def blocks_ok_def blk_ok_def any_bytes_def)
  then have "ra_inv any_bytes (fold ra_step ops r) \<and> 0 < ra_lost (fold ra_step ops r) \<and>
      \<not> bs_input_end (ra_output (fold ra_step ops r))"
    using assms(2-4)
  proof (induction ops arbitrary: r)
    case Nil
    then show ?case by (simp add: stream_simps)
  next
    case (Cons op ops)
    have p: "pushes any_bytes op r" by (cases op) (simp_all add: any_bytes_def)
    note st = any_law.ra_step_inv [OF Cons.prems(1) p]
    have "\<not> bs_input_end (ra_output (ra_step op r))"
    proof (cases op)
      case (Push d i e)
      have "0 < ra_lost (push_substring d i e r)"
        using st Cons.prems(2) Push by simp
      then have "0 < ra_unassembled_byte (push_substring d i e r)"
        by (simp add: ra_lost_def)
      then show ?thesis
        using Push Cons.prems(3) push_substring_ends [of i r d e]
        by (cases "i < ra_head_index r + ra_capacity r") (auto simp: push_substring_def stream_simps)
    qed (use Cons.prems in \<open>auto simp: stream_simps\<close>)
    then show ?case
      using Cons.IH [of "ra_step op r"] st Cons.prems by (auto simp: stream_simps)
  qed
  then show ?thesis by (auto simp: stream_simps ra_unassembled_bytes_def ra_lost_def)
qed

theorem truncated_write_blocks_end_witness:
  "let r = push_substring [1, 2, 3] 0 True (ra_new 2); ops = [Out_Read 2, Push [3] 2 True] in
   \<not> bs_input_ended (ra_output (fold ra_step ops r)) \<and> 0 < ra_unassembled_bytes (fold ra_step ops r)"
proof -
  let ?r = "push_substring [1, 2, 3] 0 True (ra_new 2)"
  have inv: "ra_inv any_bytes ?r"
    using any_law.push_substring_inv [of "ra_new 2" 0 "[1, 2, 3]" True] by (simp add: any_bytes_def)
  have "ra_lost ?r = 1" and "\<not> bs_input_ended (ra_output ?r)"
    by code_simp+
  then show ?thesis
    unfolding Let_def by (intro truncated_write_blocks_end [OF inv]) simp_all
qed

text \<open>The header promises that bytes beyond the capacity are discarded. The code
  checks only where a substring begins: one that begins inside the window, with nothing else
  stored, is stored whole however far it runs, so \<open>unassembled_bytes\<close> is not bounded by the
  capacity.\<close>

theorem overlong_substring_stored_whole:
  assumes "ra_blocks r = []" and "ra_head_index r < index"
    and "index < ra_head_index r + ra_capacity r" and "data \<noteq> []"
  shows "ra_unassembled_bytes (push_substring data index eof r) = ra_unassembled_bytes r + length data \<and>
    blocks_cover (ra_blocks (push_substring data index eof r)) = {index ..< index + length data}"
  using assms
  by (simp add: push_substring_def ra_store_def ra_clip_def ra_flush_def set_insert_def
      set_lower_bound_def merge_next_end merge_prev_end ra_unassembled_bytes_def blk_cover_def)

theorem overlong_substring_stored_whole_witness:
  "ra_unassembled_bytes (push_substring [1, 2, 3, 4, 5] 1 False (ra_new 2)) =
     ra_unassembled_bytes (ra_new 2) + length [1 :: byte, 2, 3, 4, 5] \<and>
   blocks_cover (ra_blocks (push_substring [1, 2, 3, 4, 5] 1 False (ra_new 2))) =
     {1 ..< 1 + length [1 :: byte, 2, 3, 4, 5]}"
  by (rule overlong_substring_stored_whole) (simp_all add: ra_new_def)

end
