(* ===== verification/Net_Parser.thy ===== *)
theory Net_Parser
  imports Buffers
begin

text \<open>
  \<open>libsponge/util/parser.{hh,cc}\<close>: parsing and writing integers in network byte order. The parser
  keeps a \<open>Buffer\<close> and a sticky error; a failed read returns 0 and leaves the buffer alone.
\<close>

section \<open>Results of parsing\<close>

datatype parse_result =
    NoError
  | BadChecksum
  | PacketTooShort
  | WrongIPVersion
  | HeaderTooShort
  | TruncatedPacket
  | Unsupported

fun parse_result_index :: "parse_result \<Rightarrow> nat" where
  "parse_result_index NoError = 0"
| "parse_result_index BadChecksum = 1"
| "parse_result_index PacketTooShort = 2"
| "parse_result_index WrongIPVersion = 3"
| "parse_result_index HeaderTooShort = 4"
| "parse_result_index TruncatedPacket = 5"
| "parse_result_index Unsupported = 6"

definition parse_result_names :: "string list" where
  "parse_result_names =
     [''NoError'', ''BadChecksum'', ''PacketTooShort'', ''WrongIPVersion'', ''HeaderTooShort'',
      ''TruncatedPacket'']"

definition as_string :: "parse_result \<Rightarrow> exn + string" where
  "as_string r =
     (let i = parse_result_index r in
      if i < length parse_result_names then Inr (parse_result_names ! i)
      else Inl (Undefined_Behaviour ''as_string: read past the end of _names''))"

section \<open>NetParser\<close>

record net_parser =
  np_buffer :: buffer
  np_error :: parse_result

definition np_new :: "buffer \<Rightarrow> net_parser" where
  "np_new b = \<lparr>np_buffer = b, np_error = NoError\<rparr>"

definition np_set_error :: "parse_result \<Rightarrow> net_parser \<Rightarrow> net_parser" where
  "np_set_error res p = p\<lparr>np_error := res\<rparr>"

definition np_has_error :: "net_parser \<Rightarrow> bool" where
  "np_has_error p = (np_error p \<noteq> NoError)"

definition np_check_size :: "nat \<Rightarrow> net_parser \<Rightarrow> net_parser" where
  "np_check_size n p =
     (if n > buffer_size (np_buffer p) then np_set_error PacketTooShort p else p)"

definition np_parse_int :: "net_parser \<Rightarrow> 'a :: len word \<times> net_parser" where
  "np_parse_int p =
     (let len = LENGTH('a) div 8; p = np_check_size len p in
      if np_has_error p then (0, p)
      else
        let ret = fold (\<lambda>i ret. push_bit 8 ret + ucast (projr (buffer_at i (np_buffer p)))) [0..<len] 0
        in (ret, p\<lparr>np_buffer := projr (buffer_remove_prefix len (np_buffer p))\<rparr>))"

definition np_remove_prefix :: "nat \<Rightarrow> net_parser \<Rightarrow> net_parser" where
  "np_remove_prefix n p =
     (let p = np_check_size n p in
      if np_has_error p then p
      else p\<lparr>np_buffer := projr (buffer_remove_prefix n (np_buffer p))\<rparr>)"

definition np_u32 :: "net_parser \<Rightarrow> u32 \<times> net_parser" where
  "np_u32 = np_parse_int"

definition np_u16 :: "net_parser \<Rightarrow> u16 \<times> net_parser" where
  "np_u16 = np_parse_int"

definition np_u8 :: "net_parser \<Rightarrow> u8 \<times> net_parser" where
  "np_u8 = np_parse_int"

section \<open>NetUnparser\<close>

definition unparse_int :: "byte list \<Rightarrow> 'a :: len word \<Rightarrow> byte list" where
  "unparse_int s val =
     (let len = LENGTH('a) div 8 in
      fold (\<lambda>i s. s @ [ucast (drop_bit ((len - i - 1) * 8) val AND 0xff)]) [0..<len] s)"

definition put_u32 :: "byte list \<Rightarrow> u32 \<Rightarrow> byte list" where
  "put_u32 s val = unparse_int s val"

definition put_u16 :: "byte list \<Rightarrow> u16 \<Rightarrow> byte list" where
  "put_u16 s val = unparse_int s val"

definition put_u8 :: "byte list \<Rightarrow> u8 \<Rightarrow> byte list" where
  "put_u8 s val = unparse_int s val"

text \<open>\<open>std::string::resize\<close>: cut, or fill with zero bytes.\<close>

definition str_resize :: "nat \<Rightarrow> byte list \<Rightarrow> byte list" where
  "str_resize n s = take n s @ replicate (n - length s) 0"

section \<open>Reading a parser as a byte string\<close>

definition np_str :: "net_parser \<Rightarrow> byte list" where
  "np_str p = buffer_str (np_buffer p)"

definition be16 :: "u16 \<Rightarrow> byte list" where
  "be16 v = [ucast (drop_bit 8 v), ucast v]"

definition be32 :: "u32 \<Rightarrow> byte list" where
  "be32 v = [ucast (drop_bit 24 v), ucast (drop_bit 16 v), ucast (drop_bit 8 v), ucast v]"

definition of_be16 :: "byte \<Rightarrow> byte \<Rightarrow> u16" where
  "of_be16 a b = push_bit 8 (ucast a) + ucast b"

definition of_be32 :: "byte \<Rightarrow> byte \<Rightarrow> byte \<Rightarrow> byte \<Rightarrow> u32" where
  "of_be32 a b c d = push_bit 8 (push_bit 8 (push_bit 8 (ucast a) + ucast b) + ucast c) + ucast d"

lemma ucast_and_255: "ucast (w AND 255 :: 'a :: len word) = (ucast w :: 8 word)"
proof -
  have mask: "(255 :: 'a word) = mask 8" by (simp add: mask_eq_exp_minus_1)
  show ?thesis
    unfolding mask by (auto intro!: bit_word_eqI simp: bit_simps dest: bit_imp_le_length)
qed

lemma put_u8_eq [parse_simps]: "put_u8 s v = s @ [v]"
  using ucast_and_255 [of v] by (simp add: put_u8_def unparse_int_def)

lemma put_u16_eq [parse_simps]: "put_u16 s v = s @ be16 v"
  by (simp add: put_u16_def unparse_int_def ucast_and_255 be16_def upt_rec)

lemma put_u32_eq [parse_simps]: "put_u32 s v = s @ be32 v"
  by (simp add: put_u32_def unparse_int_def ucast_and_255 be32_def upt_rec)

lemma length_be [simp]: "length (be16 v) = 2" "length (be32 w) = 4"
  by (simp_all add: be16_def be32_def)

lemma of_be16_be16 [simp]: "of_be16 (ucast (drop_bit 8 v)) (ucast v) = v"
  unfolding of_be16_def
  by (subst disjunctive_add) (auto simp: bit_simps intro!: bit_word_eqI dest: bit_imp_le_length)

lemma of_be32_or:
  "of_be32 a b c d =
     push_bit 24 (ucast a) OR push_bit 16 (ucast b) OR push_bit 8 (ucast c) OR ucast d"
proof -
  have 1: "push_bit 8 (ucast a) + ucast b = (push_bit 8 (ucast a) OR ucast b :: u32)"
    by (rule disjunctive_add) (auto simp: bit_simps dest: bit_imp_le_length)
  have 2: "push_bit 8 (push_bit 8 (ucast a) OR ucast b) + ucast c
      = (push_bit 8 (push_bit 8 (ucast a) OR ucast b) OR ucast c :: u32)"
    by (rule disjunctive_add) (auto simp: bit_simps dest: bit_imp_le_length)
  have 3: "push_bit 8 (push_bit 8 (push_bit 8 (ucast a) OR ucast b) OR ucast c) + ucast d
      = (push_bit 8 (push_bit 8 (push_bit 8 (ucast a) OR ucast b) OR ucast c) OR ucast d :: u32)"
    by (rule disjunctive_add) (auto simp: bit_simps dest: bit_imp_le_length)
  show ?thesis
    unfolding of_be32_def 1 2 3 by (simp add: push_bit_or or.assoc)
qed

lemma of_be32_be32 [simp]:
  "of_be32 (ucast (drop_bit 24 v)) (ucast (drop_bit 16 v)) (ucast (drop_bit 8 v)) (ucast v) = v"
proof (unfold of_be32_or, rule bit_word_eqI)
  fix n assume "n < LENGTH(32)"
  consider "n < 8" | "8 \<le> n" "n < 16" | "16 \<le> n" "n < 24" | "24 \<le> n" by linarith
  then show "bit (push_bit 24 (ucast (ucast (drop_bit 24 v) :: byte))
      OR push_bit 16 (ucast (ucast (drop_bit 16 v) :: byte))
      OR push_bit 8 (ucast (ucast (drop_bit 8 v) :: byte)) OR ucast (ucast v :: byte) :: u32) n = bit v n"
    by cases (use \<open>n < LENGTH(32)\<close> in \<open>auto simp: bit_simps\<close>)
qed

lemma of_be16_or: "of_be16 a b = push_bit 8 (ucast a) OR ucast b"
  unfolding of_be16_def
  by (rule disjunctive_add) (auto simp: bit_simps dest: bit_imp_le_length)

lemma take_bit_small_u8: "hl < 16 \<Longrightarrow> take_bit 4 (hl :: u8) = hl"
  by (rule unsigned_word_eqI [where 'a = int])
    (simp add: unsigned_take_bit_eq take_bit_int_eq_self_iff word_less_def)

lemma bit_byte_beyond:
  "\<not> bit (b :: byte) (8 + n)" "\<not> bit (b :: byte) (16 + n)" "\<not> bit (b :: byte) (24 + n)"
  by (auto dest: bit_imp_le_length)

lemma be16_of_be16 [simp]: "be16 (of_be16 a b) = [a, b]"
  unfolding be16_def of_be16_or
  by (auto intro!: bit_word_eqI simp: bit_simps bit_byte_beyond dest: bit_imp_le_length)

lemma be32_of_be32 [simp]: "be32 (of_be32 a b c d) = [a, b, c, d]"
  unfolding be32_def of_be32_or
  by (auto intro!: bit_word_eqI simp: bit_simps bit_byte_beyond dest: bit_imp_le_length)

section \<open>Advancing a parser\<close>

text \<open>
  Every successful read is \<open>np_adv\<close> by its number of bytes, so a chain of reads normalises to one
  \<open>np_adv\<close> and the values to bytes of the original string.
\<close>

definition np_adv :: "nat \<Rightarrow> net_parser \<Rightarrow> net_parser" where
  "np_adv n p = p\<lparr>np_buffer := projr (buffer_remove_prefix n (np_buffer p))\<rparr>"

lemma np_error_adv [simp]: "np_error (np_adv n p) = np_error p"
  by (simp add: np_adv_def)

lemma np_str_adv [simp]: "n \<le> length (np_str p) \<Longrightarrow> np_str (np_adv n p) = drop n (np_str p)"
  unfolding np_str_def np_adv_def by (auto elim: buffer_remove_prefix_ok)

lemma np_adv_adv [simp]:
  "n + m \<le> length (np_str p) \<Longrightarrow> np_adv m (np_adv n p) = np_adv (n + m) p"
  by (cases p)
    (auto simp: np_adv_def np_str_def buffer_str_def buffer_remove_prefix_def Let_def
      split: option.splits)

lemma np_new_simps [simp]:
  "np_error (np_new b) = NoError" "np_str (np_new b) = buffer_str b" "np_buffer (np_new b) = b"
  by (simp_all add: np_new_def np_str_def)

lemma buffer_size_np_str: "buffer_size (np_buffer p) = length (np_str p)"
  by (simp add: buffer_size_def np_str_def)

lemma buffer_at_np_str: "i < length (np_str p) \<Longrightarrow> buffer_at i (np_buffer p) = Inr (np_str p ! i)"
  by (simp add: buffer_at_def np_str_def)

lemma np_parse_int_ok:
  assumes "np_error p = NoError" and "LENGTH('a) div 8 \<le> length (np_str p)"
  shows "(np_parse_int p :: 'a :: len word \<times> net_parser) =
    (fold (\<lambda>i ret. push_bit 8 ret + ucast (np_str p ! i)) [0..<LENGTH('a) div 8] 0,
     np_adv (LENGTH('a) div 8) p)"
proof -
  have "fold (\<lambda>i ret. push_bit 8 ret + ucast (projr (buffer_at i (np_buffer p))))
        [0..<LENGTH('a) div 8] (0 :: 'a word)
      = fold (\<lambda>i ret. push_bit 8 ret + ucast (np_str p ! i)) [0..<LENGTH('a) div 8] 0"
    by (rule fold_cong) (use assms(2) in \<open>auto simp: buffer_at_np_str\<close>)
  then show ?thesis
    using assms by (simp add: np_parse_int_def np_check_size_def np_has_error_def np_adv_def
        buffer_size_np_str Let_def)
qed

lemma np_u8_ok [parse_simps]:
  "np_error p = NoError \<Longrightarrow> 1 \<le> length (np_str p) \<Longrightarrow> np_u8 p = (np_str p ! 0, np_adv 1 p)"
  using np_parse_int_ok [where 'a = 8, of p] by (simp add: np_u8_def)

lemma np_u16_ok [parse_simps]:
  "np_error p = NoError \<Longrightarrow> 2 \<le> length (np_str p) \<Longrightarrow>
   np_u16 p = (of_be16 (np_str p ! 0) (np_str p ! 1), np_adv 2 p)"
  using np_parse_int_ok [where 'a = 16, of p] by (simp add: np_u16_def upt_rec of_be16_def)

lemma np_u32_ok [parse_simps]:
  "np_error p = NoError \<Longrightarrow> 4 \<le> length (np_str p) \<Longrightarrow>
   np_u32 p = (of_be32 (np_str p ! 0) (np_str p ! 1) (np_str p ! 2) (np_str p ! 3), np_adv 4 p)"
proof -
  have "[0..<4] = [0, 1, 2, 3 :: nat]" by (simp add: upt_rec)
  then show "np_error p = NoError \<Longrightarrow> 4 \<le> length (np_str p) \<Longrightarrow> ?thesis"
    using np_parse_int_ok [where 'a = 32, of p] by (simp add: np_u32_def of_be32_def)
qed

lemma np_remove_prefix_ok [parse_simps]:
  "np_error p = NoError \<Longrightarrow> n \<le> length (np_str p) \<Longrightarrow> np_remove_prefix n p = np_adv n p"
  by (auto simp: np_remove_prefix_def np_check_size_def np_has_error_def np_adv_def
      buffer_size_np_str Let_def)

section \<open>Failed reads\<close>

text \<open>
  \<open>np_upto n p p'\<close>: the parser \<open>p'\<close> either is \<open>p\<close> advanced by \<open>n\<close> bytes that were there, or has
  the error \<open>PacketTooShort\<close>. Reads compose it, so a whole header does.
\<close>

definition np_upto :: "nat \<Rightarrow> net_parser \<Rightarrow> net_parser \<Rightarrow> bool" where
  "np_upto n p p' =
     (if np_error p = NoError \<and> n \<le> length (np_str p) then p' = np_adv n p
      else np_error p' \<noteq> NoError \<and>
        (np_error p \<in> {NoError, PacketTooShort} \<longrightarrow> np_error p' = PacketTooShort))"

lemma np_parse_int_upto:
  "np_upto (LENGTH('a) div 8) p (snd (np_parse_int p :: 'a :: len word \<times> net_parser))"
  by (auto simp: np_upto_def np_parse_int_def np_check_size_def np_has_error_def np_adv_def
      np_set_error_def buffer_size_np_str Let_def)

lemma np_upto_trans:
  assumes "np_upto n p q" and "np_upto m q r"
  shows "np_upto (n + m) p r"
proof (cases "np_error p = NoError \<and> n \<le> length (np_str p)")
  case True
  then have "q = np_adv n p" using assms(1) by (simp add: np_upto_def)
  then show ?thesis using True assms(2) by (auto simp: np_upto_def split: if_splits)
next
  case False
  then show ?thesis using assms by (auto simp: np_upto_def split: if_splits)
qed

lemma np_reads_upto [intro]:
  "np_upto 1 p (snd (np_u8 p))" "np_upto 2 p (snd (np_u16 p))" "np_upto 4 p (snd (np_u32 p))"
  "np_upto n p (np_remove_prefix n p)"
  using np_parse_int_upto [where 'a = 8, of p] np_parse_int_upto [where 'a = 16, of p]
    np_parse_int_upto [where 'a = 32, of p]
  by (auto simp: np_u8_def np_u16_def np_u32_def np_upto_def np_remove_prefix_def
      np_check_size_def np_has_error_def np_adv_def np_set_error_def buffer_size_np_str Let_def)

lemma np_upto_eqs:
  "np_u8 p = (v, p') \<Longrightarrow> np_upto 1 p p'"
  "np_u16 p = (w, p') \<Longrightarrow> np_upto 2 p p'"
  "np_u32 p = (x, p') \<Longrightarrow> np_upto 4 p p'"
  using np_reads_upto(1-3) [of p] by simp_all

section \<open>Every short read is reported\<close>

lemma np_upto_error:
  "np_upto n p p' \<Longrightarrow> np_error p = NoError \<Longrightarrow>
   np_error p' = (if n \<le> length (np_str p) then NoError else PacketTooShort)"
  by (auto simp: np_upto_def)

lemma np_upto_str:
  "np_upto n p p' \<Longrightarrow> np_error p = NoError \<Longrightarrow> n \<le> length (np_str p) \<Longrightarrow>
   p' = np_adv n p"
  by (auto simp: np_upto_def)

text \<open>The table of \<open>as_string\<close> has no entry for the last enumerator.\<close>

lemma as_string_unsupported: "as_string r = Inl e \<longleftrightarrow>
    r = Unsupported \<and> e = Undefined_Behaviour ''as_string: read past the end of _names''"
  by (cases r) (auto simp: as_string_def parse_result_names_def)

end
