(* ===== verification/Checksum.thy ===== *)
theory Checksum
  imports Net_Parser
begin

text \<open>
  \<open>InternetChecksum\<close> of \<open>libsponge/util/util.{hh,cc}\<close>: the running 32-bit sum with its byte
  parity, and the fold to 16 bits. \<open>word_sum\<close> is the reference: the sum over unbounded integers
  of the big-endian 16-bit words of a byte string.
\<close>

record internet_checksum =
  ck_sum :: u32
  ck_parity :: bool

definition ck_new :: "u32 \<Rightarrow> internet_checksum" where
  "ck_new initial_sum = \<lparr>ck_sum = initial_sum, ck_parity = False\<rparr>"

definition ck_add_byte :: "byte \<Rightarrow> internet_checksum \<Rightarrow> internet_checksum" where
  "ck_add_byte b c =
     (let val = (ucast b :: u16); val = (if \<not> ck_parity c then push_bit 8 val else val) in
      \<lparr>ck_sum = ck_sum c + ucast val, ck_parity = (\<not> ck_parity c)\<rparr>)"

definition ck_add :: "byte list \<Rightarrow> internet_checksum \<Rightarrow> internet_checksum" where
  "ck_add data c = fold ck_add_byte data c"

function ck_fold :: "u32 \<Rightarrow> u32" where
  "ck_fold ret = (if ret > 0xffff then ck_fold (drop_bit 16 ret + (ret AND 0xffff)) else ret)"
  by pat_completeness auto

text \<open>One round of the fold, over integers.\<close>

lemma fold_round_less: "65535 < x \<Longrightarrow> x div 65536 + x mod 65536 < (x :: int)"
proof -
  assume "65535 < x"
  then have "1 \<le> x div 65536" by simp
  moreover have "x = 65536 * (x div 65536) + x mod 65536" by simp
  ultimately show ?thesis by linarith
qed

lemma fold_round_pos: "65535 < x \<Longrightarrow> 0 < x div 65536 + x mod 65536" for x :: int
proof -
  assume "65535 < x"
  then have "1 \<le> x div 65536" by simp
  moreover have "0 \<le> x mod 65536" by simp
  ultimately show ?thesis by linarith
qed

lemma fold_round_cong: "(x div 65536 + x mod 65536) mod 65535 = x mod 65535" for x :: int
proof -
  have "x = 65535 * (x div 65536) + (x div 65536 + x mod 65536)" by simp
  then show ?thesis by (metis mod_mult_self4)
qed

lemma uint_fold_round:
  fixes ret :: u32
  shows "uint (drop_bit 16 ret + (ret AND 0xffff)) = uint ret div 65536 + uint ret mod 65536"
proof -
  have hi: "uint (drop_bit 16 ret) = uint ret div 65536"
    by (simp add: drop_bit_eq_div uint_div)
  have "(0xffff :: u32) = mask 16" by (simp add: mask_eq_exp_minus_1)
  then have "uint (ret AND 0xffff) = take_bit 16 (uint ret)"
    by (metis take_bit_eq_mask unsigned_take_bit_eq)
  then have lo: "uint (ret AND 0xffff) = uint ret mod 65536" by (simp add: take_bit_eq_mod)
  have "0 \<le> uint ret" "uint ret < 4294967296" using uint_lt2p [of ret] by simp_all
  then have "uint ret div 65536 < 65536" "0 \<le> uint ret div 65536"
    by (auto simp: pos_imp_zdiv_nonneg_iff)
  moreover have "uint ret mod 65536 < 65536" "0 \<le> uint ret mod 65536" by auto
  ultimately have "0 \<le> uint ret div 65536 + uint ret mod 65536"
    "uint ret div 65536 + uint ret mod 65536 < 4294967296" by linarith+
  then show ?thesis
    using hi lo by (simp add: uint_word_ariths)
qed

termination ck_fold
proof (relation "measure unat")
  fix ret :: u32
  assume "0xffff < ret"
  then have "0xffff < uint ret" by (simp add: word_less_def)
  then have "uint ret div 65536 + uint ret mod 65536 < uint ret" by (rule fold_round_less)
  then have "uint (drop_bit 16 ret + (ret AND 0xffff)) < uint ret"
    by (simp only: uint_fold_round)
  then show "(drop_bit 16 ret + (ret AND 0xffff), ret) \<in> measure unat"
    unfolding in_measure word_less_def [symmetric] by (rule unat_mono)
qed simp

declare ck_fold.simps [simp del]

definition ck_value :: "internet_checksum \<Rightarrow> u16" where
  "ck_value c = ucast (NOT (ck_fold (ck_sum c)))"

section \<open>The reference sum\<close>

fun word_sum :: "bool \<Rightarrow> byte list \<Rightarrow> int" where
  "word_sum odd_byte [] = 0"
| "word_sum odd_byte (b # bs) =
     (if odd_byte then uint b else 256 * uint b) + word_sum (\<not> odd_byte) bs"

definition ones_complement_fold :: "int \<Rightarrow> int" where
  "ones_complement_fold s = (if s = 0 then 0 else (s - 1) mod 65535 + 1)"

lemma word_sum_append [simp]:
  "word_sum p (xs @ ys) = word_sum p xs + word_sum (p \<noteq> odd (length xs)) ys"
proof (induction xs arbitrary: p)
  case (Cons x xs)
  then show ?case by (cases p; cases "even (length xs)") simp_all
qed simp

lemma word_sum_nonneg [simp]: "0 \<le> word_sum p xs"
  by (induction xs arbitrary: p) auto

lemma word_sum_le: "word_sum p xs \<le> 65280 * int (length xs)"
proof (induction xs arbitrary: p)
  case (Cons b bs)
  have "uint b \<le> 255" using uint_lt2p [of b] by simp
  then show ?case using Cons [of "\<not> p"] by (cases p) auto
qed simp

lemma word_sum_be16: "word_sum False (be16 v) = uint v"
proof -
  have "uint (ucast (drop_bit 8 v) :: byte) = uint v div 256"
  proof -
    have "uint v div 256 < 256" "0 \<le> uint v div 256" using uint_lt2p [of v]
      by (auto simp: pos_imp_zdiv_nonneg_iff)
    then show ?thesis
      by (simp add: unsigned_ucast_eq take_bit_eq_mod drop_bit_eq_div uint_div)
  qed
  moreover have "uint (ucast v :: byte) = uint v mod 256"
    by (simp add: unsigned_ucast_eq take_bit_eq_mod)
  ultimately show ?thesis by (simp add: be16_def)
qed

section \<open>The running sum\<close>

lemma ck_add_append: "ck_add (xs @ ys) c = ck_add ys (ck_add xs c)"
  by (simp add: ck_add_def)

lemma ck_add_byte_sum:
  "uint (ck_sum (ck_add_byte b c)) =
     (uint (ck_sum c) + (if ck_parity c then uint b else 256 * uint b)) mod 2 ^ 32"
proof -
  have b: "uint b < 256" using uint_lt2p [of b] by simp
  have low: "uint (ucast b :: u16) = uint b"
    using b by (simp add: unsigned_ucast_eq take_bit_eq_mod)
  moreover have "uint (push_bit 8 (ucast b) :: u16) = 256 * uint b"
    using b low by (simp add: push_bit_eq_mult uint_word_ariths)
  ultimately show ?thesis
    using b by (simp add: ck_add_byte_def Let_def uint_word_ariths unsigned_ucast_eq take_bit_eq_mod)
qed

lemma ck_add_spec:
  "uint (ck_sum (ck_add xs c)) = (uint (ck_sum c) + word_sum (ck_parity c) xs) mod 2 ^ 32
   \<and> ck_parity (ck_add xs c) = (ck_parity c \<noteq> odd (length xs))"
proof (induction xs arbitrary: c)
  case Nil
  then show ?case using uint_lt2p [of "ck_sum c"] by (simp add: ck_add_def)
next
  case (Cons b bs)
  have "ck_add (b # bs) c = ck_add bs (ck_add_byte b c)" by (simp add: ck_add_def)
  moreover have "ck_parity (ck_add_byte b c) = (\<not> ck_parity c)"
    by (simp add: ck_add_byte_def Let_def)
  ultimately show ?case
    using Cons [of "ck_add_byte b c"] by (auto simp: ck_add_byte_sum mod_simps add.assoc)
qed

section \<open>The fold\<close>

lemma ck_fold_spec:
  "uint (ck_fold r) \<le> 65535 \<and> uint (ck_fold r) mod 65535 = uint r mod 65535
   \<and> (uint (ck_fold r) = 0 \<longleftrightarrow> uint r = 0)"
proof (induction r rule: ck_fold.induct)
  case (1 r)
  show ?case
  proof (cases "r > 0xffff")
    case True
    then have big: "uint r > 65535" by (simp add: word_less_def)
    let ?r = "drop_bit 16 r + (r AND 0xffff)"
    have "uint ?r \<noteq> 0"
      unfolding uint_fold_round using fold_round_pos [OF big] by simp
    moreover have "uint ?r mod 65535 = uint r mod 65535"
      by (simp only: uint_fold_round fold_round_cong)
    moreover have "ck_fold r = ck_fold ?r" using True by (subst ck_fold.simps) simp
    ultimately show ?thesis using 1 [OF True] big by simp
  next
    case False
    then have "uint r \<le> 65535" by (simp add: word_less_def)
    moreover have "ck_fold r = r" using False by (subst ck_fold.simps) simp
    ultimately show ?thesis by simp
  qed
qed

lemma uint_ck_fold: "uint (ck_fold r) = ones_complement_fold (uint r)"
proof -
  let ?y = "uint (ck_fold r)" and ?x = "uint r"
  have y: "?y \<le> 65535" "?y mod 65535 = ?x mod 65535" "?y = 0 \<longleftrightarrow> ?x = 0" "0 \<le> ?y" "0 \<le> ?x"
    using ck_fold_spec [of r] by auto
  show ?thesis
  proof (cases "?x = 0")
    case False
    then have "0 < ?y" using y(3,4) by linarith
    then have "(?y - 1) mod 65535 = ?y - 1" using y(1) by (intro mod_pos_pos_trivial) auto
    moreover have "(?y - 1) mod 65535 = (?x - 1) mod 65535" using y(2) by (metis mod_diff_left_eq)
    ultimately show ?thesis using False by (simp add: ones_complement_fold_def)
  qed (use y in \<open>simp add: ones_complement_fold_def\<close>)
qed

lemma uint_ck_value: "uint (ck_value c) = 65535 - uint (ck_fold (ck_sum c))"
proof -
  let ?f = "ck_fold (ck_sum c)"
  have f: "uint ?f \<le> 65535" "0 \<le> uint ?f" using ck_fold_spec by auto
  have "(- uint ?f - 1) mod 65536 = 65535 - uint ?f"
  proof -
    have "(65535 - uint ?f) mod 65536 = 65535 - uint ?f"
      using f by (intro mod_pos_pos_trivial) linarith+
    moreover have "- uint ?f - 1 = (65535 - uint ?f) - 65536" by simp
    ultimately show ?thesis by (simp only: minus_mod_self2)
  qed
  moreover have "uint (ck_value c) = take_bit 16 (NOT (uint ?f))"
  proof -
    have "uint (ucast w :: u16) = take_bit 16 (uint w)" for w :: u32
      by (simp add: unsigned_ucast_eq)
    moreover have "uint (NOT ?f) = take_bit 32 (NOT (uint ?f))"
      by (simp add: unsigned_not_eq)
    ultimately show ?thesis by (simp only: ck_value_def) simp
  qed
  ultimately show ?thesis by (simp add: take_bit_eq_mod not_int_def)
qed

lemma pred_mod_65535: "(s - 1) mod 65535 = 65534 \<longleftrightarrow> s mod 65535 = 0" for s :: int
proof
  assume "(s - 1) mod 65535 = 65534"
  then show "s mod 65535 = 0" using mod_add_left_eq [of "s - 1" 65535 1] by simp
next
  assume "s mod 65535 = 0"
  then show "(s - 1) mod 65535 = 65534" using mod_diff_left_eq [of s 65535 1] by simp
qed

section \<open>What the checksum promises\<close>

lemma ck_value_reference:
  assumes "uint init + 65280 * int (length data) < 2 ^ 32"
  shows "uint (ck_value (ck_add data (ck_new init)))
    = 65535 - ones_complement_fold (uint init + word_sum False data)"
proof -
  have "uint init + word_sum False data < 2 ^ 32" "0 \<le> uint init + word_sum False data"
    using assms word_sum_le [of False data] word_sum_nonneg [of False data] by auto
  then have "uint (ck_sum (ck_add data (ck_new init))) = uint init + word_sum False data"
    using ck_add_spec [of data "ck_new init"] by (simp add: ck_new_def)
  then show ?thesis by (simp add: uint_ck_value uint_ck_fold)
qed

text \<open>A string verifies when its words sum to a positive multiple of 65535.\<close>

lemma ck_value_zero_iff:
  assumes "uint init + 65280 * int (length data) < 2 ^ 32"
  shows "ck_value (ck_add data (ck_new init)) = 0 \<longleftrightarrow>
    uint init + word_sum False data > 0 \<and> (uint init + word_sum False data) mod 65535 = 0"
proof -
  let ?s = "uint init + word_sum False data"
  have pos: "0 \<le> ?s" using word_sum_nonneg [of False data] by simp
  have "ck_value (ck_add data (ck_new init)) = 0 \<longleftrightarrow> ones_complement_fold ?s = 65535"
    using ck_value_reference [OF assms]
      unsigned_eq_0_iff [of "ck_value (ck_add data (ck_new init))", where 'a = int] by auto
  also have "\<dots> \<longleftrightarrow> ?s \<noteq> 0 \<and> (?s - 1) mod 65535 = 65534"
    by (auto simp: ones_complement_fold_def)
  also have "(?s - 1) mod 65535 = 65534 \<longleftrightarrow> ?s mod 65535 = 0"
    by (rule pred_mod_65535)
  finally show ?thesis using pos by linarith
qed

lemma ones_complement_fold_cases:
  assumes "0 \<le> s"
  shows "0 \<le> ones_complement_fold s" and "ones_complement_fold s \<le> 65535"
    and "ones_complement_fold s mod 65535 = s mod 65535"
proof -
  have "0 \<le> (s - 1) mod 65535" "(s - 1) mod 65535 < 65535" by simp_all
  then have "0 \<le> (s - 1) mod 65535 + 1" "(s - 1) mod 65535 + 1 \<le> 65535" by linarith+
  then have "0 \<le> ones_complement_fold s \<and> ones_complement_fold s \<le> 65535"
    by (cases "s = 0") (simp_all only: ones_complement_fold_def if_True if_False simp_thms, simp)
  then show "0 \<le> ones_complement_fold s" "ones_complement_fold s \<le> 65535" by blast+
  show "ones_complement_fold s mod 65535 = s mod 65535"
    using mod_add_left_eq [of "s - 1" 65535 1] by (simp add: ones_complement_fold_def)
qed

text \<open>Writing the computed value over an aligned zero field makes the whole string verify.\<close>

lemma ck_inserted:
  assumes bound: "uint init + 65280 * int (length pre + 2 + length post) < 2 ^ 32"
    and even: "even (length pre)"
    and v: "v = ck_value (ck_add (pre @ [0, 0] @ post) (ck_new init))"
  shows "ck_value (ck_add (pre @ be16 v @ post) (ck_new init)) = 0"
proof -
  let ?s = "uint init + word_sum False (pre @ [0, 0] @ post)"
  have s0: "0 \<le> ?s" using word_sum_nonneg [of False "pre @ [0, 0] @ post"] by simp
  have uv: "uint v = 65535 - ones_complement_fold ?s"
    unfolding v by (rule ck_value_reference) (use bound in simp)
  have sum: "uint init + word_sum False (pre @ be16 v @ post) = ?s + uint v"
    using even word_sum_be16 [of v] by (simp add: numeral_2_eq_2)
  have "(?s + uint v) mod 65535 = 0"
  proof -
    have "(?s + uint v) mod 65535 = (ones_complement_fold ?s + uint v) mod 65535"
      by (rule mod_add_cong) (simp_all only: ones_complement_fold_cases(3) [OF s0])
    also have "ones_complement_fold ?s + uint v = 65535" unfolding uv by simp
    finally show ?thesis by simp
  qed
  moreover have "?s + uint v \<noteq> 0"
  proof
    assume "?s + uint v = 0"
    then have "?s = 0" "uint v = 0" using s0 uint_ge_0 [of v] by linarith+
    then show False using uv by (simp add: ones_complement_fold_def)
  qed
  moreover have "?s + uint v \<ge> 0" using s0 uint_ge_0 [of v] by linarith
  ultimately have "?s + uint v > 0 \<and> (?s + uint v) mod 65535 = 0" by linarith
  moreover have "uint init + 65280 * int (length (pre @ be16 v @ post)) < 2 ^ 32"
    using bound by simp
  ultimately show ?thesis
    using sum by (simp only: ck_value_zero_iff)
qed

text \<open>C17: The 16-bit checksum computed by the running 32-bit sum and the folding loop is the
  one's complement of the one's-complement sum of the big-endian 16-bit words (an odd last byte
  counts as the high byte), as long as the 32-bit sum cannot overflow; any datagram of at most
  65535 bytes with a pseudo-header is within the bound.\<close>

theorem checksum_reference:
  assumes "uint init + 65280 * int (length data) < 2 ^ 32"
  shows "uint (ck_value (ck_add data (ck_new init)))
    = 65535 - ones_complement_fold (uint init + word_sum False data)"
  using assms by (rule ck_value_reference)

theorem checksum_reference_witness:
  "uint (ck_value (ck_add [0x45, 0, 1] (ck_new 0x12345)))
    = 65535 - ones_complement_fold (uint (0x12345 :: u32) + word_sum False [0x45, 0, 1])
   \<and> 65535 - ones_complement_fold (uint (0x12345 :: u32) + word_sum False [0x45, 0, 1]) = 0x96B9"
  by (intro conjI checksum_reference) (simp_all add: ones_complement_fold_def)

text \<open>The checksum detects every corruption of a single byte: if a string verifies to zero,
  no string that differs from it in exactly one byte does.\<close>

theorem checksum_detects_byte_error:
  assumes "uint init + 65280 * int (length pre + 1 + length post) < 2 ^ 32"
    and "ck_value (ck_add (pre @ b # post) (ck_new init)) = 0" and "b' \<noteq> b"
  shows "ck_value (ck_add (pre @ b' # post) (ck_new init)) \<noteq> 0"
proof
  assume z: "ck_value (ck_add (pre @ b' # post) (ck_new init)) = 0"
  define w :: int where "w = (if odd (length pre) then 1 else 256)"
  let ?s = "\<lambda>b. uint init + word_sum False (pre @ b # post)"
  have diff: "?s b - ?s b' = w * (uint b - uint b')"
    by (simp add: w_def algebra_simps)
  have "?s b mod 65535 = 0" if "ck_value (ck_add (pre @ b # post) (ck_new init)) = 0" for b
    using assms(1) that ck_value_zero_iff [of init "pre @ b # post"] by simp
  then have "?s b mod 65535 = 0" "?s b' mod 65535 = 0" using assms(2) z by blast+
  then have "65535 dvd w * (uint b - uint b')" by (metis diff dvd_diff dvd_eq_mod_eq_0)
  moreover have "\<bar>w * (uint b - uint b')\<bar> < 65535"
  proof -
    have "uint b < 256" "uint b' < 256" using uint_lt2p [of b] uint_lt2p [of b'] by simp_all
    then have "\<bar>uint b - uint b'\<bar> \<le> 255" using uint_ge_0 [of b] uint_ge_0 [of b'] by linarith
    then show ?thesis by (auto simp: w_def abs_mult)
  qed
  moreover have "w * (uint b - uint b') \<noteq> 0"
    using assms(3) unsigned_word_eqI [of b b', where 'a = int] by (auto simp: w_def)
  ultimately show False using zdvd_not_zless [of "\<bar>w * (uint b - uint b')\<bar>" 65535] by simp
qed

theorem checksum_detects_byte_error_witness:
  "ck_value (ck_add ([1, 2] @ 0x34 # [4, 0xcb, 0xf9]) (ck_new 0)) \<noteq> 0"
  using checksum_detects_byte_error [of 0 "[1, 2]" "[4, 0xcb, 0xf9]" "0x33" "0x34"]
  by (simp add: ck_value_zero_iff)

end
