(* ===== verification/Wrapping_Integers.thy ===== *)
theory Wrapping_Integers
  imports Sponge_Prelude
begin

text \<open>
  \<open>libsponge/wrapping_integers.{hh,cc}\<close>: 32-bit sequence numbers relative to an initial sequence
  number, and their conversion to and from 64-bit absolute sequence numbers. Everything is kept
  at the width of the code: \<open>uint32_t\<close> as \<open>32 word\<close>, \<open>uint64_t\<close> as \<open>64 word\<close>.
\<close>

datatype wrapping_int32 = WrappingInt32 (raw_value: u32)

definition wi_minus :: "wrapping_int32 \<Rightarrow> wrapping_int32 \<Rightarrow> int" where
  "wi_minus a b = sint (raw_value a - raw_value b)"

definition wi_plus :: "wrapping_int32 \<Rightarrow> u32 \<Rightarrow> wrapping_int32" where
  "wi_plus a b = WrappingInt32 (raw_value a + b)"

definition wi_minus_u32 :: "wrapping_int32 \<Rightarrow> u32 \<Rightarrow> wrapping_int32" where
  "wi_minus_u32 a b = wi_plus a (- b)"

definition wrap :: "u64 \<Rightarrow> wrapping_int32 \<Rightarrow> wrapping_int32" where
  "wrap n isn =
     (let isn64 = (ucast (raw_value isn) :: u64)
      in WrappingInt32 (ucast (n mod push_bit 32 1 + isn64)))"

definition unwrap :: "wrapping_int32 \<Rightarrow> wrapping_int32 \<Rightarrow> u64 \<Rightarrow> u64" where
  "unwrap n isn checkpoint =
     (let diff = (ucast (raw_value n - raw_value (wrap checkpoint isn)) :: u64);
          res = diff + checkpoint
      in if diff \<ge> push_bit 31 1 \<and> res \<ge> push_bit 32 1 then res - push_bit 32 1 else res)"

section \<open>Reading words of different widths as integers\<close>

lemma uint_up [simp]: "uint (ucast (w :: 32 word) :: 64 word) = uint w"
proof -
  have "uint w < 2 ^ 32" using uint_lt2p [of w] by simp
  then show ?thesis by (simp add: unsigned_ucast_eq take_bit_eq_mod)
qed

lemma uint_down: "uint (ucast (w :: 64 word) :: 32 word) = uint w mod 2 ^ 32"
  by (simp add: unsigned_ucast_eq take_bit_eq_mod)

lemma uint_u64_bounds: "0 \<le> uint (w :: 64 word)" "uint (w :: 64 word) < 2 ^ 64"
  using uint_lt2p [of w] by simp_all

lemma uint_u32_bounds: "0 \<le> uint (w :: 32 word)" "uint (w :: 32 word) < 2 ^ 32"
  using uint_lt2p [of w] by simp_all

lemma uint_raw_wrap:
  "uint (raw_value (wrap n isn)) = (uint n + uint (raw_value isn)) mod 2 ^ 32"
proof -
  have "uint (n mod push_bit 32 1 + ucast (raw_value isn)) =
      (uint n mod 2 ^ 32 + uint (raw_value isn)) mod 2 ^ 64"
    by (simp add: uint_word_ariths uint_mod)
  then show ?thesis
    by (simp add: wrap_def Let_def uint_down mod_mod_cancel mod_add_left_eq)
qed

definition seq_diff :: "wrapping_int32 \<Rightarrow> wrapping_int32 \<Rightarrow> int \<Rightarrow> int" where
  "seq_diff n isn c = (uint (raw_value n) - uint (raw_value isn) - c) mod 2 ^ 32"

lemma uint_unwrap:
  "uint (unwrap n isn c) =
     (let d = seq_diff n isn (uint c); r = (d + uint c) mod 2 ^ 64
      in if d \<ge> 2 ^ 31 \<and> r \<ge> 2 ^ 32 then r - 2 ^ 32 else r)"
proof -
  let ?d = "ucast (raw_value n - raw_value (wrap c isn)) :: u64"
  have d: "uint ?d = seq_diff n isn (uint c)"
    by (simp add: uint_word_ariths uint_raw_wrap seq_diff_def mod_simps algebra_simps)
  have r: "uint (?d + c) = (seq_diff n isn (uint c) + uint c) mod 2 ^ 64"
    unfolding uint_word_ariths(1) d by simp
  have s: "uint (?d + c - push_bit 32 1) = uint (?d + c) - 2 ^ 32" if "2 ^ 32 \<le> uint (?d + c)"
    using that uint_u64_bounds [of "?d + c"]
    by (simp only: uint_word_ariths) (simp add: mod_pos_pos_trivial)
  show ?thesis
    unfolding unwrap_def Let_def
    using d r s by (simp add: word_le_def)
qed

lemma seq_diff_bounds: "0 \<le> seq_diff n isn c" "seq_diff n isn c < 2 ^ 32"
  by (simp_all add: seq_diff_def)

lemma wrap_eq_iff:
  "wrap x isn = n \<longleftrightarrow> (uint x - c) mod 2 ^ 32 = seq_diff n isn c"
proof -
  have "wrap x isn = n \<longleftrightarrow> uint (raw_value (wrap x isn)) = uint (raw_value n)"
    by (metis unsigned_word_eqI wrapping_int32.expand)
  also have "\<dots> \<longleftrightarrow> (uint x + uint (raw_value isn)) mod 2 ^ 32 = uint (raw_value n) mod 2 ^ 32"
    using uint_u32_bounds [of "raw_value n"] by (simp add: uint_raw_wrap)
  also have "\<dots> \<longleftrightarrow> (uint x - c) mod 2 ^ 32 = seq_diff n isn c"
    unfolding seq_diff_def mod_eq_dvd_iff by (simp add: algebra_simps)
  finally show ?thesis .
qed

text \<open>
  The distance of \<open>unwrap\<close> from its checkpoint, in the range where the 64-bit sum cannot wrap:
  the residue \<open>d\<close> itself or \<open>d - 2^32\<close>, whichever is closer and gives a number that exists.
\<close>

lemma uint_unwrap_in_range:
  assumes "uint c + 2 ^ 32 \<le> 2 ^ 64"
  shows "uint (unwrap n isn c) =
    (let d = seq_diff n isn (uint c)
     in if d \<ge> 2 ^ 31 \<and> d + uint c \<ge> 2 ^ 32 then d + uint c - 2 ^ 32 else d + uint c)"
proof -
  have "(seq_diff n isn (uint c) + uint c) mod 2 ^ 64 = seq_diff n isn (uint c) + uint c"
    using seq_diff_bounds [of n isn "uint c"] uint_u64_bounds [of c] assms
    by (intro mod_pos_pos_trivial) linarith+
  then show ?thesis unfolding uint_unwrap Let_def by simp
qed

lemma unwrap_congruent: "(uint (unwrap n isn c) - uint c) mod 2 ^ 32 = seq_diff n isn (uint c)"
proof -
  let ?d = "seq_diff n isn (uint c)"
  have "(?d + uint c) mod 2 ^ 64 mod 2 ^ 32 = (?d + uint c) mod 2 ^ 32"
    by (rule mod_mod_cancel) simp
  then have "uint (unwrap n isn c) mod 2 ^ 32 = (?d + uint c) mod 2 ^ 32"
    by (simp add: uint_unwrap Let_def)
  then have "(uint (unwrap n isn c) - uint c) mod 2 ^ 32 = (?d + uint c - uint c) mod 2 ^ 32"
    by (rule mod_diff_cong) simp
  then show ?thesis using seq_diff_bounds [of n isn "uint c"] by simp
qed

lemma unwrap_nearest:
  assumes c: "uint c + 2 ^ 32 \<le> 2 ^ 64" and x: "wrap x isn = n"
  shows "\<bar>uint (unwrap n isn c) - uint c\<bar> \<le> \<bar>uint x - uint c\<bar>"
proof -
  define d where "d = seq_diff n isn (uint c)"
  define q where "q = (uint x - uint c) div 2 ^ 32"
  have d: "0 \<le> d" "d < 2 ^ 32" using seq_diff_bounds by (simp_all add: d_def)
  have "(uint x - uint c) mod 2 ^ 32 = d"
    using x wrap_eq_iff unfolding d_def by blast
  then have eq: "uint x - uint c = 2 ^ 32 * q + d"
    unfolding q_def by (metis mult_div_mod_eq)
  have "0 \<le> uint x" by (simp add: uint_u64_bounds)
  have "uint (unwrap n isn c) =
      (if d \<ge> 2 ^ 31 \<and> d + uint c \<ge> 2 ^ 32 then d + uint c - 2 ^ 32 else d + uint c)"
    using uint_unwrap_in_range [OF c] by (simp add: d_def Let_def)
  then have u: "uint (unwrap n isn c) - uint c = (if d \<ge> 2 ^ 31 \<and> d + uint c \<ge> 2 ^ 32 then d - 2 ^ 32 else d)"
    by simp
  consider "q = 0" | "1 \<le> q" | "q \<le> - 1" by linarith
  then show ?thesis
  proof cases
    case 1
    then show ?thesis using u d eq by simp
  next
    case 2
    then have "2 ^ 32 \<le> uint x - uint c" using d eq by simp
    then show ?thesis using u d by simp
  next
    case 3
    then have "uint x - uint c \<le> d - 2 ^ 32" using eq by simp
    moreover from this have "2 ^ 32 \<le> d + uint c" using \<open>0 \<le> uint x\<close> by linarith
    ultimately show ?thesis using u d by simp
  qed
qed

section \<open>Properties\<close>

text \<open>Whatever the checkpoint, \<open>unwrap\<close> returns an absolute sequence number that
  wraps back to its argument.\<close>

theorem wrap_unwrap: "wrap (unwrap n isn checkpoint) isn = n"
  unfolding wrap_eq_iff [of _ _ _ "uint checkpoint"] by (rule unwrap_congruent)

text \<open>(closest) Below the last \<open>2^32\<close> absolute sequence numbers, \<open>unwrap\<close> returns the closest
  one to the checkpoint: no other absolute number that wraps to the same sequence number is nearer.\<close>

theorem unwrap_closest:
  assumes "uint checkpoint + 2 ^ 32 \<le> 2 ^ 64" and "wrap x isn = n"
  shows "\<bar>uint (unwrap n isn checkpoint) - uint checkpoint\<bar> \<le> \<bar>uint x - uint checkpoint\<bar>"
  by (rule unwrap_nearest [OF assms])

theorem unwrap_closest_witness:
  "\<bar>uint (unwrap (WrappingInt32 17) (WrappingInt32 10) 4294967299) - uint (4294967299 :: u64)\<bar>
    \<le> \<bar>uint (7 :: u64) - uint (4294967299 :: u64)\<bar>"
  by (rule unwrap_closest) (simp_all add: wrap_def)

lemma unwrap_of_wrap:
  assumes "uint c + 2 ^ 32 \<le> 2 ^ 64" and "\<bar>uint x - uint c\<bar> < 2 ^ 31"
  shows "unwrap (wrap x isn) isn c = x"
proof -
  define y where "y = unwrap (wrap x isn) isn c"
  have "\<bar>uint y - uint c\<bar> \<le> \<bar>uint x - uint c\<bar>"
    unfolding y_def by (rule unwrap_nearest [OF assms(1) refl])
  moreover have "(uint y - uint c) mod 2 ^ 32 = (uint x - uint c) mod 2 ^ 32"
    unfolding y_def unwrap_congruent using wrap_eq_iff by metis
  then have "2 ^ 32 dvd uint y - uint x"
    by (simp add: mod_eq_dvd_iff)
  then obtain k where "uint y - uint x = 2 ^ 32 * k" by (elim dvdE)
  ultimately have "uint y = uint x"
    using assms(2) by (cases "k = 0") (auto simp: abs_if split: if_splits)
  then show ?thesis unfolding y_def by (rule unsigned_word_eqI)
qed

text \<open>C14: (round trip) An absolute sequence number within \<open>2^31\<close> of the checkpoint survives being
  wrapped to 32 bits and unwrapped, whatever the initial sequence number.\<close>

theorem unwrap_wrap:
  assumes "uint checkpoint + 2 ^ 32 \<le> 2 ^ 64" and "\<bar>uint x - uint checkpoint\<bar> < 2 ^ 31"
  shows "unwrap (wrap x isn) isn checkpoint = x"
  by (rule unwrap_of_wrap [OF assms])

theorem unwrap_wrap_witness:
  "unwrap (wrap 8589934599 (WrappingInt32 4000000000)) (WrappingInt32 4000000000) 8589934590 = 8589934599"
  by (rule unwrap_wrap) simp_all

end
