(* ===== verification/TCP_Segment.thy ===== *)
theory TCP_Segment
  imports Checksum Wrapping_Integers
begin

text \<open>
  \<open>libsponge/tcp_helpers/tcp_header.{hh,cc}\<close>, \<open>tcp_segment.{hh,cc}\<close> and the constants of
  \<open>tcp_config.hh\<close>: the TCP header and segment, parsed and serialised with the pseudo checksum of
  the layer below.
\<close>

section \<open>TCPConfig\<close>

definition DEFAULT_CAPACITY :: nat where "DEFAULT_CAPACITY = 64000"
definition MAX_PAYLOAD_SIZE :: nat where "MAX_PAYLOAD_SIZE = 1000"
definition TIMEOUT_DFLT :: u16 where "TIMEOUT_DFLT = 1000"
definition MAX_RETX_ATTEMPTS :: u32 where "MAX_RETX_ATTEMPTS = 8"

record tcp_config =
  rt_timeout :: u16
  recv_capacity :: nat
  send_capacity :: nat
  fixed_isn :: "wrapping_int32 option"

definition tcp_config_default :: tcp_config where
  "tcp_config_default = \<lparr>rt_timeout = TIMEOUT_DFLT, recv_capacity = DEFAULT_CAPACITY,
     send_capacity = DEFAULT_CAPACITY, fixed_isn = None\<rparr>"

section \<open>TCPHeader\<close>

record tcp_header =
  th_sport :: u16
  th_dport :: u16
  th_seqno :: wrapping_int32
  th_ackno :: wrapping_int32
  th_doff :: u8
  th_urg :: bool
  th_ack :: bool
  th_psh :: bool
  th_rst :: bool
  th_syn :: bool
  th_fin :: bool
  th_win :: u16
  th_cksum :: u16
  th_uptr :: u16

definition th_LENGTH :: nat where "th_LENGTH = 20"

definition th_new :: tcp_header where
  "th_new = \<lparr>th_sport = 0, th_dport = 0, th_seqno = WrappingInt32 0, th_ackno = WrappingInt32 0,
     th_doff = of_nat (th_LENGTH div 4), th_urg = False, th_ack = False, th_psh = False,
     th_rst = False, th_syn = False, th_fin = False, th_win = 0, th_cksum = 0, th_uptr = 0\<rparr>"

definition th_parse :: "tcp_header \<Rightarrow> net_parser \<Rightarrow> parse_result \<times> tcp_header \<times> net_parser" where
  "th_parse h p =
     (let (sport, p) = np_u16 p;
          (dport, p) = np_u16 p;
          (seqno, p) = np_u32 p;
          (ackno, p) = np_u32 p;
          (doff_b, p) = np_u8 p;
          doff = drop_bit 4 doff_b;
          (fl_b, p) = np_u8 p;
          (win, p) = np_u16 p;
          (cksum, p) = np_u16 p;
          (uptr, p) = np_u16 p;
          h = \<lparr>th_sport = sport, th_dport = dport, th_seqno = WrappingInt32 seqno,
               th_ackno = WrappingInt32 ackno, th_doff = doff,
               th_urg = (fl_b AND 0x20 \<noteq> 0), th_ack = (fl_b AND 0x10 \<noteq> 0),
               th_psh = (fl_b AND 0x08 \<noteq> 0), th_rst = (fl_b AND 0x04 \<noteq> 0),
               th_syn = (fl_b AND 0x02 \<noteq> 0), th_fin = (fl_b AND 0x01 \<noteq> 0),
               th_win = win, th_cksum = cksum, th_uptr = uptr\<rparr> in
      if doff < 5 then (HeaderTooShort, h, p)
      else
        let p = np_remove_prefix (unat doff * 4 - th_LENGTH) p in
        if np_has_error p then (np_error p, h, p) else (NoError, h, p))"

definition th_flags :: "tcp_header \<Rightarrow> u8" where
  "th_flags h = (if th_urg h then 0x20 else 0) OR (if th_ack h then 0x10 else 0)
     OR (if th_psh h then 0x08 else 0) OR (if th_rst h then 0x04 else 0)
     OR (if th_syn h then 0x02 else 0) OR (if th_fin h then 0x01 else 0)"

definition th_serialize :: "tcp_header \<Rightarrow> exn + byte list" where
  "th_serialize h =
     (if th_doff h < 5 then Inl (Runtime_Error ''TCP header too short'')
      else
        let ret = put_u16 [] (th_sport h);
            ret = put_u16 ret (th_dport h);
            ret = put_u32 ret (raw_value (th_seqno h));
            ret = put_u32 ret (raw_value (th_ackno h));
            ret = put_u8 ret (push_bit 4 (th_doff h));
            fl_b = th_flags h;
            ret = put_u8 ret fl_b;
            ret = put_u16 ret (th_win h);
            ret = put_u16 ret (th_cksum h);
            ret = put_u16 ret (th_uptr h) in
        Inr (str_resize (4 * unat (th_doff h)) ret))"

text \<open>\<open>operator==\<close> leaves out the ports and the checksum.\<close>

definition th_eq :: "tcp_header \<Rightarrow> tcp_header \<Rightarrow> bool" where
  "th_eq a b =
     (th_seqno a = th_seqno b \<and> th_ackno a = th_ackno b \<and> th_doff a = th_doff b \<and>
      th_urg a = th_urg b \<and> th_ack a = th_ack b \<and> th_psh a = th_psh b \<and> th_rst a = th_rst b \<and>
      th_syn a = th_syn b \<and> th_fin a = th_fin b \<and> th_win a = th_win b \<and> th_uptr a = th_uptr b)"

section \<open>TCPSegment\<close>

record tcp_segment =
  seg_header :: tcp_header
  seg_payload :: buffer

definition seg_new :: tcp_segment where
  "seg_new = \<lparr>seg_header = th_new, seg_payload = empty_buffer\<rparr>"

definition seg_parse :: "buffer \<Rightarrow> u32 \<Rightarrow> tcp_segment \<Rightarrow> parse_result \<times> tcp_segment" where
  "seg_parse buffer datagram_layer_checksum seg =
     (let check = ck_add (buffer_str buffer) (ck_new datagram_layer_checksum) in
      if ck_value check \<noteq> 0 then (BadChecksum, seg)
      else
        let p = np_new buffer;
            (_, h, p) = th_parse (seg_header seg) p in
        (np_error p, \<lparr>seg_header = h, seg_payload = np_buffer p\<rparr>))"

definition length_in_sequence_space :: "tcp_segment \<Rightarrow> nat" where
  "length_in_sequence_space seg =
     length (buffer_str (seg_payload seg)) + (if th_syn (seg_header seg) then 1 else 0)
       + (if th_fin (seg_header seg) then 1 else 0)"

definition seg_serialize :: "u32 \<Rightarrow> tcp_segment \<Rightarrow> exn + buffer_list" where
  "seg_serialize datagram_layer_checksum seg =
     (let header_out = (seg_header seg)\<lparr>th_cksum := 0\<rparr> in
      case th_serialize header_out of
        Inl e \<Rightarrow> Inl e
      | Inr s \<Rightarrow>
          let check = ck_add s (ck_new datagram_layer_checksum);
              check = ck_add (buffer_str (seg_payload seg)) check;
              header_out = header_out\<lparr>th_cksum := ck_value check\<rparr> in
          (case th_serialize header_out of
             Inl e \<Rightarrow> Inl e
           | Inr s \<Rightarrow> Inr (bl_append (bl_append [] (bl_of_string s)) (bl_of_buffer (seg_payload seg)))))"

section \<open>The wire format of the header\<close>

definition th_ok :: "tcp_header \<Rightarrow> bool" where
  "th_ok h = (5 \<le> th_doff h \<and> th_doff h < 16)"

definition th_front :: "tcp_header \<Rightarrow> byte list" where
  "th_front h = be16 (th_sport h) @ be16 (th_dport h) @ be32 (raw_value (th_seqno h)) @
     be32 (raw_value (th_ackno h)) @ [push_bit 4 (th_doff h), th_flags h] @ be16 (th_win h)"

definition th_back :: "tcp_header \<Rightarrow> byte list" where
  "th_back h = be16 (th_uptr h) @ replicate (4 * unat (th_doff h) - 20) 0"

definition th_wire :: "tcp_header \<Rightarrow> byte list" where
  "th_wire h = th_front h @ be16 (th_cksum h) @ th_back h"

lemma length_th_wire [simp]:
  "5 \<le> unat (th_doff h) \<Longrightarrow> length (th_wire h) = 4 * unat (th_doff h)"
  "length (th_front h) = 16"
  by (simp_all add: th_wire_def th_front_def th_back_def)

lemma th_ok_doff: "th_ok h \<Longrightarrow> 5 \<le> unat (th_doff h) \<and> unat (th_doff h) \<le> 15"
  by (auto simp: th_ok_def word_le_nat_alt word_less_nat_alt)

lemma th_serialize_eq:
  "th_serialize h = (if th_doff h < 5 then Inl (Runtime_Error ''TCP header too short'')
     else Inr (th_wire h))"
  by (auto simp: th_serialize_def parse_simps Let_def str_resize_def th_wire_def th_front_def
      th_back_def word_less_nat_alt not_less)

lemma th_flags_bits:
  "th_flags h AND 0x20 \<noteq> 0 \<longleftrightarrow> th_urg h" "th_flags h AND 0x10 \<noteq> 0 \<longleftrightarrow> th_ack h"
  "th_flags h AND 0x08 \<noteq> 0 \<longleftrightarrow> th_psh h" "th_flags h AND 0x04 \<noteq> 0 \<longleftrightarrow> th_rst h"
  "th_flags h AND 0x02 \<noteq> 0 \<longleftrightarrow> th_syn h" "th_flags h AND 0x01 \<noteq> 0 \<longleftrightarrow> th_fin h"
  by (auto simp: th_flags_def)

lemma th_doff_bits:
  assumes "th_ok h" shows "drop_bit 4 (push_bit 4 (th_doff h)) = th_doff h"
  using assms take_bit_small_u8 [of "th_doff h"]
  by (auto simp: th_ok_def bit_simps intro!: bit_word_eqI dest: bit_imp_le_length)
    (metis bit_take_bit_iff)

section \<open>Parsing\<close>

lemma th_parse_wire:
  assumes e: "np_error p = NoError" and s: "np_str p = th_wire h @ rest" and ok: "th_ok h"
  shows "th_parse h' p = (NoError, h, np_adv (4 * unat (th_doff h)) p)"
proof -
  define d where "d = unat (th_doff h)"
  have d: "5 \<le> d" "\<not> th_doff h < 5"
    using th_ok_doff [OF ok] ok by (simp_all add: d_def th_ok_def not_less)
  have len: "length (np_str p) = 4 * d + length rest" using d by (simp add: s d_def)
  have str: "np_str p = ucast (drop_bit 8 (th_sport h)) # ucast (th_sport h)
      # ucast (drop_bit 8 (th_dport h)) # ucast (th_dport h)
      # ucast (drop_bit 24 (raw_value (th_seqno h))) # ucast (drop_bit 16 (raw_value (th_seqno h)))
      # ucast (drop_bit 8 (raw_value (th_seqno h))) # ucast (raw_value (th_seqno h))
      # ucast (drop_bit 24 (raw_value (th_ackno h))) # ucast (drop_bit 16 (raw_value (th_ackno h)))
      # ucast (drop_bit 8 (raw_value (th_ackno h))) # ucast (raw_value (th_ackno h))
      # push_bit 4 (th_doff h) # th_flags h
      # ucast (drop_bit 8 (th_win h)) # ucast (th_win h)
      # ucast (drop_bit 8 (th_cksum h)) # ucast (th_cksum h)
      # ucast (drop_bit 8 (th_uptr h)) # ucast (th_uptr h)
      # replicate (4 * d - 20) 0 @ rest"
    by (simp add: s th_wire_def th_front_def th_back_def be16_def be32_def d_def)
  have fields: "\<lparr>th_sport = th_sport h, th_dport = th_dport h, th_seqno = WrappingInt32 (raw_value (th_seqno h)),
      th_ackno = WrappingInt32 (raw_value (th_ackno h)), th_doff = th_doff h, th_urg = th_urg h,
      th_ack = th_ack h, th_psh = th_psh h, th_rst = th_rst h, th_syn = th_syn h,
      th_fin = th_fin h, th_win = th_win h, th_cksum = th_cksum h, th_uptr = th_uptr h\<rparr> = h"
    by simp
  show ?thesis
    using e d len
    by (simp add: th_parse_def th_LENGTH_def parse_simps Let_def str np_has_error_def fields
        th_doff_bits [OF ok] th_flags_bits mult.commute [of d] d_def [symmetric])
qed

definition th_get :: "byte list \<Rightarrow> (tcp_header \<times> byte list) option" where
  "th_get bs =
     (let (r, h, p) = th_parse th_new (np_new (buffer_of_string bs)) in
      if r = NoError then Some (h, np_str p) else None)"

interpretation th_codec: codec th_ok th_wire th_get
proof
  fix h rest
  assume ok: "th_ok h"
  let ?p = "np_new (buffer_of_string (th_wire h @ rest))"
  show "th_get (th_wire h @ rest) = Some (h, rest)"
    using th_parse_wire [of ?p h rest th_new] ok th_ok_doff [OF ok] by (simp add: th_get_def)
qed

text \<open>What is left in the parser's own error by the header's parse, for any data.\<close>

lemma th_parse_error:
  assumes e: "np_error p = NoError"
  shows "np_error (snd (snd (th_parse h p))) =
    (if length (np_str p) < 20 then PacketTooShort
     else let doff = drop_bit 4 (np_str p ! 12) in
       if 5 \<le> doff \<and> length (np_str p) < 4 * unat doff then PacketTooShort else NoError)"
proof -
  obtain v1 p1 where 1: "np_u16 p = (v1, p1)" by (metis surj_pair)
  obtain v2 p2 where 2: "np_u16 p1 = (v2, p2)" by (metis surj_pair)
  obtain v3 p3 where 3: "np_u32 p2 = (v3, p3)" by (metis surj_pair)
  obtain v4 p4 where 4: "np_u32 p3 = (v4, p4)" by (metis surj_pair)
  obtain v5 p5 where 5: "np_u8 p4 = (v5, p5)" by (metis surj_pair)
  obtain v6 p6 where 6: "np_u8 p5 = (v6, p6)" by (metis surj_pair)
  obtain v7 p7 where 7: "np_u16 p6 = (v7, p7)" by (metis surj_pair)
  obtain v8 p8 where 8: "np_u16 p7 = (v8, p8)" by (metis surj_pair)
  obtain v9 p9 where 9: "np_u16 p8 = (v9, p9)" by (metis surj_pair)
  note reads = 1 2 3 4 5 6 7 8 9
  have "np_upto (2 + (2 + (4 + (4 + (1 + (1 + (2 + (2 + 2)))))))) p p9"
    by (intro np_upto_trans) (rule np_upto_eqs, rule reads)+
  then have upto: "np_upto 20 p p9" by simp
  define q where "q = np_remove_prefix (unat (drop_bit 4 v5) * 4 - th_LENGTH) p9"
  have result: "snd (snd (th_parse h p)) = (if drop_bit 4 v5 < 5 then p9 else q)"
    by (simp add: th_parse_def reads q_def Let_def)
  show ?thesis
  proof (cases "length (np_str p) < 20")
    case True
    then have p9: "np_error p9 = PacketTooShort" using upto e by (simp add: np_upto_def)
    moreover have "np_upto (unat (drop_bit 4 v5) * 4 - th_LENGTH) p9 q"
      unfolding q_def by (rule np_reads_upto)
    ultimately have "np_error q = PacketTooShort" by (simp add: np_upto_def)
    then show ?thesis using True p9 by (simp add: result)
  next
    case False
    then have "p9 = np_adv 20 p" using upto e by (simp add: np_upto_def)
    moreover have "v5 = np_str p ! 12"
    proof -
      have "p1 = np_adv 2 p" using 1 False e by (simp add: parse_simps)
      then have "p2 = np_adv 4 p" using 2 False e by (simp add: parse_simps)
      then have "p3 = np_adv 8 p" using 3 False e by (simp add: parse_simps)
      then have "p4 = np_adv 12 p" using 4 False e by (simp add: parse_simps)
      then show ?thesis using 5 False e by (simp add: parse_simps)
    qed
    ultimately show ?thesis
      using False e np_reads_upto(4) [of "unat (drop_bit 4 v5) * 4 - th_LENGTH" p9]
      by (auto simp: result q_def Let_def np_upto_def th_LENGTH_def word_le_nat_alt
          word_less_nat_alt split: if_splits)
  qed
qed

section \<open>Segments on the wire\<close>

definition th_with_cksum :: "u32 \<Rightarrow> byte list \<Rightarrow> tcp_header \<Rightarrow> tcp_header" where
  "th_with_cksum init pay h =
     h\<lparr>th_cksum := ck_value (ck_add (th_wire (h\<lparr>th_cksum := 0\<rparr>) @ pay) (ck_new init))\<rparr>"

lemma th_with_cksum_ok [simp]:
  "th_ok (th_with_cksum init pay h) = th_ok h"
  "th_doff (th_with_cksum init pay h) = th_doff h"
  by (simp_all add: th_ok_def th_with_cksum_def)

lemma seg_serialize_eq:
  "seg_serialize init seg =
     (if th_doff (seg_header seg) < 5 then Inl (Runtime_Error ''TCP header too short'')
      else Inr [buffer_of_string
                  (th_wire (th_with_cksum init (buffer_str (seg_payload seg)) (seg_header seg))),
                seg_payload seg])"
  by (simp add: seg_serialize_def th_serialize_eq th_with_cksum_def bl_of_string_eq
      bl_of_buffer_def ck_add_append)

lemma th_with_cksum_verifies:
  assumes ok: "th_ok h" and bound: "uint init + 65280 * (60 + int (length pay)) < 2 ^ 32"
  shows "ck_value (ck_add (th_wire (th_with_cksum init pay h) @ pay) (ck_new init)) = 0"
proof -
  let ?z = "h\<lparr>th_cksum := 0\<rparr>" and ?c = "th_with_cksum init pay h"
  have parts: "th_front ?z = th_front h" "th_back ?z = th_back h"
    "th_front ?c = th_front h" "th_back ?c = th_back h"
    by (simp_all add: th_front_def th_back_def th_with_cksum_def th_flags_def)
  have "length (th_back h) \<le> 42"
    using th_ok_doff [OF ok] by (auto simp: th_back_def intro!: le_diff_conv [THEN iffD2])
  then have len: "uint init + 65280 * int (length (th_front h) + 2 + length (th_back h @ pay)) < 2 ^ 32"
    using bound by simp
  have "th_cksum ?c = ck_value (ck_add (th_front h @ [0, 0] @ th_back h @ pay) (ck_new init))"
    by (simp add: th_with_cksum_def th_wire_def parts be16_def)
  from ck_inserted [OF len _ this] show ?thesis
    by (simp add: th_wire_def parts)
qed

text \<open>C16: Serialising a TCP segment with a data offset between 5 and 15 never throws, and parsing
  the bytes with the same pseudo checksum gives no error, the same header with its checksum filled
  in (so the segment verifies), and exactly the payload bytes. The bound holds for every pseudo
  checksum an IPv4 header gives and every payload that fits a datagram.\<close>

theorem tcp_segment_roundtrip:
  assumes "th_ok (seg_header seg)"
    and "uint init + 65280 * (60 + int (length (buffer_str (seg_payload seg)))) < 2 ^ 32"
  shows "\<exists>bl b. seg_serialize init seg = Inr bl
    \<and> seg_parse (buffer_of_string (bl_concatenate bl)) init old
        = (NoError, \<lparr>seg_header = th_with_cksum init (buffer_str (seg_payload seg)) (seg_header seg),
                     seg_payload = b\<rparr>)
    \<and> buffer_str b = buffer_str (seg_payload seg)"
proof -
  let ?pay = "buffer_str (seg_payload seg)"
  let ?h = "th_with_cksum init ?pay (seg_header seg)"
  let ?p = "np_new (buffer_of_string (th_wire ?h @ ?pay))"
  have d: "5 \<le> unat (th_doff ?h)" and nd: "\<not> th_doff (seg_header seg) < 5"
    using th_ok_doff [OF assms(1)] by (simp_all add: word_less_nat_alt)
  have "th_parse (seg_header old) ?p = (NoError, ?h, np_adv (4 * unat (th_doff ?h)) ?p)"
    by (rule th_parse_wire) (use assms(1) in simp_all)
  moreover have "buffer_str (np_buffer (np_adv (4 * unat (th_doff ?h)) ?p)) = ?pay"
    using np_str_adv [of "4 * unat (th_doff ?h)" ?p] d by (simp add: np_str_def)
  ultimately show ?thesis
    using nd th_with_cksum_verifies [OF assms] by (simp add: seg_serialize_eq seg_parse_def)
qed

theorem tcp_segment_roundtrip_witness:
  "\<exists>bl b. seg_serialize 0x1234 \<lparr>seg_header = th_new\<lparr>th_syn := True\<rparr>, seg_payload = buffer_of_string [1, 2, 3]\<rparr> = Inr bl
    \<and> seg_parse (buffer_of_string (bl_concatenate bl)) 0x1234 seg_new
        = (NoError, \<lparr>seg_header = th_with_cksum 0x1234 [1, 2, 3] (th_new\<lparr>th_syn := True\<rparr>), seg_payload = b\<rparr>)
    \<and> buffer_str b = [1, 2, 3]"
  using tcp_segment_roundtrip
    [of "\<lparr>seg_header = th_new\<lparr>th_syn := True\<rparr>, seg_payload = buffer_of_string [1, 2, 3]\<rparr>" "0x1234" seg_new]
  by (simp add: th_ok_def th_new_def th_LENGTH_def)

text \<open>The result of \<open>TCPSegment::parse\<close> for any bytes, old segment and pseudo checksum: a bad
  checksum first (and then the segment is untouched), then \<open>PacketTooShort\<close> when the data is
  shorter than 20 bytes or than the data offset claims, otherwise no error.\<close>

theorem tcp_segment_parse_result:
  "fst (seg_parse b init old) =
    (if ck_value (ck_add (buffer_str b) (ck_new init)) \<noteq> 0 then BadChecksum
     else if length (buffer_str b) < 20 then PacketTooShort
     else let doff = drop_bit 4 (buffer_str b ! 12) in
       if 5 \<le> doff \<and> length (buffer_str b) < 4 * unat doff then PacketTooShort else NoError)
   \<and> (fst (seg_parse b init old) = BadChecksum \<longleftrightarrow> seg_parse b init old = (BadChecksum, old))"
  using th_parse_error [of "np_new b" "seg_header old"]
  by (auto simp: seg_parse_def Let_def split: prod.split if_splits)

text \<open>A segment whose data offset is below the minimum of 5 words is accepted: the header's
  parse returns \<open>HeaderTooShort\<close>, but the segment's parse drops it and returns the parser's own
  error, so the receiver is handed a segment whose payload starts right after the fixed header.\<close>

theorem tcp_short_offset_accepted:
  assumes "ck_value (ck_add (buffer_str b) (ck_new init)) = 0" and "20 \<le> length (buffer_str b)"
    and "drop_bit 4 (buffer_str b ! 12) < (5 :: u8)"
  shows "fst (th_parse (seg_header old) (np_new b)) = HeaderTooShort
    \<and> fst (seg_parse b init old) = NoError
    \<and> buffer_str (seg_payload (snd (seg_parse b init old))) = drop 20 (buffer_str b)"
proof -
  have "th_parse (seg_header old) (np_new b) = (HeaderTooShort, fst (snd (th_parse (seg_header old) (np_new b))), np_adv 20 (np_new b))"
    using assms(2,3) by (simp add: th_parse_def parse_simps Let_def)
  then show ?thesis
    using assms np_str_adv [of 20 "np_new b"]
    by (cases "th_parse (seg_header old) (np_new b)") (auto simp: seg_parse_def np_str_def)
qed

theorem tcp_short_offset_accepted_witness:
  "fst (seg_parse (buffer_of_string
     [0, 0, 0, 0, 0, 0, 0, 0, 0, 0, 0, 0, 0x40, 0, 0, 0, 0xbf, 0xff, 0, 0]) 0 seg_new) = NoError"
  by (rule tcp_short_offset_accepted
      [of "buffer_of_string [0, 0, 0, 0, 0, 0, 0, 0, 0, 0, 0, 0, 0x40, 0, 0, 0, 0xbf, 0xff, 0, 0]"
        0 seg_new, THEN conjunct2, THEN conjunct1]) (simp_all add: ck_value_zero_iff)

end
