(* ===== verification/TCP_Receiver.thy ===== *)
theory TCP_Receiver
  imports Reassembler TCP_Segment
begin

text \<open>
  \<open>libsponge/tcp_receiver.{hh,cc}\<close>: segments to stream indices, the acknowledgment number and the
  window. The 64-bit index is computed at its width; the byte counters are the \<open>nat\<close> of the
  streams, cast where the code passes them to \<open>unwrap\<close> (64 bits) or adds them to a
  \<open>WrappingInt32\<close> (32 bits).
\<close>

section \<open>State and operations\<close>

record tcp_receiver =
  rx_ackno :: wrapping_int32
  rx_isn :: wrapping_int32
  rx_syn :: bool
  rx_fin :: bool
  rx_fin_not_count :: bool
  rx_reassembler :: reassembler
  rx_capacity :: nat

definition rx_new :: "nat \<Rightarrow> tcp_receiver" where
  "rx_new capacity =
     \<lparr>rx_ackno = WrappingInt32 0, rx_isn = WrappingInt32 0, rx_syn = False, rx_fin = False,
      rx_fin_not_count = True, rx_reassembler = ra_new capacity, rx_capacity = capacity\<rparr>"

definition rx_stream_out :: "tcp_receiver \<Rightarrow> byte_stream" where
  "rx_stream_out rx = ra_output (rx_reassembler rx)"

definition rx_unassembled_bytes :: "tcp_receiver \<Rightarrow> nat" where
  "rx_unassembled_bytes rx = ra_unassembled_bytes (rx_reassembler rx)"

definition rx_index :: "wrapping_int32 \<Rightarrow> tcp_receiver \<Rightarrow> u64" where
  "rx_index seqno rx =
     (let checkpoint = of_nat (bs_bytes_written (rx_stream_out rx)) in
      unwrap seqno (rx_isn rx) checkpoint - 1)"

definition rx_push :: "tcp_segment \<Rightarrow> bool \<Rightarrow> tcp_receiver \<Rightarrow> tcp_receiver" where
  "rx_push seg syn_with_data_sign rx =
     (let seqno = th_seqno (seg_header seg);
          idx = (if syn_with_data_sign then 0 else rx_index seqno rx);
          writtenBeforeWrite = bs_bytes_written (rx_stream_out rx);
          rx = rx\<lparr>rx_reassembler :=
                 push_substring (buffer_copy (seg_payload seg)) (unat idx)
                   (th_fin (seg_header seg)) (rx_reassembler rx)\<rparr> in
      if rx_ackno rx = seqno \<or> syn_with_data_sign then
        let writtenAfterWrite = bs_bytes_written (rx_stream_out rx) in
        rx\<lparr>rx_ackno := wi_plus (rx_ackno rx) (of_nat (writtenAfterWrite - writtenBeforeWrite))\<rparr>
      else rx)"

definition rx_finish :: "tcp_receiver \<Rightarrow> tcp_receiver" where
  "rx_finish rx =
     (if rx_fin rx \<and> ra_empty (rx_reassembler rx) then
        let rx = (if rx_fin_not_count rx
                  then rx\<lparr>rx_ackno := wi_plus (rx_ackno rx) 1, rx_fin_not_count := False\<rparr> else rx) in
        rx\<lparr>rx_reassembler := (rx_reassembler rx)\<lparr>ra_output := bs_end_input (rx_stream_out rx)\<rparr>\<rparr>
      else rx)"

definition rx_segment_received :: "tcp_segment \<Rightarrow> tcp_receiver \<Rightarrow> tcp_receiver" where
  "rx_segment_received seg rx =
     (let header = seg_header seg; seqno = th_seqno header in
      if th_syn header \<and> rx_syn rx then rx
      else
        let syn_with_data_sign = th_syn header;
            rx = (if th_syn header
                  then rx\<lparr>rx_syn := True, rx_ackno := wi_plus seqno 1, rx_isn := seqno\<rparr> else rx);
            rx = (if (\<not> rx_fin rx \<or> rx_fin rx \<and> \<not> ra_empty (rx_reassembler rx)) \<and> rx_syn rx
                  then rx_push seg syn_with_data_sign rx else rx);
            rx = (if th_fin header \<and> rx_syn rx then rx\<lparr>rx_fin := True\<rparr> else rx) in
        rx_finish rx)"

definition rx_ackno_opt :: "tcp_receiver \<Rightarrow> wrapping_int32 option" where
  "rx_ackno_opt rx = (if rx_ackno rx = WrappingInt32 0 \<or> \<not> rx_syn rx then None else Some (rx_ackno rx))"

definition rx_window_size :: "tcp_receiver \<Rightarrow> nat" where
  "rx_window_size rx = rx_capacity rx - bs_buffer_size (rx_stream_out rx)"

section \<open>The receiver as an operation-driven machine\<close>

text \<open>
  Segments come from the connection; reads, pops and \<open>set_error\<close> come through \<open>stream_out()\<close>.
\<close>

datatype rx_op =
    Rx_Segment tcp_segment
  | Rx_Read nat
  | Rx_Pop nat
  | Rx_Error

definition rx_with_output :: "byte_stream \<Rightarrow> tcp_receiver \<Rightarrow> tcp_receiver" where
  "rx_with_output out rx = rx\<lparr>rx_reassembler := (rx_reassembler rx)\<lparr>ra_output := out\<rparr>\<rparr>"

fun rx_step :: "rx_op \<Rightarrow> tcp_receiver \<Rightarrow> tcp_receiver" where
  "rx_step (Rx_Segment seg) rx = rx_segment_received seg rx"
| "rx_step (Rx_Read n) rx = rx_with_output (snd (projr (bs_read n (rx_stream_out rx)))) rx"
| "rx_step (Rx_Pop n) rx = rx_with_output (projr (bs_pop_output n (rx_stream_out rx))) rx"
| "rx_step Rx_Error rx = rx_with_output (bs_set_error (rx_stream_out rx)) rx"

section \<open>The acknowledgment invariant\<close>

text \<open>
  \<open>rx_acks a rx\<close>: the acknowledgment number stands for the SYN, \<open>a\<close> bytes, and the FIN when it
  has been counted.
\<close>

definition rx_acks :: "nat \<Rightarrow> tcp_receiver \<Rightarrow> bool" where
  "rx_acks a rx \<longleftrightarrow>
     rx_ackno rx = wi_plus (rx_isn rx) (1 + of_nat a + (if rx_fin_not_count rx then 0 else 1))"

definition rx_inv :: "(nat \<Rightarrow> byte list \<Rightarrow> bool) \<Rightarrow> tcp_receiver \<Rightarrow> bool" where
  "rx_inv P rx \<longleftrightarrow>
     ra_inv P (rx_reassembler rx) \<and> ra_capacity (rx_reassembler rx) = rx_capacity rx \<and>
     (rx_syn rx \<longrightarrow> (\<exists>a \<le> bs_written (rx_stream_out rx). rx_acks a rx)) \<and>
     (\<not> rx_syn rx \<longrightarrow> \<not> rx_fin rx \<and> bs_written (rx_stream_out rx) = 0) \<and>
     (\<not> rx_fin_not_count rx \<longrightarrow> rx_fin rx)"

text \<open>What a segment puts into the stream has to satisfy the segment law.\<close>

definition rx_law :: "(nat \<Rightarrow> byte list \<Rightarrow> bool) \<Rightarrow> tcp_segment \<Rightarrow> tcp_receiver \<Rightarrow> bool" where
  "rx_law P seg rx \<longleftrightarrow>
     (if th_syn (seg_header seg) then \<not> rx_syn rx \<longrightarrow> P 0 (buffer_str (seg_payload seg))
      else rx_syn rx \<longrightarrow> P (unat (rx_index (th_seqno (seg_header seg)) rx)) (buffer_str (seg_payload seg)))"

fun rx_lawful :: "(nat \<Rightarrow> byte list \<Rightarrow> bool) \<Rightarrow> rx_op \<Rightarrow> tcp_receiver \<Rightarrow> bool" where
  "rx_lawful P (Rx_Segment seg) rx = rx_law P seg rx"
| "rx_lawful P _ rx = True"

lemma wi_plus_plus [simp]: "wi_plus (wi_plus w a) b = wi_plus w (a + b)"
  by (simp add: wi_plus_def add.assoc)

context segment_law
begin

lemma push_substring_written:
  "ra_inv P r \<Longrightarrow> P i d \<Longrightarrow> bs_written (ra_output r) \<le> bs_written (ra_output (push_substring d i e r))"
  using ra_accept_ok(1,3) [of r i d] by (auto simp: push_substring_def ra_inv_def Let_def)

lemma rx_push_inv:
  assumes inv: "rx_inv P rx" and syn: "rx_syn rx"
    and d: "P (if special then 0 else unat (rx_index (th_seqno (seg_header seg)) rx)) (buffer_str (seg_payload seg))"
  shows "rx_inv P (rx_push seg special rx)"
proof -
  let ?idx = "if special then 0 else rx_index (th_seqno (seg_header seg)) rx"
  let ?r = "push_substring (buffer_str (seg_payload seg)) (unat ?idx) (th_fin (seg_header seg)) (rx_reassembler rx)"
  let ?w = "bs_written (ra_output (rx_reassembler rx))" and ?w' = "bs_written (ra_output ?r)"
  have P: "P (unat ?idx) (buffer_str (seg_payload seg))" using d by (cases special) simp_all
  have r: "ra_inv P (rx_reassembler rx)" using inv by (simp add: rx_inv_def)
  have r': "ra_inv P ?r" and mono: "?w \<le> ?w'"
    using push_substring_inv [OF r P] push_substring_written [OF r P] by blast+
  obtain a where a: "a \<le> ?w" "rx_acks a rx"
    using inv syn by (auto simp: rx_inv_def rx_stream_out_def)
  let ?ack = "if rx_ackno rx = th_seqno (seg_header seg) \<or> special
    then wi_plus (rx_ackno rx) (of_nat (?w' - ?w)) else rx_ackno rx"
  have eq: "rx_push seg special rx = rx\<lparr>rx_reassembler := ?r, rx_ackno := ?ack\<rparr>"
    by (simp add: rx_push_def Let_def rx_stream_out_def buffer_copy_def stream_simps)
  have "rx_acks (a + (?w' - ?w)) (rx\<lparr>rx_reassembler := ?r, rx_ackno := wi_plus (rx_ackno rx) (of_nat (?w' - ?w))\<rparr>)"
    "rx_acks a (rx\<lparr>rx_reassembler := ?r, rx_ackno := rx_ackno rx\<rparr>)"
    using a(2) by (simp_all add: rx_acks_def algebra_simps)
  moreover have "a + (?w' - ?w) \<le> ?w'" "a \<le> ?w'" using a(1) mono by simp_all
  ultimately have "\<exists>a \<le> ?w'. rx_acks a (rx\<lparr>rx_reassembler := ?r, rx_ackno := ?ack\<rparr>)"
    by (cases "rx_ackno rx = th_seqno (seg_header seg) \<or> special") (simp only: if_True if_False, blast)+
  then show ?thesis
    using inv syn r' by (simp add: eq rx_inv_def rx_stream_out_def)
qed

lemma rx_finish_inv: "rx_inv P rx \<Longrightarrow> rx_inv P (rx_finish rx)"
  by (fastforce simp: rx_finish_def rx_inv_def rx_stream_out_def rx_acks_def ra_inv_def Let_def
      add.assoc)

lemma rx_segment_inv:
  assumes inv: "rx_inv P rx" and law: "rx_law P seg rx"
  shows "rx_inv P (rx_segment_received seg rx)"
proof (cases "th_syn (seg_header seg) \<and> rx_syn rx")
  case True
  then show ?thesis using inv by (simp add: rx_segment_received_def Let_def)
next
  case False
  let ?h = "seg_header seg"
  define rx1 where "rx1 = (if th_syn ?h
    then rx\<lparr>rx_syn := True, rx_ackno := wi_plus (th_seqno ?h) 1, rx_isn := th_seqno ?h\<rparr> else rx)"
  define rx2 where "rx2 = (if (\<not> rx_fin rx1 \<or> rx_fin rx1 \<and> \<not> ra_empty (rx_reassembler rx1)) \<and> rx_syn rx1
    then rx_push seg (th_syn ?h) rx1 else rx1)"
  define rx3 where "rx3 = (if th_fin ?h \<and> rx_syn rx2 then rx2\<lparr>rx_fin := True\<rparr> else rx2)"
  have fnc: "rx_fin_not_count rx" if "\<not> rx_syn rx" using inv that by (auto simp: rx_inv_def)
  have 1: "rx_inv P rx1"
    using inv False fnc by (auto simp: rx1_def rx_inv_def rx_stream_out_def rx_acks_def)
  have "P (if th_syn ?h then 0 else unat (rx_index (th_seqno ?h) rx1)) (buffer_str (seg_payload seg))"
    if "rx_syn rx1"
    using law False that by (auto simp: rx_law_def rx1_def split: if_splits)
  then have 2: "rx_inv P rx2" using 1 rx_push_inv by (auto simp: rx2_def)
  then have "rx_inv P rx3" by (auto simp: rx3_def rx_inv_def rx_stream_out_def rx_acks_def)
  moreover have "rx_segment_received seg rx = rx_finish rx3"
    using False by (simp add: rx_segment_received_def Let_def rx1_def rx2_def rx3_def)
  ultimately show ?thesis using rx_finish_inv by simp
qed

lemma rx_output_inv:
  assumes "rx_inv P rx" and "ra_inv P ((rx_reassembler rx)\<lparr>ra_output := out\<rparr>)"
    and "bs_written out = bs_written (rx_stream_out rx)"
  shows "rx_inv P (rx_with_output out rx)"
  using assms by (auto simp: rx_inv_def rx_with_output_def rx_stream_out_def rx_acks_def)

lemma rx_step_inv: "rx_inv P rx \<Longrightarrow> rx_lawful P op rx \<Longrightarrow> rx_inv P (rx_step op rx)"
proof (cases op)
  case (Rx_Segment seg)
  then show "rx_inv P rx \<Longrightarrow> rx_lawful P op rx \<Longrightarrow> ?thesis" using rx_segment_inv by simp
next
  case (Rx_Read n)
  assume inv: "rx_inv P rx"
  then have "ra_inv P (ra_step (Out_Read n) (rx_reassembler rx))"
    using ra_step_inv [of "rx_reassembler rx" "Out_Read n"] by (simp add: rx_inv_def)
  then show ?thesis
    using Rx_Read rx_output_inv [OF inv] by (simp add: stream_simps rx_stream_out_def)
next
  case (Rx_Pop n)
  assume inv: "rx_inv P rx"
  then have "ra_inv P (ra_step (Out_Pop n) (rx_reassembler rx))"
    using ra_step_inv [of "rx_reassembler rx" "Out_Pop n"] by (simp add: rx_inv_def)
  then show ?thesis
    using Rx_Pop rx_output_inv [OF inv] by (simp add: stream_simps rx_stream_out_def)
next
  case Rx_Error
  assume inv: "rx_inv P rx"
  then have "ra_inv P (ra_step Out_Error (rx_reassembler rx))"
    using ra_step_inv [of "rx_reassembler rx" Out_Error] by (simp add: rx_inv_def)
  then show ?thesis
    using Rx_Error rx_output_inv [OF inv] by (simp add: stream_simps rx_stream_out_def)
qed

lemma rx_new_inv: "rx_inv P (rx_new c)"
  using seg_nil [of 0] by (simp add: rx_inv_def rx_new_def rx_stream_out_def) (simp add: ra_new_def)

end

lemma rx_frame [simp]:
  "rx_capacity (rx_segment_received seg rx) = rx_capacity rx"
  "rx_syn (rx_segment_received seg rx) = (rx_syn rx \<or> th_syn (seg_header seg))"
  "rx_isn (rx_segment_received seg rx) =
     (if th_syn (seg_header seg) \<and> \<not> rx_syn rx then th_seqno (seg_header seg) else rx_isn rx)"
  by (auto simp: rx_segment_received_def rx_finish_def rx_push_def Let_def)

lemma rx_with_output_frame [simp]:
  "rx_capacity (rx_with_output out rx) = rx_capacity rx"
  "rx_syn (rx_with_output out rx) = rx_syn rx" "rx_isn (rx_with_output out rx) = rx_isn rx"
  by (simp_all add: rx_with_output_def)

text \<open>Whatever the segments carry.\<close>

interpretation rx_machine: machine "\<lambda>rx. rx = rx_new c" always rx_step
  "\<lambda>rx. rx_inv any_bytes rx \<and> rx_capacity rx = c"
proof unfold_locales
  fix rx op
  assume "rx_inv any_bytes rx \<and> rx_capacity rx = c"
  moreover have "rx_lawful any_bytes op rx" by (cases op) (simp_all add: rx_law_def any_bytes_def)
  ultimately have "rx_inv any_bytes (rx_step op rx)" "rx_capacity rx = c"
    using any_law.rx_step_inv by blast+
  then show "rx_inv any_bytes (rx_step op rx) \<and> rx_capacity (rx_step op rx) = c"
    by (cases op) auto
next
  fix rx
  assume "rx = rx_new c"
  then show "rx_inv any_bytes rx \<and> rx_capacity rx = c"
    using any_law.rx_new_inv by (simp add: rx_new_def)
qed

section \<open>Segments of one stream\<close>

text \<open>
  A segment of the stream \<open>f\<close> with initial sequence number \<open>isn\<close>: a SYN carries a prefix of the
  stream, any other segment the bytes from some index \<open>i\<close> on, with the sequence number of \<open>i\<close>, at
  a distance of less than \<open>2^31\<close> from the next byte expected.
\<close>

definition rx_carries :: "(nat \<Rightarrow> byte) \<Rightarrow> wrapping_int32 \<Rightarrow> nat \<Rightarrow> tcp_segment \<Rightarrow> bool" where
  "rx_carries f isn i seg \<longleftrightarrow>
     bytes_of f i (buffer_str (seg_payload seg)) \<and>
     (if th_syn (seg_header seg) then i = 0 \<and> th_seqno (seg_header seg) = isn
      else th_seqno (seg_header seg) = wrap (of_nat (Suc i)) isn)"

definition rx_near :: "nat \<Rightarrow> tcp_receiver \<Rightarrow> bool" where
  "rx_near i rx \<longleftrightarrow> \<bar>int (Suc i) - int (bs_written (rx_stream_out rx))\<bar> < 2 ^ 31 \<and>
     int (bs_written (rx_stream_out rx)) + 2 ^ 32 \<le> 2 ^ 64"

fun rx_honest :: "(nat \<Rightarrow> byte) \<Rightarrow> wrapping_int32 \<Rightarrow> rx_op \<Rightarrow> tcp_receiver \<Rightarrow> bool" where
  "rx_honest f isn (Rx_Segment seg) rx = (\<exists>i. rx_carries f isn i seg \<and> rx_near i rx)"
| "rx_honest f isn _ rx = True"

lemma rx_index_of:
  assumes near: "rx_near i rx" and "rx_isn rx = isn"
  shows "unat (rx_index (wrap (of_nat (Suc i)) isn) rx) = i"
proof -
  let ?w = "bs_written (rx_stream_out rx)"
  have w: "int ?w + 2 ^ 32 \<le> 2 ^ 64" and d: "\<bar>int (Suc i) - int ?w\<bar> < 2 ^ 31"
    using near by (simp_all add: rx_near_def)
  then have i: "int (Suc i) < 2 ^ 64" by (simp add: abs_less_iff)
  have uw: "uint (of_nat ?w :: u64) = int ?w" and ui: "uint (of_nat (Suc i) :: u64) = int (Suc i)"
    using w i by (intro uint_of_nat_u64; simp)+
  have "unwrap (wrap (of_nat (Suc i)) isn) isn (of_nat ?w) = of_nat (Suc i)"
    by (rule unwrap_of_wrap) (use w d in \<open>simp_all only: uw ui\<close>)
  then have "rx_index (wrap (of_nat (Suc i)) isn) rx = of_nat i"
    using assms(2) by (simp add: rx_index_def stream_simps)
  moreover have "i < 2 ^ 64" using i by simp
  ultimately show ?thesis by (simp add: unat_of_nat)
qed

lemma rx_honest_lawful:
  "rx_honest f isn op rx \<Longrightarrow> (rx_syn rx \<Longrightarrow> rx_isn rx = isn) \<Longrightarrow> rx_lawful (bytes_of f) op rx"
proof (cases op)
  case (Rx_Segment seg)
  assume "rx_honest f isn op rx" and isn: "rx_syn rx \<Longrightarrow> rx_isn rx = isn"
  then obtain i where c: "rx_carries f isn i seg" and near: "rx_near i rx" using Rx_Segment by auto
  have "unat (rx_index (th_seqno (seg_header seg)) rx) = i"
    if "rx_syn rx" "\<not> th_syn (seg_header seg)"
    using c that rx_index_of [OF near isn] by (simp only: rx_carries_def if_False simp_thms)
  then show ?thesis using c Rx_Segment by (auto simp: rx_law_def rx_carries_def)
qed simp_all

interpretation rx_stream_machine: machine "\<lambda>rx. rx = rx_new c" "rx_honest f isn" rx_step
  "\<lambda>rx. rx_inv (bytes_of f) rx \<and> (rx_syn rx \<longrightarrow> rx_isn rx = isn) \<and> rx_capacity rx = c"
proof unfold_locales
  fix rx op
  assume inv: "rx_inv (bytes_of f) rx \<and> (rx_syn rx \<longrightarrow> rx_isn rx = isn) \<and> rx_capacity rx = c"
    and ok: "rx_honest f isn op rx"
  then have "rx_lawful (bytes_of f) op rx" using rx_honest_lawful by blast
  then have "rx_inv (bytes_of f) (rx_step op rx)" using inv stream_law.rx_step_inv by blast
  then show "rx_inv (bytes_of f) (rx_step op rx) \<and>
      (rx_syn (rx_step op rx) \<longrightarrow> rx_isn (rx_step op rx) = isn) \<and> rx_capacity (rx_step op rx) = c"
    using inv ok by (cases op) (auto simp: rx_carries_def split: if_splits)
next
  fix rx
  assume "rx = rx_new c"
  then show "rx_inv (bytes_of f) rx \<and> (rx_syn rx \<longrightarrow> rx_isn rx = isn) \<and> rx_capacity rx = c"
    using stream_law.rx_new_inv by (simp add: rx_new_def)
qed

section \<open>The end of the stream and the acknowledgment of the FIN\<close>

text \<open>
  \<open>rx_fin_law\<close>: the FIN has been counted in the acknowledgment number exactly when the output
  stream has been ended, which needs a FIN and an empty reassembler; and a FIN that has arrived
  is counted as soon as nothing is unassembled.
\<close>

definition rx_fin_law :: "tcp_receiver \<Rightarrow> bool" where
  "rx_fin_law rx \<longleftrightarrow>
     bs_input_end (rx_stream_out rx) = (\<not> rx_fin_not_count rx) \<and>
     (ra_eof_flag (rx_reassembler rx) \<longrightarrow> rx_fin rx) \<and>
     (rx_fin rx \<and> ra_empty (rx_reassembler rx) \<longrightarrow> \<not> rx_fin_not_count rx) \<and>
     (\<not> rx_fin_not_count rx \<longrightarrow> rx_fin rx)"

lemma push_substring_end:
  "bs_input_end (ra_output (push_substring d i e r)) \<longrightarrow> bs_input_end (ra_output r) \<or>
     ra_eof_flag (push_substring d i e r) \<and> ra_empty (push_substring d i e r)"
  "bs_input_end (ra_output r) \<longrightarrow> bs_input_end (ra_output (push_substring d i e r))"
  "ra_eof_flag (push_substring d i e r) \<longrightarrow> ra_eof_flag r \<or> e"
proof -
  have store: "ra_output (ra_store x q) = ra_output q" "ra_eof_flag (ra_store x q) = ra_eof_flag q" for x q
    by (simp_all add: ra_store_def case_prod_beta Let_def)
  have flush: "bs_input_end (ra_output (ra_flush q)) = bs_input_end (ra_output q)"
    "ra_eof_flag (ra_flush q) = ra_eof_flag q" for q
    by (simp_all add: ra_flush_def case_prod_beta Let_def bs_write_snd split: list.split)
  show "bs_input_end (ra_output (push_substring d i e r)) \<longrightarrow> bs_input_end (ra_output r) \<or>
     ra_eof_flag (push_substring d i e r) \<and> ra_empty (push_substring d i e r)"
    "bs_input_end (ra_output r) \<longrightarrow> bs_input_end (ra_output (push_substring d i e r))"
    "ra_eof_flag (push_substring d i e r) \<longrightarrow> ra_eof_flag r \<or> e"
    by (auto simp: push_substring_def ra_judge_eof_def ra_empty_def Let_def store flush)
qed

lemma rx_push_flags [simp]:
  "rx_syn (rx_push seg b rx) = rx_syn rx" "rx_fin (rx_push seg b rx) = rx_fin rx"
  "rx_fin_not_count (rx_push seg b rx) = rx_fin_not_count rx"
  by (simp_all add: rx_push_def Let_def)

lemma rx_segment_fin_law:
  assumes law: "rx_fin_law rx"
  shows "rx_fin_law (rx_segment_received seg rx)"
proof (cases "th_syn (seg_header seg) \<and> rx_syn rx")
  case True
  then show ?thesis using law by (simp add: rx_segment_received_def Let_def)
next
  case False
  let ?h = "seg_header seg"
  define rx1 where "rx1 = (if th_syn ?h
    then rx\<lparr>rx_syn := True, rx_ackno := wi_plus (th_seqno ?h) 1, rx_isn := th_seqno ?h\<rparr> else rx)"
  define rx2 where "rx2 = (if (\<not> rx_fin rx1 \<or> rx_fin rx1 \<and> \<not> ra_empty (rx_reassembler rx1)) \<and> rx_syn rx1
    then rx_push seg (th_syn ?h) rx1 else rx1)"
  define rx3 where "rx3 = (if th_fin ?h \<and> rx_syn rx2 then rx2\<lparr>rx_fin := True\<rparr> else rx2)"
  have 1: "rx_fin_law rx1"
    using law by (simp add: rx1_def rx_fin_law_def rx_stream_out_def)
  have 2: "(bs_input_end (rx_stream_out rx3) \<longrightarrow> \<not> rx_fin_not_count rx3 \<or> rx_fin rx3 \<and> ra_empty (rx_reassembler rx3)) \<and>
      (\<not> rx_fin_not_count rx3 \<longrightarrow> bs_input_end (rx_stream_out rx3) \<and> rx_fin rx3) \<and>
      (ra_eof_flag (rx_reassembler rx3) \<longrightarrow> rx_fin rx3)"
  proof (cases "(\<not> rx_fin rx1 \<or> rx_fin rx1 \<and> \<not> ra_empty (rx_reassembler rx1)) \<and> rx_syn rx1")
    case True
    then have "rx2 = rx_push seg (th_syn ?h) rx1" by (simp add: rx2_def)
    then have rx2: "rx_syn rx2" "rx_fin rx2 = rx_fin rx1" "rx_fin_not_count rx2 = rx_fin_not_count rx1"
      and out: "\<exists>d i. rx_reassembler rx2 = push_substring d i (th_fin ?h) (rx_reassembler rx1)"
      using True by (auto simp: rx_push_def Let_def)
    then obtain d i where r: "rx_reassembler rx2 = push_substring d i (th_fin ?h) (rx_reassembler rx1)"
      by blast
    have E: "bs_input_end (rx_stream_out rx2) \<longrightarrow> bs_input_end (rx_stream_out rx1) \<or>
        ra_eof_flag (rx_reassembler rx2) \<and> ra_empty (rx_reassembler rx2)"
      "bs_input_end (rx_stream_out rx1) \<longrightarrow> bs_input_end (rx_stream_out rx2)"
      "ra_eof_flag (rx_reassembler rx2) \<longrightarrow> ra_eof_flag (rx_reassembler rx1) \<or> th_fin ?h"
      unfolding rx_stream_out_def r by (rule push_substring_end)+
    have rx3: "rx_reassembler rx3 = rx_reassembler rx2" "rx_stream_out rx3 = rx_stream_out rx2"
      "rx_fin rx3 = (rx_fin rx1 \<or> th_fin ?h)" "rx_fin_not_count rx3 = rx_fin_not_count rx1"
      using rx2 by (auto simp: rx3_def rx_stream_out_def)
    show ?thesis
      using 1 E unfolding rx3 rx_fin_law_def by blast
  next
    case False
    then have "rx2 = rx1" by (simp only: rx2_def if_False)
    then have rx3: "rx_reassembler rx3 = rx_reassembler rx1" "rx_stream_out rx3 = rx_stream_out rx1"
      "rx_fin_not_count rx3 = rx_fin_not_count rx1" "rx_fin rx1 \<longrightarrow> rx_fin rx3"
      by (simp_all add: rx3_def rx_stream_out_def)
    show ?thesis using 1 unfolding rx3(1-3) rx_fin_law_def by (blast intro: rx3(4) [rule_format])
  qed
  have "rx_segment_received seg rx = rx_finish rx3"
    using False by (simp add: rx_segment_received_def Let_def rx1_def rx2_def rx3_def)
  moreover have "rx_fin_law (rx_finish rx3)"
    using 2 by (cases "rx_fin rx3 \<and> ra_empty (rx_reassembler rx3)"; cases "rx_fin_not_count rx3")
      (auto simp: rx_finish_def rx_fin_law_def rx_stream_out_def ra_empty_def)
  ultimately show ?thesis by simp
qed

lemma rx_output_fin_law:
  "rx_fin_law rx \<Longrightarrow> bs_input_end out = bs_input_end (rx_stream_out rx) \<Longrightarrow> rx_fin_law (rx_with_output out rx)"
  by (simp add: rx_fin_law_def rx_with_output_def rx_stream_out_def ra_empty_def)

interpretation rx_fin_machine: machine "\<lambda>rx. rx = rx_new c" always rx_step rx_fin_law
proof unfold_locales
  fix rx op
  assume "rx_fin_law rx"
  then show "rx_fin_law (rx_step op rx)"
    by (cases op) (auto simp: stream_simps rx_segment_fin_law intro!: rx_output_fin_law)
qed (simp add: rx_fin_law_def rx_new_def rx_stream_out_def, simp add: ra_new_def)

text \<open>No FIN, no end of stream.\<close>

lemma rx_step_no_fin:
  assumes "\<not> rx_fin rx" and "\<And>seg. op = Rx_Segment seg \<Longrightarrow> \<not> th_fin (seg_header seg)"
  shows "\<not> rx_fin (rx_step op rx)"
  using assms by (cases op)
    (auto simp: rx_segment_received_def rx_finish_def rx_with_output_def Let_def)

lemma rx_run_no_fin:
  "\<not> rx_fin rx \<Longrightarrow> rx_fin (fold rx_step ops rx) \<Longrightarrow> \<exists>seg. Rx_Segment seg \<in> set ops \<and> th_fin (seg_header seg)"
proof (induction ops arbitrary: rx)
  case (Cons op ops)
  then have fin: "rx_fin (fold rx_step ops (rx_step op rx))" by simp
  show ?case
  proof (cases "rx_fin (rx_step op rx)")
    case True
    then show ?thesis using rx_step_no_fin [OF Cons.prems(1), of op] by auto
  next
    case False
    then show ?thesis using Cons.IH [OF False fin] by auto
  qed
qed simp

section \<open>A receiver with nothing out of order\<close>

text \<open>
  The state in which everything received has been written and acknowledged: the SYN is in, the
  FIN is not, and no block waits in the reassembler.
\<close>

definition rx_synced :: "tcp_receiver \<Rightarrow> bool" where
  "rx_synced rx \<longleftrightarrow>
     rx_inv any_bytes rx \<and> rx_syn rx \<and> \<not> rx_fin rx \<and> rx_acks (bs_written (rx_stream_out rx)) rx \<and>
     ra_blocks (rx_reassembler rx) = [] \<and> ra_unassembled_byte (rx_reassembler rx) = 0 \<and>
     int (bs_written (rx_stream_out rx)) + 2 ^ 32 \<le> 2 ^ 64"

lemma push_into_empty:
  fixes eof :: bool
  assumes inv: "ra_inv any_bytes r" and emp: "ra_blocks r = []" "ra_unassembled_byte r = 0"
    and le: "index \<le> ra_head_index r" and new: "ra_head_index r \<le> index + length data"
    and room: "index + length data \<le> ra_limit r" and cap: "0 < ra_capacity r"
  defines "r' \<equiv> push_substring data index eof r"
  shows "bs_content (ra_output r') = bs_content (ra_output r) @ drop (ra_head_index r - index) data"
    and "bs_written (ra_output r') = index + length data"
    and "ra_blocks r' = []" and "ra_unassembled_byte r' = 0"
proof -
  have near: "\<not> index \<ge> ra_head_index r + ra_capacity r" using le cap by simp
  have hd: "ra_head_index r = bs_written (ra_output r)" using inv by (simp add: ra_inv_def)
  have lim: "ra_limit r = ra_head_index r + (bs_capacity (ra_output r) - length (bs_content (ra_output r)))"
    using ra_limit_room [OF inv] by (simp add: stream_simps)
  let ?d = "drop (ra_head_index r - index) data"
  have clip: "ra_clip data index (ra_head_index r) = Block_Node (ra_head_index r) (length ?d) ?d"
    using le by (simp add: ra_clip_def Let_def)
  have len: "length ?d = index + length data - ra_head_index r" using le by simp
  have fits: "length ?d \<le> bs_capacity (ra_output r) - length (bs_content (ra_output r))"
    using room lim len by simp
  define s where "s = (if index + length data \<le> ra_head_index r then r
    else ra_flush (ra_store (Block_Node (ra_head_index r) (length ?d) ?d) r))"
  have r': "r' = ra_judge_eof eof s"
    using near by (simp add: r'_def push_substring_def clip s_def)
  have "bs_content (ra_output s) = bs_content (ra_output r) @ ?d \<and>
      bs_written (ra_output s) = index + length data \<and> ra_blocks s = [] \<and> ra_unassembled_byte s = 0"
  proof (cases "index + length data \<le> ra_head_index r")
    case True
    then show ?thesis using new emp hd by (simp add: s_def)
  next
    case False
    let ?t = "ra_store (Block_Node (ra_head_index r) (length ?d) ?d) r"
    have t: "?t = r\<lparr>ra_blocks := [Block_Node (ra_head_index r) (length ?d) ?d], ra_unassembled_byte := length ?d\<rparr>"
      using emp by (simp add: ra_store_def merge_next_end merge_prev_end set_lower_bound_def
          set_insert_def del: length_drop)
    have w: "fst (bs_write ?d (ra_output r)) = length ?d"
      using fits by (simp add: bs_write_fst)
    have "s = ra_flush ?t" using False by (simp add: s_def)
    also have "\<dots> = ?t\<lparr>ra_output := snd (bs_write ?d (ra_output r)),
        ra_head_index := ra_head_index r + length ?d, ra_unassembled_byte := 0, ra_blocks := []\<rparr>"
      using w unfolding t by (cases "bs_write ?d (ra_output r)") (simp add: ra_flush_def del: length_drop)
    finally show ?thesis
      using fits len le new hd by (simp add: bs_write_snd)
  qed
  then show "bs_content (ra_output r') = bs_content (ra_output r) @ ?d"
    "bs_written (ra_output r') = index + length data" "ra_blocks r' = []" "ra_unassembled_byte r' = 0"
    by (simp_all add: r')
qed

lemma rx_synced_index:
  assumes s: "rx_synced rx" and i: "i \<le> bs_written (rx_stream_out rx)"
    and near: "bs_written (rx_stream_out rx) \<le> i + 2 ^ 30"
  shows "unat (rx_index (wrap (of_nat (Suc i)) (rx_isn rx)) rx) = i"
proof -
  have "rx_near i rx" using assms by (auto simp: rx_near_def rx_synced_def abs_less_iff)
  then show ?thesis by (rule rx_index_of) simp
qed

lemma wrap_of_nat:
  assumes "int n < 2 ^ 64"
  shows "wrap (of_nat n) isn = wi_plus isn (of_nat n)"
proof -
  have "uint (of_nat n :: u64) = int n" using assms by (rule uint_of_nat_u64)
  moreover have "uint (of_nat n :: u32) = int n mod 2 ^ 32"
    by (simp add: unsigned_of_nat take_bit_eq_mod zmod_int)
  ultimately have "uint (raw_value (wrap (of_nat n) isn)) = uint (raw_value (wi_plus isn (of_nat n)))"
    by (simp add: uint_raw_wrap wi_plus_def uint_word_ariths mod_add_right_eq add.commute)
  then show ?thesis by (metis unsigned_word_eqI wrapping_int32.expand)
qed

text \<open>
  What a segment that begins at or before the next byte, ends at or after it and fits the window
  does to a synced receiver, by comparing its sequence number with the acknowledgment number.
\<close>

lemma rx_synced_push:
  assumes s: "rx_synced rx" and i: "i \<le> bs_written (rx_stream_out rx)"
    and near: "bs_written (rx_stream_out rx) \<le> i + 2 ^ 30"
    and seq: "th_seqno (seg_header seg) = wrap (of_nat (Suc i)) (rx_isn rx)"
    and syn: "\<not> th_syn (seg_header seg)"
    and new: "bs_written (rx_stream_out rx) \<le> i + length (buffer_str (seg_payload seg))"
    and room: "i + length (buffer_str (seg_payload seg)) \<le> ra_limit (rx_reassembler rx)"
    and cap: "0 < rx_capacity rx"
  defines "rx' \<equiv> rx_segment_received seg rx"
  shows "bs_content (rx_stream_out rx') = bs_content (rx_stream_out rx) @
      drop (bs_written (rx_stream_out rx) - i) (buffer_str (seg_payload seg))"
    and "bs_written (rx_stream_out rx') = i + length (buffer_str (seg_payload seg))"
    and "rx_ackno rx' = wi_plus (rx_ackno rx)
      ((if i = bs_written (rx_stream_out rx) then of_nat (length (buffer_str (seg_payload seg))) else 0)
       + (if th_fin (seg_header seg) then 1 else 0))"
    and "th_fin (seg_header seg) \<Longrightarrow> bs_input_end (rx_stream_out rx')"
proof -
  let ?w = "bs_written (rx_stream_out rx)" and ?d = "buffer_str (seg_payload seg)"
  let ?h = "seg_header seg" and ?r = "rx_reassembler rx"
  let ?r' = "push_substring ?d i (th_fin ?h) ?r"
  have st: "rx_syn rx" "\<not> rx_fin rx" "rx_fin_not_count rx" "rx_acks ?w rx" "ra_blocks ?r = []"
    "ra_unassembled_byte ?r = 0" "ra_inv any_bytes ?r" "ra_capacity ?r = rx_capacity rx"
    "ra_head_index ?r = ?w"
    using s by (auto simp: rx_synced_def rx_inv_def ra_inv_def rx_stream_out_def)
  have idx: "unat (rx_index (th_seqno ?h) rx) = i"
    unfolding seq by (rule rx_synced_index [OF s i near])
  note p = push_into_empty [OF st(7,5,6), of i ?d "th_fin ?h", unfolded st(8,9), OF i new room cap]
  have "int ?w + 2 ^ 32 \<le> 2 ^ 64" using s by (simp add: rx_synced_def)
  then have ack: "rx_ackno rx = th_seqno ?h \<longleftrightarrow> (1 + of_nat ?w :: u32) = 1 + of_nat i"
    using st(3,4) i wrap_of_nat [of "Suc i" "rx_isn rx"] by (simp add: rx_acks_def seq wi_plus_def)
  have eq_i: "rx_ackno rx = th_seqno ?h \<longleftrightarrow> i = ?w"
  proof
    assume "rx_ackno rx = th_seqno ?h"
    then have "(of_nat (?w - i) :: u32) = 0" using ack i by (simp add: of_nat_diff)
    then have "2 ^ 32 dvd ?w - i" by (simp add: word_of_nat_eq_0_iff)
    then show "i = ?w" using near i by (auto dest: dvd_imp_le)
  qed (use ack in simp)
  define rx2 where "rx2 = rx_push seg False rx"
  have rx2: "rx2 = rx\<lparr>rx_reassembler := ?r', rx_ackno := (if i = ?w
      then wi_plus (rx_ackno rx) (of_nat (length ?d)) else rx_ackno rx)\<rparr>"
    using p(2) eq_i idx
    by (auto simp: rx2_def rx_push_def Let_def buffer_copy_def rx_stream_out_def stream_simps)
  have rx': "rx' = rx_finish (if th_fin ?h then rx2\<lparr>rx_fin := True\<rparr> else rx2)"
  proof -
    have "rx_syn (rx_push seg False rx)" using st(1) by (simp add: rx_push_def Let_def)
    then show ?thesis
      using st(1,2) syn by (simp add: rx'_def rx_segment_received_def Let_def rx2_def)
  qed
  have emp: "ra_empty ?r'" using p(4) by (simp add: ra_empty_def)
  show "bs_content (rx_stream_out rx') = bs_content (rx_stream_out rx) @ drop (?w - i) ?d"
    "bs_written (rx_stream_out rx') = i + length ?d"
    "rx_ackno rx' = wi_plus (rx_ackno rx)
      ((if i = ?w then of_nat (length ?d) else 0) + (if th_fin ?h then 1 else 0))"
    "th_fin ?h \<Longrightarrow> bs_input_end (rx_stream_out rx')"
    using p(1,2) emp st(2,3)
    by (auto simp: rx' rx2 rx_finish_def rx_stream_out_def Let_def wi_plus_def)
qed

lemma rx_synced_next:
  assumes "rx_synced rx"
  shows "wrap (of_nat (Suc (bs_written (rx_stream_out rx)))) (rx_isn rx) = rx_ackno rx"
  using assms wrap_of_nat [of "Suc (bs_written (rx_stream_out rx))" "rx_isn rx"]
  by (auto simp: rx_synced_def rx_acks_def rx_inv_def)

lemma rx_synced_window:
  assumes "rx_synced rx" and "n \<le> rx_window_size rx"
  shows "bs_written (rx_stream_out rx) + n \<le> ra_limit (rx_reassembler rx)"
proof -
  have inv: "ra_inv any_bytes (rx_reassembler rx)" "ra_capacity (rx_reassembler rx) = rx_capacity rx"
    using assms(1) by (simp_all add: rx_synced_def rx_inv_def)
  then show ?thesis
    using assms(2) ra_limit_room [OF inv(1)]
    by (auto simp: rx_window_size_def rx_stream_out_def ra_inv_def stream_simps)
qed

section \<open>Properties\<close>

text \<open>C6: (what an acknowledgment number stands for) Whatever segments arrive and however the
  application reads: an acknowledgment number stands for the SYN, for at most as many bytes as have
  been written to the output stream, and for one more exactly when the receiver has ended its output
  stream, which it does only after a FIN has arrived. Up to the first FIN, therefore, no byte is
  acknowledged that was not delivered. The one more is the FIN when the FIN comes in order; a FIN
  without data that overtakes bytes ends the stream at once, and then the one more is the sequence
  number of a byte that was never delivered (\<open>premature_fin_acknowledged\<close>). The advertised window
  plus the buffered bytes is the capacity.\<close>

theorem receiver_ack_sound:
  fixes ops :: "rx_op list" and c :: nat
  defines "rx \<equiv> fold rx_step ops (rx_new c)"
  shows "(case rx_ackno_opt rx of None \<Rightarrow> True
      | Some ack \<Rightarrow> \<exists>a \<le> bs_bytes_written (rx_stream_out rx).
          ack = wi_plus (rx_isn rx) (1 + of_nat a + (if bs_input_ended (rx_stream_out rx) then 1 else 0)))
    \<and> (if bs_input_ended (rx_stream_out rx)
       then \<exists>seg. Rx_Segment seg \<in> set ops \<and> th_fin (seg_header seg) else True)
    \<and> rx_window_size rx + bs_buffer_size (rx_stream_out rx) = c"
proof -
  have inv: "rx_inv any_bytes rx" "rx_capacity rx = c"
    using rx_machine.run_inv [of "rx_new c" c ops] by (simp_all add: rx_def)
  have fin: "rx_fin_law rx"
    unfolding rx_def by (rule rx_fin_machine.run_inv [OF refl]) simp
  have "length (bs_content (rx_stream_out rx)) \<le> c"
    using inv by (auto simp: rx_inv_def ra_inv_def bs_inv_def rx_stream_out_def)
  moreover have "\<exists>a \<le> bs_written (rx_stream_out rx).
      rx_ackno rx = wi_plus (rx_isn rx) (1 + of_nat a + (if bs_input_end (rx_stream_out rx) then 1 else 0))"
    if syn: "rx_syn rx"
  proof -
    obtain a where "a \<le> bs_written (rx_stream_out rx)" "rx_acks a rx"
      using inv(1) syn by (auto simp: rx_inv_def)
    then show ?thesis using fin by (intro exI [of _ a]) (auto simp: rx_acks_def rx_fin_law_def)
  qed
  moreover have "\<exists>seg. Rx_Segment seg \<in> set ops \<and> th_fin (seg_header seg)" if "bs_input_end (rx_stream_out rx)"
    by (rule rx_run_no_fin [of "rx_new c"]) (use that fin in \<open>auto simp: rx_def rx_fin_law_def rx_new_def\<close>)
  ultimately show ?thesis
    using inv(2) by (auto simp: rx_ackno_opt_def rx_window_size_def stream_simps)
qed

text \<open>(the stream gets through) If every segment carries bytes of one stream \<open>f\<close> under one initial
  sequence number, within \<open>2^31\<close> of the next byte, then in any order, with any repetition and
  overlap and with sequence numbers that wrap around, what the application can read is exactly the
  next bytes of \<open>f\<close>.\<close>

theorem receiver_delivers_stream:
  assumes "all_steps (rx_honest f isn) rx_step ops (rx_new c)"
  defines "out \<equiv> rx_stream_out (fold rx_step ops (rx_new c))"
  shows "bs_content out = excerpt f (bs_bytes_read out) (bs_buffer_size out) \<and>
    bs_bytes_written out = bs_bytes_read out + bs_buffer_size out"
proof -
  have "rx_inv (bytes_of f) (fold rx_step ops (rx_new c))"
    using rx_stream_machine.run_inv [OF refl assms(1)] by blast
  then show ?thesis
    by (auto simp: out_def rx_inv_def ra_inv_def bs_inv_def stream_simps bytes_of_def rx_stream_out_def)
qed

definition rx_example :: "bool \<Rightarrow> u32 \<Rightarrow> byte list \<Rightarrow> tcp_segment" where
  "rx_example syn seqno d = \<lparr>seg_header = th_new\<lparr>th_syn := syn, th_seqno := WrappingInt32 seqno\<rparr>,
     seg_payload = buffer_of_string d\<rparr>"

theorem receiver_delivers_stream_witness:
  "let ops = [Rx_Segment (rx_example True 0xffffffff []), Rx_Segment (rx_example False 1 [1]),
      Rx_Segment (rx_example False 0 [0])];
     out = rx_stream_out (fold rx_step ops (rx_new 8)) in
   bs_content out = excerpt of_nat (bs_bytes_read out) (bs_buffer_size out) \<and>
   bs_bytes_written out = bs_bytes_read out + bs_buffer_size out"
proof -
  let ?isn = "WrappingInt32 0xffffffff"
  have carries: "rx_carries of_nat ?isn 0 (rx_example True 0xffffffff [])"
    "rx_carries of_nat ?isn 1 (rx_example False 1 [1])"
    "rx_carries of_nat ?isn 0 (rx_example False 0 [0])"
    by (simp_all add: rx_carries_def rx_example_def bytes_of_def excerpt_def th_new_def wrap_def)
  have near: "rx_near 0 (rx_new 8)"
    "rx_near 1 (rx_step (Rx_Segment (rx_example True 0xffffffff [])) (rx_new 8))"
    "rx_near 0 (rx_step (Rx_Segment (rx_example False 1 [1]))
       (rx_step (Rx_Segment (rx_example True 0xffffffff [])) (rx_new 8)))"
    by code_simp+
  have all_ok: "all_steps (rx_honest of_nat ?isn) rx_step
      [Rx_Segment (rx_example True 0xffffffff []), Rx_Segment (rx_example False 1 [1]),
       Rx_Segment (rx_example False 0 [0])] (rx_new 8)"
    using carries near by auto
  show ?thesis unfolding Let_def by (rule receiver_delivers_stream [OF all_ok])
qed

text \<open>C13: (in-order segment) With nothing out of order pending, a segment whose sequence number is
  the acknowledgment number and whose payload fits the advertised window is appended to the output
  stream whole, the acknowledgment number moves past the payload and past the FIN, and a FIN ends
  the stream.\<close>

theorem receiver_in_order:
  assumes s: "rx_synced rx" and cap: "0 < rx_capacity rx"
    and seq: "rx_ackno_opt rx = Some (th_seqno (seg_header seg))" and syn: "\<not> th_syn (seg_header seg)"
    and win: "length (buffer_str (seg_payload seg)) \<le> rx_window_size rx"
  defines "rx' \<equiv> rx_segment_received seg rx"
  shows "bs_content (rx_stream_out rx') = bs_content (rx_stream_out rx) @ buffer_str (seg_payload seg) \<and>
    rx_ackno rx' = wi_plus (rx_ackno rx)
      (of_nat (length (buffer_str (seg_payload seg))) + (if th_fin (seg_header seg) then 1 else 0)) \<and>
    (th_fin (seg_header seg) \<longrightarrow> bs_input_ended (rx_stream_out rx'))"
proof -
  let ?w = "bs_written (rx_stream_out rx)"
  have "th_seqno (seg_header seg) = rx_ackno rx"
    using seq by (simp add: rx_ackno_opt_def split: if_splits)
  then have "th_seqno (seg_header seg) = wrap (of_nat (Suc ?w)) (rx_isn rx)"
    by (simp only: rx_synced_next [OF s])
  note p = rx_synced_push [OF s order.refl _ this syn _ rx_synced_window [OF s win] cap]
  show ?thesis using p by (simp add: rx'_def stream_simps)
qed

lemma rx_example_synced:
  "rx_synced (rx_segment_received (rx_example True isn [5, 6]) (rx_new 8))"
proof -
  let ?rx = "rx_segment_received (rx_example True isn [5, 6]) (rx_new 8)"
  have "rx_inv any_bytes (rx_step (Rx_Segment (rx_example True isn [5, 6])) (rx_new 8)) \<and>
      rx_capacity (rx_step (Rx_Segment (rx_example True isn [5, 6])) (rx_new 8)) = 8"
    by (rule rx_machine.step_inv [OF rx_machine.start_inv [OF refl]]) simp
  then have "rx_inv any_bytes ?rx" by simp
  moreover have "ra_blocks (rx_reassembler ?rx) = [] \<and> ra_unassembled_byte (rx_reassembler ?rx) = 0
      \<and> bs_written (rx_stream_out ?rx) = 2 \<and> \<not> rx_fin ?rx \<and> rx_fin_not_count ?rx
      \<and> rx_ackno ?rx = wi_plus (WrappingInt32 isn) 3"
    using push_into_empty [of "ra_new 8" 0 "[5, 6]" False] ra_new_inv(1) [of any_bytes 8]
    by (simp add: rx_segment_received_def rx_push_def rx_finish_def rx_example_def rx_new_def
        rx_stream_out_def th_new_def buffer_copy_def any_bytes_def ra_limit_def Let_def stream_simps)
      (simp add: ra_new_def)
  ultimately show ?thesis
    by (simp add: rx_synced_def rx_acks_def) (simp add: rx_example_def rx_new_def)
qed

theorem receiver_in_order_witness:
  "let rx = rx_segment_received (rx_example True 9 [5, 6]) (rx_new 8); seg = rx_example False 12 [7];
     rx' = rx_segment_received seg rx in
   bs_content (rx_stream_out rx') = bs_content (rx_stream_out rx) @ [7] \<and> rx_ackno rx' = WrappingInt32 13"
proof -
  let ?rx = "rx_segment_received (rx_example True 9 [5, 6]) (rx_new 8)"
  have "0 < rx_capacity ?rx" by (simp add: rx_new_def)
  moreover have "rx_ackno_opt ?rx = Some (th_seqno (seg_header (rx_example False 12 [7])))"
    "\<not> th_syn (seg_header (rx_example False 12 [7]))"
    "length (buffer_str (seg_payload (rx_example False 12 [7]))) \<le> rx_window_size ?rx"
    "rx_ackno ?rx = WrappingInt32 12"
    by code_simp+
  ultimately show ?thesis
    unfolding Let_def using receiver_in_order [OF rx_example_synced [of 9], of "rx_example False 12 [7]"]
    by (simp add: wi_plus_def) (simp add: rx_example_def th_new_def)
qed

text \<open>
  After the end of the stream the receiver takes nothing more: what counts is that the FIN is in and
  nothing is unassembled.
\<close>

definition rx_closed :: "tcp_receiver \<Rightarrow> bool" where
  "rx_closed rx \<longleftrightarrow> rx_syn rx \<and> rx_fin rx \<and> ra_empty (rx_reassembler rx) \<and>
     \<not> rx_fin_not_count rx \<and> bs_input_end (rx_stream_out rx)"

lemma rx_closed_step:
  assumes "rx_closed rx"
  shows "rx_closed (rx_segment_received seg rx)"
    and "bs_written (rx_stream_out (rx_segment_received seg rx)) = bs_written (rx_stream_out rx)"
  using assms by (auto simp: rx_closed_def rx_segment_received_def rx_finish_def rx_stream_out_def
      ra_empty_def Let_def)

lemma rx_closed_error:
  assumes "rx_closed rx"
  shows "rx_closed (rx_step Rx_Error rx)"
    and "bs_written (rx_stream_out (rx_step Rx_Error rx)) = bs_written (rx_stream_out rx)"
  using assms by (auto simp: rx_closed_def rx_with_output_def rx_stream_out_def ra_empty_def)

text \<open>An empty substring changes nothing but the end of the stream, wherever it is placed.\<close>

lemma push_nothing_into_empty:
  fixes eof :: bool and index :: nat
  assumes inv: "ra_inv any_bytes r" and emp: "ra_blocks r = []" "ra_unassembled_byte r = 0"
  defines "r' \<equiv> push_substring [] index eof r"
  shows "bs_content (ra_output r') = bs_content (ra_output r)"
    and "bs_written (ra_output r') = bs_written (ra_output r)"
    and "ra_unassembled_byte r' = 0"
proof -
  define s where "s = (if index \<le> ra_head_index r then r
    else ra_flush (ra_store (ra_clip [] index (ra_head_index r)) r))"
  have r': "r' = (if index \<ge> ra_head_index r + ra_capacity r then r else ra_judge_eof eof s)"
    by (simp add: r'_def push_substring_def s_def Let_def)
  have t: "ra_store (Block_Node index 0 []) r = r\<lparr>ra_blocks := [Block_Node index 0 []], ra_unassembled_byte := 0\<rparr>"
    using emp by (simp add: ra_store_def merge_next_end merge_prev_end set_lower_bound_def set_insert_def)
  have s: "bs_content (ra_output s) = bs_content (ra_output r) \<and>
      bs_written (ra_output s) = bs_written (ra_output r) \<and> ra_unassembled_byte s = 0"
  proof (cases "index \<le> ra_head_index r")
    case True
    then show ?thesis using emp by (simp add: s_def)
  next
    case False
    then have "ra_clip [] index (ra_head_index r) = Block_Node index 0 []"
      by (simp add: ra_clip_def Let_def)
    then have "s = ra_flush (r\<lparr>ra_blocks := [Block_Node index 0 []], ra_unassembled_byte := 0\<rparr>)"
      using False t by (simp add: s_def)
    then have "s = r\<lparr>ra_blocks := [Block_Node index 0 []], ra_unassembled_byte := 0\<rparr>"
      using False by (simp add: ra_flush_def)
    then show ?thesis by simp
  qed
  then show "bs_content (ra_output r') = bs_content (ra_output r)"
    "bs_written (ra_output r') = bs_written (ra_output r)" "ra_unassembled_byte r' = 0"
    using emp by (auto simp: r')
qed

text \<open>(a FIN without data ends the stream) With nothing unassembled, a segment with the FIN and
  without data ends the output stream, whatever its sequence number: the number is not looked at.
  The acknowledgment number moves by one over the next sequence number, although the byte of that
  number may never have arrived, and no later segment adds a byte to the stream.\<close>

theorem premature_fin_acknowledged:
  assumes s: "rx_synced rx" and fin: "th_fin (seg_header seg)" and syn: "\<not> th_syn (seg_header seg)"
    and none: "buffer_str (seg_payload seg) = []"
  defines "rx' \<equiv> rx_segment_received seg rx"
  shows "rx_closed rx' \<and> bs_content (rx_stream_out rx') = bs_content (rx_stream_out rx) \<and>
    bs_written (rx_stream_out rx') = bs_written (rx_stream_out rx) \<and>
    rx_ackno rx' = wi_plus (rx_ackno rx) 1"
proof -
  let ?h = "seg_header seg" and ?r = "rx_reassembler rx"
  have st: "rx_syn rx" "\<not> rx_fin rx" "rx_fin_not_count rx" "ra_blocks ?r = []"
    "ra_unassembled_byte ?r = 0" "ra_inv any_bytes ?r"
    using s by (auto simp: rx_synced_def rx_inv_def)
  let ?r' = "push_substring [] (unat (rx_index (th_seqno ?h) rx)) (th_fin ?h) ?r"
  note p = push_nothing_into_empty [OF st(6,4,5), of "unat (rx_index (th_seqno ?h) rx)" "th_fin ?h"]
  have push: "rx_push seg False rx = rx\<lparr>rx_reassembler := ?r'\<rparr>"
    using p(2) by (simp add: rx_push_def Let_def buffer_copy_def none rx_stream_out_def stream_simps wi_plus_def)
  have "rx' = rx_finish (rx\<lparr>rx_reassembler := ?r', rx_fin := True\<rparr>)"
    using st(1,2) syn fin by (simp add: rx'_def rx_segment_received_def Let_def push)
  then show ?thesis
    using p st(1,3) by (simp add: rx_finish_def rx_closed_def rx_stream_out_def ra_empty_def Let_def)
qed

theorem premature_fin_acknowledged_witness:
  "let rx = rx_segment_received (rx_example True 9 [5, 6]) (rx_new 8);
     fin = (rx_example False 15 [])\<lparr>seg_header := (seg_header (rx_example False 15 []))\<lparr>th_fin := True\<rparr>\<rparr>;
     rx' = rx_segment_received fin rx in
   bs_input_ended (rx_stream_out rx') \<and> bs_written (rx_stream_out rx') = bs_written (rx_stream_out rx) \<and>
   rx_ackno rx' = WrappingInt32 13"
proof -
  have "rx_ackno (rx_segment_received (rx_example True 9 [5, 6]) (rx_new 8)) = WrappingInt32 12"
    by code_simp
  then show ?thesis
    using premature_fin_acknowledged [OF rx_example_synced [of 9],
        of "(rx_example False 15 [])\<lparr>seg_header := (seg_header (rx_example False 15 []))\<lparr>th_fin := True\<rparr>\<rparr>"]
    by (simp add: Let_def rx_closed_def stream_simps wi_plus_def) (simp add: rx_example_def th_new_def)
qed

text \<open>(stale acknowledgment) The acknowledgment number moves only when the sequence number
  equals it. A segment that begins before the next byte and runs past it is written to the output
  stream, but the acknowledgment number stays behind the bytes written.\<close>

theorem receiver_overlap_not_acked:
  assumes s: "rx_synced rx" and cap: "0 < rx_capacity rx" and syn: "\<not> th_syn (seg_header seg)"
    and seq: "th_seqno (seg_header seg) = wrap (of_nat (Suc i)) (rx_isn rx)"
    and i: "i < bs_bytes_written (rx_stream_out rx)" "bs_bytes_written (rx_stream_out rx) \<le> i + 2 ^ 30"
    and new: "bs_bytes_written (rx_stream_out rx) < i + length (buffer_str (seg_payload seg))"
    and fin: "\<not> th_fin (seg_header seg)"
    and room: "i + length (buffer_str (seg_payload seg)) \<le> bs_bytes_written (rx_stream_out rx) + rx_window_size rx"
  defines "rx' \<equiv> rx_segment_received seg rx"
  shows "bs_bytes_written (rx_stream_out rx') > bs_bytes_written (rx_stream_out rx) \<and>
    rx_ackno rx' = rx_ackno rx"
proof -
  let ?d = "buffer_str (seg_payload seg)" and ?w = "bs_written (rx_stream_out rx)"
  have "i + length ?d - ?w \<le> rx_window_size rx" using room by (simp add: stream_simps)
  from rx_synced_window [OF s this] have "i + length ?d \<le> ra_limit (rx_reassembler rx)"
    using new by (simp add: stream_simps)
  note p = rx_synced_push [OF s _ _ seq syn _ this cap]
  show ?thesis using p i new fin by (simp add: rx'_def stream_simps wi_plus_def)
qed

theorem receiver_overlap_not_acked_witness:
  "let rx = rx_segment_received (rx_example True 9 [5, 6]) (rx_new 8); seg = rx_example False 10 [5, 6, 7];
     rx' = rx_segment_received seg rx in
   bs_bytes_written (rx_stream_out rx') > bs_bytes_written (rx_stream_out rx) \<and> rx_ackno rx' = rx_ackno rx"
proof -
  let ?rx = "rx_segment_received (rx_example True 9 [5, 6]) (rx_new 8)"
  let ?seg = "rx_example False 10 [5, 6, 7]"
  have "bs_bytes_written (rx_stream_out ?rx) = 2" "rx_isn ?rx = WrappingInt32 9"
    "rx_window_size ?rx = 6" by code_simp+
  moreover have "0 < rx_capacity ?rx" by (simp add: rx_new_def)
  ultimately show ?thesis
    unfolding Let_def
    by (intro receiver_overlap_not_acked [OF rx_example_synced, where i = 0])
      (simp_all add: rx_example_def th_new_def wrap_def)
qed

text \<open>(lost acknowledgment) \<open>ackno()\<close> takes the raw value 0 for "nothing received": when the
  initial sequence number is \<open>2^32 - 1\<close> the receiver that has just received the SYN reports no
  acknowledgment number.\<close>

theorem receiver_ackno_zero_hidden:
  assumes "th_syn (seg_header seg)" and "th_seqno (seg_header seg) = WrappingInt32 0xffffffff"
    and "buffer_str (seg_payload seg) = []" and "\<not> th_fin (seg_header seg)"
  shows "rx_ackno_opt (rx_segment_received seg (rx_new c)) = None \<and>
    rx_syn (rx_segment_received seg (rx_new c))"
proof -
  have "ra_output (push_substring [] i False (ra_new c)) = bs_new c" if "i = 0" for i
    using that by (simp add: push_substring_def ra_judge_eof_def Let_def) (simp add: ra_new_def)
  then show ?thesis
    using assms by (simp add: rx_ackno_opt_def rx_segment_received_def rx_push_def rx_finish_def
        rx_new_def rx_stream_out_def buffer_copy_def wi_plus_def Let_def stream_simps)
qed

theorem receiver_ackno_zero_hidden_witness:
  "rx_ackno_opt (rx_segment_received (rx_example True 0xffffffff []) (rx_new 8)) = None \<and>
    rx_syn (rx_segment_received (rx_example True 0xffffffff []) (rx_new 8))"
  by (rule receiver_ackno_zero_hidden) (simp_all add: rx_example_def th_new_def)

end
