(* ===== verification/TCP_Sender.thy ===== *)
theory TCP_Sender
  imports Byte_Stream TCP_Segment
begin

text \<open>
  \<open>libsponge/tcp_sender.{hh,cc}\<close>: the segments cut from the outgoing stream, the window, the
  acknowledgments and the retransmission timer. Sequence counters, the window arithmetic and the
  clocks are words of the code's widths. The random initial sequence number that the constructor
  draws when none is configured is a parameter.
\<close>

section \<open>State\<close>

record tcp_sender =
  tx_syn :: bool
  tx_fin :: bool
  tx_window_is_zero :: bool
  tx_clock_is_counting :: bool
  tx_bytes_in_flight :: u64
  tx_window_size :: u16
  tx_checkpoint :: u64
  tx_clock :: u64
  tx_segments_in_flight :: "tcp_segment list"
  tx_consecutive_retrans :: u32
  tx_retrans_timeout :: u32
  tx_receive_ack :: u64
  tx_isn :: wrapping_int32
  tx_segments_out :: "tcp_segment list"
  tx_initial_retransmission_timeout :: u32
  tx_stream :: byte_stream
  tx_next_seqno :: u64

definition tx_new :: "nat \<Rightarrow> u16 \<Rightarrow> wrapping_int32 option \<Rightarrow> u32 \<Rightarrow> tcp_sender" where
  "tx_new capacity retx_timeout isn_opt random =
     \<lparr>tx_syn = False, tx_fin = False, tx_window_is_zero = False, tx_clock_is_counting = False,
      tx_bytes_in_flight = 0, tx_window_size = 0, tx_checkpoint = 0, tx_clock = 0,
      tx_segments_in_flight = [], tx_consecutive_retrans = 0,
      tx_retrans_timeout = ucast retx_timeout, tx_receive_ack = 0,
      tx_isn = (case isn_opt of Some isn \<Rightarrow> isn | None \<Rightarrow> WrappingInt32 random),
      tx_segments_out = [], tx_initial_retransmission_timeout = ucast retx_timeout,
      tx_stream = bs_new capacity, tx_next_seqno = 0\<rparr>"

section \<open>Sending\<close>

definition tx_send_segment :: "tcp_segment \<Rightarrow> tcp_sender \<Rightarrow> tcp_sender" where
  "tx_send_segment seg tx =
     (let seg = seg\<lparr>seg_header := (seg_header seg)\<lparr>th_seqno := wrap (tx_next_seqno tx) (tx_isn tx)\<rparr>\<rparr>;
          n = of_nat (length_in_sequence_space seg);
          tx = tx\<lparr>tx_next_seqno := tx_next_seqno tx + n,
                  tx_bytes_in_flight := tx_bytes_in_flight tx + n,
                  tx_segments_in_flight := tx_segments_in_flight tx @ [seg],
                  tx_segments_out := tx_segments_out tx @ [seg]\<rparr> in
      if \<not> tx_clock_is_counting tx then tx\<lparr>tx_clock_is_counting := True, tx_clock := 0\<rparr> else tx)"

definition tx_send_empty_segment :: "tcp_sender \<Rightarrow> tcp_sender" where
  "tx_send_empty_segment tx =
     tx\<lparr>tx_segments_out := tx_segments_out tx @
        [seg_new\<lparr>seg_header := th_new\<lparr>th_seqno := wrap (tx_next_seqno tx) (tx_isn tx)\<rparr>\<rparr>]\<rparr>"

text \<open>\<open>remain = win - (_next_seqno - _receive_ack)\<close>, in \<open>size_t\<close> arithmetic.\<close>

definition tx_remain :: "u64 \<Rightarrow> tcp_sender \<Rightarrow> u64" where
  "tx_remain win tx = win - (tx_next_seqno tx - tx_receive_ack tx)"

text \<open>The segment that one round of the loop cuts, whether it carries the FIN, and the stream left.\<close>

definition tx_cut :: "u64 \<Rightarrow> tcp_sender \<Rightarrow> tcp_segment \<times> byte_stream" where
  "tx_cut win tx =
     (let len = min (tx_remain win tx) (of_nat MAX_PAYLOAD_SIZE);
          (data, stream) = projr (bs_read (unat len) (tx_stream tx));
          seg = seg_new\<lparr>seg_payload := buffer_of_string data\<rparr>;
          seg = (if bs_eof stream \<and> length_in_sequence_space seg < unat win
                 then seg\<lparr>seg_header := (seg_header seg)\<lparr>th_fin := True\<rparr>\<rparr> else seg) in
      (seg, stream))"

function tx_fill_loop :: "u64 \<Rightarrow> tcp_sender \<Rightarrow> tcp_sender" where
  "tx_fill_loop win tx =
     (if tx_remain win tx = 0 \<or> tx_fin tx then tx
      else
        let (seg, stream) = tx_cut win tx;
            tx = tx\<lparr>tx_stream := stream, tx_fin := tx_fin tx \<or> th_fin (seg_header seg)\<rparr> in
        if length_in_sequence_space seg = 0 then tx
        else tx_fill_loop win (tx_send_segment seg tx))"
  by pat_completeness auto

lemma tx_cut_stream:
  "snd (tx_cut win tx) =
     snd (projr (bs_read (unat (min (tx_remain win tx) (of_nat MAX_PAYLOAD_SIZE))) (tx_stream tx)))"
  by (simp add: tx_cut_def Let_def split: prod.split)

lemma tx_cut_payload:
  "buffer_str (seg_payload (fst (tx_cut win tx))) =
     take (unat (min (tx_remain win tx) (of_nat MAX_PAYLOAD_SIZE))) (bs_content (tx_stream tx))"
  using bs_read_fst [of "unat (min (tx_remain win tx) (of_nat MAX_PAYLOAD_SIZE))" "tx_stream tx"]
  by (auto simp: tx_cut_def Let_def split: prod.split)

lemma tx_cut_header:
  "\<not> th_syn (seg_header (fst (tx_cut win tx)))"
  "th_fin (seg_header (fst (tx_cut win tx))) \<longleftrightarrow>
     bs_eof (snd (tx_cut win tx)) \<and> length (buffer_str (seg_payload (fst (tx_cut win tx)))) < unat win"
  by (auto simp: tx_cut_def Let_def seg_new_def th_new_def length_in_sequence_space_def
      split: prod.split)

lemma tx_send_frame [simp]:
  "tx_stream (tx_send_segment seg tx) = tx_stream tx" "tx_fin (tx_send_segment seg tx) = tx_fin tx"
  "tx_syn (tx_send_segment seg tx) = tx_syn tx" "tx_isn (tx_send_segment seg tx) = tx_isn tx"
  "tx_receive_ack (tx_send_segment seg tx) = tx_receive_ack tx"
  "tx_window_size (tx_send_segment seg tx) = tx_window_size tx"
  "tx_window_is_zero (tx_send_segment seg tx) = tx_window_is_zero tx"
  "tx_checkpoint (tx_send_segment seg tx) = tx_checkpoint tx"
  "tx_retrans_timeout (tx_send_segment seg tx) = tx_retrans_timeout tx"
  "tx_consecutive_retrans (tx_send_segment seg tx) = tx_consecutive_retrans tx"
  "tx_initial_retransmission_timeout (tx_send_segment seg tx) = tx_initial_retransmission_timeout tx"
  by (simp_all add: tx_send_segment_def Let_def)

text \<open>
  The loop ends: a round that sends a segment either takes bytes out of the stream or sends the
  FIN, after which the guard stops it.
\<close>

termination tx_fill_loop
proof (relation "measure (\<lambda>(win, tx). length (bs_content (tx_stream tx)) + (if tx_fin tx then 0 else 1))",
    goal_cases)
  case (2 win tx x seg stream tx')
  let ?n = "unat (min (tx_remain win tx) (of_nat MAX_PAYLOAD_SIZE))"
  have cut: "seg = fst (tx_cut win tx)" "stream = snd (tx_cut win tx)" using 2(2,3) by (metis fst_conv, metis snd_conv)
  have "min (tx_remain win tx) (of_nat MAX_PAYLOAD_SIZE) \<noteq> 0"
    using 2(1) by (auto simp: min_def MAX_PAYLOAD_SIZE_def)
  then have n: "0 < ?n" by (simp add: unat_gt_0)
  have content: "bs_content stream = drop ?n (bs_content (tx_stream tx))"
    by (simp add: cut tx_cut_stream bs_read_snd)
  show ?case
  proof (cases "bs_content (tx_stream tx) = []")
    case True
    then have "buffer_str (seg_payload seg) = []" by (simp add: cut tx_cut_payload)
    then have "th_fin (seg_header seg)"
      using 2(5) tx_cut_header(1) [of win tx] by (simp add: length_in_sequence_space_def cut split: if_splits)
    then show ?thesis using True content 2(1,4) by simp
  next
    case False
    then have "length (bs_content stream) < length (bs_content (tx_stream tx))" using n content by simp
    then show ?thesis using 2(1,4) by simp
  qed
qed simp

declare tx_fill_loop.simps [simp del]

definition tx_fill_window :: "tcp_sender \<Rightarrow> tcp_sender" where
  "tx_fill_window tx =
     (if \<not> tx_syn tx then
        (tx_send_segment (seg_new\<lparr>seg_header := th_new\<lparr>th_syn := True\<rparr>\<rparr>) tx)\<lparr>tx_syn := True\<rparr>
      else
        let tx = tx\<lparr>tx_window_is_zero := (tx_window_size tx = 0)\<rparr>;
            win = (if tx_window_size tx > 0 then ucast (tx_window_size tx) else 1) in
        tx_fill_loop win tx)"

section \<open>Acknowledgments and time\<close>

fun tx_pop_acked :: "u64 \<Rightarrow> tcp_segment list \<Rightarrow> tcp_sender \<Rightarrow> tcp_sender" where
  "tx_pop_acked abs_ackno [] tx = tx\<lparr>tx_segments_in_flight := []\<rparr>"
| "tx_pop_acked abs_ackno (seg # segs) tx =
     (let n = of_nat (length_in_sequence_space seg) in
      if unwrap (th_seqno (seg_header seg)) (tx_isn tx) (tx_next_seqno tx) + n \<le> abs_ackno
      then tx_pop_acked abs_ackno segs (tx\<lparr>tx_bytes_in_flight := tx_bytes_in_flight tx - n\<rparr>)
      else tx\<lparr>tx_segments_in_flight := seg # segs\<rparr>)"

definition tx_ack_received :: "wrapping_int32 \<Rightarrow> u16 \<Rightarrow> tcp_sender \<Rightarrow> tcp_sender" where
  "tx_ack_received ackno window_size tx =
     (let abs_ackno = unwrap ackno (tx_isn tx) (tx_checkpoint tx) in
      if abs_ackno > tx_next_seqno tx then tx
      else
        let tx = tx\<lparr>tx_window_size := window_size\<rparr> in
        if abs_ackno \<le> tx_receive_ack tx then tx
        else
          let tx = tx\<lparr>tx_receive_ack := abs_ackno, tx_checkpoint := abs_ackno\<rparr>;
              tx = tx_pop_acked abs_ackno (tx_segments_in_flight tx) tx;
              tx = tx_fill_window tx;
              tx = tx\<lparr>tx_retrans_timeout := tx_initial_retransmission_timeout tx,
                      tx_consecutive_retrans := 0\<rparr> in
          if tx_segments_in_flight tx \<noteq> [] then tx\<lparr>tx_clock_is_counting := True, tx_clock := 0\<rparr>
          else tx)"

definition tx_tick :: "u64 \<Rightarrow> tcp_sender \<Rightarrow> tcp_sender" where
  "tx_tick ms_since_last_tick tx =
     (let tx = tx\<lparr>tx_clock := tx_clock tx + ms_since_last_tick\<rparr>;
          tx = (if tx_clock tx \<ge> ucast (tx_retrans_timeout tx) \<and> tx_segments_in_flight tx \<noteq> [] then
                  let tx = tx\<lparr>tx_segments_out := tx_segments_out tx @ [hd (tx_segments_in_flight tx)],
                              tx_consecutive_retrans := tx_consecutive_retrans tx + 1,
                              tx_clock_is_counting := True, tx_clock := 0\<rparr> in
                  if \<not> tx_window_is_zero tx then tx\<lparr>tx_retrans_timeout := tx_retrans_timeout tx * 2\<rparr>
                  else tx
                else tx) in
      if tx_segments_in_flight tx = [] then tx\<lparr>tx_clock_is_counting := False\<rparr> else tx)"

section \<open>Segments and the stream they carry\<close>

text \<open>
  \<open>tx_carries f isn b seg\<close>: the segment starts at the absolute sequence number \<open>b\<close> of the stream
  \<open>f\<close>: it is the SYN at 0 or it carries the bytes of \<open>f\<close> from index \<open>b - 1\<close> on. \<open>flight_ok\<close> lays
  the outstanding segments end to end.
\<close>

definition tx_carries :: "(nat \<Rightarrow> byte) \<Rightarrow> wrapping_int32 \<Rightarrow> nat \<Rightarrow> tcp_segment \<Rightarrow> bool" where
  "tx_carries f isn b seg \<longleftrightarrow>
     th_seqno (seg_header seg) = wrap (of_nat b) isn \<and> length_in_sequence_space seg \<le> 1001 \<and>
     (if th_syn (seg_header seg) then b = 0 \<and> buffer_str (seg_payload seg) = [] \<and> \<not> th_fin (seg_header seg)
      else 0 < b \<and> excerpt f (b - 1) (length (buffer_str (seg_payload seg))) = buffer_str (seg_payload seg))"

fun flight_ok :: "(nat \<Rightarrow> byte) \<Rightarrow> wrapping_int32 \<Rightarrow> nat \<Rightarrow> tcp_segment list \<Rightarrow> bool" where
  "flight_ok f isn b [] = True"
| "flight_ok f isn b (seg # segs) =
     (tx_carries f isn b seg \<and> 0 < length_in_sequence_space seg \<and>
      flight_ok f isn (b + length_in_sequence_space seg) segs)"

definition flight_total :: "tcp_segment list \<Rightarrow> nat" where
  "flight_total segs = sum_list (map length_in_sequence_space segs)"

lemma flight_total_simps [simp]:
  "flight_total [] = 0"
  "flight_total (seg # segs) = length_in_sequence_space seg + flight_total segs"
  "flight_total (xs @ ys) = flight_total xs + flight_total ys"
  by (simp_all add: flight_total_def)

lemma flight_ok_append [simp]:
  "flight_ok f isn b (xs @ ys) \<longleftrightarrow> flight_ok f isn b xs \<and> flight_ok f isn (b + flight_total xs) ys"
  by (induction xs arbitrary: b) (auto simp: add.assoc)

section \<open>The sender's invariant\<close>

text \<open>
  The outstanding segments lie end to end from some \<open>b\<close> to \<open>_next_seqno\<close>; the highest
  acknowledgment lies in the first of them; everything is a piece of the stream; the number of
  unacknowledged sequence numbers is at most the window (or 1), plus 1 for the FIN.
\<close>

definition tx_flight :: "(nat \<Rightarrow> byte) \<Rightarrow> nat \<Rightarrow> tcp_sender \<Rightarrow> bool" where
  "tx_flight f b tx \<longleftrightarrow>
     (let fl = tx_segments_in_flight tx in
      b + flight_total fl = unat (tx_next_seqno tx) \<and> flight_ok f (tx_isn tx) b fl \<and>
      tx_bytes_in_flight tx = of_nat (flight_total fl) \<and> b \<le> unat (tx_receive_ack tx) \<and>
      (if fl = [] then tx_receive_ack tx = tx_next_seqno tx
       else unat (tx_receive_ack tx) < b + length_in_sequence_space (hd fl)))"

lemma tx_flight_syn [simp]: "tx_flight f b (tx\<lparr>tx_syn := v\<rparr>) = tx_flight f b tx"
  by (simp add: tx_flight_def)

definition tx_stream_ok :: "(nat \<Rightarrow> byte) \<Rightarrow> tcp_sender \<Rightarrow> bool" where
  "tx_stream_ok f tx \<longleftrightarrow>
     (let st = tx_stream tx in
      bs_inv st \<and> excerpt f (bs_readden st) (length (bs_content st)) = bs_content st \<and>
      int (bs_written st) + 2 ^ 33 \<le> 2 ^ 64 \<and>
      unat (tx_next_seqno tx) =
        (if tx_syn tx then 1 + bs_readden st + (if tx_fin tx then 1 else 0) else 0) \<and>
      (\<not> tx_syn tx \<longrightarrow> \<not> tx_fin tx \<and> bs_readden st = 0))"

definition tx_window :: "tcp_sender \<Rightarrow> nat" where
  "tx_window tx = max 1 (unat (tx_window_size tx))"

lemma tx_flight_frame [simp]:
  "tx_flight f b (tx\<lparr>tx_window_size := w\<rparr>) = tx_flight f b tx"
  "tx_flight f b (tx\<lparr>tx_segments_out := out\<rparr>) = tx_flight f b tx"
  "tx_flight f b (tx\<lparr>tx_stream := st\<rparr>) = tx_flight f b tx"
  by (simp_all add: tx_flight_def)

lemma tx_stream_ok_frame [simp]:
  "tx_stream_ok f (tx\<lparr>tx_window_size := w\<rparr>) = tx_stream_ok f tx"
  "tx_stream_ok f (tx\<lparr>tx_segments_out := out\<rparr>) = tx_stream_ok f tx"
  "tx_stream_ok f (tx\<lparr>tx_stream := bs_end_input (tx_stream tx)\<rparr>) = tx_stream_ok f tx"
  "tx_stream_ok f (tx\<lparr>tx_stream := bs_set_error (tx_stream tx)\<rparr>) = tx_stream_ok f tx"
  by (simp_all add: tx_stream_ok_def Let_def)

definition tx_inv :: "(nat \<Rightarrow> byte) \<Rightarrow> tcp_sender \<Rightarrow> bool" where
  "tx_inv f tx \<longleftrightarrow>
     (\<exists>b. tx_flight f b tx) \<and> tx_stream_ok f tx \<and>
     tx_receive_ack tx \<le> tx_next_seqno tx \<and> tx_checkpoint tx = tx_receive_ack tx \<and>
     unat (tx_next_seqno tx) \<le> unat (tx_receive_ack tx) + tx_window tx + (if tx_fin tx then 1 else 0) \<and>
     (\<forall>seg\<in>set (tx_segments_out tx). \<exists>b. b \<le> unat (tx_next_seqno tx) \<and> tx_carries f (tx_isn tx) b seg)"

lemma unat_add_small:
  fixes a :: u64
  assumes "unat a + n < 2 ^ 64"
  shows "unat (a + of_nat n) = unat a + n"
proof -
  have "unat (of_nat n :: u64) = n" using assms by (simp add: unat_of_nat)
  then show ?thesis using assms by (simp add: unat_word_ariths)
qed

lemma tx_next_bound:
  assumes "tx_stream_ok f tx" shows "unat (tx_next_seqno tx) + 2 ^ 32 < 2 ^ 64"
proof -
  let ?st = "tx_stream tx"
  have "bs_readden ?st \<le> bs_written ?st" "int (bs_written ?st) + 2 ^ 33 \<le> 2 ^ 64"
    using assms by (simp_all add: tx_stream_ok_def bs_inv_def Let_def)
  moreover have "unat (tx_next_seqno tx) \<le> bs_readden ?st + 2"
    using assms by (simp add: tx_stream_ok_def Let_def)
  ultimately show ?thesis by simp
qed

text \<open>Sending a segment that starts at the next sequence number extends the flight.\<close>

lemma tx_send_flight:
  assumes fl: "tx_flight f b tx" and le: "tx_receive_ack tx \<le> tx_next_seqno tx"
    and room: "unat (tx_next_seqno tx) + length_in_sequence_space seg < 2 ^ 64"
    and car: "tx_carries f (tx_isn tx) (unat (tx_next_seqno tx))
      (seg\<lparr>seg_header := (seg_header seg)\<lparr>th_seqno := wrap (tx_next_seqno tx) (tx_isn tx)\<rparr>\<rparr>)"
    and pos: "0 < length_in_sequence_space seg"
  shows "\<exists>b. tx_flight f b (tx_send_segment seg tx)"
    and "unat (tx_next_seqno (tx_send_segment seg tx)) = unat (tx_next_seqno tx) + length_in_sequence_space seg"
proof -
  let ?seg = "seg\<lparr>seg_header := (seg_header seg)\<lparr>th_seqno := wrap (tx_next_seqno tx) (tx_isn tx)\<rparr>\<rparr>"
  have len: "length_in_sequence_space ?seg = length_in_sequence_space seg"
    by (simp add: length_in_sequence_space_def)
  show next': "unat (tx_next_seqno (tx_send_segment seg tx)) = unat (tx_next_seqno tx) + length_in_sequence_space seg"
    using unat_add_small [OF room] by (simp add: tx_send_segment_def Let_def len)
  have flight: "tx_segments_in_flight (tx_send_segment seg tx) = tx_segments_in_flight tx @ [?seg]"
    "tx_bytes_in_flight (tx_send_segment seg tx) = tx_bytes_in_flight tx + of_nat (length_in_sequence_space seg)"
    by (simp_all add: tx_send_segment_def Let_def len)
  show "\<exists>b. tx_flight f b (tx_send_segment seg tx)"
  proof (cases "tx_segments_in_flight tx = []")
    case True
    then have "tx_flight f (unat (tx_next_seqno tx)) (tx_send_segment seg tx)"
      using fl car pos next' by (simp add: tx_flight_def flight len)
    then show ?thesis ..
  next
    case False
    then have "tx_flight f b (tx_send_segment seg tx)"
      using fl car pos next' by (auto simp: tx_flight_def flight len Let_def)
    then show ?thesis ..
  qed
qed

text \<open>While the FIN has not been sent, the loop's \<open>size_t\<close> arithmetic does not wrap.\<close>

lemma tx_remain_eq:
  assumes "tx_inv f tx" and "\<not> tx_fin tx" and "unat win = tx_window tx"
  shows "unat (tx_remain win tx) = unat (tx_receive_ack tx) + tx_window tx - unat (tx_next_seqno tx)"
proof -
  have le: "tx_receive_ack tx \<le> tx_next_seqno tx"
    and win: "unat (tx_next_seqno tx) \<le> unat (tx_receive_ack tx) + unat win"
    using assms by (simp_all add: tx_inv_def)
  have d: "unat (tx_next_seqno tx - tx_receive_ack tx) = unat (tx_next_seqno tx) - unat (tx_receive_ack tx)"
    using le by (rule unat_sub)
  then have "tx_next_seqno tx - tx_receive_ack tx \<le> win"
    using win by (simp add: word_le_nat_alt)
  then have "unat (tx_remain win tx) = unat win - unat (tx_next_seqno tx - tx_receive_ack tx)"
    unfolding tx_remain_def by (rule unat_sub)
  then show ?thesis using d win le assms(3) by (simp add: word_le_nat_alt)
qed

lemma tx_cut_facts:
  assumes inv: "tx_inv f tx" and syn: "tx_syn tx" and nf: "\<not> tx_fin tx" and win: "unat win = tx_window tx"
    and cut: "tx_cut win tx = (seg, stream)"
  defines "d \<equiv> length (buffer_str (seg_payload seg))"
  shows "buffer_str (seg_payload seg) = excerpt f (unat (tx_next_seqno tx) - 1) d"
    and "d \<le> 1000" and "unat (tx_next_seqno tx) + d \<le> unat (tx_receive_ack tx) + tx_window tx"
    and "bs_content stream = drop d (bs_content (tx_stream tx))"
    and "bs_readden stream = bs_readden (tx_stream tx) + d" and "bs_written stream = bs_written (tx_stream tx)"
    and "bs_inv stream" and "\<not> th_syn (seg_header seg)"
    and "length_in_sequence_space seg = d + (if th_fin (seg_header seg) then 1 else 0)"
    and "th_fin (seg_header seg) \<longleftrightarrow> bs_eof stream \<and> d < tx_window tx"
    and "tx_remain win tx \<noteq> 0 \<Longrightarrow> bs_content (tx_stream tx) \<noteq> [] \<Longrightarrow> 0 < d"
proof -
  let ?n = "unat (min (tx_remain win tx) (of_nat MAX_PAYLOAD_SIZE))" and ?st = "tx_stream tx"
  have eqs: "seg = fst (tx_cut win tx)" "stream = snd (tx_cut win tx)" using cut by simp_all
  have st: "bs_inv ?st" "excerpt f (bs_readden ?st) (length (bs_content ?st)) = bs_content ?st"
    "unat (tx_next_seqno tx) = 1 + bs_readden ?st"
    using inv syn nf by (simp_all add: tx_inv_def tx_stream_ok_def Let_def)
  have pay: "buffer_str (seg_payload seg) = take ?n (bs_content ?st)"
    by (simp add: eqs tx_cut_payload)
  then have d: "d = min ?n (length (bs_content ?st))" by (simp add: d_def)
  have n: "?n \<le> 1000" "?n \<le> unat (tx_remain win tx)"
    by (simp_all add: MAX_PAYLOAD_SIZE_def min_def word_le_nat_alt)
  show "buffer_str (seg_payload seg) = excerpt f (unat (tx_next_seqno tx) - 1) d"
    using pay st(2,3) take_excerpt [of ?n f "bs_readden ?st" "length (bs_content ?st)"] d by simp
  show "d \<le> 1000" using d n by simp
  have "unat (tx_next_seqno tx) \<le> unat (tx_receive_ack tx) + tx_window tx"
    using inv nf by (simp add: tx_inv_def)
  then show "unat (tx_next_seqno tx) + d \<le> unat (tx_receive_ack tx) + tx_window tx"
    using d n(2) tx_remain_eq [OF inv nf win] by simp
  have drop: "drop ?n (bs_content ?st) = drop d (bs_content ?st)" using d by (simp add: min_def)
  show "bs_content stream = drop d (bs_content ?st)"
    using drop by (simp add: eqs tx_cut_stream bs_read_snd)
  show "bs_readden stream = bs_readden ?st + d" "bs_written stream = bs_written ?st" "bs_inv stream"
    using d st(1) by (simp_all add: eqs tx_cut_stream bs_read_snd)
  show "\<not> th_syn (seg_header seg)" using tx_cut_header(1) eqs by simp
  then show "length_in_sequence_space seg = d + (if th_fin (seg_header seg) then 1 else 0)"
    by (simp add: length_in_sequence_space_def d_def)
  show "th_fin (seg_header seg) \<longleftrightarrow> bs_eof stream \<and> d < tx_window tx"
    using tx_cut_header(2) [of win tx] win by (simp add: eqs d_def)
  assume "tx_remain win tx \<noteq> 0" "bs_content ?st \<noteq> []"
  then show "0 < d" using d by (auto simp: min_def MAX_PAYLOAD_SIZE_def unat_gt_0)
qed

lemma tx_round:
  assumes inv: "tx_inv f tx" and syn: "tx_syn tx" and nf: "\<not> tx_fin tx" and win: "unat win = tx_window tx"
    and cut: "tx_cut win tx = (seg, stream)"
  defines "tx1 \<equiv> tx\<lparr>tx_stream := stream, tx_fin := th_fin (seg_header seg)\<rparr>"
  shows "length_in_sequence_space seg = 0 \<Longrightarrow> tx_inv f tx1"
    and "0 < length_in_sequence_space seg \<Longrightarrow> tx_inv f (tx_send_segment seg tx1)"
proof -
  note c = tx_cut_facts [OF inv syn nf win cut]
  let ?d = "length (buffer_str (seg_payload seg))" and ?N = "unat (tx_next_seqno tx)"
  obtain b where fl: "tx_flight f b tx" using inv by (auto simp: tx_inv_def)
  have st: "tx_stream_ok f tx" using inv by (simp add: tx_inv_def)
  have ex: "excerpt f (bs_readden stream) (length (bs_content stream)) = bs_content stream"
    using st c(4,5) drop_excerpt [of ?d f "bs_readden (tx_stream tx)" "length (bs_content (tx_stream tx))"]
    by (simp add: tx_stream_ok_def Let_def)
  have N: "?N = 1 + bs_readden (tx_stream tx)"
    using st syn nf by (simp add: tx_stream_ok_def Let_def)
  then have "0 < ?N" by simp
  have fl1: "tx_flight f b tx1" using fl by (simp add: tx_flight_def tx1_def Let_def)
  {
    assume "length_in_sequence_space seg = 0"
    then have z: "?d = 0" "\<not> th_fin (seg_header seg)" using c(9) by (auto split: if_splits)
    have "tx_stream_ok f tx1"
      using st ex c(5,6,7) z syn nf by (simp add: tx_stream_ok_def tx1_def Let_def)
    then show "tx_inv f tx1"
      using inv fl1 z nf by (auto simp: tx_inv_def tx1_def tx_window_def)
  }
  assume pos: "0 < length_in_sequence_space seg"
  let ?seg = "seg\<lparr>seg_header := (seg_header seg)\<lparr>th_seqno := wrap (tx_next_seqno tx) (tx_isn tx)\<rparr>\<rparr>"
  have len: "length_in_sequence_space seg \<le> 1001" using c(2,9) by simp
  have lens: "length_in_sequence_space ?seg = length_in_sequence_space seg"
    by (simp add: length_in_sequence_space_def)
  have car: "tx_carries f (tx_isn tx) ?N ?seg"
    using c(1,8) len lens \<open>0 < ?N\<close> by (simp add: tx_carries_def)
  have room: "?N + length_in_sequence_space seg < 2 ^ 64"
    using tx_next_bound [OF st] len by simp
  have le: "tx_receive_ack tx \<le> tx_next_seqno tx" using inv by (simp add: tx_inv_def)
  let ?tx2 = "tx_send_segment seg tx1"
  have flight2: "\<exists>b. tx_flight f b ?tx2"
    by (rule tx_send_flight(1) [OF fl1]) (use le room car pos in \<open>simp_all add: tx1_def\<close>)
  have "unat (tx_next_seqno ?tx2) = unat (tx_next_seqno tx1) + length_in_sequence_space seg"
    by (rule tx_send_flight(2) [OF fl1]) (use le room car pos in \<open>simp_all add: tx1_def\<close>)
  then have N2: "unat (tx_next_seqno ?tx2) = ?N + length_in_sequence_space seg"
    by (simp add: tx1_def)
  have frame: "tx_stream ?tx2 = stream" "tx_fin ?tx2 = th_fin (seg_header seg)" "tx_syn ?tx2"
    "tx_isn ?tx2 = tx_isn tx" "tx_receive_ack ?tx2 = tx_receive_ack tx" "tx_window ?tx2 = tx_window tx"
    "tx_checkpoint ?tx2 = tx_checkpoint tx" "tx_segments_out ?tx2 = tx_segments_out tx @ [?seg]"
    using syn by (simp_all add: tx1_def tx_window_def) (simp add: tx_send_segment_def Let_def)
  have "unat (tx_next_seqno ?tx2) = 1 + bs_readden stream + (if th_fin (seg_header seg) then 1 else 0)"
    using N N2 c(5,9) by simp
  moreover have "int (bs_written stream) + 2 ^ 33 \<le> 2 ^ 64"
    using st c(6) by (simp add: tx_stream_ok_def Let_def)
  ultimately have "tx_stream_ok f ?tx2"
    unfolding tx_stream_ok_def Let_def frame using ex c(7) frame(3) by (simp only: simp_thms if_True)
  moreover have "tx_receive_ack tx \<le> tx_next_seqno ?tx2"
    using le N2 by (simp add: word_le_nat_alt)
  moreover have "unat (tx_next_seqno ?tx2) \<le>
      unat (tx_receive_ack tx) + tx_window tx + (if th_fin (seg_header seg) then 1 else 0)"
    using N2 c(3,9) by simp
  moreover have "\<exists>b \<le> unat (tx_next_seqno ?tx2). tx_carries f (tx_isn tx) b s"
    if s: "s \<in> set (tx_segments_out tx @ [?seg])" for s
  proof (cases "s = ?seg")
    case True
    then show ?thesis using car N2 by (intro exI [of _ ?N]) simp
  next
    case False
    then obtain b where "b \<le> ?N" "tx_carries f (tx_isn tx) b s"
      using s inv by (auto simp: tx_inv_def)
    then show ?thesis using N2 by (intro exI [of _ b]) simp
  qed
  moreover have "tx_inv f ?tx2"
    if "tx_stream_ok f ?tx2" and "tx_receive_ack tx \<le> tx_next_seqno ?tx2"
      and "unat (tx_next_seqno ?tx2) \<le>
      unat (tx_receive_ack tx) + tx_window tx + (if th_fin (seg_header seg) then 1 else 0)"
      and "\<And>s. s \<in> set (tx_segments_out tx @ [?seg]) \<Longrightarrow>
        \<exists>b \<le> unat (tx_next_seqno ?tx2). tx_carries f (tx_isn tx) b s"
  proof -
    have "tx_checkpoint tx = tx_receive_ack tx" using inv by (simp add: tx_inv_def)
    then show ?thesis
      using that flight2 unfolding tx_inv_def frame by blast
  qed
  ultimately show "tx_inv f ?tx2" by blast
qed

lemma tx_fill_loop_stop:
  "tx_remain win tx = 0 \<or> tx_fin tx \<Longrightarrow> tx_fill_loop win tx = tx"
  by (subst tx_fill_loop.simps) simp

lemma tx_fill_loop_round:
  assumes "tx_remain win tx \<noteq> 0" and "\<not> tx_fin tx" and "tx_cut win tx = (seg, stream)"
  shows "tx_fill_loop win tx =
    (let tx = tx\<lparr>tx_stream := stream, tx_fin := th_fin (seg_header seg)\<rparr> in
     if length_in_sequence_space seg = 0 then tx else tx_fill_loop win (tx_send_segment seg tx))"
  using assms by (subst tx_fill_loop.simps) (simp add: Let_def)

text \<open>What the loop keeps, and where it stops.\<close>

lemma tx_fill_loop_inv:
  assumes "tx_inv f tx" and "tx_syn tx" and "unat win = tx_window tx"
  shows "tx_inv f (tx_fill_loop win tx) \<and> tx_syn (tx_fill_loop win tx)
    \<and> tx_window_size (tx_fill_loop win tx) = tx_window_size tx
    \<and> tx_isn (tx_fill_loop win tx) = tx_isn tx
    \<and> tx_receive_ack (tx_fill_loop win tx) = tx_receive_ack tx
    \<and> bs_written (tx_stream (tx_fill_loop win tx)) = bs_written (tx_stream tx)
    \<and> tx_initial_retransmission_timeout (tx_fill_loop win tx) = tx_initial_retransmission_timeout tx
    \<and> (tx_fin (tx_fill_loop win tx) \<or> tx_remain win (tx_fill_loop win tx) = 0 \<or>
       bs_content (tx_stream (tx_fill_loop win tx)) = [] \<and>
         \<not> bs_input_ended (tx_stream (tx_fill_loop win tx)))"
  using assms
proof (induction win tx rule: tx_fill_loop.induct)
  case (1 win tx)
  obtain seg stream where cut: "tx_cut win tx = (seg, stream)" by force
  let ?tx1 = "tx\<lparr>tx_stream := stream, tx_fin := th_fin (seg_header seg)\<rparr>"
  consider (stop) "tx_remain win tx = 0 \<or> tx_fin tx"
    | (empty) "tx_remain win tx \<noteq> 0" "\<not> tx_fin tx" "length_in_sequence_space seg = 0"
    | (send) "tx_remain win tx \<noteq> 0" "\<not> tx_fin tx" "0 < length_in_sequence_space seg"
    by blast
  then show ?case
  proof cases
    case stop
    then show ?thesis using 1 by (auto simp: tx_fill_loop_stop)
  next
    case empty
    note c = tx_cut_facts [OF 1(2,3) empty(2) 1(4) cut]
    have loop: "tx_fill_loop win tx = ?tx1"
      using tx_fill_loop_round [OF empty(1,2) cut] empty(3) by simp
    have z: "buffer_str (seg_payload seg) = []" "\<not> th_fin (seg_header seg)"
      using c(9) empty(3) by (auto split: if_splits)
    then have "bs_content (tx_stream tx) = []" using c(11) empty(1) by auto
    then have "bs_content stream = []" "\<not> bs_input_ended stream"
      using c(4,10) z 1(4) by (auto simp: tx_window_def stream_simps)
    moreover have "tx_inv f ?tx1" by (rule tx_round(1) [OF 1(2,3) empty(2) 1(4) cut empty(3)])
    ultimately show ?thesis using 1(3) c(6) by (simp add: loop)
  next
    case send
    note c = tx_cut_facts [OF 1(2,3) send(2) 1(4) cut]
    let ?tx2 = "tx_send_segment seg ?tx1"
    have loop: "tx_fill_loop win tx = tx_fill_loop win ?tx2"
      using tx_fill_loop_round [OF send(1,2) cut] send(3) by simp
    have inv: "tx_inv f ?tx2" by (rule tx_round(2) [OF 1(2,3) send(2) 1(4) cut send(3)])
    have frame: "tx_syn ?tx2" "unat win = tx_window ?tx2" using 1(3,4) by (simp_all add: tx_window_def)
    have "\<not> (tx_remain win tx = 0 \<or> tx_fin tx)" using send by simp
    have eq: "tx\<lparr>tx_stream := stream, tx_fin := tx_fin tx \<or> th_fin (seg_header seg)\<rparr> = ?tx1"
      using send(2) by simp
    note IH = 1(1) [OF \<open>\<not> (tx_remain win tx = 0 \<or> tx_fin tx)\<close> cut [symmetric] refl, unfolded eq]
    show ?thesis using IH send(3) inv frame c(6) by (simp add: loop)
  qed
qed

section \<open>Every operation keeps the invariant\<close>

lemma tx_fill_window_unsent:
  "\<not> tx_syn tx \<Longrightarrow> tx_fill_window tx =
     (tx_send_segment (seg_new\<lparr>seg_header := th_new\<lparr>th_syn := True\<rparr>\<rparr>) tx)\<lparr>tx_syn := True\<rparr>"
  by (simp add: tx_fill_window_def)

lemma tx_fill_window_sent:
  assumes "tx_syn tx"
  obtains win tx0 where "tx0 = tx\<lparr>tx_window_is_zero := (tx_window_size tx = 0)\<rparr>"
    and "unat win = tx_window tx0" and "tx_fill_window tx = tx_fill_loop win tx0"
proof
  let ?win = "if tx_window_size tx > 0 then ucast (tx_window_size tx) else 1 :: u64"
  let ?tx0 = "tx\<lparr>tx_window_is_zero := (tx_window_size tx = 0)\<rparr>"
  have "unat (ucast (tx_window_size tx) :: u64) = unat (tx_window_size tx)"
    using unsigned_less [of "tx_window_size tx", where 'a = nat]
    by (simp add: unsigned_ucast_eq take_bit_eq_mod)
  then show "unat ?win = tx_window ?tx0"
    using unat_gt_0 [of "tx_window_size tx"]
    by (cases "tx_window_size tx = 0") (simp_all add: tx_window_def max_def word_neq_0_conv [symmetric])
  show "tx_fill_window tx = tx_fill_loop ?win ?tx0"
    using assms by (simp add: tx_fill_window_def Let_def)
qed simp

lemma tx_inv_window_flag [simp]:
  "tx_inv f (tx\<lparr>tx_window_is_zero := z\<rparr>) = tx_inv f tx"
  by (simp add: tx_inv_def tx_flight_def tx_stream_ok_def tx_window_def)

lemma tx_unsent:
  assumes "tx_inv f tx" and "\<not> tx_syn tx"
  shows "tx_next_seqno tx = 0 \<and> tx_receive_ack tx = 0 \<and> tx_segments_in_flight tx = [] \<and> \<not> tx_fin tx"
proof -
  obtain b where fl: "tx_flight f b tx" and st: "tx_stream_ok f tx" and le: "tx_receive_ack tx \<le> tx_next_seqno tx"
    using assms(1) by (auto simp: tx_inv_def)
  have n: "tx_next_seqno tx = 0" "\<not> tx_fin tx"
    using st assms(2) by (simp_all add: tx_stream_ok_def Let_def unat_eq_zero)
  have "flight_ok f (tx_isn tx) b (tx_segments_in_flight tx)" "flight_total (tx_segments_in_flight tx) = 0"
    using fl n by (auto simp: tx_flight_def Let_def)
  then have "tx_segments_in_flight tx = []" by (cases "tx_segments_in_flight tx") auto
  then show ?thesis using n le by (simp add: word_le_nat_alt unat_eq_zero)
qed

lemma tx_fill_window_inv:
  assumes inv: "tx_inv f tx"
  shows "tx_inv f (tx_fill_window tx)"
proof (cases "tx_syn tx")
  case True
  obtain win tx0 where tx0: "tx0 = tx\<lparr>tx_window_is_zero := (tx_window_size tx = 0)\<rparr>"
    "unat win = tx_window tx0" "tx_fill_window tx = tx_fill_loop win tx0"
    using tx_fill_window_sent [OF True] .
  have "tx_inv f tx0" "tx_syn tx0" using inv True by (simp_all add: tx0(1))
  then show ?thesis using tx_fill_loop_inv tx0(2,3) by simp
next
  case False
  let ?seg = "seg_new\<lparr>seg_header := th_new\<lparr>th_syn := True\<rparr>\<rparr>"
  let ?tx2 = "tx_send_segment ?seg tx"
  have u: "tx_next_seqno tx = 0" "tx_receive_ack tx = 0" "tx_segments_in_flight tx = []" "\<not> tx_fin tx"
    using tx_unsent [OF inv False] by simp_all
  have len: "length_in_sequence_space ?seg = 1"
    by (simp add: length_in_sequence_space_def seg_new_def th_new_def)
  obtain b where fl: "tx_flight f b tx" and st: "tx_stream_ok f tx" using inv by (auto simp: tx_inv_def)
  have car: "tx_carries f (tx_isn tx) 0 (?seg\<lparr>seg_header := (seg_header ?seg)\<lparr>th_seqno := wrap 0 (tx_isn tx)\<rparr>\<rparr>)"
    by (simp add: tx_carries_def length_in_sequence_space_def seg_new_def th_new_def)
  have fl2: "\<exists>b. tx_flight f b ?tx2"
    by (rule tx_send_flight(1) [OF fl]) (use car u len in simp_all)
  have n2: "tx_next_seqno ?tx2 = 1"
    using u len by (simp add: tx_send_segment_def Let_def length_in_sequence_space_def)
  have out: "tx_segments_out ?tx2 = tx_segments_out tx @
      [?seg\<lparr>seg_header := (seg_header ?seg)\<lparr>th_seqno := wrap 0 (tx_isn tx)\<rparr>\<rparr>]"
    using u by (simp add: tx_send_segment_def Let_def)
  have "\<exists>b \<le> 1. tx_carries f (tx_isn tx) b s" if s: "s \<in> set (tx_segments_out ?tx2)" for s
    using s car inv u unfolding out by (auto simp: tx_inv_def)
  moreover have "tx_stream_ok f (?tx2\<lparr>tx_syn := True\<rparr>)"
    using st u n2 False by (auto simp: tx_stream_ok_def Let_def)
  moreover have "\<exists>b. tx_flight f b (?tx2\<lparr>tx_syn := True\<rparr>)"
    using fl2 by simp
  moreover have "tx_checkpoint tx = 0" using inv u by (simp add: tx_inv_def)
  ultimately show ?thesis
    using n2 u unfolding tx_fill_window_unsent [OF False] tx_inv_def by (simp add: tx_window_def)
qed

lemma unwrap_flight:
  assumes "b \<le> unat next" and "unat next < b + 2 ^ 31" and "unat next + 2 ^ 32 < 2 ^ 64"
  shows "unwrap (wrap (of_nat b) isn) isn next = of_nat b"
proof -
  have b: "unat (of_nat b :: u64) = b" using assms(1,3) by (simp add: unat_of_nat)
  have n: "uint next = int (unat next)" "uint (of_nat b :: u64) = int b"
    using b by (simp_all only: uint_nat)
  have "int (unat next + 2 ^ 32) < int (2 ^ 64)" using assms(3) by (simp only: of_nat_less_iff)
  then have "uint next + 2 ^ 32 \<le> 2 ^ 64" unfolding n by simp
  moreover have "\<bar>uint (of_nat b :: u64) - uint next\<bar> < 2 ^ 31"
  proof -
    define m where "m = unat next"
    have "b \<le> m" "m < b + 2 ^ 31" using assms(1,2) by (simp_all only: m_def)
    then show ?thesis unfolding n m_def [symmetric] by simp
  qed
  ultimately show ?thesis by (rule unwrap_of_wrap)
qed

text \<open>The acknowledged segments leave the front of the flight, and only they.\<close>

lemma tx_pop_acked_split:
  assumes "flight_ok f (tx_isn tx) b segs" and "b + flight_total segs = unat (tx_next_seqno tx)"
    and "flight_total segs < 2 ^ 31" and "unat (tx_next_seqno tx) + 2 ^ 32 < 2 ^ 64"
    and "b \<le> unat abs_ackno"
  shows "\<exists>pre rest. segs = pre @ rest \<and>
    tx_pop_acked abs_ackno segs tx = tx\<lparr>tx_segments_in_flight := rest,
      tx_bytes_in_flight := tx_bytes_in_flight tx - of_nat (flight_total pre)\<rparr> \<and>
    b + flight_total pre \<le> unat abs_ackno \<and>
    (rest = [] \<or> unat abs_ackno < b + flight_total pre + length_in_sequence_space (hd rest))"
  using assms
proof (induction segs arbitrary: b tx)
  case Nil
  then show ?case by simp
next
  case (Cons seg segs)
  let ?n = "length_in_sequence_space seg"
  have seq: "th_seqno (seg_header seg) = wrap (of_nat b) (tx_isn tx)"
    using Cons.prems(1) by (simp add: tx_carries_def)
  have tot: "b + ?n + flight_total segs = unat (tx_next_seqno tx)" using Cons.prems(2) by simp
  then have "unwrap (th_seqno (seg_header seg)) (tx_isn tx) (tx_next_seqno tx) = of_nat b"
    unfolding seq by (intro unwrap_flight) (use Cons.prems(3,4) in simp_all)
  moreover have "unat (of_nat b + of_nat ?n :: u64) = b + ?n"
  proof -
    have "b + ?n < 2 ^ 64" using tot Cons.prems(4) by simp
    then show ?thesis using unat_of_nat [of "b + ?n", where 'a = 64] by simp
  qed
  ultimately have cond: "unwrap (th_seqno (seg_header seg)) (tx_isn tx) (tx_next_seqno tx) + of_nat ?n
      \<le> abs_ackno \<longleftrightarrow> b + ?n \<le> unat abs_ackno"
    by (simp add: word_le_nat_alt)
  show ?case
  proof (cases "b + ?n \<le> unat abs_ackno")
    case True
    let ?tx = "tx\<lparr>tx_bytes_in_flight := tx_bytes_in_flight tx - of_nat ?n\<rparr>"
    obtain pre rest where ih: "segs = pre @ rest"
      "tx_pop_acked abs_ackno segs ?tx = ?tx\<lparr>tx_segments_in_flight := rest,
        tx_bytes_in_flight := tx_bytes_in_flight ?tx - of_nat (flight_total pre)\<rparr>"
      "b + ?n + flight_total pre \<le> unat abs_ackno"
      "rest = [] \<or> unat abs_ackno < b + ?n + flight_total pre + length_in_sequence_space (hd rest)"
      using Cons.IH [of ?tx "b + ?n"] Cons.prems True by auto
    have "tx_pop_acked abs_ackno (seg # segs) tx = tx_pop_acked abs_ackno segs ?tx"
      using True cond by (simp add: Let_def)
    then show ?thesis
      using ih by (intro exI [of _ "seg # pre"] exI [of _ rest]) (simp add: algebra_simps)
  next
    case False
    then show ?thesis
      using cond Cons.prems(5) by (intro exI [of _ "[]"] exI [of _ "seg # segs"]) (simp add: Let_def)
  qed
qed

lemma tx_inv_timer [simp]:
  "tx_inv f (tx\<lparr>tx_clock := c\<rparr>) = tx_inv f tx"
  "tx_inv f (tx\<lparr>tx_clock_is_counting := k\<rparr>) = tx_inv f tx"
  "tx_inv f (tx\<lparr>tx_retrans_timeout := t\<rparr>) = tx_inv f tx"
  "tx_inv f (tx\<lparr>tx_consecutive_retrans := n\<rparr>) = tx_inv f tx"
  by (simp_all add: tx_inv_def tx_flight_def tx_stream_ok_def tx_window_def)

text \<open>The peer does not take back window it has offered: what was sent still fits.\<close>

definition tx_keeps_window :: "wrapping_int32 \<Rightarrow> u16 \<Rightarrow> tcp_sender \<Rightarrow> bool" where
  "tx_keeps_window ackno window tx \<longleftrightarrow>
     (let abs_ackno = unwrap ackno (tx_isn tx) (tx_checkpoint tx) in
      abs_ackno \<le> tx_next_seqno tx \<longrightarrow>
      unat (tx_next_seqno tx) \<le> max (unat abs_ackno) (unat (tx_receive_ack tx)) +
        max 1 (unat window) + (if tx_fin tx then 1 else 0))"

lemma tx_flight_bound:
  assumes "tx_inv f tx" and "tx_flight f b tx"
  shows "flight_total (tx_segments_in_flight tx) < 2 ^ 31"
proof (cases "tx_segments_in_flight tx")
  case (Cons seg segs)
  have "length_in_sequence_space seg \<le> 1001"
    using assms(2) Cons by (simp add: tx_flight_def tx_carries_def Let_def)
  moreover have "b + flight_total (tx_segments_in_flight tx) = unat (tx_next_seqno tx)"
    "unat (tx_receive_ack tx) < b + length_in_sequence_space seg"
    using assms(2) Cons by (simp_all add: tx_flight_def Let_def)
  moreover have "unat (tx_next_seqno tx) \<le> unat (tx_receive_ack tx) + tx_window tx + 1"
    using assms(1) by (auto simp: tx_inv_def split: if_splits)
  moreover have "tx_window tx \<le> 2 ^ 16"
    using unsigned_less [of "tx_window_size tx", where 'a = nat] by (simp add: tx_window_def)
  ultimately show ?thesis by simp
qed simp

text \<open>The state in which an accepted acknowledgment calls \<open>fill_window\<close>.\<close>

lemma tx_pop_acked_inv:
  assumes inv: "tx_inv f tx" and keep: "tx_keeps_window ackno window tx"
    and abs: "abs_ackno = unwrap ackno (tx_isn tx) (tx_checkpoint tx)"
    and range: "abs_ackno \<le> tx_next_seqno tx" "tx_receive_ack tx < abs_ackno"
  defines "tx1 \<equiv> tx\<lparr>tx_window_size := window, tx_receive_ack := abs_ackno, tx_checkpoint := abs_ackno\<rparr>"
  shows "tx_inv f (tx_pop_acked abs_ackno (tx_segments_in_flight tx) tx1)"
    and "tx_receive_ack (tx_pop_acked abs_ackno (tx_segments_in_flight tx) tx1) = abs_ackno"
    and "\<exists>pre. tx_segments_in_flight tx =
      pre @ tx_segments_in_flight (tx_pop_acked abs_ackno (tx_segments_in_flight tx) tx1)"
proof -
  let ?fl = "tx_segments_in_flight tx"
  obtain b where fl: "tx_flight f b tx" using inv by (auto simp: tx_inv_def)
  have st: "tx_stream_ok f tx" using inv by (simp add: tx_inv_def)
  have ok: "flight_ok f (tx_isn tx) b ?fl" "b + flight_total ?fl = unat (tx_next_seqno tx)"
    "b \<le> unat (tx_receive_ack tx)" "tx_bytes_in_flight tx = of_nat (flight_total ?fl)"
    using fl by (simp_all add: tx_flight_def Let_def)
  have b: "b \<le> unat abs_ackno" using ok(3) range(2) by (simp add: word_less_nat_alt)
  obtain pre rest where pop: "?fl = pre @ rest"
    "tx_pop_acked abs_ackno ?fl tx1 = tx1\<lparr>tx_segments_in_flight := rest,
      tx_bytes_in_flight := tx_bytes_in_flight tx1 - of_nat (flight_total pre)\<rparr>"
    "b + flight_total pre \<le> unat abs_ackno"
    "rest = [] \<or> unat abs_ackno < b + flight_total pre + length_in_sequence_space (hd rest)"
  proof -
    have "flight_ok f (tx_isn tx1) b ?fl" "b + flight_total ?fl = unat (tx_next_seqno tx1)"
      "unat (tx_next_seqno tx1) + 2 ^ 32 < 2 ^ 64"
      using ok(1,2) tx_next_bound [OF st] by (simp_all add: tx1_def)
    from tx_pop_acked_split [OF this(1,2) tx_flight_bound [OF inv fl] this(3) b]
    show ?thesis using that by blast
  qed
  have "abs_ackno = tx_next_seqno tx" if "rest = []"
  proof -
    have "unat (tx_next_seqno tx) \<le> unat abs_ackno" using pop(1,3) ok(2) that by simp
    then show ?thesis using range(1) by (simp add: word_le_nat_alt unsigned_word_eqI [where 'a = nat])
  qed
  note last = this
  define p where "p = tx_pop_acked abs_ackno ?fl tx1"
  have pf: "tx_segments_in_flight p = rest" "tx_isn p = tx_isn tx" "tx_next_seqno p = tx_next_seqno tx"
    "tx_bytes_in_flight p = tx_bytes_in_flight tx - of_nat (flight_total pre)"
    "tx_stream p = tx_stream tx" "tx_syn p = tx_syn tx" "tx_fin p = tx_fin tx"
    "tx_receive_ack p = abs_ackno" "tx_checkpoint p = abs_ackno" "tx_window_size p = window"
    "tx_segments_out p = tx_segments_out tx"
    unfolding p_def pop(2) by (simp_all add: tx1_def)
  have "tx_flight f (b + flight_total pre) p"
    using pop(1,3,4) ok last by (auto simp: tx_flight_def Let_def pf)
  moreover have "tx_stream_ok f p"
    using st by (simp add: tx_stream_ok_def Let_def pf)
  moreover have "unat (tx_next_seqno tx) \<le> unat abs_ackno + max 1 (unat window) + (if tx_fin tx then 1 else 0)"
    using keep range abs by (simp add: tx_keeps_window_def Let_def word_less_nat_alt max_def)
  ultimately have "tx_inv f p"
    using inv range(1) unfolding tx_inv_def tx_window_def pf by blast
  then show "tx_inv f (tx_pop_acked abs_ackno ?fl tx1)" by (simp add: p_def)
  show "tx_receive_ack (tx_pop_acked abs_ackno ?fl tx1) = abs_ackno"
    using pf by (simp add: p_def)
  show "\<exists>pre. ?fl = pre @ tx_segments_in_flight (tx_pop_acked abs_ackno ?fl tx1)"
    using pop(1) pf by (simp add: p_def)
qed

lemma tx_ack_received_inv:
  assumes inv: "tx_inv f tx" and keep: "tx_keeps_window ackno window tx"
  shows "tx_inv f (tx_ack_received ackno window tx)"
proof -
  define abs_ackno where "abs_ackno = unwrap ackno (tx_isn tx) (tx_checkpoint tx)"
  consider "abs_ackno > tx_next_seqno tx"
    | "abs_ackno \<le> tx_next_seqno tx" "abs_ackno \<le> tx_receive_ack tx"
    | "abs_ackno \<le> tx_next_seqno tx" "tx_receive_ack tx < abs_ackno"
    by force
  then show ?thesis
  proof cases
    case 1
    then show ?thesis using inv by (simp add: tx_ack_received_def abs_ackno_def Let_def)
  next
    case 2
    have "unat (tx_next_seqno tx) \<le> unat (tx_receive_ack tx) + max 1 (unat window) + (if tx_fin tx then 1 else 0)"
      using keep 2 by (simp add: tx_keeps_window_def abs_ackno_def Let_def word_le_nat_alt max_def)
    then have "tx_inv f (tx\<lparr>tx_window_size := window\<rparr>)"
      using inv by (simp add: tx_inv_def tx_window_def)
    then show ?thesis using 2 inv by (simp add: tx_ack_received_def abs_ackno_def Let_def)
  next
    case 3
    have "tx_inv f (tx_fill_window (tx_pop_acked abs_ackno (tx_segments_in_flight tx)
        (tx\<lparr>tx_window_size := window, tx_receive_ack := abs_ackno, tx_checkpoint := abs_ackno\<rparr>)))"
      by (intro tx_fill_window_inv tx_pop_acked_inv [OF inv keep abs_ackno_def 3])
    moreover have "\<not> tx_next_seqno tx < abs_ackno" "\<not> abs_ackno \<le> tx_receive_ack tx" using 3 by auto
    ultimately show ?thesis
      by (simp add: tx_ack_received_def abs_ackno_def [symmetric] Let_def)
  qed
qed

section \<open>The sender as an operation-driven machine\<close>

text \<open>
  The application writes, ends and fails the stream through \<open>stream_in()\<close>; the connection fills
  the window, passes on acknowledgments and time, asks for empty segments and takes segments off
  the queue.
\<close>

datatype tx_op =
    Tx_Write "byte list"
  | Tx_End
  | Tx_Error
  | Tx_Fill
  | Tx_Ack wrapping_int32 u16
  | Tx_Tick u64
  | Tx_Empty
  | Tx_Take

fun tx_step :: "tx_op \<Rightarrow> tcp_sender \<Rightarrow> tcp_sender" where
  "tx_step (Tx_Write d) tx = tx\<lparr>tx_stream := snd (bs_write d (tx_stream tx))\<rparr>"
| "tx_step Tx_End tx = tx\<lparr>tx_stream := bs_end_input (tx_stream tx)\<rparr>"
| "tx_step Tx_Error tx = tx\<lparr>tx_stream := bs_set_error (tx_stream tx)\<rparr>"
| "tx_step Tx_Fill tx = tx_fill_window tx"
| "tx_step (Tx_Ack ackno window) tx = tx_ack_received ackno window tx"
| "tx_step (Tx_Tick ms) tx = tx_tick ms tx"
| "tx_step Tx_Empty tx = tx_send_empty_segment tx"
| "tx_step Tx_Take tx = tx\<lparr>tx_segments_out := tl (tx_segments_out tx)\<rparr>"

text \<open>
  The application writes the bytes of \<open>f\<close> and no more than 2^64 - 2^33 of them, the peer keeps the
  window it has offered, and empty segments are asked for only after the SYN.
\<close>

fun tx_ok :: "(nat \<Rightarrow> byte) \<Rightarrow> tx_op \<Rightarrow> tcp_sender \<Rightarrow> bool" where
  "tx_ok f (Tx_Write d) tx =
     (d = excerpt f (bs_written (tx_stream tx)) (length d) \<and>
      int (bs_written (tx_stream tx)) + int (length d) + 2 ^ 33 \<le> 2 ^ 64)"
| "tx_ok f (Tx_Ack ackno window) tx = tx_keeps_window ackno window tx"
| "tx_ok f Tx_Empty tx = tx_syn tx"
| "tx_ok f _ tx = True"

lemma tx_write_stream:
  assumes st: "tx_stream_ok f tx"
    and d: "d = excerpt f (bs_written (tx_stream tx)) (length d) \<and>
      int (bs_written (tx_stream tx)) + int (length d) + 2 ^ 33 \<le> 2 ^ 64"
  shows "tx_stream_ok f (tx_step (Tx_Write d) tx)"
proof -
  let ?st = "tx_stream tx" and ?room = "bs_capacity (tx_stream tx) - length (bs_content (tx_stream tx))"
  have eq: "bs_written ?st = bs_readden ?st + length (bs_content ?st)"
    "excerpt f (bs_readden ?st) (length (bs_content ?st)) = bs_content ?st"
    using st by (simp_all add: tx_stream_ok_def bs_inv_def Let_def)
  have "take ?room d = excerpt f (bs_written ?st) (min ?room (length d))"
    using d by (metis take_excerpt)
  then have "bs_content ?st @ take ?room d
      = excerpt f (bs_readden ?st) (length (bs_content ?st) + min ?room (length d))"
    using eq excerpt_append by metis
  moreover have "int (bs_written ?st + min (length d) ?room) + 2 ^ 33 \<le> 2 ^ 64"
    using d by (simp add: min_def)
  ultimately show ?thesis
    using st by (simp add: tx_stream_ok_def bs_write_snd Let_def min.commute)
qed

lemma tx_write_inv:
  "tx_inv f tx \<Longrightarrow> tx_ok f (Tx_Write d) tx \<Longrightarrow> tx_inv f (tx_step (Tx_Write d) tx)"
  using tx_write_stream [of f tx d] by (simp add: tx_inv_def tx_window_def)

lemma tx_tick_inv:
  assumes "tx_inv f tx" shows "tx_inv f (tx_tick ms tx)"
proof -
  have out: "tx_inv f (tx\<lparr>tx_segments_out := tx_segments_out tx @ [hd (tx_segments_in_flight tx)]\<rparr>)"
    if ne: "tx_segments_in_flight tx \<noteq> []"
  proof -
    obtain b where fl: "tx_flight f b tx" using assms by (auto simp: tx_inv_def)
    then have "tx_carries f (tx_isn tx) b (hd (tx_segments_in_flight tx))" "b \<le> unat (tx_next_seqno tx)"
      using ne by (cases "tx_segments_in_flight tx", auto simp: tx_flight_def Let_def)+
    then show ?thesis using assms by (auto simp: tx_inv_def tx_window_def)
  qed
  let ?t = "tx\<lparr>tx_segments_out := tx_segments_out tx @ [hd (tx_segments_in_flight tx)]\<rparr>"
  have "tx_inv f (tx\<lparr>tx_segments_out := tx_segments_out tx @ [hd (tx_segments_in_flight tx)],
      tx_clock := c, tx_consecutive_retrans := n, tx_clock_is_counting := k, tx_retrans_timeout := t\<rparr>)"
    if "tx_segments_in_flight tx \<noteq> []" for c n k t
    using out [OF that] by (simp only: tx_inv_timer)
  moreover have "tx_inv f (tx\<lparr>tx_clock := c, tx_clock_is_counting := k\<rparr>)" for c k
    using assms by simp
  ultimately show ?thesis using assms by (auto simp: tx_tick_def Let_def)
qed

lemma tx_empty_inv:
  assumes inv: "tx_inv f tx" and syn: "tx_syn tx"
  shows "tx_inv f (tx_send_empty_segment tx)"
proof -
  let ?N = "unat (tx_next_seqno tx)"
  have "0 < ?N" using inv syn by (simp add: tx_inv_def tx_stream_ok_def Let_def)
  then have "tx_carries f (tx_isn tx) ?N
      (seg_new\<lparr>seg_header := th_new\<lparr>th_seqno := wrap (tx_next_seqno tx) (tx_isn tx)\<rparr>\<rparr>)"
    by (simp add: tx_carries_def length_in_sequence_space_def seg_new_def th_new_def)
  then show ?thesis using inv by (auto simp: tx_send_empty_segment_def tx_inv_def tx_window_def)
qed

lemma tx_other_inv:
  assumes "tx_inv f tx"
  shows "tx_inv f (tx\<lparr>tx_stream := bs_end_input (tx_stream tx)\<rparr>)"
    and "tx_inv f (tx\<lparr>tx_stream := bs_set_error (tx_stream tx)\<rparr>)"
    and "tx_inv f (tx\<lparr>tx_segments_out := tl (tx_segments_out tx)\<rparr>)"
proof -
  have "set (tl (tx_segments_out tx)) \<subseteq> set (tx_segments_out tx)"
    by (cases "tx_segments_out tx") auto
  then show "tx_inv f (tx\<lparr>tx_segments_out := tl (tx_segments_out tx)\<rparr>)"
    using assms by (auto simp: tx_inv_def tx_window_def)
qed (use assms in \<open>simp_all add: tx_inv_def tx_window_def\<close>)

lemma tx_step_inv: "tx_inv f tx \<Longrightarrow> tx_ok f op tx \<Longrightarrow> tx_inv f (tx_step op tx)"
  by (cases op) (simp_all only: tx_step.simps tx_ok.simps tx_fill_window_inv tx_ack_received_inv
      tx_tick_inv tx_empty_inv tx_other_inv tx_write_inv [unfolded tx_step.simps tx_ok.simps])

lemma tx_new_inv: "tx_inv f (tx_new c rto isn_opt random)"
  by (simp add: tx_inv_def tx_flight_def tx_stream_ok_def tx_new_def tx_window_def)

interpretation tx_machine: machine "\<lambda>tx. tx = tx_new c rto isn_opt random" "tx_ok f" tx_step "tx_inv f"
  by unfold_locales (auto intro: tx_step_inv tx_new_inv)

section \<open>Draining the stream\<close>

text \<open>
  When the value of \<open>remain\<close> exceeds what is left in the stream plus the FIN, the loop sends it
  all, whether that value is a real window or a difference that has wrapped.
\<close>

lemma tx_send_remain:
  "tx_remain win (tx_send_segment seg tx) = tx_remain win tx - of_nat (length_in_sequence_space seg)"
  by (simp add: tx_remain_def tx_send_segment_def Let_def length_in_sequence_space_def algebra_simps)

lemma tx_send_next:
  "tx_next_seqno (tx_send_segment seg tx) = tx_next_seqno tx + of_nat (length_in_sequence_space seg)"
  by (simp add: tx_send_segment_def Let_def length_in_sequence_space_def)

lemma tx_fill_loop_drains:
  assumes "length (bs_content (tx_stream tx)) + 1 < unat (tx_remain win tx)" and "\<not> tx_fin tx"
  shows "bs_content (tx_stream (tx_fill_loop win tx)) = []
    \<and> tx_receive_ack (tx_fill_loop win tx) = tx_receive_ack tx
    \<and> tx_next_seqno (tx_fill_loop win tx) = tx_next_seqno tx +
        of_nat (length (bs_content (tx_stream tx)) + (if tx_fin (tx_fill_loop win tx) then 1 else 0))"
  using assms
proof (induction win tx rule: tx_fill_loop.induct)
  case (1 win tx)
  obtain seg stream where cut: "tx_cut win tx = (seg, stream)" by force
  let ?tx1 = "tx\<lparr>tx_stream := stream, tx_fin := th_fin (seg_header seg)\<rparr>"
  let ?tx2 = "tx_send_segment seg ?tx1"
  let ?n = "unat (min (tx_remain win tx) (of_nat MAX_PAYLOAD_SIZE))" and ?c = "bs_content (tx_stream tx)"
  have eqs: "seg = fst (tx_cut win tx)" "stream = snd (tx_cut win tx)" using cut by simp_all
  have rem: "tx_remain win tx \<noteq> 0" using 1(2) by auto
  have pay: "buffer_str (seg_payload seg) = take ?n ?c" by (simp add: eqs tx_cut_payload)
  have str: "bs_content stream = drop ?n ?c" by (simp add: eqs tx_cut_stream bs_read_snd)
  have len: "length_in_sequence_space seg = min ?n (length ?c) + (if th_fin (seg_header seg) then 1 else 0)"
    using tx_cut_header(1) [of win tx] pay by (simp add: length_in_sequence_space_def eqs min.commute)
  have fin: "bs_content stream = []" if "th_fin (seg_header seg)"
    using that tx_cut_header(2) [of win tx] by (simp add: eqs stream_simps)
  show ?case
  proof (cases "length_in_sequence_space seg = 0")
    case True
    have "0 < ?n" using rem by (simp add: unat_gt_0 min_def MAX_PAYLOAD_SIZE_def)
    moreover have "min ?n (length ?c) = 0" "\<not> th_fin (seg_header seg)"
      using True len by (auto split: if_splits)
    ultimately have "?c = []" by (metis length_0_conv less_numeral_extra(3) min_def)
    then show ?thesis
      using tx_fill_loop_round [OF rem 1(3) cut] True str \<open>\<not> th_fin (seg_header seg)\<close> by simp
  next
    case False
    have loop: "tx_fill_loop win tx = tx_fill_loop win ?tx2"
      using tx_fill_loop_round [OF rem 1(3) cut] False by simp
    show ?thesis
    proof (cases "th_fin (seg_header seg)")
      case True
      then have "tx_fill_loop win tx = ?tx2" by (simp add: loop tx_fill_loop_stop)
      moreover have "length ?c \<le> ?n" using fin [OF True] str by simp
      ultimately show ?thesis using True fin len by (simp add: tx_send_next)
    next
      case nf: False
      have l: "length_in_sequence_space seg = min ?n (length ?c)" using len nf by simp
      have "length_in_sequence_space seg \<le> unat (tx_remain win tx)" using l 1(2) by simp
      then have "unat (tx_remain win ?tx2) = unat (tx_remain win tx) - min ?n (length ?c)"
        using l unat_of_nat [of "length_in_sequence_space seg", where 'a = 64]
          unsigned_less [of "tx_remain win tx", where 'a = nat]
        by (simp add: tx_send_remain tx_remain_def [of _ ?tx1] tx_remain_def [of _ tx, symmetric]
            unat_sub word_le_nat_alt)
      then have less: "length (bs_content (tx_stream ?tx2)) + 1 < unat (tx_remain win ?tx2)"
        using 1(2) str by simp
      have eq: "tx\<lparr>tx_stream := stream, tx_fin := tx_fin tx \<or> th_fin (seg_header seg)\<rparr> = ?tx1"
        using 1(3) by simp
      have "\<not> (tx_remain win tx = 0 \<or> tx_fin tx)" using rem 1(3) by simp
      note IH = 1(1) [OF this cut [symmetric] refl eq [symmetric] False less]
      have "length ?c = length_in_sequence_space seg + length (bs_content stream)"
        using l str by simp
      then show ?thesis using IH nf by (simp add: loop tx_send_next add.assoc)
    qed
  qed
qed

lemma tx_fill_window_flags:
  assumes "tx_syn tx" and "unat win = tx_window tx"
  shows "tx_fill_window tx = tx_fill_loop win (tx\<lparr>tx_window_is_zero := (tx_window_size tx = 0)\<rparr>)"
  using tx_fill_window_sent [OF assms(1)] assms(2)
  by (metis tcp_sender.select_convs(6) tcp_sender.surjective tcp_sender.update_convs(3) tx_window_def
      unsigned_word_eqI)

text \<open>A sender with a fixed initial sequence number, for the concrete instances below.\<close>

definition tx_example :: tcp_sender where
  "tx_example = tx_new 8 1000 (Some (WrappingInt32 5)) 0"

definition tx_example_ops :: "tx_op list" where
  "tx_example_ops = [Tx_Fill, Tx_Ack (WrappingInt32 6) 3, Tx_Write [0, 1], Tx_Fill, Tx_Write [2]]"

lemma tx_example_ok: "all_steps (tx_ok of_nat) tx_step tx_example_ops tx_example"
  by code_simp

lemma tx_example_inv:
  "all_steps (tx_ok f) tx_step ops tx_example \<Longrightarrow> tx_inv f (fold tx_step ops tx_example)"
  unfolding tx_example_def by (rule tx_machine.run_inv [OF refl])

section \<open>Properties\<close>

text \<open>
  \<open>laid_out isn b segs\<close>: the segments lie back to back from the absolute sequence number \<open>b\<close> on:
  each carries in its header the 32-bit form of the place where its predecessor ends, and none is
  empty.
\<close>

primrec laid_out :: "wrapping_int32 \<Rightarrow> nat \<Rightarrow> tcp_segment list \<Rightarrow> bool" where
  "laid_out isn b [] = True"
| "laid_out isn b (seg # segs) =
     (th_seqno (seg_header seg) = wrap (of_nat b) isn \<and> 0 < length_in_sequence_space seg \<and>
      laid_out isn (b + length_in_sequence_space seg) segs)"

lemma flight_laid_out: "flight_ok f isn b segs \<Longrightarrow> laid_out isn b segs"
  by (induction segs arbitrary: b) (auto simp: tx_carries_def)

text \<open>C11: (flight accounting and the window) As long as the peer does not take back window it has offered
  (\<open>tx_keeps_window\<close>, part of \<open>tx_ok\<close>), the outstanding segments lie back to back: the header of
  each has the sequence number at which its predecessor ends, from a place \<open>b\<close> that the peer has
  acknowledged up to the next sequence number. \<open>bytes_in_flight\<close> is the sum of their lengths, and the
  peer has not acknowledged the whole of the first. The sequence numbers sent beyond the last
  acknowledgment are at most the advertised window (one when it is zero), not counting the FIN: the FIN
  may lie one past the window (\<open>sender_fin_overruns_window\<close>), although it is meant not to. A peer that
  shrinks its window gets the whole stream whatever it offers (\<open>sender_shrunk_window_overrun\<close>).\<close>

theorem sender_window_respected:
  assumes "all_steps (tx_ok f) tx_step ops (tx_new c rto isn_opt random)"
  defines "tx \<equiv> fold tx_step ops (tx_new c rto isn_opt random)"
  shows "(\<exists>b \<le> unat (tx_receive_ack tx).
      laid_out (tx_isn tx) b (tx_segments_in_flight tx) \<and>
      b + flight_total (tx_segments_in_flight tx) = unat (tx_next_seqno tx) \<and>
      unat (tx_bytes_in_flight tx) = flight_total (tx_segments_in_flight tx) \<and>
      (if tx_segments_in_flight tx = [] then tx_receive_ack tx = tx_next_seqno tx
       else unat (tx_receive_ack tx) < b + length_in_sequence_space (hd (tx_segments_in_flight tx)))) \<and>
    unat (tx_next_seqno tx) - (if tx_fin tx then 1 else 0) \<le>
      unat (tx_receive_ack tx) + max 1 (unat (tx_window_size tx))"
proof -
  have inv: "tx_inv f tx"
    unfolding tx_def by (rule tx_machine.run_inv [OF refl assms(1)])
  then obtain b where fl: "tx_flight f b tx" by (auto simp: tx_inv_def)
  have "unat (of_nat (flight_total (tx_segments_in_flight tx)) :: u64) = flight_total (tx_segments_in_flight tx)"
    using tx_flight_bound [OF inv fl] by (simp add: unat_of_nat)
  then have "b \<le> unat (tx_receive_ack tx) \<and> laid_out (tx_isn tx) b (tx_segments_in_flight tx) \<and>
      b + flight_total (tx_segments_in_flight tx) = unat (tx_next_seqno tx) \<and>
      unat (tx_bytes_in_flight tx) = flight_total (tx_segments_in_flight tx) \<and>
      (if tx_segments_in_flight tx = [] then tx_receive_ack tx = tx_next_seqno tx
       else unat (tx_receive_ack tx) < b + length_in_sequence_space (hd (tx_segments_in_flight tx)))"
    using fl flight_laid_out [of f "tx_isn tx" b "tx_segments_in_flight tx"]
    by (simp add: tx_flight_def Let_def)
  moreover have "unat (tx_next_seqno tx) - (if tx_fin tx then 1 else 0) \<le>
      unat (tx_receive_ack tx) + max 1 (unat (tx_window_size tx))"
    using inv by (auto simp: tx_inv_def tx_window_def split: if_splits)
  ultimately show ?thesis by blast
qed

theorem sender_window_respected_witness:
  "let tx = fold tx_step tx_example_ops tx_example in
   (\<exists>b \<le> 1. laid_out (tx_isn tx) b (tx_segments_in_flight tx)) \<and>
   unat (tx_next_seqno tx) \<le> 1 + 3 \<and> tx_next_seqno tx = 3"
proof -
  have "tx_next_seqno (fold tx_step tx_example_ops tx_example) = 3 \<and>
      tx_receive_ack (fold tx_step tx_example_ops tx_example) = 1 \<and>
      tx_window_size (fold tx_step tx_example_ops tx_example) = 3 \<and>
      \<not> tx_fin (fold tx_step tx_example_ops tx_example)" by code_simp
  then show ?thesis
    using sender_window_respected [OF tx_example_ok [unfolded tx_example_def]]
    unfolding Let_def tx_example_def by auto
qed

text \<open>C30: (nothing is held back) After \<open>fill_window\<close> with the SYN sent, the sender has sent its FIN,
  or the window is full, or the stream is empty and not ended: there is no state in which bytes or
  the FIN could be sent and are not.\<close>

theorem sender_fill_window_maximal:
  assumes "tx_inv f tx" and "tx_syn tx"
  defines "tx' \<equiv> tx_fill_window tx"
  shows "tx_fin tx' \<or>
    unat (tx_next_seqno tx') = unat (tx_receive_ack tx') + max 1 (unat (tx_window_size tx')) \<or>
    bs_buffer_empty (tx_stream tx') \<and> \<not> bs_input_ended (tx_stream tx')"
proof -
  obtain win tx0 where tx0: "tx0 = tx\<lparr>tx_window_is_zero := (tx_window_size tx = 0)\<rparr>"
    "unat win = tx_window tx0" "tx_fill_window tx = tx_fill_loop win tx0"
    using tx_fill_window_sent [OF assms(2)] .
  have pre: "tx_inv f tx0" "tx_syn tx0" using assms(1,2) by (simp_all add: tx0(1))
  note post = tx_fill_loop_inv [OF pre tx0(2)]
  have tx': "tx' = tx_fill_loop win tx0" by (simp add: tx'_def tx0(3))
  have inv': "tx_inv f tx'" and win': "unat win = tx_window tx'"
    using post tx0(2) by (simp_all add: tx' tx_window_def)
  have "unat (tx_next_seqno tx') = unat (tx_receive_ack tx') + tx_window tx'"
    if "tx_remain win tx' = 0" "\<not> tx_fin tx'"
  proof -
    have "unat (tx_receive_ack tx') + tx_window tx' - unat (tx_next_seqno tx') = 0"
      using tx_remain_eq [OF inv' that(2) win'] that(1) by simp
    moreover have "unat (tx_next_seqno tx') \<le> unat (tx_receive_ack tx') + tx_window tx'"
      using inv' that(2) by (simp add: tx_inv_def)
    ultimately show ?thesis by simp
  qed
  then show ?thesis
    using post by (auto simp: tx' [symmetric] tx_window_def stream_simps)
qed

theorem sender_fill_window_maximal_witness:
  "let tx' = tx_fill_window (fold tx_step tx_example_ops tx_example) in
   tx_fin tx' \<or>
    unat (tx_next_seqno tx') = unat (tx_receive_ack tx') + max 1 (unat (tx_window_size tx')) \<or>
    bs_buffer_empty (tx_stream tx') \<and> \<not> bs_input_ended (tx_stream tx')"
proof -
  have "tx_syn (fold tx_step tx_example_ops tx_example)" by code_simp
  then show ?thesis
    unfolding Let_def by (rule sender_fill_window_maximal [OF tx_example_inv [OF tx_example_ok]])
qed

text \<open>(the FIN can overrun the window) The test that lets the FIN go out compares the segment's
  length with the whole window, not with what is left of it. When the rest of an ended stream is
  exactly what still fits (and less than the window, because something is in flight), the FIN is
  added to the segment and one sequence number more than the peer offered is sent.\<close>

theorem sender_fin_overruns_window:
  assumes inv: "tx_inv f tx" and syn: "tx_syn tx" and nf: "\<not> tx_fin tx"
    and ended: "bs_input_ended (tx_stream tx)"
    and room: "unat (tx_next_seqno tx) + bs_buffer_size (tx_stream tx) = unat (tx_receive_ack tx) + unat (tx_window_size tx)"
    and some: "0 < bs_buffer_size (tx_stream tx)" "bs_buffer_size (tx_stream tx) \<le> 1000"
      "bs_buffer_size (tx_stream tx) < unat (tx_window_size tx)"
  defines "tx' \<equiv> tx_fill_window tx"
  shows "tx_fin tx' \<and> unat (tx_next_seqno tx') = unat (tx_receive_ack tx') + unat (tx_window_size tx') + 1"
proof -
  obtain win tx0 where tx0: "tx0 = tx\<lparr>tx_window_is_zero := (tx_window_size tx = 0)\<rparr>"
    "unat win = tx_window tx0" "tx_fill_window tx = tx_fill_loop win tx0"
    using tx_fill_window_sent [OF syn] .
  have pre: "tx_inv f tx0" "tx_syn tx0" "\<not> tx_fin tx0" using inv syn nf by (simp_all add: tx0(1))
  have W: "tx_window tx0 = unat (tx_window_size tx)" using some by (simp add: tx_window_def tx0(1))
  let ?n = "length (bs_content (tx_stream tx))"
  have n: "0 < ?n" "?n \<le> 1000" "?n < unat (tx_window_size tx)" using some by (simp_all add: stream_simps)
  have rem: "unat (tx_remain win tx0) = ?n"
    using tx_remain_eq [OF pre(1,3) tx0(2)] room W by (simp add: tx0(1) stream_simps)
  then have rem0: "tx_remain win tx0 \<noteq> 0" using n by auto
  obtain seg stream where cut: "tx_cut win tx0 = (seg, stream)" by force
  note c = tx_cut_facts [OF pre tx0(2) cut]
  have "length (buffer_str (seg_payload seg)) = ?n"
    using tx_cut_payload [of win tx0] cut rem n(2)
    by (simp add: tx0(1) MAX_PAYLOAD_SIZE_def min_def word_le_nat_alt)
  then have d: "length (buffer_str (seg_payload seg)) = ?n" "bs_content stream = []"
    using c(4) by (simp_all add: tx0(1))
  have "bs_input_end stream"
    using ended cut tx_cut_stream [of win tx0] by (simp add: tx0(1) stream_simps)
  then have fin: "th_fin (seg_header seg)" using c(10) d n W by (simp add: stream_simps)
  then have len: "length_in_sequence_space seg = ?n + 1" using c(9) d by simp
  let ?tx1 = "tx0\<lparr>tx_stream := stream, tx_fin := th_fin (seg_header seg)\<rparr>"
  have tx': "tx' = tx_send_segment seg ?tx1"
    using tx_fill_loop_round [OF rem0 pre(3) cut] fin len
    by (simp add: tx'_def tx0(3) tx_fill_loop_stop)
  have "tx_stream_ok f tx" using inv by (simp add: tx_inv_def)
  then have "unat (tx_next_seqno tx) + 2 ^ 32 < 2 ^ 64" by (rule tx_next_bound)
  then have "unat (tx_next_seqno tx + of_nat (?n + 1)) = unat (tx_next_seqno tx) + (?n + 1)"
    using n by (intro unat_add_small) simp
  then show ?thesis
    using fin len room by (simp add: tx' tx_send_next tx0(1) stream_simps)
qed

theorem sender_fin_overruns_window_witness:
  "let tx' = tx_fill_window (fold tx_step (tx_example_ops @ [Tx_End]) tx_example) in
   tx_fin tx' \<and> unat (tx_next_seqno tx') = unat (tx_receive_ack tx') + unat (tx_window_size tx') + 1"
proof -
  have ok: "all_steps (tx_ok of_nat) tx_step (tx_example_ops @ [Tx_End]) tx_example" by code_simp
  let ?tx = "fold tx_step (tx_example_ops @ [Tx_End]) tx_example"
  have "tx_syn ?tx \<and> \<not> tx_fin ?tx \<and> bs_input_ended (tx_stream ?tx) \<and> bs_buffer_size (tx_stream ?tx) = 1 \<and>
      tx_next_seqno ?tx = 3 \<and> tx_receive_ack ?tx = 1 \<and> tx_window_size ?tx = 3" by code_simp
  then show ?thesis
    unfolding Let_def by (intro sender_fin_overruns_window [OF tx_example_inv [OF ok]]) simp_all
qed

text \<open>(a shrunk window is ignored) When the peer's window is smaller than what is in flight,
  the \<open>size_t\<close> subtraction in the loop wraps to a huge number: \<open>fill_window\<close> then sends the whole
  stream instead of waiting.\<close>

theorem sender_shrunk_window_overrun:
  assumes syn: "tx_syn tx" and nf: "\<not> tx_fin tx"
    and over: "max 1 (unat (tx_window_size tx)) < unat (tx_next_seqno tx - tx_receive_ack tx)"
    and flight: "unat (tx_next_seqno tx - tx_receive_ack tx) < 2 ^ 63"
    and size: "bs_buffer_size (tx_stream tx) < 2 ^ 62"
  defines "tx' \<equiv> tx_fill_window tx"
  shows "bs_buffer_empty (tx_stream tx') \<and>
    (\<exists>k \<ge> bs_buffer_size (tx_stream tx). tx_next_seqno tx' = tx_next_seqno tx + of_nat k)"
proof -
  obtain win tx0 where tx0: "tx0 = tx\<lparr>tx_window_is_zero := (tx_window_size tx = 0)\<rparr>"
    "unat win = tx_window tx0" "tx_fill_window tx = tx_fill_loop win tx0"
    using tx_fill_window_sent [OF syn] .
  let ?d = "tx_next_seqno tx - tx_receive_ack tx"
  have "unat (win - ?d) = 2 ^ 64 + unat win - unat ?d"
  proof -
    have less: "unat win < unat ?d" using over tx0(2) by (simp add: tx_window_def tx0(1))
    have "uint (win - ?d) = (uint win - uint ?d) mod 2 ^ 64" by (simp add: uint_word_ariths)
    also have "\<dots> = (uint win - uint ?d + 2 ^ 64) mod 2 ^ 64" by simp
    also have "\<dots> = uint win - uint ?d + 2 ^ 64"
    proof (rule mod_pos_pos_trivial)
      have "uint win < uint ?d" using less by (simp add: word_less_nat_alt [symmetric] word_less_def)
      then show "0 \<le> uint win - uint ?d + 2 ^ 64" "uint win - uint ?d + 2 ^ 64 < 2 ^ 64"
        using uint_u64_bounds [of ?d] uint_u64_bounds [of win] by linarith+
    qed
    finally have "int (unat (win - ?d)) = int (2 ^ 64 + unat win) - int (unat ?d)" by simp
    then show ?thesis by linarith
  qed
  then have "2 ^ 63 \<le> unat (tx_remain win tx0)"
    using flight by (simp add: tx_remain_def tx0(1))
  then have "length (bs_content (tx_stream tx0)) + 1 < unat (tx_remain win tx0)"
    using size by (simp add: tx0(1) stream_simps)
  from tx_fill_loop_drains [OF this] nf
  have "bs_content (tx_stream tx') = []" "tx_next_seqno tx' = tx_next_seqno tx +
      of_nat (length (bs_content (tx_stream tx)) + (if tx_fin tx' then 1 else 0))"
    by (simp_all add: tx'_def tx0(3)) (simp_all add: tx0(1))
  then show ?thesis
    by (auto simp: stream_simps intro!: exI [of _ "length (bs_content (tx_stream tx)) + (if tx_fin tx' then 1 else 0)"])
qed

theorem sender_shrunk_window_overrun_witness:
  "let tx = fold tx_step (tx_example_ops @ [Tx_Ack (WrappingInt32 6) 1]) tx_example; tx' = tx_fill_window tx in
   bs_buffer_empty (tx_stream tx') \<and>
    (\<exists>k \<ge> bs_buffer_size (tx_stream tx). tx_next_seqno tx' = tx_next_seqno tx + of_nat k)"
proof -
  let ?tx = "fold tx_step (tx_example_ops @ [Tx_Ack (WrappingInt32 6) 1]) tx_example"
  have "tx_syn ?tx \<and> \<not> tx_fin ?tx \<and> bs_buffer_size (tx_stream ?tx) = 1 \<and>
      tx_next_seqno ?tx = 3 \<and> tx_receive_ack ?tx = 1 \<and> tx_window_size ?tx = 1" by code_simp
  then show ?thesis
    unfolding Let_def by (intro sender_shrunk_window_overrun) simp_all
qed

lemma unat_double_u32:
  fixes t :: u32
  assumes "unat t * 2 < 2 ^ 32" shows "unat (t * 2) = unat t * 2"
  using assms by (simp add: unat_word_ariths)

text \<open>One expiry of the timer.\<close>

lemma tx_tick_expires:
  assumes "tx_segments_in_flight tx \<noteq> []" and "ucast (tx_retrans_timeout tx) \<le> tx_clock tx + ms"
  shows "tx_tick ms tx = tx\<lparr>tx_clock := 0,
    tx_segments_out := tx_segments_out tx @ [hd (tx_segments_in_flight tx)],
    tx_consecutive_retrans := tx_consecutive_retrans tx + 1, tx_clock_is_counting := True,
    tx_retrans_timeout := (if tx_window_is_zero tx then tx_retrans_timeout tx else tx_retrans_timeout tx * 2)\<rparr>"
  using assms by (simp add: tx_tick_def Let_def)

lemma tx_tick_waits:
  assumes "tx_clock tx + ms < ucast (tx_retrans_timeout tx)"
  shows "tx_segments_out (tx_tick ms tx) = tx_segments_out tx \<and>
    tx_retrans_timeout (tx_tick ms tx) = tx_retrans_timeout tx \<and>
    tx_consecutive_retrans (tx_tick ms tx) = tx_consecutive_retrans tx"
  using assms by (auto simp: tx_tick_def Let_def not_le [symmetric])

text \<open>C29: (exponential backoff) With something in flight, \<open>k\<close> ticks that each reach the timeout
  resend the oldest outstanding segment \<open>k\<close> times, add \<open>k\<close> to the count of consecutive
  retransmissions, and multiply the timeout by \<open>2^k\<close>, unless the peer's window was zero, when the
  timeout stays; nothing leaves the flight. (The bound keeps the 32-bit timeout from wrapping; the
  connection gives up after 8.)\<close>

theorem sender_exponential_backoff:
  assumes "tx_segments_in_flight tx \<noteq> []" and "tx_clock tx = 0"
    and "unat (tx_retrans_timeout tx) * 2 ^ k < 2 ^ 32" and "unat (tx_retrans_timeout tx) * 2 ^ k \<le> unat ms"
  defines "tx' \<equiv> (tx_tick ms ^^ k) tx"
  shows "unat (tx_retrans_timeout tx') =
      (if tx_window_is_zero tx then unat (tx_retrans_timeout tx) else unat (tx_retrans_timeout tx) * 2 ^ k) \<and>
    tx_consecutive_retrans tx' = tx_consecutive_retrans tx + of_nat k \<and>
    tx_segments_out tx' = tx_segments_out tx @ replicate k (hd (tx_segments_in_flight tx)) \<and>
    tx_segments_in_flight tx' = tx_segments_in_flight tx"
proof -
  have "unat (tx_retrans_timeout ((tx_tick ms ^^ j) tx)) =
        (if tx_window_is_zero tx then unat (tx_retrans_timeout tx) else unat (tx_retrans_timeout tx) * 2 ^ j) \<and>
      tx_consecutive_retrans ((tx_tick ms ^^ j) tx) = tx_consecutive_retrans tx + of_nat j \<and>
      tx_segments_out ((tx_tick ms ^^ j) tx) = tx_segments_out tx @ replicate j (hd (tx_segments_in_flight tx)) \<and>
      tx_segments_in_flight ((tx_tick ms ^^ j) tx) = tx_segments_in_flight tx \<and>
      tx_clock ((tx_tick ms ^^ j) tx) = 0 \<and> tx_window_is_zero ((tx_tick ms ^^ j) tx) = tx_window_is_zero tx"
    if "j \<le> k" for j
    using that
  proof (induction j)
    case 0
    then show ?case using assms(2) by simp
  next
    case (Suc j)
    let ?t = "(tx_tick ms ^^ j) tx" and ?r = "unat (tx_retrans_timeout tx)"
    note IH = Suc.IH [OF Suc_leD [OF Suc.prems]]
    have "(2 :: nat) ^ Suc j \<le> 2 ^ k" using Suc.prems by (intro power_increasing) simp_all
    then have le: "?r * 2 ^ Suc j \<le> ?r * 2 ^ k" by simp
    have "?r * 1 \<le> ?r * 2 ^ k" "?r * 2 ^ j \<le> ?r * 2 ^ k"
      using Suc.prems by (intro mult_left_mono power_increasing; simp)+
    then have "?r \<le> unat ms" "?r * 2 ^ j \<le> unat ms" using assms(4) by linarith+
    then have r: "unat (tx_retrans_timeout ?t) \<le> unat ms" using IH by simp
    have "unat (ucast (tx_retrans_timeout ?t) :: u64) = unat (tx_retrans_timeout ?t)"
      using unsigned_less [of "tx_retrans_timeout ?t", where 'a = nat]
      by (simp add: unsigned_ucast_eq take_bit_eq_mod)
    then have "ucast (tx_retrans_timeout ?t) \<le> tx_clock ?t + ms"
      using r IH by (simp add: word_le_nat_alt)
    note tick = tx_tick_expires [OF _ this]
    have "unat (tx_retrans_timeout ?t * 2) = ?r * 2 ^ Suc j" if "\<not> tx_window_is_zero tx"
    proof -
      have t: "unat (tx_retrans_timeout ?t) = ?r * 2 ^ j" using IH that by simp
      have "?r * 2 ^ Suc j = ?r * 2 ^ j * 2" by simp
      then have "?r * 2 ^ j * 2 < 2 ^ 32" using le assms(3) by linarith
      then have "unat (tx_retrans_timeout ?t) * 2 < 2 ^ 32" by (simp only: t)
      then show ?thesis using t by (simp add: unat_double_u32)
    qed
    then show ?case
      using IH tick assms(1) by (simp add: replicate_append_same)
  qed
  then show ?thesis by (simp add: tx'_def)
qed

theorem sender_exponential_backoff_witness:
  "let tx = fold tx_step tx_example_ops tx_example; tx' = (tx_tick 8000 ^^ 3) tx in
   unat (tx_retrans_timeout tx') =
      (if tx_window_is_zero tx then unat (tx_retrans_timeout tx) else unat (tx_retrans_timeout tx) * 2 ^ 3) \<and>
    tx_consecutive_retrans tx' = tx_consecutive_retrans tx + of_nat 3 \<and>
    tx_segments_out tx' = tx_segments_out tx @ replicate 3 (hd (tx_segments_in_flight tx)) \<and>
    tx_segments_in_flight tx' = tx_segments_in_flight tx"
proof -
  let ?tx = "fold tx_step tx_example_ops tx_example"
  have "tx_clock ?tx = 0 \<and> tx_retrans_timeout ?tx = 1000 \<and> length (tx_segments_in_flight ?tx) = 1" by code_simp
  then show ?thesis
    unfolding Let_def by (intro sender_exponential_backoff) auto
qed

text \<open>(a new acknowledgment) An acknowledgment beyond what was sent changes nothing. One that
  acknowledges something new becomes the sender's \<open>_receive_ack\<close>, takes a prefix of the flight away
  that leaves no segment in front that it covers, and restarts the timer with the initial timeout
  and no consecutive retransmissions.\<close>

theorem sender_new_acknowledgment:
  assumes inv: "tx_inv f tx" and syn: "tx_syn tx" and keep: "tx_keeps_window ackno window tx"
  defines "abs_ackno \<equiv> unwrap ackno (tx_isn tx) (tx_checkpoint tx)"
    and "tx' \<equiv> tx_ack_received ackno window tx"
  shows "(if tx_next_seqno tx < abs_ackno then tx' = tx
     else if abs_ackno \<le> tx_receive_ack tx then tx' = tx\<lparr>tx_window_size := window\<rparr>
     else tx_receive_ack tx' = abs_ackno \<and> tx_consecutive_retrans tx' = 0 \<and>
       tx_retrans_timeout tx' = tx_initial_retransmission_timeout tx \<and>
       (tx_segments_in_flight tx' \<noteq> [] \<longrightarrow> tx_clock tx' = 0 \<and>
          (\<exists>b. unat abs_ackno < b + length_in_sequence_space (hd (tx_segments_in_flight tx')) \<and>
             b + flight_total (tx_segments_in_flight tx') = unat (tx_next_seqno tx'))))"
proof (cases "tx_next_seqno tx < abs_ackno \<or> abs_ackno \<le> tx_receive_ack tx")
  case True
  then show ?thesis by (auto simp: tx'_def tx_ack_received_def abs_ackno_def Let_def)
next
  case False
  then have range: "abs_ackno \<le> tx_next_seqno tx" "tx_receive_ack tx < abs_ackno" by auto
  let ?p = "tx_pop_acked abs_ackno (tx_segments_in_flight tx)
    (tx\<lparr>tx_window_size := window, tx_receive_ack := abs_ackno, tx_checkpoint := abs_ackno\<rparr>)"
  note p = tx_pop_acked_inv [OF inv keep abs_ackno_def [THEN meta_eq_to_obj_eq] range]
  have frame: "tx_syn (tx_pop_acked a segs t) = tx_syn t"
    "tx_initial_retransmission_timeout (tx_pop_acked a segs t) = tx_initial_retransmission_timeout t"
    for a segs t by (induction a segs t rule: tx_pop_acked.induct) (simp_all add: Let_def)
  have syn_p: "tx_syn ?p" using syn by (simp add: frame)
  obtain win tx0 where tx0: "tx0 = ?p\<lparr>tx_window_is_zero := (tx_window_size ?p = 0)\<rparr>"
    "unat win = tx_window tx0" "tx_fill_window ?p = tx_fill_loop win tx0"
    using tx_fill_window_sent [OF syn_p] .
  have "tx_inv f tx0" "tx_syn tx0" using p(1) syn_p by (simp_all add: tx0(1))
  note l = tx_fill_loop_inv [OF this tx0(2)]
  have q: "tx_inv f (tx_fill_window ?p)" "tx_receive_ack (tx_fill_window ?p) = abs_ackno"
    "tx_initial_retransmission_timeout (tx_fill_window ?p) = tx_initial_retransmission_timeout tx"
    using l p(2) by (simp_all add: tx0(3)) (simp_all add: tx0(1) frame)
  obtain b where "tx_flight f b (tx_fill_window ?p)" using q(1) by (auto simp: tx_inv_def)
  then have fl: "tx_segments_in_flight (tx_fill_window ?p) \<noteq> [] \<Longrightarrow>
      unat abs_ackno < b + length_in_sequence_space (hd (tx_segments_in_flight (tx_fill_window ?p))) \<and>
      b + flight_total (tx_segments_in_flight (tx_fill_window ?p)) = unat (tx_next_seqno (tx_fill_window ?p))"
    using q(2) by (simp add: tx_flight_def Let_def)
  have "tx' = (let t = (tx_fill_window ?p)\<lparr>tx_retrans_timeout := tx_initial_retransmission_timeout (tx_fill_window ?p),
      tx_consecutive_retrans := 0\<rparr> in
    if tx_segments_in_flight t \<noteq> [] then t\<lparr>tx_clock_is_counting := True, tx_clock := 0\<rparr> else t)"
    using False by (simp add: tx'_def tx_ack_received_def abs_ackno_def [symmetric] Let_def)
  then show ?thesis using False fl q by (auto simp: Let_def)
qed

theorem sender_new_acknowledgment_witness:
  "let tx = fold tx_step tx_example_ops tx_example; tx' = tx_ack_received (WrappingInt32 7) 5 tx in
   tx_receive_ack tx' = 2 \<and> tx_consecutive_retrans tx' = 0"
proof -
  let ?tx = "fold tx_step tx_example_ops tx_example"
  have "tx_syn ?tx \<and> tx_keeps_window (WrappingInt32 7) 5 ?tx" by code_simp
  moreover have "unwrap (WrappingInt32 7) (tx_isn ?tx) (tx_checkpoint ?tx) = 2 \<and>
      tx_next_seqno ?tx = 3 \<and> tx_receive_ack ?tx = 1 \<and> \<not> (2 :: u64) \<le> 1 \<and> \<not> (3 :: u64) < 2" by code_simp
  ultimately show ?thesis
    using sender_new_acknowledgment [OF tx_example_inv [OF tx_example_ok], of "WrappingInt32 7" 5]
    unfolding Let_def by (auto split: if_splits)
qed

end
