(* ===== verification/Sender_Safety.thy ===== *)
theory Sender_Safety
  imports TCP_Sender
begin

text \<open>
  What the sender promises whatever the peer does. The invariant of \<open>TCP_Sender\<close> includes the
  flight accounting, which a peer that shrinks its window can break. The part that says what the
  segments carry does not depend on the acknowledgments at all: it is proved here once more on its
  own, for arbitrary acknowledgment numbers and windows, and is what the connection builds on.
\<close>

section \<open>The invariant\<close>

definition tx_sent_ok :: "(nat \<Rightarrow> byte) \<Rightarrow> tcp_sender \<Rightarrow> tcp_segment \<Rightarrow> bool" where
  "tx_sent_ok f tx seg \<longleftrightarrow>
     (\<exists>b \<le> unat (tx_next_seqno tx). tx_carries f (tx_isn tx) b seg \<and>
        (buffer_str (seg_payload seg) = [] \<or>
         b + length (buffer_str (seg_payload seg)) \<le> Suc (bs_readden (tx_stream tx))))"

text \<open>Before the SYN nothing is sent, and nothing is retransmitted.\<close>

definition tx_idle :: "tcp_sender \<Rightarrow> bool" where
  "tx_idle tx \<longleftrightarrow> tx_segments_out tx = [] \<and> tx_segments_in_flight tx = [] \<and> tx_consecutive_retrans tx = 0"

definition tx_safe :: "(nat \<Rightarrow> byte) \<Rightarrow> tcp_sender \<Rightarrow> bool" where
  "tx_safe f tx \<longleftrightarrow> tx_stream_ok f tx \<and> (tx_syn tx \<or> tx_idle tx) \<and>
     (\<forall>seg\<in>set (tx_segments_out tx) \<union> set (tx_segments_in_flight tx). tx_sent_ok f tx seg)"

text \<open>What an operation of the sender never takes back.\<close>

definition tx_le :: "tcp_sender \<Rightarrow> tcp_sender \<Rightarrow> bool" where
  "tx_le tx tx' \<longleftrightarrow> unat (tx_next_seqno tx) \<le> unat (tx_next_seqno tx') \<and> tx_isn tx' = tx_isn tx \<and>
     (tx_syn tx \<longrightarrow> tx_syn tx') \<and> bs_readden (tx_stream tx) \<le> bs_readden (tx_stream tx') \<and> bs_written (tx_stream tx) \<le> bs_written (tx_stream tx')"

lemma tx_le_refl [simp]: "tx_le tx tx"
  by (simp add: tx_le_def)

lemma tx_le_trans: "tx_le a b \<Longrightarrow> tx_le b c \<Longrightarrow> tx_le a c"
  by (auto simp: tx_le_def)

lemma tx_sent_ok_mono:
  "tx_sent_ok f tx seg \<Longrightarrow> tx_le tx tx' \<Longrightarrow> tx_sent_ok f tx' seg"
  by (auto simp: tx_sent_ok_def tx_le_def intro: le_trans Suc_le_mono [THEN iffD2])

text \<open>Nothing but the stream, the sequence number and the queues matters.\<close>

lemma tx_safe_cong:
  assumes "tx_safe f tx" and "tx_stream tx' = tx_stream tx" "tx_next_seqno tx' = tx_next_seqno tx"
    and "tx_isn tx' = tx_isn tx" "tx_syn tx' = tx_syn tx" "tx_fin tx' = tx_fin tx"
    and "set (tx_segments_out tx') \<union> set (tx_segments_in_flight tx')
      \<subseteq> set (tx_segments_out tx) \<union> set (tx_segments_in_flight tx)"
    and "tx_consecutive_retrans tx' = tx_consecutive_retrans tx \<or> tx_consecutive_retrans tx' = 0 \<or>
      tx_segments_in_flight tx \<noteq> []"
  shows "tx_safe f tx' \<and> tx_le tx tx'"
  using assms by (auto simp: tx_safe_def tx_stream_ok_def tx_sent_ok_def tx_idle_def tx_le_def Let_def)

lemma tx_send_safe:
  assumes safe: "\<forall>s\<in>set (tx_segments_out tx) \<union> set (tx_segments_in_flight tx). tx_sent_ok f tx s"
    and room: "unat (tx_next_seqno tx) + length_in_sequence_space seg < 2 ^ 64"
    and car: "tx_carries f (tx_isn tx) (unat (tx_next_seqno tx))
      (seg\<lparr>seg_header := (seg_header seg)\<lparr>th_seqno := wrap (tx_next_seqno tx) (tx_isn tx)\<rparr>\<rparr>)"
    and within: "buffer_str (seg_payload seg) = [] \<or>
      unat (tx_next_seqno tx) + length (buffer_str (seg_payload seg)) \<le> Suc (bs_readden (tx_stream tx))"
  defines "tx' \<equiv> tx_send_segment seg tx"
  shows "\<forall>s\<in>set (tx_segments_out tx') \<union> set (tx_segments_in_flight tx'). tx_sent_ok f tx' s"
    and "unat (tx_next_seqno tx') = unat (tx_next_seqno tx) + length_in_sequence_space seg"
proof -
  let ?seg = "seg\<lparr>seg_header := (seg_header seg)\<lparr>th_seqno := wrap (tx_next_seqno tx) (tx_isn tx)\<rparr>\<rparr>"
  have len: "length_in_sequence_space ?seg = length_in_sequence_space seg"
    by (simp add: length_in_sequence_space_def)
  show next': "unat (tx_next_seqno tx') = unat (tx_next_seqno tx) + length_in_sequence_space seg"
    using unat_add_small [OF room] by (simp add: tx'_def tx_send_segment_def Let_def len)
  have queues: "set (tx_segments_out tx') \<union> set (tx_segments_in_flight tx') =
      insert ?seg (set (tx_segments_out tx) \<union> set (tx_segments_in_flight tx))"
    by (auto simp: tx'_def tx_send_segment_def Let_def)
  have "tx_sent_ok f tx' ?seg"
    using car next' within by (auto simp: tx_sent_ok_def tx'_def intro!: exI [of _ "unat (tx_next_seqno tx)"])
  moreover have "tx_sent_ok f tx' s"
    if "s \<in> set (tx_segments_out tx) \<union> set (tx_segments_in_flight tx)" for s
    by (rule tx_sent_ok_mono [of f tx]) (use safe that next' in \<open>simp_all add: tx'_def tx_le_def\<close>)
  ultimately show "\<forall>s\<in>set (tx_segments_out tx') \<union> set (tx_segments_in_flight tx'). tx_sent_ok f tx' s"
    unfolding queues by blast
qed

section \<open>Filling the window\<close>

lemma tx_cut_safe:
  assumes st: "tx_stream_ok f tx" and syn: "tx_syn tx" and nf: "\<not> tx_fin tx"
    and cut: "tx_cut win tx = (seg, stream)"
  defines "d \<equiv> length (buffer_str (seg_payload seg))"
  shows "tx_carries f (tx_isn tx) (unat (tx_next_seqno tx))
      (seg\<lparr>seg_header := (seg_header seg)\<lparr>th_seqno := wrap (tx_next_seqno tx) (tx_isn tx)\<rparr>\<rparr>)"
    and "length_in_sequence_space seg = d + (if th_fin (seg_header seg) then 1 else 0)" and "d \<le> 1000"
    and "bs_inv stream" and "bs_readden stream = bs_readden (tx_stream tx) + d"
    and "bs_written stream = bs_written (tx_stream tx)"
    and "excerpt f (bs_readden stream) (length (bs_content stream)) = bs_content stream"
proof -
  let ?n = "unat (min (tx_remain win tx) (of_nat MAX_PAYLOAD_SIZE))" and ?st = "tx_stream tx"
  have eqs: "seg = fst (tx_cut win tx)" "stream = snd (tx_cut win tx)" using cut by simp_all
  have s: "bs_inv ?st" "excerpt f (bs_readden ?st) (length (bs_content ?st)) = bs_content ?st"
    "unat (tx_next_seqno tx) = 1 + bs_readden ?st"
    using st syn nf by (simp_all add: tx_stream_ok_def Let_def)
  have pay: "buffer_str (seg_payload seg) = take ?n (bs_content ?st)"
    by (simp add: eqs tx_cut_payload)
  then have d: "d = min ?n (length (bs_content ?st))" by (simp add: d_def)
  have "?n \<le> 1000" by (simp add: MAX_PAYLOAD_SIZE_def min_def word_le_nat_alt)
  then show le: "d \<le> 1000" using d by simp
  have nosyn: "\<not> th_syn (seg_header seg)" using tx_cut_header(1) eqs by simp
  then show len: "length_in_sequence_space seg = d + (if th_fin (seg_header seg) then 1 else 0)"
    by (simp add: length_in_sequence_space_def d_def)
  have ex: "buffer_str (seg_payload seg) = excerpt f (unat (tx_next_seqno tx) - 1) d"
    using pay s(2,3) take_excerpt [of ?n f "bs_readden ?st" "length (bs_content ?st)"] d by simp
  have "of_nat (unat (tx_next_seqno tx)) = tx_next_seqno tx" by simp
  then have N: "tx_next_seqno tx = 1 + of_nat (bs_readden ?st)" unfolding s(3) by simp
  have "length_in_sequence_space
      (seg\<lparr>seg_header := (seg_header seg)\<lparr>th_seqno := wrap (tx_next_seqno tx) (tx_isn tx)\<rparr>\<rparr>) \<le> 1001"
    using len le by (simp add: length_in_sequence_space_def)
  then show "tx_carries f (tx_isn tx) (unat (tx_next_seqno tx))
      (seg\<lparr>seg_header := (seg_header seg)\<lparr>th_seqno := wrap (tx_next_seqno tx) (tx_isn tx)\<rparr>\<rparr>)"
    using ex s(3) nosyn N by (simp add: tx_carries_def d_def)
  have drop: "bs_content stream = drop d (bs_content ?st)"
    using d by (simp add: eqs tx_cut_stream bs_read_snd min_def)
  show "bs_readden stream = bs_readden ?st + d" "bs_written stream = bs_written ?st" "bs_inv stream"
    using d s(1) by (simp_all add: eqs tx_cut_stream bs_read_snd)
  then show "excerpt f (bs_readden stream) (length (bs_content stream)) = bs_content stream"
    using drop s(2) drop_excerpt [of d f "bs_readden ?st" "length (bs_content ?st)"] by simp
qed

lemma tx_round_safe:
  assumes safe: "tx_safe f tx" and syn: "tx_syn tx" and nf: "\<not> tx_fin tx"
    and cut: "tx_cut win tx = (seg, stream)"
  defines "tx1 \<equiv> tx\<lparr>tx_stream := stream, tx_fin := th_fin (seg_header seg)\<rparr>"
  shows "length_in_sequence_space seg = 0 \<Longrightarrow> tx_safe f tx1 \<and> tx_le tx tx1"
    and "tx_safe f (tx_send_segment seg tx1) \<and> tx_le tx (tx_send_segment seg tx1)"
proof -
  have st: "tx_stream_ok f tx" using safe by (simp add: tx_safe_def)
  note c = tx_cut_safe [OF st syn nf cut]
  have N: "unat (tx_next_seqno tx) = 1 + bs_readden (tx_stream tx)"
    and W: "int (bs_written (tx_stream tx)) + 2 ^ 33 \<le> 2 ^ 64"
    using st syn nf by (simp_all add: tx_stream_ok_def Let_def)
  {
    assume "length_in_sequence_space seg = 0"
    then have z: "length (buffer_str (seg_payload seg)) = 0" "\<not> th_fin (seg_header seg)"
      using c(2) by (auto split: if_splits)
    have "tx_stream_ok f tx1"
      using N W c(4,5,6,7) z syn by (simp add: tx_stream_ok_def tx1_def Let_def)
    then show "tx_safe f tx1 \<and> tx_le tx tx1"
      using safe syn c(5,6) z by (simp add: tx_safe_def tx1_def tx_sent_ok_def tx_le_def)
  }
  let ?tx2 = "tx_send_segment seg tx1"
  have room: "unat (tx_next_seqno tx) + length_in_sequence_space seg < 2 ^ 64"
    using tx_next_bound [OF st] c(2,3) by simp
  have le1: "tx_le tx tx1" using syn c(5,6) by (simp add: tx_le_def tx1_def)
  have queues: "\<forall>s\<in>set (tx_segments_out tx1) \<union> set (tx_segments_in_flight tx1). tx_sent_ok f tx1 s"
    using safe tx_sent_ok_mono [OF _ le1] by (auto simp: tx_safe_def tx1_def)
  have sent: "\<forall>s\<in>set (tx_segments_out ?tx2) \<union> set (tx_segments_in_flight ?tx2). tx_sent_ok f ?tx2 s"
    by (rule tx_send_safe(1) [OF queues]) (use room c(1,5) N in \<open>simp_all add: tx1_def\<close>)
  have "unat (tx_next_seqno ?tx2) = unat (tx_next_seqno tx1) + length_in_sequence_space seg"
    by (rule tx_send_safe(2) [OF queues]) (use room c(1,5) N in \<open>simp_all add: tx1_def\<close>)
  then have N2: "unat (tx_next_seqno ?tx2) = 1 + bs_readden stream + (if th_fin (seg_header seg) then 1 else 0)"
    using N c(2,5) by (simp add: tx1_def)
  have frame: "tx_stream ?tx2 = stream" "tx_fin ?tx2 = th_fin (seg_header seg)" "tx_syn ?tx2"
    using syn by (simp_all add: tx1_def)
  have "tx_stream_ok f ?tx2"
    unfolding tx_stream_ok_def Let_def frame using N2 W c(4,6,7) frame(3)
    by (simp only: simp_thms if_True)
  moreover have "tx_le tx ?tx2"
    using N N2 c(5,6) syn by (simp add: tx_le_def) (simp add: tx1_def)
  ultimately show "tx_safe f ?tx2 \<and> tx_le tx ?tx2" using sent frame(3) by (simp add: tx_safe_def)
qed

lemma tx_fill_loop_safe:
  assumes "tx_safe f tx" and "tx_syn tx"
  shows "tx_safe f (tx_fill_loop win tx) \<and> tx_le tx (tx_fill_loop win tx)"
  using assms
proof (induction win tx rule: tx_fill_loop.induct)
  case (1 win tx)
  obtain seg stream where cut: "tx_cut win tx = (seg, stream)" by force
  let ?tx1 = "tx\<lparr>tx_stream := stream, tx_fin := th_fin (seg_header seg)\<rparr>"
  show ?case
  proof (cases "tx_remain win tx = 0 \<or> tx_fin tx")
    case True
    then show ?thesis using 1(2) by (auto simp: tx_fill_loop_stop)
  next
    case go: False
    then have go': "tx_remain win tx \<noteq> 0" "\<not> tx_fin tx" by auto
    note r = tx_round_safe [OF 1(2,3) go'(2) cut]
    have eq: "tx\<lparr>tx_stream := stream, tx_fin := tx_fin tx \<or> th_fin (seg_header seg)\<rparr> = ?tx1"
      using go' by simp
    note IH = 1(1) [OF go cut [symmetric] refl, unfolded eq]
    show ?thesis
      using tx_fill_loop_round [OF go' cut] r IH 1(3) tx_le_trans by (auto simp: Let_def)
  qed
qed

lemma tx_fill_window_safe:
  assumes safe: "tx_safe f tx"
  shows "tx_safe f (tx_fill_window tx) \<and> tx_le tx (tx_fill_window tx)"
proof (cases "tx_syn tx")
  case True
  obtain win tx0 where tx0: "tx0 = tx\<lparr>tx_window_is_zero := (tx_window_size tx = 0)\<rparr>"
    "unat win = tx_window tx0" "tx_fill_window tx = tx_fill_loop win tx0"
    using tx_fill_window_sent [OF True] .
  have "tx_safe f tx0 \<and> tx_le tx tx0" by (rule tx_safe_cong [OF safe]) (simp_all add: tx0(1))
  moreover have "tx_syn tx0" using True by (simp add: tx0(1))
  ultimately show ?thesis using tx_fill_loop_safe tx_le_trans unfolding tx0(3) by blast
next
  case False
  let ?seg = "seg_new\<lparr>seg_header := th_new\<lparr>th_syn := True\<rparr>\<rparr>"
  let ?tx2 = "tx_send_segment ?seg tx"
  have st: "tx_stream_ok f tx" using safe by (simp add: tx_safe_def)
  then have u: "tx_next_seqno tx = 0" "\<not> tx_fin tx" "bs_readden (tx_stream tx) = 0"
    using False by (auto simp: tx_stream_ok_def Let_def unat_eq_zero)
  have len: "length_in_sequence_space ?seg = 1"
    by (simp add: length_in_sequence_space_def seg_new_def th_new_def)
  have q: "\<forall>s\<in>set (tx_segments_out tx) \<union> set (tx_segments_in_flight tx). tx_sent_ok f tx s"
    using safe by (simp add: tx_safe_def)
  have car: "tx_carries f (tx_isn tx) (unat (tx_next_seqno tx))
      (?seg\<lparr>seg_header := (seg_header ?seg)\<lparr>th_seqno := wrap (tx_next_seqno tx) (tx_isn tx)\<rparr>\<rparr>)"
    using u by (simp add: tx_carries_def length_in_sequence_space_def seg_new_def th_new_def)
  have "buffer_str (seg_payload ?seg) = []" by (simp add: seg_new_def)
  then have send: "\<forall>s\<in>set (tx_segments_out ?tx2) \<union> set (tx_segments_in_flight ?tx2). tx_sent_ok f ?tx2 s"
    "unat (tx_next_seqno ?tx2) = unat (tx_next_seqno tx) + length_in_sequence_space ?seg"
    using tx_send_safe [OF q _ car] u len by simp_all
  have "unat (tx_next_seqno ?tx2) = 1" using send(2) u len by simp
  then have "tx_stream_ok f (?tx2\<lparr>tx_syn := True\<rparr>)"
    using st u False by (simp add: tx_stream_ok_def Let_def)
  then show ?thesis
    using send(1) u len unfolding tx_fill_window_unsent [OF False] tx_safe_def tx_le_def
    by (simp add: tx_sent_ok_def)
qed

section \<open>Acknowledgments, time and the application\<close>

lemma tx_pop_acked_frame:
  "tx_stream (tx_pop_acked a segs tx) = tx_stream tx \<and> tx_next_seqno (tx_pop_acked a segs tx) = tx_next_seqno tx \<and>
   tx_isn (tx_pop_acked a segs tx) = tx_isn tx \<and> tx_syn (tx_pop_acked a segs tx) = tx_syn tx \<and>
   tx_fin (tx_pop_acked a segs tx) = tx_fin tx \<and> tx_segments_out (tx_pop_acked a segs tx) = tx_segments_out tx \<and>
   tx_consecutive_retrans (tx_pop_acked a segs tx) = tx_consecutive_retrans tx \<and>
   set (tx_segments_in_flight (tx_pop_acked a segs tx)) \<subseteq> set segs"
  by (induction a segs tx rule: tx_pop_acked.induct) (auto simp: Let_def)

lemma tx_ack_received_safe:
  assumes safe: "tx_safe f tx"
  shows "tx_safe f (tx_ack_received ackno window tx) \<and> tx_le tx (tx_ack_received ackno window tx)"
proof -
  define a where "a = unwrap ackno (tx_isn tx) (tx_checkpoint tx)"
  let ?tx1 = "tx\<lparr>tx_window_size := window, tx_receive_ack := a, tx_checkpoint := a\<rparr>"
  let ?p = "tx_pop_acked a (tx_segments_in_flight tx) ?tx1"
  have p: "tx_safe f ?p \<and> tx_le tx ?p"
    by (rule tx_safe_cong [OF safe]) (use tx_pop_acked_frame [of a "tx_segments_in_flight tx" ?tx1] in auto)
  define q where "q = tx_fill_window ?p"
  have fill: "tx_safe f q" "tx_le tx q"
    using p tx_fill_window_safe tx_le_trans unfolding q_def by blast+
  have timer: "tx_safe f t \<and> tx_le q t"
    if "tx_stream t = tx_stream q" "tx_next_seqno t = tx_next_seqno q" "tx_isn t = tx_isn q"
      "tx_syn t = tx_syn q" "tx_fin t = tx_fin q" "tx_segments_out t = tx_segments_out q"
      "tx_segments_in_flight t = tx_segments_in_flight q" "tx_consecutive_retrans t = 0" for t
    by (rule tx_safe_cong [OF fill(1)]) (use that in auto)
  define w where "w = tx_ack_received ackno window tx"
  have "tx_safe f (tx\<lparr>tx_window_size := window\<rparr>) \<and> tx_le tx (tx\<lparr>tx_window_size := window\<rparr>)"
    by (rule tx_safe_cong [OF safe]) simp_all
  moreover have "w = tx \<or> w = tx\<lparr>tx_window_size := window\<rparr> \<or> (tx_safe f w \<and> tx_le q w)"
  proof (cases "tx_next_seqno tx < a \<or> a \<le> tx_receive_ack tx")
    case True
    then show ?thesis by (auto simp: w_def tx_ack_received_def a_def [symmetric] Let_def)
  next
    case False
    then have "w = (let t = q\<lparr>tx_retrans_timeout := tx_initial_retransmission_timeout q,
        tx_consecutive_retrans := 0\<rparr> in
      if tx_segments_in_flight t \<noteq> [] then t\<lparr>tx_clock_is_counting := True, tx_clock := 0\<rparr> else t)"
      by (simp add: w_def tx_ack_received_def a_def [symmetric] q_def Let_def)
    then show ?thesis by (intro disjI2 timer) (simp_all add: Let_def)
  qed
  ultimately show ?thesis
    using safe fill(2) tx_le_trans unfolding w_def by auto
qed

lemma tx_tick_safe:
  assumes safe: "tx_safe f tx"
  shows "tx_safe f (tx_tick ms tx) \<and> tx_le tx (tx_tick ms tx)"
  by (rule tx_safe_cong [OF safe]) (auto simp: tx_tick_def Let_def)

lemma tx_empty_safe:
  assumes safe: "tx_safe f tx" and syn: "tx_syn tx"
  shows "tx_safe f (tx_send_empty_segment tx) \<and> tx_le tx (tx_send_empty_segment tx)"
proof -
  have "0 < unat (tx_next_seqno tx)" using safe syn by (simp add: tx_safe_def tx_stream_ok_def Let_def)
  then have "tx_sent_ok f tx (seg_new\<lparr>seg_header := th_new\<lparr>th_seqno := wrap (tx_next_seqno tx) (tx_isn tx)\<rparr>\<rparr>)"
    unfolding tx_sent_ok_def
    by (intro exI [of _ "unat (tx_next_seqno tx)"])
      (simp add: tx_carries_def length_in_sequence_space_def seg_new_def th_new_def)
  then show ?thesis
    using safe syn by (auto simp: tx_send_empty_segment_def tx_safe_def tx_sent_ok_def tx_le_def)
qed

text \<open>The application writes the bytes of \<open>f\<close>; nothing is asked of the peer.\<close>

fun tx_fair :: "(nat \<Rightarrow> byte) \<Rightarrow> tx_op \<Rightarrow> tcp_sender \<Rightarrow> bool" where
  "tx_fair f (Tx_Write d) tx =
     (d = excerpt f (bs_written (tx_stream tx)) (length d) \<and>
      int (bs_written (tx_stream tx)) + int (length d) + 2 ^ 33 \<le> 2 ^ 64)"
| "tx_fair f Tx_Empty tx = tx_syn tx"
| "tx_fair f _ tx = True"

lemma tx_write_safe:
  assumes safe: "tx_safe f tx" and ok: "tx_fair f (Tx_Write d) tx"
  shows "tx_safe f (tx_step (Tx_Write d) tx) \<and> tx_le tx (tx_step (Tx_Write d) tx)"
proof -
  have "tx_stream_ok f (tx_step (Tx_Write d) tx)"
    by (rule tx_write_stream) (use safe ok in \<open>simp_all add: tx_safe_def\<close>)
  then show ?thesis
    using safe by (simp add: tx_safe_def tx_sent_ok_def tx_idle_def tx_le_def bs_write_snd)
qed

lemma tx_step_safe:
  "tx_safe f tx \<Longrightarrow> tx_fair f op tx \<Longrightarrow> tx_safe f (tx_step op tx) \<and> tx_le tx (tx_step op tx)"
proof (cases op)
  case Tx_Take
  have tl: "set (tl (tx_segments_out tx)) \<subseteq> set (tx_segments_out tx)"
    by (cases "tx_segments_out tx") auto
  assume "tx_safe f tx"
  then show ?thesis
    by (rule tx_safe_cong) (use Tx_Take tl in auto)
qed (simp_all only: tx_step.simps tx_fair.simps tx_fill_window_safe tx_ack_received_safe tx_tick_safe
    tx_empty_safe tx_write_safe [unfolded tx_step.simps tx_fair.simps], simp_all add: tx_safe_def tx_sent_ok_def tx_idle_def tx_le_def)

lemma tx_new_safe: "tx_safe f (tx_new c rto isn_opt random)"
  by (simp add: tx_safe_def tx_stream_ok_def tx_new_def tx_idle_def)

interpretation tx_safe_machine: machine "\<lambda>tx. tx = tx_new c rto isn_opt random" "tx_fair f" tx_step "tx_safe f"
  by unfold_locales (auto dest: tx_step_safe intro: tx_new_safe)

section \<open>Property\<close>

text \<open>C4: (the stream and nothing else is sent) Whatever acknowledgment numbers and windows the peer
  sends, every segment waiting in \<open>segments_out\<close> (first transmissions, retransmissions and empty
  segments alike) is the SYN at the initial sequence number, or carries exactly the bytes of the
  application's stream that belong to its sequence number, which is never beyond the next one to
  send.\<close>

theorem sender_segments_carry_stream:
  assumes "all_steps (tx_fair f) tx_step ops (tx_new c rto isn_opt random)"
  defines "tx \<equiv> fold tx_step ops (tx_new c rto isn_opt random)"
  shows "\<forall>seg\<in>set (tx_segments_out tx). \<exists>b. b \<le> unat (tx_next_seqno tx) \<and>
    th_seqno (seg_header seg) = wrap (of_nat b) (tx_isn tx) \<and>
    (if th_syn (seg_header seg) then b = 0 \<and> buffer_str (seg_payload seg) = []
     else 0 < b \<and> buffer_str (seg_payload seg) = excerpt f (b - 1) (length (buffer_str (seg_payload seg))))"
proof -
  have "tx_safe f tx"
    unfolding tx_def by (rule tx_safe_machine.run_inv [OF refl assms(1)])
  then show ?thesis
    unfolding tx_safe_def tx_sent_ok_def tx_carries_def by (metis (no_types, lifting) UnI1)
qed

definition tx_hostile_ops :: "tx_op list" where
  "tx_hostile_ops = tx_example_ops @ [Tx_Ack (WrappingInt32 6) 1, Tx_Fill, Tx_Ack (WrappingInt32 9) 0]"

theorem sender_segments_carry_stream_witness:
  "let tx = fold tx_step tx_hostile_ops tx_example; seg = tx_segments_out tx ! 2 in
   buffer_str (seg_payload seg) = [2] \<and>
   (\<exists>b. b \<le> unat (tx_next_seqno tx) \<and> th_seqno (seg_header seg) = wrap (of_nat b) (tx_isn tx) \<and>
      (if th_syn (seg_header seg) then b = 0 \<and> buffer_str (seg_payload seg) = []
       else 0 < b \<and> buffer_str (seg_payload seg) = excerpt of_nat (b - 1) (length (buffer_str (seg_payload seg)))))"
proof -
  have ok: "all_steps (tx_fair of_nat) tx_step tx_hostile_ops tx_example" by code_simp
  have "2 < length (tx_segments_out (fold tx_step tx_hostile_ops tx_example)) \<and>
      buffer_str (seg_payload (tx_segments_out (fold tx_step tx_hostile_ops tx_example) ! 2)) = [2]"
    by code_simp
  then show ?thesis
    unfolding Let_def tx_example_def
    by (intro conjI bspec [OF sender_segments_carry_stream [OF ok [unfolded tx_example_def]]] nth_mem)
      auto
qed

end
