(* ===== verification/TCP_State.thy ===== *)
theory TCP_State
  imports TCP_Receiver Sender_Safety
begin

text \<open>
  \<open>TCPState\<close> (tcp_helpers/tcp_state.hh and .cc): the summary of an endpoint as two strings, one for
  the sender and one for the receiver, and two flags of the connection, and the table that gives
  the summary of each official TCP state. The connection compares the sender's summary with
  \<open>SYN_SENT\<close>, so the strings are kept as the code has them.
\<close>

section \<open>Summary strings\<close>

definition RX_ERROR :: string where "RX_ERROR = ''error (connection was reset)''"
definition RX_LISTEN :: string where "RX_LISTEN = ''waiting for SYN: ackno is empty''"
definition RX_SYN_RECV :: string where
  "RX_SYN_RECV = ''SYN received (ackno exists), and input to stream hasn't ended''"
definition RX_FIN_RECV :: string where "RX_FIN_RECV = ''input to stream has ended''"

definition TX_ERROR :: string where "TX_ERROR = ''error (connection was reset)''"
definition TX_CLOSED :: string where "TX_CLOSED = ''waiting for stream to begin (no SYN sent)''"
definition TX_SYN_SENT :: string where "TX_SYN_SENT = ''stream started but nothing acknowledged''"
definition TX_SYN_ACKED :: string where "TX_SYN_ACKED = ''stream ongoing''"
definition TX_FIN_SENT :: string where
  "TX_FIN_SENT = ''stream finished (FIN sent) but not fully acknowledged''"
definition TX_FIN_ACKED :: string where "TX_FIN_ACKED = ''stream finished and fully acknowledged''"

lemma summaries_differ [simp]:
  "distinct [RX_ERROR, RX_LISTEN, RX_SYN_RECV, RX_FIN_RECV]"
  "distinct [TX_ERROR, TX_CLOSED, TX_SYN_SENT, TX_SYN_ACKED, TX_FIN_SENT, TX_FIN_ACKED]"
  by code_simp+

definition rx_summary :: "tcp_receiver \<Rightarrow> string" where
  "rx_summary receiver =
     (if bs_error (rx_stream_out receiver) then RX_ERROR
      else if rx_ackno_opt receiver = None then RX_LISTEN
      else if bs_input_ended (rx_stream_out receiver) then RX_FIN_RECV
      else RX_SYN_RECV)"

definition tx_summary :: "tcp_sender \<Rightarrow> string" where
  "tx_summary sender =
     (if bs_error (tx_stream sender) then TX_ERROR
      else if tx_next_seqno sender = 0 then TX_CLOSED
      else if tx_next_seqno sender = tx_bytes_in_flight sender then TX_SYN_SENT
      else if \<not> bs_eof (tx_stream sender) then TX_SYN_ACKED
      else if tx_next_seqno sender < of_nat (bs_bytes_written (tx_stream sender)) + 2 then TX_SYN_ACKED
      else if tx_bytes_in_flight sender \<noteq> 0 then TX_FIN_SENT
      else TX_FIN_ACKED)"

section \<open>States\<close>

record tcp_state =
  ts_sender :: string
  ts_receiver :: string
  ts_active :: bool
  ts_linger :: bool

text \<open>Two states are equal when all four members are.\<close>

definition ts_eq :: "tcp_state \<Rightarrow> tcp_state \<Rightarrow> bool" where
  "ts_eq s t \<longleftrightarrow> ts_active s = ts_active t \<and> ts_linger s = ts_linger t \<and>
     ts_sender s = ts_sender t \<and> ts_receiver s = ts_receiver t"

lemma ts_eq_eq [simp]: "ts_eq s t \<longleftrightarrow> s = t"
  by (auto simp: ts_eq_def)

definition ts_name :: "tcp_state \<Rightarrow> string" where
  "ts_name s = ''sender=`'' @ ts_sender s @ ''`, receiver=`'' @ ts_receiver s @ ''`, active='' @
     (if ts_active s then ''1'' else ''0'') @ '', linger_after_streams_finish='' @
     (if ts_linger s then ''1'' else ''0'')"

definition ts_of :: "tcp_sender \<Rightarrow> tcp_receiver \<Rightarrow> bool \<Rightarrow> bool \<Rightarrow> tcp_state" where
  "ts_of sender receiver active linger =
     \<lparr>ts_sender = tx_summary sender, ts_receiver = rx_summary receiver, ts_active = active,
      ts_linger = (if active then linger else False)\<rparr>"

datatype official_state =
    LISTEN | SYN_RCVD | SYN_SENT | ESTABLISHED | CLOSE_WAIT | LAST_ACK
  | FIN_WAIT_1 | FIN_WAIT_2 | CLOSING | TIME_WAIT | CLOSED | RESET

fun ts_official :: "official_state \<Rightarrow> tcp_state" where
  "ts_official LISTEN = \<lparr>ts_sender = TX_CLOSED, ts_receiver = RX_LISTEN, ts_active = True, ts_linger = True\<rparr>"
| "ts_official SYN_RCVD = \<lparr>ts_sender = TX_SYN_SENT, ts_receiver = RX_SYN_RECV, ts_active = True, ts_linger = True\<rparr>"
| "ts_official SYN_SENT = \<lparr>ts_sender = TX_SYN_SENT, ts_receiver = RX_LISTEN, ts_active = True, ts_linger = True\<rparr>"
| "ts_official ESTABLISHED = \<lparr>ts_sender = TX_SYN_ACKED, ts_receiver = RX_SYN_RECV, ts_active = True, ts_linger = True\<rparr>"
| "ts_official CLOSE_WAIT = \<lparr>ts_sender = TX_SYN_ACKED, ts_receiver = RX_FIN_RECV, ts_active = True, ts_linger = False\<rparr>"
| "ts_official LAST_ACK = \<lparr>ts_sender = TX_FIN_SENT, ts_receiver = RX_FIN_RECV, ts_active = True, ts_linger = False\<rparr>"
| "ts_official CLOSING = \<lparr>ts_sender = TX_FIN_SENT, ts_receiver = RX_FIN_RECV, ts_active = True, ts_linger = True\<rparr>"
| "ts_official FIN_WAIT_1 = \<lparr>ts_sender = TX_FIN_SENT, ts_receiver = RX_SYN_RECV, ts_active = True, ts_linger = True\<rparr>"
| "ts_official FIN_WAIT_2 = \<lparr>ts_sender = TX_FIN_ACKED, ts_receiver = RX_SYN_RECV, ts_active = True, ts_linger = True\<rparr>"
| "ts_official TIME_WAIT = \<lparr>ts_sender = TX_FIN_ACKED, ts_receiver = RX_FIN_RECV, ts_active = True, ts_linger = True\<rparr>"
| "ts_official RESET = \<lparr>ts_sender = TX_ERROR, ts_receiver = RX_ERROR, ts_active = False, ts_linger = False\<rparr>"
| "ts_official CLOSED = \<lparr>ts_sender = TX_FIN_ACKED, ts_receiver = RX_FIN_RECV, ts_active = False, ts_linger = False\<rparr>"

text \<open>The twelve official states have twelve different summaries.\<close>

lemma ts_official_inj: "ts_official s = ts_official t \<Longrightarrow> s = t"
  using summaries_differ by (cases s; cases t) auto

end
