(* ===== verification/TCP_Connection.thy ===== *)
theory TCP_Connection
  imports TCP_State
begin

text \<open>
  \<open>TCPConnection\<close> (tcp_connection.hh and .cc): one endpoint of a connection, a sender and a
  receiver joined by acknowledgments. Handlers are functions from the object to the object, in the
  order of the file. \<open>size_t\<close> milliseconds are 64-bit words; the random initial sequence number is
  an argument of the constructor. The flag \<open>_is_passive_close\<close> is never read or written by the code.
\<close>

section \<open>The endpoint\<close>

record tcp_connection =
  cn_cfg :: tcp_config
  cn_receiver :: tcp_receiver
  cn_sender :: tcp_sender
  cn_is_passive_close :: bool
  cn_active :: bool
  cn_syn_sended :: bool
  cn_time :: u64
  cn_need_send_rst :: bool
  cn_segments_out :: "tcp_segment list"
  cn_linger :: bool

definition cn_new :: "tcp_config \<Rightarrow> u32 \<Rightarrow> tcp_connection" where
  "cn_new cfg random =
     \<lparr>cn_cfg = cfg, cn_receiver = rx_new (recv_capacity cfg),
      cn_sender = tx_new (send_capacity cfg) (rt_timeout cfg) (fixed_isn cfg) random,
      cn_is_passive_close = False, cn_active = True, cn_syn_sended = False, cn_time = 0,
      cn_need_send_rst = False, cn_segments_out = [], cn_linger = True\<rparr>"

definition cn_remaining_outbound_capacity :: "tcp_connection \<Rightarrow> nat" where
  "cn_remaining_outbound_capacity cn = bs_remaining_capacity (tx_stream (cn_sender cn))"

definition cn_bytes_in_flight :: "tcp_connection \<Rightarrow> u64" where
  "cn_bytes_in_flight cn = tx_bytes_in_flight (cn_sender cn)"

definition cn_unassembled_bytes :: "tcp_connection \<Rightarrow> nat" where
  "cn_unassembled_bytes cn = rx_unassembled_bytes (cn_receiver cn)"

definition cn_inbound_stream :: "tcp_connection \<Rightarrow> byte_stream" where
  "cn_inbound_stream cn = rx_stream_out (cn_receiver cn)"

definition cn_state :: "tcp_connection \<Rightarrow> tcp_state" where
  "cn_state cn = ts_of (cn_sender cn) (cn_receiver cn) (cn_active cn) (cn_linger cn)"

section \<open>Sending\<close>

definition cn_clean_shutdown :: "tcp_connection \<Rightarrow> bool \<times> tcp_connection" where
  "cn_clean_shutdown cn =
     (let input_ended = bs_input_ended (rx_stream_out (cn_receiver cn));
          eof = bs_eof (tx_stream (cn_sender cn));
          cn = (if input_ended \<and> \<not> eof then cn\<lparr>cn_linger := False\<rparr> else cn);
          cn = (if input_ended \<and> eof \<and> tx_bytes_in_flight (cn_sender cn) = 0 then
                  if \<not> cn_linger cn \<or> cn_time cn \<ge> 10 * ucast (rt_timeout (cn_cfg cn))
                  then cn\<lparr>cn_active := False\<rparr> else cn
                else cn) in
      (\<not> cn_active cn, cn))"

text \<open>
  A segment taken from the sender, with the fields of the receiver: \<open>win\<close> is 16 bits wide and the
  assignment truncates the \<open>size_t\<close>.
\<close>

definition cn_stamp :: "tcp_connection \<Rightarrow> tcp_segment \<Rightarrow> tcp_segment" where
  "cn_stamp cn seg =
     (let h = seg_header seg;
          h = (case rx_ackno_opt (cn_receiver cn) of
                 None \<Rightarrow> h
               | Some a \<Rightarrow> h\<lparr>th_ack := True, th_ackno := a,
                             th_win := of_nat (rx_window_size (cn_receiver cn))\<rparr>);
          h = (if cn_need_send_rst cn then h\<lparr>th_rst := True\<rparr> else h) in
      seg\<lparr>seg_header := h\<rparr>)"

definition cn_segment_sends :: "bool \<Rightarrow> tcp_connection \<Rightarrow> tcp_connection" where
  "cn_segment_sends send_syn cn =
     (if \<not> send_syn \<and> \<not> cn_syn_sended cn then cn
      else
        let cn = cn\<lparr>cn_syn_sended := True, cn_sender := tx_fill_window (cn_sender cn)\<rparr>;
            cn = cn\<lparr>cn_segments_out := cn_segments_out cn @
                      map (cn_stamp cn) (tx_segments_out (cn_sender cn)),
                    cn_sender := (cn_sender cn)\<lparr>tx_segments_out := []\<rparr>\<rparr> in
        snd (cn_clean_shutdown cn))"

definition cn_connect :: "tcp_connection \<Rightarrow> tcp_connection" where
  "cn_connect cn = cn_segment_sends True cn"

definition cn_write :: "byte list \<Rightarrow> tcp_connection \<Rightarrow> nat \<times> tcp_connection" where
  "cn_write data cn =
     (let (res, stream) = bs_write data (tx_stream (cn_sender cn));
          cn = cn\<lparr>cn_sender := (cn_sender cn)\<lparr>tx_stream := stream\<rparr>\<rparr> in
      (res, cn_segment_sends False cn))"

definition cn_end_input_stream :: "tcp_connection \<Rightarrow> tcp_connection" where
  "cn_end_input_stream cn =
     (let cn = cn\<lparr>cn_sender := (cn_sender cn)\<lparr>tx_stream := bs_end_input (tx_stream (cn_sender cn))\<rparr>\<rparr> in
      cn_segment_sends False cn)"

section \<open>Shutting down\<close>

definition cn_unclean_shutdown :: "bool \<Rightarrow> tcp_connection \<Rightarrow> tcp_connection" where
  "cn_unclean_shutdown send_rst cn =
     (let cn = cn\<lparr>cn_receiver := rx_with_output (bs_set_error (rx_stream_out (cn_receiver cn))) (cn_receiver cn),
                  cn_sender := (cn_sender cn)\<lparr>tx_stream := bs_set_error (tx_stream (cn_sender cn))\<rparr>,
                  cn_linger := False, cn_active := False\<rparr> in
      if send_rst then
        let cn = cn\<lparr>cn_need_send_rst := True\<rparr>;
            cn = (if tx_segments_out (cn_sender cn) = []
                  then cn\<lparr>cn_sender := tx_send_empty_segment (cn_sender cn)\<rparr> else cn) in
        cn_segment_sends False cn
      else cn)"

text \<open>The destructor, as the state it leaves (its message on standard error is not modelled).\<close>

definition cn_destructor :: "tcp_connection \<Rightarrow> tcp_connection" where
  "cn_destructor cn = (if cn_active cn then cn_unclean_shutdown True cn else cn)"

section \<open>Segments and time\<close>

text \<open>The acknowledgment is passed to the sender, and the empty segment that answers is asked for.\<close>

definition cn_take_ack :: "tcp_header \<Rightarrow> tcp_connection \<Rightarrow> tcp_connection" where
  "cn_take_ack header cn =
     (if th_ack header \<and> tx_next_seqno (cn_sender cn) > 0
      then cn\<lparr>cn_sender := tx_ack_received (th_ackno header) (th_win header) (cn_sender cn)\<rparr>
      else cn)"

definition cn_answer :: "tcp_segment \<Rightarrow> tcp_connection \<Rightarrow> tcp_connection" where
  "cn_answer seg cn =
     (if length_in_sequence_space seg > 0 \<and> rx_ackno_opt (cn_receiver cn) \<noteq> None \<and>
        tx_segments_out (cn_sender cn) = []
      then cn\<lparr>cn_sender := tx_send_empty_segment (cn_sender cn)\<rparr> else cn)"

definition cn_segment_received :: "tcp_segment \<Rightarrow> tcp_connection \<Rightarrow> tcp_connection" where
  "cn_segment_received seg cn =
     (if \<not> cn_active cn then cn
      else
        let cn = cn\<lparr>cn_time := 0\<rparr>; header = seg_header seg in
        if tx_summary (cn_sender cn) = TX_SYN_SENT \<and> th_ack header \<and> buffer_size (seg_payload seg) \<noteq> 0 then cn
        else
          let cn = cn_take_ack header cn;
              cn = cn\<lparr>cn_receiver := rx_segment_received seg (cn_receiver cn)\<rparr> in
          if th_syn header \<and> tx_next_seqno (cn_sender cn) = 0 then cn_connect cn
          else if th_rst header then
            (if tx_summary (cn_sender cn) = TX_SYN_SENT \<and> \<not> th_ack header then cn
             else cn_unclean_shutdown False cn)
          else
            cn_segment_sends False (cn_answer seg cn))"

definition cn_tick :: "u64 \<Rightarrow> tcp_connection \<Rightarrow> tcp_connection" where
  "cn_tick ms_since_last_tick cn =
     (if \<not> cn_active cn then cn
      else
        let cn = cn\<lparr>cn_time := cn_time cn + ms_since_last_tick,
                    cn_sender := tx_tick ms_since_last_tick (cn_sender cn)\<rparr>;
            cn = (if tx_consecutive_retrans (cn_sender cn) > MAX_RETX_ATTEMPTS
                  then cn_unclean_shutdown True cn else cn) in
        cn_segment_sends False cn)"

section \<open>The endpoint as an operation-driven machine\<close>

text \<open>
  The application connects, writes, ends its stream and reads the inbound stream; the owner passes
  in segments and time and takes segments off the queue.
\<close>

datatype cn_op =
    Cn_Connect
  | Cn_Write "byte list"
  | Cn_End
  | Cn_Segment tcp_segment
  | Cn_Tick u64
  | Cn_Read nat
  | Cn_Take

fun cn_step :: "cn_op \<Rightarrow> tcp_connection \<Rightarrow> tcp_connection" where
  "cn_step Cn_Connect cn = cn_connect cn"
| "cn_step (Cn_Write d) cn = snd (cn_write d cn)"
| "cn_step Cn_End cn = cn_end_input_stream cn"
| "cn_step (Cn_Segment seg) cn = cn_segment_received seg cn"
| "cn_step (Cn_Tick ms) cn = cn_tick ms cn"
| "cn_step (Cn_Read n) cn = cn\<lparr>cn_receiver := rx_step (Rx_Read n) (cn_receiver cn)\<rparr>"
| "cn_step Cn_Take cn = cn\<lparr>cn_segments_out := tl (cn_segments_out cn)\<rparr>"

section \<open>What the endpoint sends\<close>

text \<open>
  The connection's part of the sender's safety: the sender's invariant, the SYN flag in step with
  the sender's, and every segment waiting to go out is one the sender made. \<open>cn_inv\<close> adds that a
  receiver that has seen a SYN belongs to a connection that has sent its own, the reason why no
  empty segment goes out before the SYN.
\<close>

definition cn_tx :: "(nat \<Rightarrow> byte) \<Rightarrow> tcp_connection \<Rightarrow> bool" where
  "cn_tx f cn \<longleftrightarrow> tx_safe f (cn_sender cn) \<and> cn_syn_sended cn = tx_syn (cn_sender cn) \<and>
     (\<forall>seg\<in>set (cn_segments_out cn). tx_sent_ok f (cn_sender cn) seg)"

definition cn_inv :: "(nat \<Rightarrow> byte) \<Rightarrow> tcp_connection \<Rightarrow> bool" where
  "cn_inv f cn \<longleftrightarrow> cn_tx f cn \<and> (rx_syn (cn_receiver cn) \<longrightarrow> tx_syn (cn_sender cn))"

text \<open>An operation keeps the invariant and takes nothing back from the sender.\<close>

definition cn_goes :: "(nat \<Rightarrow> byte) \<Rightarrow> tcp_connection \<Rightarrow> tcp_connection \<Rightarrow> bool" where
  "cn_goes f cn cn' \<longleftrightarrow> cn_tx f cn' \<and> tx_le (cn_sender cn) (cn_sender cn')"

lemma cn_goes_trans: "cn_goes f a b \<Longrightarrow> cn_goes f b c \<Longrightarrow> cn_goes f a c"
  using tx_le_trans by (auto simp: cn_goes_def)

lemma cn_goes_refl: "cn_tx f cn \<Longrightarrow> cn_goes f cn cn"
  by (simp add: cn_goes_def)

text \<open>A step of the sender alone.\<close>

lemma cn_goes_sender:
  assumes "cn_tx f cn" and "tx_safe f (cn_sender cn') \<and> tx_le (cn_sender cn) (cn_sender cn')"
    and "cn_segments_out cn' = cn_segments_out cn" and "cn_syn_sended cn' = tx_syn (cn_sender cn')"
  shows "cn_goes f cn cn'"
  using assms tx_sent_ok_mono [of f "cn_sender cn" _ "cn_sender cn'"] by (auto simp: cn_goes_def cn_tx_def)

lemma cn_clean_shutdown_frame [simp]:
  "cn_sender (snd (cn_clean_shutdown cn)) = cn_sender cn"
  "cn_receiver (snd (cn_clean_shutdown cn)) = cn_receiver cn"
  "cn_segments_out (snd (cn_clean_shutdown cn)) = cn_segments_out cn"
  "cn_syn_sended (snd (cn_clean_shutdown cn)) = cn_syn_sended cn"
  "cn_cfg (snd (cn_clean_shutdown cn)) = cn_cfg cn"
  by (simp_all add: cn_clean_shutdown_def Let_def)

lemma tx_sent_ok_stamp [simp]: "tx_sent_ok f tx (cn_stamp cn seg) = tx_sent_ok f tx seg"
  by (simp add: tx_sent_ok_def tx_carries_def cn_stamp_def Let_def length_in_sequence_space_def split: option.split)

lemma tx_sent_ok_frame [simp]: "tx_sent_ok f (tx\<lparr>tx_segments_out := q\<rparr>) seg = tx_sent_ok f tx seg"
  by (simp add: tx_sent_ok_def)

lemma tx_fill_loop_syn: "tx_syn tx \<Longrightarrow> tx_syn (tx_fill_loop win tx)"
proof (induction win tx rule: tx_fill_loop.induct)
  case (1 win tx)
  then show ?case by (subst tx_fill_loop.simps) (auto simp: Let_def split: prod.split)
qed

lemma tx_fill_window_syn [simp]: "tx_syn (tx_fill_window tx)"
  using tx_fill_loop_syn by (simp add: tx_fill_window_def Let_def)

lemma cn_segment_sends_goes:
  assumes tx: "cn_tx f cn"
  shows "cn_goes f cn (cn_segment_sends b cn)"
proof -
  let ?tx = "tx_fill_window (cn_sender cn)"
  have fill: "tx_safe f ?tx \<and> tx_le (cn_sender cn) ?tx"
    using tx by (intro tx_fill_window_safe) (simp add: cn_tx_def)
  then have drained: "tx_safe f (?tx\<lparr>tx_segments_out := []\<rparr>) \<and> tx_le ?tx (?tx\<lparr>tx_segments_out := []\<rparr>)"
    by (intro tx_safe_cong) simp_all
  have "tx_sent_ok f ?tx seg" if "seg \<in> set (cn_segments_out cn) \<union> set (tx_segments_out ?tx)" for seg
    using that tx fill tx_sent_ok_mono by (auto simp: cn_tx_def tx_safe_def)
  then have "cn_goes f cn (cn_segment_sends b cn)" if "b \<or> cn_syn_sended cn"
    using that fill drained tx_le_trans
    by (auto simp: cn_segment_sends_def Let_def cn_goes_def cn_tx_def ball_Un)
  moreover have "cn_segment_sends b cn = cn" if "\<not> (b \<or> cn_syn_sended cn)"
    using that by (simp add: cn_segment_sends_def)
  ultimately show ?thesis using cn_goes_refl [OF tx] by metis
qed

lemma cn_segment_sends_frame [simp]:
  "cn_receiver (cn_segment_sends b cn) = cn_receiver cn"
  "cn_cfg (cn_segment_sends b cn) = cn_cfg cn"
  "cn_syn_sended (cn_segment_sends b cn) = (b \<or> cn_syn_sended cn)"
  by (simp_all add: cn_segment_sends_def Let_def)

lemma cn_fold_stream:
  assumes "cn_tx f cn" and "tx_safe f ((cn_sender cn)\<lparr>tx_stream := st\<rparr>)"
    and "bs_written (tx_stream (cn_sender cn)) \<le> bs_written st"
    and "bs_readden (tx_stream (cn_sender cn)) \<le> bs_readden st"
  shows "cn_goes f cn (cn\<lparr>cn_sender := (cn_sender cn)\<lparr>tx_stream := st\<rparr>\<rparr>)"
  using assms by (intro cn_goes_sender [OF assms(1)]) (auto simp: cn_tx_def tx_le_def)

lemma tx_safe_flags:
  assumes "tx_safe f tx"
  shows "tx_safe f (tx\<lparr>tx_stream := bs_end_input (tx_stream tx)\<rparr>)"
    and "tx_safe f (tx\<lparr>tx_stream := bs_set_error (tx_stream tx)\<rparr>)"
  using tx_step_safe [OF assms, of Tx_End] tx_step_safe [OF assms, of Tx_Error] by simp_all

lemma cn_unclean_shutdown_goes:
  assumes tx: "cn_tx f cn" and syn: "r \<Longrightarrow> tx_syn (cn_sender cn)"
  shows "cn_goes f cn (cn_unclean_shutdown r cn)"
proof -
  let ?cn1 = "cn\<lparr>cn_receiver := rx_with_output (bs_set_error (rx_stream_out (cn_receiver cn))) (cn_receiver cn),
      cn_sender := (cn_sender cn)\<lparr>tx_stream := bs_set_error (tx_stream (cn_sender cn))\<rparr>,
      cn_linger := False, cn_active := False\<rparr>"
  let ?cn2 = "?cn1\<lparr>cn_need_send_rst := True\<rparr>"
  let ?cn3 = "if tx_segments_out (cn_sender ?cn2) = []
    then ?cn2\<lparr>cn_sender := tx_send_empty_segment (cn_sender ?cn2)\<rparr> else ?cn2"
  have "tx_safe f (cn_sender ?cn1) \<and> tx_le (cn_sender cn) (cn_sender ?cn1)"
    using tx tx_safe_flags(2) by (simp add: cn_tx_def tx_le_def)
  then have 1: "cn_goes f cn ?cn1"
    by (rule cn_goes_sender [OF tx]) (use tx in \<open>simp_all add: cn_tx_def\<close>)
  then have tx1: "cn_tx f ?cn1" by (simp add: cn_goes_def)
  have "cn_goes f cn ?cn3" if r
  proof -
    have "tx_safe f (cn_sender ?cn2)" "tx_syn (cn_sender ?cn2)"
      using 1 syn [OF that] by (simp_all add: cn_goes_def cn_tx_def)
    then have "tx_safe f (cn_sender ?cn3) \<and> tx_le (cn_sender ?cn1) (cn_sender ?cn3)"
      using tx_empty_safe by simp
    then have "cn_goes f ?cn1 ?cn3"
      by (rule cn_goes_sender [OF tx1]) (use tx in \<open>simp_all add: cn_tx_def tx_send_empty_segment_def\<close>)
    then show ?thesis using 1 cn_goes_trans by blast
  qed
  then have "cn_goes f cn (cn_segment_sends False ?cn3)" if r
    using that cn_segment_sends_goes cn_goes_trans by (meson cn_goes_def)
  then show ?thesis using 1 by (simp add: cn_unclean_shutdown_def Let_def)
qed

lemma cn_unclean_shutdown_receiver [simp]:
  "cn_receiver (cn_unclean_shutdown r cn) = rx_step Rx_Error (cn_receiver cn)"
  by (simp add: cn_unclean_shutdown_def Let_def)

lemma tx_safe_started:
  assumes "tx_safe f tx" and "tx_next_seqno tx \<noteq> 0 \<or> tx_consecutive_retrans tx \<noteq> 0"
  shows "tx_syn tx"
  using assms by (auto simp: tx_safe_def tx_stream_ok_def tx_idle_def Let_def unat_eq_zero split: if_splits)

lemma cn_tick_goes:
  assumes tx: "cn_tx f cn"
  shows "cn_goes f cn (cn_tick ms cn)"
proof (cases "cn_active cn")
  case False
  then show ?thesis using cn_goes_refl [OF tx] by (simp add: cn_tick_def)
next
  case True
  let ?cn1 = "cn\<lparr>cn_time := cn_time cn + ms, cn_sender := tx_tick ms (cn_sender cn)\<rparr>"
  let ?cn2 = "if tx_consecutive_retrans (cn_sender ?cn1) > MAX_RETX_ATTEMPTS
    then cn_unclean_shutdown True ?cn1 else ?cn1"
  have tick: "tx_safe f (tx_tick ms (cn_sender cn)) \<and> tx_le (cn_sender cn) (tx_tick ms (cn_sender cn))"
    using tx by (intro tx_tick_safe) (simp add: cn_tx_def)
  have "tx_syn (tx_tick ms (cn_sender cn)) = tx_syn (cn_sender cn)" by (simp add: tx_tick_def Let_def)
  then have 1: "cn_goes f cn ?cn1"
    by (intro cn_goes_sender [OF tx]) (use tx tick in \<open>simp_all add: cn_tx_def\<close>)
  then have tx1: "cn_tx f ?cn1" by (simp add: cn_goes_def)
  have "tx_syn (cn_sender ?cn1)" if "tx_consecutive_retrans (cn_sender ?cn1) > MAX_RETX_ATTEMPTS"
    using that tick by (intro tx_safe_started) auto
  then have "cn_goes f ?cn1 ?cn2"
    using cn_unclean_shutdown_goes [OF tx1, of True] cn_goes_refl [OF tx1] by simp
  then have 2: "cn_goes f cn ?cn2" using 1 cn_goes_trans by blast
  then have "cn_goes f cn (cn_segment_sends False ?cn2)"
    using cn_segment_sends_goes cn_goes_trans by (meson cn_goes_def)
  then show ?thesis using True by (simp add: cn_tick_def Let_def)
qed

lemma cn_take_ack_frame [simp]:
  "cn_receiver (cn_take_ack h cn) = cn_receiver cn" "cn_active (cn_take_ack h cn) = cn_active cn"
  "cn_time (cn_take_ack h cn) = cn_time cn" "cn_linger (cn_take_ack h cn) = cn_linger cn"
  "cn_cfg (cn_take_ack h cn) = cn_cfg cn" "cn_segments_out (cn_take_ack h cn) = cn_segments_out cn"
  by (simp_all add: cn_take_ack_def)

lemma cn_segment_received_inv:
  assumes inv: "cn_inv f cn"
  shows "cn_inv f (cn_segment_received seg cn) \<and> cn_goes f cn (cn_segment_received seg cn)"
proof (cases "cn_active cn \<and> \<not> (tx_summary (cn_sender cn) = TX_SYN_SENT \<and> th_ack (seg_header seg) \<and>
    buffer_size (seg_payload seg) \<noteq> 0)")
  case False
  then have "cn_segment_received seg cn = cn \<or> cn_segment_received seg cn = cn\<lparr>cn_time := 0\<rparr>"
    by (auto simp: cn_segment_received_def Let_def)
  then show ?thesis using inv cn_goes_refl by (auto simp: cn_inv_def cn_tx_def cn_goes_def)
next
  case True
  let ?h = "seg_header seg"
  define tx where "tx = cn_sender (cn_take_ack ?h cn)"
  define cn1 where "cn1 = (cn_take_ack ?h (cn\<lparr>cn_time := 0\<rparr>))\<lparr>cn_receiver := rx_segment_received seg (cn_receiver cn)\<rparr>"
  define cn2 where "cn2 = cn_answer seg cn1"
  have eq: "cn_segment_received seg cn =
     (if th_syn ?h \<and> tx_next_seqno (cn_sender cn1) = 0 then cn_connect cn1
      else if th_rst ?h then
        (if tx_summary (cn_sender cn1) = TX_SYN_SENT \<and> \<not> th_ack ?h then cn1
         else cn_unclean_shutdown False cn1)
      else cn_segment_sends False cn2)"
    using True unfolding cn_segment_received_def Let_def cn1_def cn2_def
    by auto
  have cn1: "cn_sender cn1 = tx" "cn_segments_out cn1 = cn_segments_out cn"
    "cn_syn_sended cn1 = cn_syn_sended cn" "cn_receiver cn1 = rx_segment_received seg (cn_receiver cn)"
    by (simp_all add: cn1_def tx_def cn_take_ack_def)
  have safe: "tx_safe f (cn_sender cn)" and tx: "cn_tx f cn" and sync: "cn_syn_sended cn = tx_syn (cn_sender cn)"
    and rx: "rx_syn (cn_receiver cn) \<Longrightarrow> tx_syn (cn_sender cn)"
    using inv by (simp_all add: cn_inv_def cn_tx_def)
  have ack: "tx_safe f tx \<and> tx_le (cn_sender cn) tx"
    using tx_ack_received_safe [OF safe] safe by (simp add: tx_def cn_take_ack_def)
  moreover have "tx_syn tx = tx_syn (cn_sender cn)"
  proof (cases "tx_next_seqno (cn_sender cn) = 0")
    case False
    then have "tx_syn (cn_sender cn)" using tx_safe_started [OF safe] by simp
    then show ?thesis using ack by (simp add: tx_le_def)
  qed (simp add: tx_def cn_take_ack_def)
  ultimately have 1: "cn_goes f cn cn1"
    by (intro cn_goes_sender [OF tx]) (simp_all add: cn1 sync)
  then have tx1: "cn_tx f cn1" by (simp add: cn_goes_def)
  have started: "tx_syn (cn_sender cn1)" if "tx_next_seqno (cn_sender cn1) \<noteq> 0"
    using that tx1 tx_safe_started by (auto simp: cn_tx_def)
  have mono: "tx_syn (cn_sender cn) \<Longrightarrow> tx_syn (cn_sender cn1)"
    using 1 by (simp add: cn_goes_def tx_le_def)
  have syn1: "rx_syn (cn_receiver cn1) \<Longrightarrow> tx_syn (cn_sender cn1)"
    if "\<not> (th_syn ?h \<and> tx_next_seqno (cn_sender cn1) = 0)"
    using that started rx mono by (auto simp: cn1)
  have ends: "cn_inv f cn' \<and> cn_goes f cn cn'"
    if goes: "cn_goes f cn1 cn'" and r: "rx_syn (cn_receiver cn') \<Longrightarrow> rx_syn (cn_receiver cn1)"
      and s: "\<not> (th_syn ?h \<and> tx_next_seqno (cn_sender cn1) = 0) \<or> tx_syn (cn_sender cn')" for cn'
    using cn_goes_trans [OF 1 goes] syn1 s r goes
    by (auto simp: cn_inv_def cn_goes_def tx_le_def)
  have 2: "cn_goes f cn1 cn2" if "\<not> (th_syn ?h \<and> tx_next_seqno (cn_sender cn1) = 0)"
  proof (cases "rx_ackno_opt (cn_receiver cn1) = None")
    case False
    then have "tx_syn (cn_sender cn1)"
      using syn1 [OF that] by (auto simp: rx_ackno_opt_def split: if_splits)
    then have "tx_safe f (cn_sender cn2) \<and> tx_le (cn_sender cn1) (cn_sender cn2)"
      using tx_empty_safe [of f "cn_sender cn1"] tx1 by (simp add: cn2_def cn_tx_def cn_answer_def)
    then show ?thesis
      by (rule cn_goes_sender [OF tx1])
        (use tx1 in \<open>simp_all add: cn2_def cn_tx_def cn_answer_def tx_send_empty_segment_def\<close>)
  qed (use cn_goes_refl [OF tx1] in \<open>simp add: cn2_def cn_answer_def\<close>)
  then have answered: "cn_goes f cn1 (cn_segment_sends False cn2)"
    if "\<not> (th_syn ?h \<and> tx_next_seqno (cn_sender cn1) = 0)"
    using that cn_segment_sends_goes cn_goes_trans by (meson cn_goes_def)
  have connected: "cn_goes f cn1 (cn_connect cn1)" "tx_syn (cn_sender (cn_connect cn1))"
    using cn_segment_sends_goes [OF tx1, of True]
    by (simp_all add: cn_connect_def) (simp add: cn_segment_sends_def Let_def)
  have reset: "cn_goes f cn1 (cn_unclean_shutdown False cn1)"
    by (rule cn_unclean_shutdown_goes [OF tx1]) simp
  have rec: "cn_receiver cn2 = cn_receiver cn1" "cn_receiver (cn_connect cn1) = cn_receiver cn1"
    by (simp_all add: cn2_def cn_answer_def cn_connect_def)
  show ?thesis
  proof (rule ends)
    show "cn_goes f cn1 (cn_segment_received seg cn)"
      unfolding eq using answered connected(1) reset cn_goes_refl [OF tx1] by simp
    show "rx_syn (cn_receiver (cn_segment_received seg cn)) \<Longrightarrow> rx_syn (cn_receiver cn1)"
      unfolding eq using rec by (auto split: if_splits)
    show "\<not> (th_syn ?h \<and> tx_next_seqno (cn_sender cn1) = 0) \<or> tx_syn (cn_sender (cn_segment_received seg cn))"
      unfolding eq using connected(2) by auto
  qed
qed

text \<open>The application writes the bytes of \<open>f\<close>; the peer may send anything.\<close>

fun cn_fair :: "(nat \<Rightarrow> byte) \<Rightarrow> cn_op \<Rightarrow> tcp_connection \<Rightarrow> bool" where
  "cn_fair f (Cn_Write d) cn = tx_fair f (Tx_Write d) (cn_sender cn)"
| "cn_fair f _ cn = True"

lemma cn_write_goes:
  assumes tx: "cn_tx f cn" and ok: "tx_fair f (Tx_Write d) (cn_sender cn)"
  shows "cn_goes f cn (snd (cn_write d cn))"
proof -
  let ?cn1 = "cn\<lparr>cn_sender := tx_step (Tx_Write d) (cn_sender cn)\<rparr>"
  have "tx_safe f (cn_sender ?cn1) \<and> tx_le (cn_sender cn) (cn_sender ?cn1)"
    using tx_write_safe [OF _ ok] tx by (simp add: cn_tx_def)
  then have "cn_goes f cn ?cn1"
    by (rule cn_goes_sender [OF tx]) (use tx in \<open>simp_all add: cn_tx_def\<close>)
  then have "cn_goes f cn (cn_segment_sends False ?cn1)"
    using cn_segment_sends_goes cn_goes_trans by (meson cn_goes_def)
  then show ?thesis by (simp add: cn_write_def Let_def case_prod_beta)
qed

lemma cn_end_goes:
  assumes tx: "cn_tx f cn"
  shows "cn_goes f cn (cn_end_input_stream cn)"
proof -
  have "cn_goes f cn (cn\<lparr>cn_sender := (cn_sender cn)\<lparr>tx_stream := bs_end_input (tx_stream (cn_sender cn))\<rparr>\<rparr>)"
    by (rule cn_fold_stream [OF tx]) (use tx tx_safe_flags in \<open>simp_all add: cn_tx_def\<close>)
  then show ?thesis
    using cn_segment_sends_goes cn_goes_trans
    unfolding cn_end_input_stream_def Let_def by (meson cn_goes_def)
qed

lemma cn_step_inv:
  assumes inv: "cn_inv f cn" and ok: "cn_fair f op cn"
  shows "cn_inv f (cn_step op cn) \<and> tx_le (cn_sender cn) (cn_sender (cn_step op cn))"
proof -
  have tx: "cn_tx f cn" and rx: "rx_syn (cn_receiver cn) \<Longrightarrow> tx_syn (cn_sender cn)"
    using inv by (simp_all add: cn_inv_def)
  have by_goes: ?thesis
    if "cn_goes f cn (cn_step op cn)" and "rx_syn (cn_receiver (cn_step op cn)) = rx_syn (cn_receiver cn)"
    using that rx by (auto simp: cn_inv_def cn_goes_def tx_le_def)
  show ?thesis
  proof (cases op)
    case Cn_Connect
    then show ?thesis
      using by_goes cn_segment_sends_goes [OF tx, of True] by (simp add: cn_connect_def)
  next
    case (Cn_Write d)
    then show ?thesis
      using by_goes cn_write_goes [OF tx] ok by (simp add: cn_write_def Let_def case_prod_beta)
  next
    case Cn_End
    then show ?thesis
      using by_goes cn_end_goes [OF tx] by (simp add: cn_end_input_stream_def Let_def)
  next
    case (Cn_Segment seg)
    then show ?thesis
      using cn_segment_received_inv [OF inv] by (simp add: cn_goes_def)
  next
    case (Cn_Tick ms)
    then show ?thesis
      using by_goes cn_tick_goes [OF tx] by (simp add: cn_tick_def Let_def)
  next
    case (Cn_Read n)
    then show ?thesis using inv by (simp add: cn_inv_def cn_tx_def)
  next
    case Cn_Take
    have "set (tl (cn_segments_out cn)) \<subseteq> set (cn_segments_out cn)"
      by (cases "cn_segments_out cn") auto
    then show ?thesis using inv Cn_Take by (auto simp: cn_inv_def cn_tx_def)
  qed
qed

lemma cn_new_inv: "cn_inv f (cn_new cfg random)"
  using tx_new_safe by (simp add: cn_inv_def cn_tx_def cn_new_def) (simp add: tx_new_def rx_new_def)

interpretation cn_machine: machine "\<lambda>cn. cn = cn_new cfg random" "cn_fair f" cn_step "cn_inv f"
  by unfold_locales (auto dest: cn_step_inv intro: cn_new_inv)

text \<open>
  Every operation drives the receiver through its own operations: an invariant of the receiver
  that they keep is kept by the connection.
\<close>

lemma cn_step_receiver:
  assumes "I (cn_receiver cn)" and err: "\<And>rx. I rx \<Longrightarrow> I (rx_step Rx_Error rx)"
    and read: "\<And>rx n. I rx \<Longrightarrow> I (rx_step (Rx_Read n) rx)"
    and seg: "\<And>seg. op = Cn_Segment seg \<Longrightarrow> I (rx_segment_received seg (cn_receiver cn))"
  shows "I (cn_receiver (cn_step op cn))"
proof (cases op)
  case (Cn_Segment s)
  have "cn_receiver (cn_step op cn) \<in> {cn_receiver cn, rx_segment_received s (cn_receiver cn),
      rx_step Rx_Error (rx_segment_received s (cn_receiver cn))}"
    by (simp add: Cn_Segment cn_segment_received_def Let_def cn_connect_def cn_answer_def)
  then show ?thesis using assms(1) err seg [OF Cn_Segment] by auto
next
  case (Cn_Tick ms)
  then show ?thesis using assms(1) err by (simp add: cn_tick_def Let_def)
next
  case (Cn_Read n)
  then show ?thesis using assms(1) read by simp
qed (use assms(1) in \<open>simp_all add: cn_connect_def cn_write_def cn_end_input_stream_def Let_def case_prod_beta\<close>)

end
