(* ===== verification/Handshake.thy ===== *)
theory Handshake
  imports TCP_Connection
begin

text \<open>
  Opening a connection: the states that two new endpoints go through when one connects and their
  segments are exchanged without loss, for arbitrary configurations and initial sequence numbers.
\<close>

lemma wrap_0 [simp]: "wrap 0 isn = isn"
  using wrap_of_nat [of 0 isn] by (simp add: wi_plus_def)

lemma wrap_1: "wrap 1 isn = wi_plus isn 1"
  using wrap_of_nat [of 1 isn] by simp

lemma unwrap_one [simp]: "unwrap (wi_plus isn 1) isn 0 = 1"
  using unwrap_of_wrap [of 0 1 isn] by (simp add: wrap_1)

section \<open>A new endpoint sends its SYN\<close>

definition tx_syn_sent :: "nat \<Rightarrow> u16 \<Rightarrow> wrapping_int32 \<Rightarrow> tcp_sender" where
  "tx_syn_sent c rto isn = (tx_new c rto (Some isn) 0)\<lparr>tx_syn := True, tx_next_seqno := 1,
     tx_bytes_in_flight := 1,
     tx_segments_in_flight := [seg_new\<lparr>seg_header := th_new\<lparr>th_syn := True, th_seqno := isn\<rparr>\<rparr>],
     tx_clock_is_counting := True\<rparr>"

lemma tx_fill_window_new:
  "(tx_fill_window (tx_new c rto isn_opt r))\<lparr>tx_segments_out := []\<rparr> =
    tx_syn_sent c rto (tx_isn (tx_new c rto isn_opt r))"
  "tx_segments_out (tx_fill_window (tx_new c rto isn_opt r)) =
    [seg_new\<lparr>seg_header := th_new\<lparr>th_syn := True, th_seqno := tx_isn (tx_new c rto isn_opt r)\<rparr>\<rparr>]"
  by (simp_all add: tx_fill_window_def tx_new_def tx_syn_sent_def tx_send_segment_def Let_def
      length_in_sequence_space_def seg_new_def th_new_def)

definition syn_seg :: "wrapping_int32 \<Rightarrow> tcp_segment" where
  "syn_seg isn = seg_new\<lparr>seg_header := th_new\<lparr>th_syn := True, th_seqno := isn\<rparr>\<rparr>"

definition cn_isn :: "tcp_config \<Rightarrow> u32 \<Rightarrow> wrapping_int32" where
  "cn_isn cfg r = tx_isn (cn_sender (cn_new cfg r))"

lemma cn_new_sel [simp]:
  "cn_sender (cn_new cfg r) = tx_new (send_capacity cfg) (rt_timeout cfg) (fixed_isn cfg) r"
  "cn_receiver (cn_new cfg r) = rx_new (recv_capacity cfg)" "cn_segments_out (cn_new cfg r) = []"
  "cn_active (cn_new cfg r)" "cn_linger (cn_new cfg r)" "\<not> cn_need_send_rst (cn_new cfg r)"
  by (simp_all add: cn_new_def)

definition cn_syn_out :: "tcp_config \<Rightarrow> u32 \<Rightarrow> tcp_connection" where
  "cn_syn_out cfg r = (cn_new cfg r)\<lparr>cn_syn_sended := True,
     cn_sender := tx_syn_sent (send_capacity cfg) (rt_timeout cfg) (cn_isn cfg r)\<rparr>"

lemma cn_syn_out_sel [simp]:
  "cn_sender (cn_syn_out cfg r) = tx_syn_sent (send_capacity cfg) (rt_timeout cfg) (cn_isn cfg r)"
  "cn_receiver (cn_syn_out cfg r) = rx_new (recv_capacity cfg)" "cn_segments_out (cn_syn_out cfg r) = []"
  "cn_active (cn_syn_out cfg r)" "cn_linger (cn_syn_out cfg r)" "\<not> cn_need_send_rst (cn_syn_out cfg r)"
  "cn_syn_sended (cn_syn_out cfg r)"
  by (simp_all add: cn_syn_out_def)

lemma cn_connect_new:
  assumes "\<not> bs_input_end (rx_stream_out rx)"
  shows "cn_connect ((cn_new cfg r)\<lparr>cn_time := t, cn_receiver := rx\<rparr>) =
    (cn_syn_out cfg r)\<lparr>cn_time := t, cn_receiver := rx,
      cn_segments_out := [cn_stamp ((cn_new cfg r)\<lparr>cn_receiver := rx\<rparr>) (syn_seg (cn_isn cfg r))]\<rparr>"
  using assms
  by (cases "rx_ackno_opt rx") (simp_all add: cn_connect_def cn_segment_sends_def Let_def
      cn_clean_shutdown_def stream_simps tx_fill_window_new cn_syn_out_def cn_isn_def syn_seg_def cn_stamp_def)

section \<open>The SYN arrives\<close>

definition rx_syn_recv :: "nat \<Rightarrow> wrapping_int32 \<Rightarrow> tcp_receiver" where
  "rx_syn_recv c isn = (rx_new c)\<lparr>rx_syn := True, rx_ackno := wi_plus isn 1, rx_isn := isn\<rparr>"

lemma ra_new_push: "push_substring [] 0 False (ra_new c) = ra_new c"
  by (simp add: push_substring_def ra_new_def ra_judge_eof_def Let_def)

lemma rx_first_syn:
  assumes "th_syn (seg_header seg)" and "th_seqno (seg_header seg) = isn"
    and "\<not> th_fin (seg_header seg)" and "buffer_copy (seg_payload seg) = []"
  shows "rx_segment_received seg (rx_new c) = rx_syn_recv c isn"
proof -
  have "rx_push seg True (rx_syn_recv c isn) = rx_syn_recv c isn"
    using assms by (simp add: rx_push_def Let_def rx_syn_recv_def rx_new_def ra_new_push rx_stream_out_def wi_plus_def)
  then show ?thesis
    using assms by (simp add: rx_segment_received_def Let_def rx_new_def rx_syn_recv_def rx_finish_def)
qed

section \<open>The sender once its SYN is acknowledged\<close>

text \<open>With nothing to send, filling the window only records whether it is zero.\<close>

lemma tx_fill_window_idle:
  assumes "tx_syn tx" and "bs_content (tx_stream tx) = []" "bs_buffer (tx_stream tx) = []"
    and "\<not> bs_input_end (tx_stream tx)" and "tx' = tx\<lparr>tx_window_is_zero := (tx_window_size tx = 0)\<rparr>"
  shows "tx_fill_window tx = tx'"
proof -
  obtain win tx0 where tx0: "tx0 = tx\<lparr>tx_window_is_zero := (tx_window_size tx = 0)\<rparr>"
    "unat win = tx_window tx0" "tx_fill_window tx = tx_fill_loop win tx0"
    using tx_fill_window_sent [OF assms(1)] .
  have "tx_fill_loop win tx0 = tx0"
  proof (cases "tx_remain win tx0 = 0 \<or> tx_fin tx0")
    case True
    then show ?thesis by (rule tx_fill_loop_stop)
  next
    case False
    have "tx_cut win tx0 = (seg_new\<lparr>seg_payload := buffer_of_string []\<rparr>, tx_stream tx0)"
      using assms by (simp add: tx0(1) tx_cut_def bs_read_def bs_peek_output_def bs_pop_output_def
          stream_simps Let_def)
    then show ?thesis
      using False by (simp add: tx_fill_loop_round length_in_sequence_space_def seg_new_def th_new_def)
  qed
  then show ?thesis using tx0(1,3) assms(5) by simp
qed

definition tx_established :: "nat \<Rightarrow> u16 \<Rightarrow> wrapping_int32 \<Rightarrow> u16 \<Rightarrow> tcp_sender" where
  "tx_established c rto isn w = (tx_syn_sent c rto isn)\<lparr>tx_bytes_in_flight := 0, tx_segments_in_flight := [],
     tx_window_size := w, tx_window_is_zero := (w = 0), tx_receive_ack := 1, tx_checkpoint := 1\<rparr>"

lemma tx_fill_window_established:
  "tx_fill_window (tx_established c rto isn w) = tx_established c rto isn w"
  "tx_fill_window ((tx_established c rto isn w)\<lparr>tx_segments_out := q\<rparr>) =
     (tx_established c rto isn w)\<lparr>tx_segments_out := q\<rparr>"
  "tx_fill_window ((tx_established c rto isn w)\<lparr>tx_window_is_zero := z\<rparr>) = tx_established c rto isn w"
  by (rule tx_fill_window_idle;
      simp add: tx_established_def tx_syn_sent_def tx_new_def bs_new_def bs_content_def)+

lemma tx_established_sel:
  "tx_next_seqno (tx_established c rto isn w) = 1" "tx_segments_out (tx_established c rto isn w) = []"
  "tx_isn (tx_established c rto isn w) = isn"
  "tx_next_seqno (tx_syn_sent c rto isn) = 1" "tx_segments_out (tx_syn_sent c rto isn) = []"
  by (simp_all add: tx_established_def tx_syn_sent_def tx_new_def)

lemma tx_syn_acked: "tx_ack_received (wi_plus isn 1) w (tx_syn_sent c rto isn) = tx_established c rto isn w"
proof -
  have "unwrap isn isn 1 = 0" using unwrap_of_wrap [of 1 0 isn] by simp
  then show ?thesis
    using tx_fill_window_established(3)
    by (simp add: tx_ack_received_def Let_def tx_syn_sent_def tx_new_def tx_established_def
        length_in_sequence_space_def seg_new_def th_new_def)
qed

section \<open>The endpoints step by step\<close>

lemma tx_summary_stage:
  "tx_summary (tx_new c rto i r) = TX_CLOSED"
  "tx_summary (tx_syn_sent c rto isn) = TX_SYN_SENT"
  "tx_summary (tx_established c rto isn w) = TX_SYN_ACKED"
  by (simp_all add: tx_summary_def tx_new_def tx_syn_sent_def tx_established_def stream_simps)

lemma rx_stage:
  "rx_ackno_opt (rx_new c) = None"
  "wi_plus isn 1 \<noteq> WrappingInt32 0 \<Longrightarrow> rx_ackno_opt (rx_syn_recv c isn) = Some (wi_plus isn 1)"
  "wi_plus isn 1 \<noteq> WrappingInt32 0 \<Longrightarrow> rx_summary (rx_syn_recv c isn) = RX_SYN_RECV"
  "rx_summary (rx_new c) = RX_LISTEN"
  "\<not> bs_input_end (rx_stream_out (rx_syn_recv c isn))" "\<not> bs_input_end (rx_stream_out (rx_new c))"
  by (simp_all add: rx_ackno_opt_def rx_summary_def rx_syn_recv_def rx_new_def rx_stream_out_def
      ra_new_def stream_simps)

definition ack_fields :: "nat \<Rightarrow> wrapping_int32 \<Rightarrow> tcp_segment \<Rightarrow> tcp_segment" where
  "ack_fields c isn seg = seg\<lparr>seg_header := (seg_header seg)\<lparr>th_ack := True, th_ackno := wi_plus isn 1,
     th_win := of_nat (rx_window_size (rx_syn_recv c isn))\<rparr>\<rparr>"

lemma cn_syn_received:
  assumes "wi_plus isn 1 \<noteq> WrappingInt32 0"
  shows "cn_segment_received (syn_seg isn) (cn_new cfg r) =
    (cn_syn_out cfg r)\<lparr>cn_time := 0, cn_receiver := rx_syn_recv (recv_capacity cfg) isn,
      cn_segments_out := [ack_fields (recv_capacity cfg) isn (syn_seg (cn_isn cfg r))]\<rparr>"
proof -
  have rx: "rx_segment_received (syn_seg isn) (rx_new c) = rx_syn_recv c isn" for c
    by (rule rx_first_syn) (simp_all add: syn_seg_def seg_new_def th_new_def buffer_copy_def)
  have n: "tx_next_seqno (tx_new c rto i r) = 0" for c rto i r by (simp add: tx_new_def)
  have h: "th_syn (seg_header (syn_seg isn))" "\<not> th_ack (seg_header (syn_seg isn))"
    by (simp_all add: syn_seg_def th_new_def)
  show ?thesis
    using assms summaries_differ(2)
    by (simp add: cn_segment_received_def Let_def h tx_summary_stage cn_take_ack_def n rx cn_connect_new
        rx_stage cn_stamp_def ack_fields_def)
qed

lemma cn_syn_ack_received:
  assumes h: "th_syn (seg_header seg)" "th_ack (seg_header seg)"
      "th_ackno (seg_header seg) = wi_plus (cn_isn cfg r) 1" "th_seqno (seg_header seg) = isn"
      "\<not> th_fin (seg_header seg)" "\<not> th_rst (seg_header seg)" "buffer_str (seg_payload seg) = []"
    and nz: "wi_plus isn 1 \<noteq> WrappingInt32 0"
  shows "cn_segment_received seg (cn_syn_out cfg r) =
    (cn_syn_out cfg r)\<lparr>cn_time := 0, cn_receiver := rx_syn_recv (recv_capacity cfg) isn,
      cn_sender := tx_established (send_capacity cfg) (rt_timeout cfg) (cn_isn cfg r) (th_win (seg_header seg)),
      cn_segments_out := [ack_fields (recv_capacity cfg) isn
        (seg_new\<lparr>seg_header := th_new\<lparr>th_seqno := wi_plus (cn_isn cfg r) 1\<rparr>\<rparr>)]\<rparr>"
proof -
  have rx: "rx_segment_received seg (rx_new c) = rx_syn_recv c isn" for c
    by (rule rx_first_syn) (use h in \<open>simp_all add: buffer_copy_def\<close>)
  have len: "length_in_sequence_space seg = 1" "buffer_size (seg_payload seg) = 0"
    using h by (simp_all add: length_in_sequence_space_def buffer_size_def buffer_str_def)
  show ?thesis
    using h nz summaries_differ(2)
    by (simp add: cn_segment_received_def Let_def cn_take_ack_def tx_syn_acked rx tx_established_sel
        tx_summary_stage len cn_answer_def rx_stage tx_send_empty_segment_def cn_segment_sends_def
        tx_fill_window_established wrap_1 cn_stamp_def cn_clean_shutdown_def stream_simps ack_fields_def)
qed

lemma rx_syn_recv_again:
  assumes "\<not> th_syn (seg_header seg)" "th_seqno (seg_header seg) = wi_plus isn 1"
    "\<not> th_fin (seg_header seg)" "buffer_str (seg_payload seg) = []"
  shows "rx_segment_received seg (rx_syn_recv c isn) = rx_syn_recv c isn"
proof -
  have "rx_index (wi_plus isn 1) (rx_syn_recv c isn) = 0"
    by (simp add: rx_index_def rx_syn_recv_def rx_new_def rx_stream_out_def ra_new_def stream_simps)
  then have "rx_push seg False (rx_syn_recv c isn) = rx_syn_recv c isn"
    using assms by (simp add: rx_push_def Let_def rx_syn_recv_def rx_new_def ra_new_push
        rx_stream_out_def wi_plus_def buffer_copy_def buffer_str_def)
  then show ?thesis
    using assms by (simp add: rx_segment_received_def Let_def) (simp add: rx_syn_recv_def rx_new_def rx_finish_def)
qed

lemma cn_ack_received:
  assumes h: "\<not> th_syn (seg_header seg)" "th_ack (seg_header seg)"
      "th_ackno (seg_header seg) = wi_plus (cn_isn cfg r) 1" "th_seqno (seg_header seg) = wi_plus isn 1"
      "\<not> th_fin (seg_header seg)" "\<not> th_rst (seg_header seg)" "buffer_str (seg_payload seg) = []"
    and cn: "cn = (cn_syn_out cfg r)\<lparr>cn_time := t, cn_receiver := rx_syn_recv (recv_capacity cfg) isn\<rparr>"
  shows "cn_segment_received seg cn = cn\<lparr>cn_time := 0,
      cn_sender := tx_established (send_capacity cfg) (rt_timeout cfg) (cn_isn cfg r) (th_win (seg_header seg))\<rparr>"
proof -
  have len: "length_in_sequence_space seg = 0" "buffer_size (seg_payload seg) = 0"
    using h by (simp_all add: length_in_sequence_space_def buffer_size_def buffer_str_def)
  show ?thesis
    using h summaries_differ(2) rx_syn_recv_again [OF h(1,4,5,7)]
    by (simp add: cn cn_segment_received_def Let_def cn_take_ack_def tx_syn_acked tx_established_sel
      tx_summary_stage len cn_answer_def rx_stage cn_segment_sends_def tx_fill_window_established
      cn_stamp_def cn_clean_shutdown_def stream_simps)
qed

section \<open>The states of the handshake\<close>

lemma handshake_states:
  assumes nz: "wi_plus (cn_isn ccfg cr) 1 \<noteq> WrappingInt32 0" "wi_plus (cn_isn scfg sr) 1 \<noteq> WrappingInt32 0"
  defines "client1 \<equiv> cn_connect (cn_new ccfg cr)"
  defines "server1 \<equiv> fold cn_segment_received (cn_segments_out client1) (cn_new scfg sr)"
  defines "client2 \<equiv> fold cn_segment_received (cn_segments_out server1) (client1\<lparr>cn_segments_out := []\<rparr>)"
  defines "server2 \<equiv> fold cn_segment_received (cn_segments_out client2) (server1\<lparr>cn_segments_out := []\<rparr>)"
  shows "client1 = (cn_syn_out ccfg cr)\<lparr>cn_segments_out := [syn_seg (cn_isn ccfg cr)]\<rparr>"
    and "server1 = (cn_syn_out scfg sr)\<lparr>cn_time := 0,
      cn_receiver := rx_syn_recv (recv_capacity scfg) (cn_isn ccfg cr),
      cn_segments_out := [ack_fields (recv_capacity scfg) (cn_isn ccfg cr) (syn_seg (cn_isn scfg sr))]\<rparr>"
    and "client2 = (cn_syn_out ccfg cr)\<lparr>cn_time := 0,
      cn_receiver := rx_syn_recv (recv_capacity ccfg) (cn_isn scfg sr),
      cn_sender := tx_established (send_capacity ccfg) (rt_timeout ccfg) (cn_isn ccfg cr)
        (of_nat (rx_window_size (rx_syn_recv (recv_capacity scfg) (cn_isn ccfg cr)))),
      cn_segments_out := [ack_fields (recv_capacity ccfg) (cn_isn scfg sr)
        (seg_new\<lparr>seg_header := th_new\<lparr>th_seqno := wi_plus (cn_isn ccfg cr) 1\<rparr>\<rparr>)]\<rparr>"
    and "server2 = (cn_syn_out scfg sr)\<lparr>cn_time := 0,
      cn_receiver := rx_syn_recv (recv_capacity scfg) (cn_isn ccfg cr),
      cn_sender := tx_established (send_capacity scfg) (rt_timeout scfg) (cn_isn scfg sr)
        (of_nat (rx_window_size (rx_syn_recv (recv_capacity ccfg) (cn_isn scfg sr))))\<rparr>"
proof -
  let ?ci = "cn_isn ccfg cr" and ?si = "cn_isn scfg sr"
  have "cn_new ccfg cr = (cn_new ccfg cr)\<lparr>cn_time := 0, cn_receiver := rx_new (recv_capacity ccfg)\<rparr>"
    by (simp add: cn_new_def)
  then have "client1 = (cn_syn_out ccfg cr)\<lparr>cn_time := 0, cn_receiver := rx_new (recv_capacity ccfg),
      cn_segments_out := [cn_stamp ((cn_new ccfg cr)\<lparr>cn_receiver := rx_new (recv_capacity ccfg)\<rparr>) (syn_seg ?ci)]\<rparr>"
    unfolding client1_def using cn_connect_new [OF rx_stage(6)] by metis
  then have c1: "client1 = (cn_syn_out ccfg cr)\<lparr>cn_segments_out := [syn_seg ?ci]\<rparr>"
    by (simp add: cn_stamp_def rx_stage syn_seg_def cn_syn_out_def cn_new_def)
  note s1 = cn_syn_received [OF nz(1), of scfg sr]
  have s1: "server1 = (cn_syn_out scfg sr)\<lparr>cn_time := 0, cn_receiver := rx_syn_recv (recv_capacity scfg) ?ci,
      cn_segments_out := [ack_fields (recv_capacity scfg) ?ci (syn_seg ?si)]\<rparr>"
    using s1 by (simp add: server1_def c1)
  let ?sa = "ack_fields (recv_capacity scfg) ?ci (syn_seg ?si)"
  have "client1\<lparr>cn_segments_out := []\<rparr> = cn_syn_out ccfg cr"
    by (simp add: c1 cn_syn_out_def cn_new_def)
  then have c2: "client2 = (cn_syn_out ccfg cr)\<lparr>cn_time := 0, cn_receiver := rx_syn_recv (recv_capacity ccfg) ?si,
      cn_sender := tx_established (send_capacity ccfg) (rt_timeout ccfg) ?ci (th_win (seg_header ?sa)),
      cn_segments_out := [ack_fields (recv_capacity ccfg) ?si
        (seg_new\<lparr>seg_header := th_new\<lparr>th_seqno := wi_plus ?ci 1\<rparr>\<rparr>)]\<rparr>"
    by (simp add: client2_def s1)
      (rule cn_syn_ack_received, simp_all add: ack_fields_def syn_seg_def th_new_def seg_new_def nz)
  let ?a = "ack_fields (recv_capacity ccfg) ?si (seg_new\<lparr>seg_header := th_new\<lparr>th_seqno := wi_plus ?ci 1\<rparr>\<rparr>)"
  let ?s = "(cn_syn_out scfg sr)\<lparr>cn_time := 0, cn_receiver := rx_syn_recv (recv_capacity scfg) ?ci\<rparr>"
  have "server1\<lparr>cn_segments_out := []\<rparr> = ?s"
    by (simp add: s1 cn_syn_out_def cn_new_def)
  moreover have "cn_segment_received ?a ?s = ?s\<lparr>cn_time := 0,
      cn_sender := tx_established (send_capacity scfg) (rt_timeout scfg) ?si (th_win (seg_header ?a))\<rparr>"
    by (rule cn_ack_received [of ?a scfg sr ?ci ?s 0])
      (simp_all add: ack_fields_def th_new_def seg_new_def)
  ultimately have s2: "server2 = ?s\<lparr>cn_time := 0,
      cn_sender := tx_established (send_capacity scfg) (rt_timeout scfg) ?si (th_win (seg_header ?a))\<rparr>"
    by (simp add: server2_def c2)
  have win: "th_win (seg_header (ack_fields c isn seg)) = of_nat (rx_window_size (rx_syn_recv c isn))" for c isn seg
    by (simp add: ack_fields_def)
  show "client1 = (cn_syn_out ccfg cr)\<lparr>cn_segments_out := [syn_seg ?ci]\<rparr>" by (fact c1)
  show "server1 = (cn_syn_out scfg sr)\<lparr>cn_time := 0, cn_receiver := rx_syn_recv (recv_capacity scfg) ?ci,
      cn_segments_out := [ack_fields (recv_capacity scfg) ?ci (syn_seg ?si)]\<rparr>" by (fact s1)
  show "client2 = (cn_syn_out ccfg cr)\<lparr>cn_time := 0, cn_receiver := rx_syn_recv (recv_capacity ccfg) ?si,
      cn_sender := tx_established (send_capacity ccfg) (rt_timeout ccfg) ?ci
        (of_nat (rx_window_size (rx_syn_recv (recv_capacity scfg) ?ci))),
      cn_segments_out := [ack_fields (recv_capacity ccfg) ?si
        (seg_new\<lparr>seg_header := th_new\<lparr>th_seqno := wi_plus ?ci 1\<rparr>\<rparr>)]\<rparr>"
    using c2 unfolding win .
  show "server2 = (cn_syn_out scfg sr)\<lparr>cn_time := 0, cn_receiver := rx_syn_recv (recv_capacity scfg) ?ci,
      cn_sender := tx_established (send_capacity scfg) (rt_timeout scfg) ?si
        (of_nat (rx_window_size (rx_syn_recv (recv_capacity ccfg) ?si)))\<rparr>"
    using s2 unfolding win by simp
qed

section \<open>Property\<close>

text \<open>C18: (three-way handshake) For two new endpoints with any configuration, unless an initial
  sequence number is \<open>2^32 - 1\<close>: the client's \<open>connect\<close> puts it in SYN-SENT with one segment to
  send; delivered, it puts the server in SYN-RCVD with one segment to send; that one establishes
  the client, whose one answer establishes the server, which has nothing more to send.\<close>

theorem three_way_handshake:
  assumes "wi_plus (tx_isn (cn_sender (cn_new ccfg cr))) 1 \<noteq> WrappingInt32 0"
    and "wi_plus (tx_isn (cn_sender (cn_new scfg sr))) 1 \<noteq> WrappingInt32 0"
  defines "client1 \<equiv> cn_connect (cn_new ccfg cr)"
  defines "server1 \<equiv> fold cn_segment_received (cn_segments_out client1) (cn_new scfg sr)"
  defines "client2 \<equiv> fold cn_segment_received (cn_segments_out server1) (client1\<lparr>cn_segments_out := []\<rparr>)"
  defines "server2 \<equiv> fold cn_segment_received (cn_segments_out client2) (server1\<lparr>cn_segments_out := []\<rparr>)"
  shows "cn_state client1 = ts_official SYN_SENT \<and> length (cn_segments_out client1) = 1 \<and>
    cn_state server1 = ts_official SYN_RCVD \<and> length (cn_segments_out server1) = 1 \<and>
    cn_state client2 = ts_official ESTABLISHED \<and> length (cn_segments_out client2) = 1 \<and>
    cn_state server2 = ts_official ESTABLISHED \<and> cn_segments_out server2 = []"
proof -
  have nz: "wi_plus (cn_isn ccfg cr) 1 \<noteq> WrappingInt32 0" "wi_plus (cn_isn scfg sr) 1 \<noteq> WrappingInt32 0"
    using assms(1,2) by (simp_all add: cn_isn_def)
  note states = handshake_states [OF nz, folded client1_def, folded server1_def, folded client2_def, folded server2_def]
  show ?thesis
    using nz by (simp add: states cn_state_def ts_of_def tx_summary_stage rx_stage)
qed

theorem three_way_handshake_witness:
  "let client1 = cn_connect (cn_new tcp_config_default 7);
       server1 = fold cn_segment_received (cn_segments_out client1) (cn_new tcp_config_default 9) in
   cn_state server1 = ts_official SYN_RCVD \<and> length (cn_segments_out server1) = 1"
proof -
  have "wi_plus (tx_isn (cn_sender (cn_new tcp_config_default r))) 1 \<noteq> WrappingInt32 0"
    if "r \<in> {7, 9}" for r
    using that by (auto simp: tx_new_def tcp_config_default_def wi_plus_def)
  then show ?thesis
    unfolding Let_def using three_way_handshake [of tcp_config_default 7 tcp_config_default 9] by auto
qed

text \<open>C38: (data behind the handshake) In SYN-RCVD a segment that acknowledges and carries data is
  dropped whole, its acknowledgment included: the test meant for SYN-SENT looks only at the sender,
  which is in the same state. A peer that sends data right after (or with) its last handshake
  segment, when that one is lost, is not heard until the SYN is retransmitted.\<close>

theorem syn_rcvd_drops_data:
  assumes "cn_state cn = ts_official SYN_RCVD" and "th_ack (seg_header seg)"
    and "buffer_size (seg_payload seg) \<noteq> 0"
  shows "cn_segment_received seg cn = cn\<lparr>cn_time := 0\<rparr>"
proof -
  have "cn_active cn" "tx_summary (cn_sender cn) = TX_SYN_SENT"
    using assms(1) by (simp_all add: cn_state_def ts_of_def)
  then show ?thesis using assms(2,3) by (simp add: cn_segment_received_def Let_def)
qed

theorem syn_rcvd_drops_data_witness:
  "let cn = cn_segment_received (syn_seg (WrappingInt32 4)) (cn_new tcp_config_default 9);
       seg = seg_new\<lparr>seg_header := th_new\<lparr>th_ack := True, th_ackno := WrappingInt32 10,
         th_seqno := WrappingInt32 5\<rparr>, seg_payload := buffer_of_string [0x41]\<rparr> in
   cn_segment_received seg cn = cn\<lparr>cn_time := 0\<rparr>"
proof -
  have nz: "wi_plus (WrappingInt32 4) 1 \<noteq> WrappingInt32 0" by (simp add: wi_plus_def)
  have "cn_state (cn_segment_received (syn_seg (WrappingInt32 4)) (cn_new tcp_config_default 9)) = ts_official SYN_RCVD"
    by (simp add: cn_syn_received [OF nz] cn_state_def ts_of_def tx_summary_stage rx_stage nz)
  then show ?thesis
    unfolding Let_def
    by (rule syn_rcvd_drops_data) (simp_all add: seg_new_def th_new_def buffer_of_string_def buffer_size_def buffer_str_def)
qed

end
