(* ===== verification/Connection_Lifetime.thy ===== *)
theory Connection_Lifetime
  imports TCP_Connection
begin

text \<open>
  How a connection ends: by a RST from the peer, by giving up after too many retransmissions, or
  cleanly after lingering in TIME-WAIT.
\<close>

section \<open>The queue of the sender only grows\<close>

lemma tx_send_out:
  "\<exists>q. tx_segments_out (tx_send_segment seg tx) = tx_segments_out tx @ q"
  by (simp add: tx_send_segment_def Let_def)

lemma tx_cut_flags:
  "bs_err (snd (tx_cut win tx)) = bs_err (tx_stream tx)"
  "bs_input_end (snd (tx_cut win tx)) = bs_input_end (tx_stream tx)"
  by (simp_all add: tx_cut_stream bs_read_snd)

lemma tx_fill_loop_out:
  "(\<exists>q. tx_segments_out (tx_fill_loop win tx) = tx_segments_out tx @ q) \<and>
   bs_err (tx_stream (tx_fill_loop win tx)) = bs_err (tx_stream tx)"
proof (induction win tx rule: tx_fill_loop.induct)
  case (1 win tx)
  obtain seg stream where cut: "tx_cut win tx = (seg, stream)" by force
  then have err: "bs_err stream = bs_err (tx_stream tx)" using tx_cut_flags(1) [of win tx] by simp
  show ?case
  proof (cases "tx_remain win tx = 0 \<or> tx_fin tx")
    case True
    then show ?thesis by (auto simp: tx_fill_loop_stop)
  next
    case False
    let ?tx1 = "tx\<lparr>tx_stream := stream, tx_fin := th_fin (seg_header seg)\<rparr>"
    have eq: "tx\<lparr>tx_stream := stream, tx_fin := tx_fin tx \<or> th_fin (seg_header seg)\<rparr> = ?tx1"
      using False by simp
    note IH = 1(1) [OF False cut [symmetric] refl, unfolded eq]
    obtain q where "tx_segments_out (tx_send_segment seg ?tx1) = tx_segments_out tx @ q"
      using tx_send_out [of seg ?tx1] by auto
    then show ?thesis
      using False IH err cut by (auto simp: tx_fill_loop_round Let_def)
  qed
qed

lemma tx_fill_window_out:
  "(\<exists>q. tx_segments_out (tx_fill_window tx) = tx_segments_out tx @ q) \<and>
   bs_err (tx_stream (tx_fill_window tx)) = bs_err (tx_stream tx)"
  using tx_fill_loop_out [of _ "tx\<lparr>tx_window_is_zero := (tx_window_size tx = 0)\<rparr>"] tx_send_out
  by (auto simp: tx_fill_window_def Let_def)

lemma cn_stamp_cong:
  "cn_receiver cn' = cn_receiver cn \<Longrightarrow> cn_need_send_rst cn' = cn_need_send_rst cn \<Longrightarrow> cn_stamp cn' = cn_stamp cn"
  by (auto simp: cn_stamp_def Let_def fun_eq_iff split: option.split)

lemma cn_segment_sends_out:
  assumes "b \<or> cn_syn_sended cn"
  obtains q where "cn_segments_out (cn_segment_sends b cn) =
    cn_segments_out cn @ map (cn_stamp cn) (tx_segments_out (cn_sender cn) @ q)"
proof -
  obtain q where "tx_segments_out (tx_fill_window (cn_sender cn)) = tx_segments_out (cn_sender cn) @ q"
    using tx_fill_window_out [of "cn_sender cn"] by blast
  moreover have "cn_stamp (cn\<lparr>cn_syn_sended := True, cn_sender := tx\<rparr>) = cn_stamp cn" for tx
    by (rule cn_stamp_cong) simp_all
  ultimately have "cn_segments_out (cn_segment_sends b cn) =
      cn_segments_out cn @ map (cn_stamp cn) (tx_segments_out (cn_sender cn) @ q)"
    using assms by (auto simp: cn_segment_sends_def Let_def)
  then show thesis by (rule that)
qed

lemma cn_segment_sends_dead:
  assumes "\<not> cn_active cn" and "\<not> cn_linger cn"
  shows "\<not> cn_active (cn_segment_sends b cn) \<and> \<not> cn_linger (cn_segment_sends b cn) \<and>
    cn_need_send_rst (cn_segment_sends b cn) = cn_need_send_rst cn \<and>
    bs_err (tx_stream (cn_sender (cn_segment_sends b cn))) = bs_err (tx_stream (cn_sender cn))"
  using assms tx_fill_window_out [of "cn_sender cn"]
  by (simp add: cn_segment_sends_def Let_def cn_clean_shutdown_def)

section \<open>Reset\<close>

lemma cn_unclean_shutdown_dead:
  defines "cn' cn r \<equiv> cn_unclean_shutdown r cn"
  shows "\<not> cn_active (cn' cn r) \<and> \<not> cn_linger (cn' cn r) \<and> bs_err (tx_stream (cn_sender (cn' cn r))) \<and>
    bs_err (rx_stream_out (cn_receiver (cn' cn r))) \<and> cn_need_send_rst (cn' cn r) = (r \<or> cn_need_send_rst cn) \<and>
    (\<not> r \<longrightarrow> cn_segments_out (cn' cn r) = cn_segments_out cn)"
proof -
  have rx: "bs_err (rx_stream_out (cn_receiver (cn' cn r)))"
    by (simp add: cn'_def rx_with_output_def rx_stream_out_def bs_set_error_def)
  show ?thesis
    using rx cn_segment_sends_dead
    by (simp add: cn'_def cn_unclean_shutdown_def Let_def bs_set_error_def tx_send_empty_segment_def)
qed

lemma dead_is_reset:
  assumes "\<not> cn_active cn" and "bs_err (tx_stream (cn_sender cn))" and "bs_err (rx_stream_out (cn_receiver cn))"
  shows "cn_state cn = ts_official RESET"
  using assms by (simp add: cn_state_def ts_of_def tx_summary_def rx_summary_def stream_simps)

section \<open>Time without traffic\<close>

text \<open>Both streams have ended, everything sent has been acknowledged, nothing waits to be sent.\<close>

definition cn_quiet :: "tcp_connection \<Rightarrow> bool" where
  "cn_quiet cn \<longleftrightarrow> cn_active cn \<and> cn_linger cn \<and> cn_syn_sended cn \<and>
     bs_input_ended (rx_stream_out (cn_receiver cn)) \<and> bs_eof (tx_stream (cn_sender cn)) \<and>
     tx_syn (cn_sender cn) \<and> tx_fin (cn_sender cn) \<and> tx_bytes_in_flight (cn_sender cn) = 0 \<and>
     tx_segments_in_flight (cn_sender cn) = [] \<and> tx_segments_out (cn_sender cn) = [] \<and>
     tx_consecutive_retrans (cn_sender cn) \<le> MAX_RETX_ATTEMPTS"

lemma tx_fill_window_fin:
  "tx_syn tx \<Longrightarrow> tx_fin tx \<Longrightarrow> tx_fill_window tx = tx\<lparr>tx_window_is_zero := (tx_window_size tx = 0)\<rparr>"
  by (simp add: tx_fill_window_def Let_def tx_fill_loop_stop)

lemma ten_timeouts: "unat (10 * ucast (t :: u16) :: u64) = 10 * unat t"
proof -
  have "unat t < 2 ^ 16" using unsigned_less [of t, where 'a = nat] by simp
  then have "unat (ucast t :: u64) = unat t" "10 * unat t < 2 ^ 64"
    by (simp_all add: unsigned_ucast_eq take_bit_eq_mod)
  then show ?thesis by (simp add: unat_word_ariths)
qed

lemma cn_quiet_tick:
  fixes ms :: u64
  assumes q: "cn_quiet cn"
  defines "cn' \<equiv> cn_tick ms cn"
  shows "cn_active cn' \<longleftrightarrow> unat (cn_time cn + ms) < 10 * unat (rt_timeout (cn_cfg cn))"
    and "cn_active cn' \<Longrightarrow> cn_quiet cn' \<and> cn_cfg cn' = cn_cfg cn \<and> cn_time cn' = cn_time cn + ms"
    and "cn_segments_out cn' = cn_segments_out cn"
proof -
  let ?tx = "(tx_tick ms (cn_sender cn))\<lparr>tx_window_is_zero := (tx_window_size (cn_sender cn) = 0)\<rparr>"
  let ?cn = "cn\<lparr>cn_time := cn_time cn + ms, cn_sender := ?tx\<rparr>"
  have tick: "tx_tick ms (cn_sender cn) =
      (cn_sender cn)\<lparr>tx_clock := tx_clock (cn_sender cn) + ms, tx_clock_is_counting := False\<rparr>"
    using q by (simp add: cn_quiet_def tx_tick_def Let_def)
  have sender: "\<not> tx_consecutive_retrans (tx_tick ms (cn_sender cn)) > MAX_RETX_ATTEMPTS"
    "tx_fill_window (tx_tick ms (cn_sender cn)) = ?tx"
    using q by (simp_all add: tick cn_quiet_def tx_fill_window_fin not_less)
  have same: "cn\<lparr>cn_time := cn_time cn + ms, cn_syn_sended := True, cn_sender := ?tx\<lparr>tx_segments_out := []\<rparr>\<rparr> = ?cn"
    using q by (intro tcp_connection.equality) (simp_all add: cn_quiet_def tick)
  have "cn' = snd (cn_clean_shutdown
      (cn\<lparr>cn_time := cn_time cn + ms, cn_syn_sended := True, cn_sender := ?tx\<lparr>tx_segments_out := []\<rparr>\<rparr>))"
    using q sender by (simp add: cn'_def cn_tick_def cn_segment_sends_def cn_quiet_def Let_def tick)
  then have eq: "cn' = snd (cn_clean_shutdown ?cn)" unfolding same .
  have "cn' = (if 10 * ucast (rt_timeout (cn_cfg cn)) \<le> cn_time cn + ms then ?cn\<lparr>cn_active := False\<rparr> else ?cn)"
    using q unfolding eq by (simp add: cn_clean_shutdown_def Let_def cn_quiet_def tick)
  then have cases: "cn' = (if 10 * unat (rt_timeout (cn_cfg cn)) \<le> unat (cn_time cn + ms)
      then ?cn\<lparr>cn_active := False\<rparr> else ?cn)"
    by (simp add: word_le_nat_alt ten_timeouts)
  show "cn_active cn' \<longleftrightarrow> unat (cn_time cn + ms) < 10 * unat (rt_timeout (cn_cfg cn))"
    using q by (simp add: cases cn_quiet_def)
  show "cn_segments_out cn' = cn_segments_out cn" by (simp add: cases)
  assume "cn_active cn'"
  then have "cn' = ?cn" by (simp add: cases split: if_splits)
  then show "cn_quiet cn' \<and> cn_cfg cn' = cn_cfg cn \<and> cn_time cn' = cn_time cn + ms"
    using q by (simp add: cn_quiet_def tick)
qed

lemma cn_ticks_inactive: "\<not> cn_active cn \<Longrightarrow> fold cn_tick ticks cn = cn"
  by (induction ticks) (simp_all add: cn_tick_def)

section \<open>Properties\<close>

text \<open>
  A RST that the handler does not turn away. Both the connection that has sent its SYN and the one
  that still listens go through it.
\<close>

lemma rst_shuts_down:
  assumes "cn_active cn" and "th_rst (seg_header seg)" and "\<not> th_syn (seg_header seg)"
    and "tx_summary (cn_sender cn) = TX_SYN_SENT \<Longrightarrow>
      th_ack (seg_header seg) \<and> buffer_size (seg_payload seg) = 0"
  defines "cn' \<equiv> cn_segment_received seg cn"
  shows "\<not> cn_active cn' \<and> bs_err (tx_stream (cn_sender cn')) \<and>
    bs_err (rx_stream_out (cn_receiver cn')) \<and> cn_segments_out cn' = cn_segments_out cn"
proof -
  define cn1 where "cn1 = (cn_take_ack (seg_header seg) (cn\<lparr>cn_time := 0\<rparr>))
    \<lparr>cn_receiver := rx_segment_received seg (cn_receiver (cn\<lparr>cn_time := 0\<rparr>))\<rparr>"
  have "\<not> (tx_summary (cn_sender cn1) = TX_SYN_SENT \<and> \<not> th_ack (seg_header seg))"
    using assms(4) by (auto simp: cn1_def cn_take_ack_def)
  moreover have "\<not> (tx_summary (cn_sender (cn\<lparr>cn_time := 0\<rparr>)) = TX_SYN_SENT \<and> th_ack (seg_header seg) \<and>
      buffer_size (seg_payload seg) \<noteq> 0)"
    using assms(4) by auto
  ultimately have "cn' = cn_unclean_shutdown False cn1"
    using assms(1-3) unfolding cn'_def cn_segment_received_def Let_def cn1_def
    by (simp only: simp_thms if_True if_False cn_take_ack_frame tcp_connection.simps)
  moreover have "cn_segments_out cn1 = cn_segments_out cn" by (simp add: cn1_def)
  ultimately show ?thesis using cn_unclean_shutdown_dead [of False cn1] by simp
qed

text \<open>C31: (reset by the peer) In an active connection that has sent its SYN, a RST ends the connection at
  once, unless it arrives in SYN-SENT without an acknowledgment (or with a payload): both streams
  are in error, the state is RESET, no segment is sent in answer, and from then on segments and time
  change nothing. A connection that still listens is another matter: there the RST is to be ignored
  and is not (\<open>rst_resets_listener\<close>).\<close>

theorem reset_received:
  assumes "cn_active cn" and "tx_next_seqno (cn_sender cn) \<noteq> 0"
    and "th_rst (seg_header seg)" and "\<not> th_syn (seg_header seg)"
    and "tx_summary (cn_sender cn) = TX_SYN_SENT \<Longrightarrow>
      th_ack (seg_header seg) \<and> buffer_size (seg_payload seg) = 0"
  defines "cn' \<equiv> cn_segment_received seg cn"
  shows "cn_state cn' = ts_official RESET \<and> bs_error (cn_inbound_stream cn') \<and>
    bs_error (tx_stream (cn_sender cn')) \<and> cn_segments_out cn' = cn_segments_out cn \<and>
    cn_segment_received seg' cn' = cn' \<and> cn_tick ms cn' = cn'"
proof -
  have dead: "\<not> cn_active cn'" "bs_err (tx_stream (cn_sender cn'))"
    "bs_err (rx_stream_out (cn_receiver cn'))" "cn_segments_out cn' = cn_segments_out cn"
    using rst_shuts_down [OF assms(1,3-5)] unfolding cn'_def by blast+
  then show ?thesis
    using dead_is_reset [OF dead(1-3)]
    by (simp add: cn_segment_received_def [of _ cn'] cn_tick_def [of _ cn'] cn_inbound_stream_def stream_simps)
qed

definition fresh_example :: tcp_connection where
  "fresh_example = cn_new \<lparr>rt_timeout = 2, recv_capacity = 8, send_capacity = 8, fixed_isn = None\<rparr> 7"

definition rst_example :: tcp_segment where
  "rst_example = seg_new\<lparr>seg_header := th_new\<lparr>th_rst := True\<rparr>\<rparr>"

definition rst_ack_example :: tcp_segment where
  "rst_ack_example = seg_new\<lparr>seg_header := th_new\<lparr>th_rst := True, th_ack := True, th_ackno := WrappingInt32 8\<rparr>\<rparr>"

theorem reset_received_witness:
  "let cn' = cn_segment_received rst_ack_example (cn_connect fresh_example) in
   cn_state cn' = ts_official RESET \<and> bs_error (cn_inbound_stream cn')"
proof -
  have "tx_next_seqno (cn_sender (cn_connect fresh_example)) = 1"
    "cn_active (cn_connect fresh_example)" "th_rst (seg_header rst_ack_example)"
    "\<not> th_syn (seg_header rst_ack_example)" "th_ack (seg_header rst_ack_example)"
    "buffer_size (seg_payload rst_ack_example) = 0"
    by code_simp+
  then show ?thesis
    unfolding Let_def using reset_received [of "cn_connect fresh_example" rst_ack_example] by simp
qed

text \<open>(a RST kills a listener) The handler does not ask for the state in which a RST arrives: an
  active connection that has not sent its SYN, which is to ignore every RST, is reset by one with
  any sequence number, and a SYN that follows is not answered.\<close>

theorem rst_resets_listener:
  assumes "cn_active cn" and "tx_next_seqno (cn_sender cn) = 0"
    and "th_rst (seg_header seg)" and "\<not> th_syn (seg_header seg)"
  defines "cn' \<equiv> cn_segment_received seg cn"
  shows "cn_state cn' = ts_official RESET \<and> cn_segments_out cn' = cn_segments_out cn \<and>
    cn_segment_received seg' cn' = cn'"
proof -
  have "tx_summary (cn_sender cn) \<noteq> TX_SYN_SENT"
    using assms(2) summaries_differ(2) by (auto simp: tx_summary_def)
  then have dead: "\<not> cn_active cn'" "bs_err (tx_stream (cn_sender cn'))"
    "bs_err (rx_stream_out (cn_receiver cn'))" "cn_segments_out cn' = cn_segments_out cn"
    using rst_shuts_down [OF assms(1,3,4)] unfolding cn'_def by blast+
  then show ?thesis
    using dead_is_reset [OF dead(1-3)] by (simp add: cn_segment_received_def [of _ cn'])
qed

theorem rst_resets_listener_witness:
  "cn_state fresh_example = ts_official LISTEN \<and>
   cn_state (cn_segment_received rst_example fresh_example) = ts_official RESET"
proof -
  have "cn_state fresh_example = ts_official LISTEN" by code_simp
  then show ?thesis
    using rst_resets_listener [of fresh_example rst_example]
    by (simp add: rst_example_def fresh_example_def cn_new_def tx_new_def th_new_def)
qed

text \<open>C32: (giving up) When a tick makes the count of consecutive retransmissions exceed the maximum of 8,
  the connection ends in state RESET, and it sends at least one segment; every segment it sends
  from then on carries the RST flag.\<close>

theorem too_many_retransmissions:
  assumes "cn_inv f cn" and "cn_active cn"
    and "tx_consecutive_retrans (tx_tick ms (cn_sender cn)) > MAX_RETX_ATTEMPTS"
  defines "cn' \<equiv> cn_tick ms cn"
  shows "cn_state cn' = ts_official RESET \<and>
    (\<exists>sent. cn_segments_out cn' = cn_segments_out cn @ sent \<and> sent \<noteq> [] \<and>
       list_all (\<lambda>seg. th_rst (seg_header seg)) sent)"
proof -
  define cn1 where "cn1 = cn\<lparr>cn_time := cn_time cn + ms, cn_sender := tx_tick ms (cn_sender cn)\<rparr>"
  define cn2 where "cn2 = cn_unclean_shutdown True cn1"
  have cn': "cn' = cn_segment_sends False cn2"
    using assms(2,3) by (simp add: cn'_def cn_tick_def cn2_def cn1_def Let_def)
  have dead2: "\<not> cn_active cn2" "\<not> cn_linger cn2" "bs_err (tx_stream (cn_sender cn2))"
      "bs_err (rx_stream_out (cn_receiver cn2))" "cn_need_send_rst cn2"
    using cn_unclean_shutdown_dead [of True cn1] by (simp_all add: cn2_def)
  have "tx_safe f (cn_sender cn)" "cn_syn_sended cn = tx_syn (cn_sender cn)"
    using assms(1) by (simp_all add: cn_inv_def cn_tx_def)
  then have "tx_safe f (tx_tick ms (cn_sender cn))" using tx_tick_safe by blast
  then have "tx_syn (tx_tick ms (cn_sender cn))" by (rule tx_safe_started) (use assms(3) in auto)
  then have sended: "cn_syn_sended cn"
    using \<open>cn_syn_sended cn = _\<close> by (simp add: tx_tick_def Let_def split: if_splits)
  define cn3 where "cn3 = (let cn = cn1\<lparr>cn_receiver := rx_with_output (bs_set_error (rx_stream_out (cn_receiver cn1))) (cn_receiver cn1),
      cn_sender := (cn_sender cn1)\<lparr>tx_stream := bs_set_error (tx_stream (cn_sender cn1))\<rparr>,
      cn_linger := False, cn_active := False, cn_need_send_rst := True\<rparr> in
    if tx_segments_out (cn_sender cn) = [] then cn\<lparr>cn_sender := tx_send_empty_segment (cn_sender cn)\<rparr> else cn)"
  have cn2: "cn2 = cn_segment_sends False cn3"
    by (simp add: cn2_def cn_unclean_shutdown_def cn3_def Let_def)
  have 3: "cn_syn_sended cn3" "cn_segments_out cn3 = cn_segments_out cn" "cn_need_send_rst cn3"
      "tx_segments_out (cn_sender cn3) \<noteq> []"
    using sended by (auto simp: cn3_def cn1_def Let_def tx_send_empty_segment_def)
  obtain q where q: "cn_segments_out cn2 = cn_segments_out cn @ map (cn_stamp cn3) (tx_segments_out (cn_sender cn3) @ q)"
    using cn_segment_sends_out [of False cn3] 3 unfolding cn2 by metis
  have "cn_syn_sended cn2" using 3(1) by (simp add: cn2)
  then obtain p where p: "cn_segments_out cn' = cn_segments_out cn2 @ map (cn_stamp cn2) (tx_segments_out (cn_sender cn2) @ p)"
    using cn_segment_sends_out [of False cn2] unfolding cn' by metis
  have rst: "th_rst (seg_header (cn_stamp c seg))" if "cn_need_send_rst c" for c seg
    using that by (simp add: cn_stamp_def Let_def)
  have "cn_state cn' = ts_official RESET"
    using dead2 cn_segment_sends_dead [OF dead2(1,2), of False] unfolding cn' by (intro dead_is_reset) simp_all
  moreover have "list_all (\<lambda>seg. th_rst (seg_header seg))
      (map (cn_stamp cn3) (tx_segments_out (cn_sender cn3) @ q) @ map (cn_stamp cn2) (tx_segments_out (cn_sender cn2) @ p))"
    using rst 3(3) dead2(5) by (auto simp: list_all_iff)
  ultimately show ?thesis using p q 3(4) by auto
qed

text \<open>
  A SYN that nobody answers. Until the peer's first acknowledgment the sender takes the window to be 0
  (\<open>_window_size = 0\<close> in tcp\_sender.hh), and so the timeout doubles once only.
\<close>

definition unanswered_example :: tcp_connection where
  "unanswered_example = fold cn_step [Cn_Connect, Cn_Tick 2, Cn_Tick 4, Cn_Tick 4, Cn_Tick 4, Cn_Tick 4,
     Cn_Tick 4, Cn_Tick 4, Cn_Tick 4]
     (cn_new \<lparr>rt_timeout = 2, recv_capacity = 8, send_capacity = 8, fixed_isn = None\<rparr> 7)"

theorem too_many_retransmissions_witness:
  "cn_active unanswered_example \<and> cn_state (cn_tick 3 unanswered_example) \<noteq> ts_official RESET \<and>
   cn_state (cn_tick 4 unanswered_example) = ts_official RESET"
proof -
  have "cn_inv of_nat unanswered_example"
    unfolding unanswered_example_def by (rule cn_machine.run_inv) simp_all
  moreover have active: "cn_active unanswered_example" by code_simp
  moreover have "tx_consecutive_retrans (tx_tick 4 (cn_sender unanswered_example)) > MAX_RETX_ATTEMPTS"
    by code_simp
  ultimately have "cn_state (cn_tick 4 unanswered_example) = ts_official RESET"
    using too_many_retransmissions by blast
  moreover have "cn_active (cn_tick 3 unanswered_example)" by code_simp
  then have "cn_state (cn_tick 3 unanswered_example) \<noteq> ts_official RESET"
    by (auto simp: cn_state_def ts_of_def)
  ultimately show ?thesis using active by simp
qed

text \<open>C33: (lingering) A connection that ended its own stream first, with both streams ended and everything
  acknowledged, stays active for exactly ten retransmission timeouts without traffic, whatever the
  sizes of the ticks, and sends nothing meanwhile.\<close>

theorem time_wait_lingers:
  assumes "cn_quiet cn" and "unat (cn_time cn) < 10 * unat (rt_timeout (cn_cfg cn))"
    and "unat (cn_time cn) + sum_list (map unat ticks) < 2 ^ 64"
  defines "cn' \<equiv> fold cn_tick ticks cn"
  shows "(cn_active cn' \<longleftrightarrow>
      unat (cn_time cn) + sum_list (map unat ticks) < 10 * unat (rt_timeout (cn_cfg cn))) \<and>
    cn_segments_out cn' = cn_segments_out cn"
  using assms(1-3) unfolding cn'_def
proof (induction ticks arbitrary: cn)
  case Nil
  then show ?case by (simp add: cn_quiet_def)
next
  case (Cons ms ticks)
  note q = cn_quiet_tick [OF Cons.prems(1), of ms]
  have sum: "unat (cn_time cn + ms) = unat (cn_time cn) + unat ms"
    using Cons.prems(3) by (simp add: unat_word_ariths)
  show ?case
  proof (cases "cn_active (cn_tick ms cn)")
    case True
    then show ?thesis
      using Cons.IH [of "cn_tick ms cn"] Cons.prems q sum by (simp add: add.assoc)
  next
    case False
    then show ?thesis using q sum by (simp add: cn_ticks_inactive)
  qed
qed

definition quiet_example :: tcp_connection where
  "quiet_example = (cn_new tcp_config_default 7)\<lparr>cn_syn_sended := True,
     cn_sender := (tx_new 8 1000 None 7)\<lparr>tx_syn := True, tx_fin := True, tx_next_seqno := 2,
       tx_receive_ack := 2, tx_stream := bs_end_input (bs_new 8)\<rparr>,
     cn_receiver := rx_with_output (bs_end_input (bs_new 8)) (rx_new 8)\<rparr>"

theorem time_wait_lingers_witness:
  "cn_active (fold cn_tick [4000, 5999] quiet_example) \<and>
   \<not> cn_active (fold cn_tick [4000, 5999, 1] quiet_example)"
proof -
  have q: "cn_quiet quiet_example"
    by (simp add: cn_quiet_def quiet_example_def cn_new_def rx_with_output_def rx_stream_out_def stream_simps
        tx_new_def)
  have t: "cn_time quiet_example = 0" "rt_timeout (cn_cfg quiet_example) = 1000"
    by (simp_all add: quiet_example_def cn_new_def tcp_config_default_def TIMEOUT_DFLT_def)
  show ?thesis
    using time_wait_lingers [OF q, of "[4000, 5999]"] time_wait_lingers [OF q, of "[4000, 5999, 1]"] t by simp
qed

text \<open>(advertised window) Every segment the connection sends once its receiver has a SYN carries
  the acknowledgment number and the low 16 bits of the receiver's window: a window of \<open>2^16\<close> bytes
  or more is not cut to the largest value but wraps, so that an empty receiver with a capacity of
  65536 advertises a window of 0.\<close>

theorem window_advertised_modulo:
  assumes "rx_ackno_opt (cn_receiver cn) = Some a"
    and "cn_segments_out (cn_segment_sends b cn) = cn_segments_out cn @ sent" and "seg \<in> set sent"
  shows "th_ack (seg_header seg) \<and> th_ackno (seg_header seg) = a \<and>
    unat (th_win (seg_header seg)) = rx_window_size (cn_receiver cn) mod 2 ^ 16"
proof -
  have "b \<or> cn_syn_sended cn"
    using assms(2,3) by (cases "b \<or> cn_syn_sended cn") (simp_all add: cn_segment_sends_def)
  then obtain q where "sent = map (cn_stamp cn) (tx_segments_out (cn_sender cn) @ q)"
    using cn_segment_sends_out [of b cn] assms(2) by auto
  then obtain s where "seg = cn_stamp cn s" using assms(3) by auto
  then show ?thesis
    using assms(1) by (simp add: cn_stamp_def Let_def unat_of_nat)
qed

definition big_example :: tcp_connection where
  "big_example = (cn_new tcp_config_default 7)\<lparr>cn_receiver :=
     (rx_new 65536)\<lparr>rx_syn := True, rx_ackno := WrappingInt32 10\<rparr>\<rparr>"

theorem window_advertised_modulo_witness:
  "rx_window_size (cn_receiver big_example) = 65536 \<and>
   unat (th_win (seg_header (hd (cn_segments_out (cn_segment_sends True big_example))))) = 0"
proof -
  have w: "rx_window_size (cn_receiver big_example) = 65536" "rx_ackno_opt (cn_receiver big_example) = Some (WrappingInt32 10)"
    "cn_segments_out big_example = []"
    by (simp_all add: big_example_def rx_window_size_def rx_new_def rx_stream_out_def ra_new_def rx_ackno_opt_def
        cn_new_def stream_simps)
  have "tx_segments_out (tx_fill_window (cn_sender big_example)) \<noteq> []"
    by (simp add: big_example_def cn_new_def tx_fill_window_def tx_new_def tx_send_segment_def Let_def)
  then have "cn_segments_out (cn_segment_sends True big_example) \<noteq> []"
    by (simp add: cn_segment_sends_def Let_def)
  then show ?thesis
    using window_advertised_modulo [OF w(2), of True "cn_segments_out (cn_segment_sends True big_example)"
        "hd (cn_segments_out (cn_segment_sends True big_example))"] w(1,3) by simp
qed

end
