(* ===== verification/TCP_Network.thy ===== *)
theory TCP_Network
  imports TCP_Connection
begin

text \<open>
  Two endpoints and the network between them. A step is an operation of an application or of the
  clock at one end, a segment leaving an endpoint's queue for the network, or a segment that was
  ever put on the network in this direction arriving at the other end. Nothing is ever removed from
  the network, so that segments may be lost (never arrive), delayed, reordered and duplicated.
\<close>

section \<open>Pieces of the first \<open>n\<close> bytes of a stream\<close>

definition bytes_upto :: "(nat \<Rightarrow> byte) \<Rightarrow> nat \<Rightarrow> nat \<Rightarrow> byte list \<Rightarrow> bool" where
  "bytes_upto f n i d \<longleftrightarrow> bytes_of f i d \<and> (d = [] \<or> i + length d \<le> n)"

interpretation upto_law: segment_law "bytes_upto f n"
proof
  show "bytes_upto f n i []" for i by (simp add: bytes_upto_def bytes_of_cut)
  show "bytes_upto f n (i + k) (drop k d)" if "bytes_upto f n i d" and "k \<le> length d" for i k d
    using that bytes_of_cut(2) [of f i d k] by (auto simp: bytes_upto_def)
  show "bytes_upto f n i (take k d)" if "bytes_upto f n i d" for i k d
    using that bytes_of_cut(3) [of f i d k] by (auto simp: bytes_upto_def)
  show "bytes_upto f n i (d @ e)" if "bytes_upto f n i d" and "bytes_upto f n (i + length d) e" for i d e
    using that bytes_of_join [of f i d e] by (auto simp: bytes_upto_def)
qed

section \<open>A receiver fed by one sender\<close>

text \<open>
  What holds of the receiver at the far end of a sender: its output holds bytes of the sender's
  stream, no more than \<open>n\<close>, and its initial sequence number is the sender's.
\<close>

definition rx_fed :: "(nat \<Rightarrow> byte) \<Rightarrow> nat \<Rightarrow> wrapping_int32 \<Rightarrow> tcp_receiver \<Rightarrow> bool" where
  "rx_fed f n isn rx \<longleftrightarrow> rx_inv (bytes_upto f n) rx \<and> (rx_syn rx \<longrightarrow> rx_isn rx = isn) \<and>
     bs_written (rx_stream_out rx) \<le> n"

lemma rx_inv_output:
  assumes "rx_inv P rx"
  shows "bs_inv (rx_stream_out rx)" and "P (bs_readden (rx_stream_out rx)) (bs_content (rx_stream_out rx))"
  using assms by (simp_all add: rx_inv_def ra_inv_def rx_stream_out_def)

text \<open>The bytes written are those read plus those buffered, so the bound follows from the law.\<close>

lemma rx_fed_bound:
  assumes "rx_inv (bytes_upto f n) rx'" and "bs_readden (rx_stream_out rx') \<le> n"
  shows "bs_written (rx_stream_out rx') \<le> n"
proof -
  have "bs_written (rx_stream_out rx') = bs_readden (rx_stream_out rx') + length (bs_content (rx_stream_out rx'))"
    using rx_inv_output(1) [OF assms(1)] by (simp add: bs_inv_def)
  then show ?thesis
    using rx_inv_output(2) [OF assms(1)] assms(2) by (auto simp: bytes_upto_def)
qed

lemma ra_flush_readden [simp]: "bs_readden (ra_output (ra_flush r)) = bs_readden (ra_output r)"
  by (simp add: ra_flush_def Let_def bs_write_snd case_prod_beta)

lemma push_substring_readden [simp]:
  "bs_readden (ra_output (push_substring d i e r)) = bs_readden (ra_output r)"
  by (simp add: push_substring_def ra_judge_eof_def ra_store_def Let_def case_prod_beta bs_end_input_def)

lemma rx_segment_readden [simp]:
  "bs_readden (rx_stream_out (rx_segment_received seg rx)) = bs_readden (rx_stream_out rx)"
  by (simp add: rx_segment_received_def rx_finish_def rx_push_def rx_stream_out_def Let_def bs_end_input_def)

lemma tx_sent_law:
  assumes sent: "tx_sent_ok f tx seg" and tx: "tx_stream_ok f tx"
    and n: "bs_written (tx_stream tx) \<le> n" "int n + 2 < 2 ^ 31"
    and rx: "rx_fed f n (tx_isn tx) rx"
  shows "rx_law (bytes_upto f n) seg rx \<and> (th_syn (seg_header seg) \<longrightarrow> th_seqno (seg_header seg) = tx_isn tx)"
proof -
  let ?d = "buffer_str (seg_payload seg)"
  have st: "bs_readden (tx_stream tx) \<le> bs_written (tx_stream tx)"
    "unat (tx_next_seqno tx) \<le> bs_readden (tx_stream tx) + 2"
    using tx by (simp_all add: tx_stream_ok_def bs_inv_def Let_def)
  obtain b where b: "b \<le> unat (tx_next_seqno tx)" "tx_carries f (tx_isn tx) b seg"
    "?d = [] \<or> b + length ?d \<le> Suc (bs_readden (tx_stream tx))"
    using sent by (auto simp: tx_sent_ok_def)
  show ?thesis
  proof (cases "th_syn (seg_header seg)")
    case True
    then have "?d = []" "th_seqno (seg_header seg) = wrap (of_nat 0) (tx_isn tx)"
      using b(2) by (simp_all add: tx_carries_def)
    moreover have "wrap (of_nat 0) (tx_isn tx) = tx_isn tx"
      using wrap_of_nat [of 0 "tx_isn tx"] by (simp add: wi_plus_def)
    ultimately show ?thesis using True upto_law.seg_nil by (simp add: rx_law_def)
  next
    case False
    then obtain i where i: "b = Suc i" "th_seqno (seg_header seg) = wrap (of_nat (Suc i)) (tx_isn tx)"
      "bytes_of f i ?d"
      using b(2) by (cases b) (auto simp: tx_carries_def bytes_of_def)
    have near: "rx_near i rx"
      using b(1) st n rx i(1) by (simp add: rx_near_def rx_fed_def abs_less_iff)
    have "unat (rx_index (th_seqno (seg_header seg)) rx) = i" if "rx_syn rx"
      unfolding i(2) by (rule rx_index_of [OF near]) (use rx that in \<open>simp add: rx_fed_def\<close>)
    then show ?thesis
      using False i(1,3) b(3) st(1) n(1) by (auto simp: rx_law_def bytes_upto_def)
  qed
qed

lemma rx_fed_segment:
  assumes "tx_sent_ok f tx seg" and "tx_stream_ok f tx"
    and "bs_written (tx_stream tx) \<le> n" "int n + 2 < 2 ^ 31" and rx: "rx_fed f n (tx_isn tx) rx"
  shows "rx_fed f n (tx_isn tx) (rx_segment_received seg rx)"
proof -
  have law: "rx_law (bytes_upto f n) seg rx"
    "th_syn (seg_header seg) \<Longrightarrow> th_seqno (seg_header seg) = tx_isn tx"
    using tx_sent_law [OF assms] by simp_all
  have inv: "rx_inv (bytes_upto f n) (rx_segment_received seg rx)"
    using rx law(1) upto_law.rx_segment_inv by (simp add: rx_fed_def)
  moreover have "bs_readden (rx_stream_out rx) \<le> n"
    using rx rx_inv_output(1) [of "bytes_upto f n" rx] by (simp add: rx_fed_def bs_inv_def)
  ultimately show ?thesis
    using rx law(2) rx_fed_bound [OF inv] by (auto simp: rx_fed_def)
qed

lemma rx_fed_step:
  assumes "rx_fed f n isn rx"
  shows "rx_fed f n isn (rx_step Rx_Error rx)" and "rx_fed f n isn (rx_step (Rx_Read k) rx)"
proof -
  have "rx_inv (bytes_upto f n) (rx_step Rx_Error rx)" "rx_inv (bytes_upto f n) (rx_step (Rx_Read k) rx)"
    using assms upto_law.rx_step_inv by (simp_all add: rx_fed_def del: rx_step.simps)
  moreover have "rx_stream_out (rx_with_output out rx) = out" for out
    by (simp add: rx_with_output_def rx_stream_out_def)
  ultimately show "rx_fed f n isn (rx_step Rx_Error rx)" "rx_fed f n isn (rx_step (Rx_Read k) rx)"
    using assms by (simp_all add: rx_fed_def bs_read_snd bs_set_error_def)
qed

section \<open>The network\<close>

record network =
  nt_a :: tcp_connection
  nt_b :: tcp_connection
  nt_to_b :: "tcp_segment list"
  nt_to_a :: "tcp_segment list"

text \<open>Operations of the application and of the clock at one end.\<close>

fun local_op :: "cn_op \<Rightarrow> bool" where
  "local_op (Cn_Segment seg) = False"
| "local_op Cn_Take = False"
| "local_op _ = True"

inductive nt_step :: "(nat \<Rightarrow> byte) \<Rightarrow> (nat \<Rightarrow> byte) \<Rightarrow> network \<Rightarrow> network \<Rightarrow> bool" for f g where
  local_a: "local_op op \<Longrightarrow> cn_fair f op (nt_a n) \<Longrightarrow> nt_step f g n (n\<lparr>nt_a := cn_step op (nt_a n)\<rparr>)"
| local_b: "local_op op \<Longrightarrow> cn_fair g op (nt_b n) \<Longrightarrow> nt_step f g n (n\<lparr>nt_b := cn_step op (nt_b n)\<rparr>)"
| leave_a: "cn_segments_out (nt_a n) = seg # rest \<Longrightarrow>
    nt_step f g n (n\<lparr>nt_a := cn_step Cn_Take (nt_a n), nt_to_b := seg # nt_to_b n\<rparr>)"
| leave_b: "cn_segments_out (nt_b n) = seg # rest \<Longrightarrow>
    nt_step f g n (n\<lparr>nt_b := cn_step Cn_Take (nt_b n), nt_to_a := seg # nt_to_a n\<rparr>)"
| arrive_a: "seg \<in> set (nt_to_a n) \<Longrightarrow> nt_step f g n (n\<lparr>nt_a := cn_step (Cn_Segment seg) (nt_a n)\<rparr>)"
| arrive_b: "seg \<in> set (nt_to_b n) \<Longrightarrow> nt_step f g n (n\<lparr>nt_b := cn_step (Cn_Segment seg) (nt_b n)\<rparr>)"

definition nt_start :: "tcp_config \<Rightarrow> u32 \<Rightarrow> tcp_config \<Rightarrow> u32 \<Rightarrow> network" where
  "nt_start acfg ar bcfg br = \<lparr>nt_a = cn_new acfg ar, nt_b = cn_new bcfg br, nt_to_b = [], nt_to_a = []\<rparr>"

inductive nt_reach :: "(nat \<Rightarrow> byte) \<Rightarrow> (nat \<Rightarrow> byte) \<Rightarrow> network \<Rightarrow> network \<Rightarrow> bool" for f g n0 where
  start: "nt_reach f g n0 n0"
| step: "nt_reach f g n0 n \<Longrightarrow> nt_step f g n n' \<Longrightarrow> nt_reach f g n0 n'"

section \<open>The invariant of one direction\<close>

text \<open>
  One direction: the sender's endpoint, the segments on the network, the receiver's endpoint. The
  receiver's part is stated for every \<open>n\<close> that bounds what the sending application has written.
\<close>

definition nt_half :: "(nat \<Rightarrow> byte) \<Rightarrow> nat \<Rightarrow> tcp_connection \<Rightarrow> tcp_segment list \<Rightarrow> tcp_connection \<Rightarrow> bool" where
  "nt_half f n a segs b \<longleftrightarrow> cn_inv f a \<and> (\<forall>seg\<in>set segs. tx_sent_ok f (cn_sender a) seg) \<and>
     (bs_written (tx_stream (cn_sender a)) \<le> n \<longrightarrow> rx_fed f n (tx_isn (cn_sender a)) (cn_receiver b))"

lemma nt_half_sender:
  assumes half: "nt_half f n a segs b" and fair: "cn_fair f op a"
  shows "nt_half f n (cn_step op a) segs b"
proof -
  have "cn_inv f (cn_step op a)" and le: "tx_le (cn_sender a) (cn_sender (cn_step op a))"
    using cn_step_inv [OF _ fair] half by (simp_all add: nt_half_def)
  moreover have "\<forall>seg\<in>set segs. tx_sent_ok f (cn_sender (cn_step op a)) seg"
    using half tx_sent_ok_mono [OF _ le] by (simp add: nt_half_def)
  ultimately show ?thesis
    using half by (auto simp: nt_half_def tx_le_def)
qed

lemma nt_half_receiver:
  assumes half: "nt_half f n a segs b" and small: "int n + 2 < 2 ^ 31"
    and arrives: "\<And>seg. op = Cn_Segment seg \<Longrightarrow> seg \<in> set segs"
  shows "nt_half f n a segs (cn_step op b)"
proof -
  have "rx_fed f n (tx_isn (cn_sender a)) (cn_receiver (cn_step op b))"
    if n: "bs_written (tx_stream (cn_sender a)) \<le> n"
  proof (rule cn_step_receiver [where I = "rx_fed f n (tx_isn (cn_sender a))"])
    show fed: "rx_fed f n (tx_isn (cn_sender a)) (cn_receiver b)"
      using half n by (simp add: nt_half_def)
    show "rx_fed f n (tx_isn (cn_sender a)) (rx_step Rx_Error rx)"
      "rx_fed f n (tx_isn (cn_sender a)) (rx_step (Rx_Read k) rx)"
      if "rx_fed f n (tx_isn (cn_sender a)) rx" for rx k
      using rx_fed_step [OF that] by blast+
    fix seg
    assume "op = Cn_Segment seg"
    then have "tx_sent_ok f (cn_sender a) seg" using arrives half by (simp add: nt_half_def)
    moreover have "tx_stream_ok f (cn_sender a)"
      using half by (simp add: nt_half_def cn_inv_def cn_tx_def tx_safe_def)
    ultimately show "rx_fed f n (tx_isn (cn_sender a)) (rx_segment_received seg (cn_receiver b))"
      using rx_fed_segment n small fed by blast
  qed
  then show ?thesis using half by (simp add: nt_half_def)
qed

lemma nt_half_leave:
  assumes "nt_half f n a segs b" and "cn_segments_out a = seg # rest"
  shows "nt_half f n a (seg # segs) b"
  using assms by (simp add: nt_half_def cn_inv_def cn_tx_def)

definition nt_inv :: "(nat \<Rightarrow> byte) \<Rightarrow> (nat \<Rightarrow> byte) \<Rightarrow> nat \<Rightarrow> nat \<Rightarrow> network \<Rightarrow> bool" where
  "nt_inv f g m n w \<longleftrightarrow>
     nt_half f m (nt_a w) (nt_to_b w) (nt_b w) \<and> nt_half g n (nt_b w) (nt_to_a w) (nt_a w)"

lemma nt_step_inv:
  assumes "nt_step f g w w'" and "nt_inv f g m n w" and small: "int m + 2 < 2 ^ 31" "int n + 2 < 2 ^ 31"
  shows "nt_inv f g m n w'"
  using assms(1,2)
proof (induction rule: nt_step.induct)
  case (local_a op w)
  have "nt_half g n (nt_b w) (nt_to_a w) (cn_step op (nt_a w))"
    by (rule nt_half_receiver) (use local_a small in \<open>auto simp: nt_inv_def\<close>)
  then show ?case using local_a nt_half_sender by (simp add: nt_inv_def)
next
  case (local_b op w)
  have "nt_half f m (nt_a w) (nt_to_b w) (cn_step op (nt_b w))"
    by (rule nt_half_receiver) (use local_b small in \<open>auto simp: nt_inv_def\<close>)
  then show ?case using local_b nt_half_sender by (simp add: nt_inv_def)
next
  case (leave_a w seg rest)
  have "nt_half g n (nt_b w) (nt_to_a w) (cn_step Cn_Take (nt_a w))"
    by (rule nt_half_receiver) (use leave_a small in \<open>auto simp: nt_inv_def\<close>)
  moreover have "nt_half f m (nt_a w) (seg # nt_to_b w) (nt_b w)"
    using leave_a nt_half_leave by (simp add: nt_inv_def)
  then have "nt_half f m (cn_step Cn_Take (nt_a w)) (seg # nt_to_b w) (nt_b w)"
    by (rule nt_half_sender) simp
  ultimately show ?case by (simp add: nt_inv_def)
next
  case (leave_b w seg rest)
  have "nt_half f m (nt_a w) (nt_to_b w) (cn_step Cn_Take (nt_b w))"
    by (rule nt_half_receiver) (use leave_b small in \<open>auto simp: nt_inv_def\<close>)
  moreover have "nt_half g n (nt_b w) (seg # nt_to_a w) (nt_a w)"
    using leave_b nt_half_leave by (simp add: nt_inv_def)
  then have "nt_half g n (cn_step Cn_Take (nt_b w)) (seg # nt_to_a w) (nt_a w)"
    by (rule nt_half_sender) simp
  ultimately show ?case by (simp add: nt_inv_def)
next
  case (arrive_a seg w)
  have "nt_half g n (nt_b w) (nt_to_a w) (cn_step (Cn_Segment seg) (nt_a w))"
    by (rule nt_half_receiver) (use arrive_a small in \<open>auto simp: nt_inv_def\<close>)
  moreover have "nt_half f m (cn_step (Cn_Segment seg) (nt_a w)) (nt_to_b w) (nt_b w)"
    by (rule nt_half_sender) (use arrive_a in \<open>auto simp: nt_inv_def\<close>)
  ultimately show ?case by (simp add: nt_inv_def)
next
  case (arrive_b seg w)
  have "nt_half f m (nt_a w) (nt_to_b w) (cn_step (Cn_Segment seg) (nt_b w))"
    by (rule nt_half_receiver) (use arrive_b small in \<open>auto simp: nt_inv_def\<close>)
  moreover have "nt_half g n (cn_step (Cn_Segment seg) (nt_b w)) (nt_to_a w) (nt_a w)"
    by (rule nt_half_sender) (use arrive_b in \<open>auto simp: nt_inv_def\<close>)
  ultimately show ?case by (simp add: nt_inv_def)
qed

lemma rx_fed_new: "rx_fed f n isn (rx_new c)"
  using upto_law.rx_new_inv [of f n c] by (simp add: rx_fed_def) (simp add: rx_new_def rx_stream_out_def ra_new_def)

lemma nt_start_inv: "nt_inv f g m n (nt_start acfg ar bcfg br)"
  using rx_fed_new cn_new_inv
  by (simp add: nt_inv_def nt_half_def nt_start_def) (simp add: cn_new_def)

lemma nt_reach_inv:
  assumes "nt_reach f g (nt_start acfg ar bcfg br) w" and "int m + 2 < 2 ^ 31" "int n + 2 < 2 ^ 31"
  shows "nt_inv f g m n w"
  using assms(1) by (induction rule: nt_reach.induct) (use nt_start_inv nt_step_inv assms(2,3) in blast)+

section \<open>Runs\<close>

text \<open>A schedule of the network's steps, run; \<open>None\<close> when a step is not possible.\<close>

datatype nt_event = Do_A cn_op | Do_B cn_op | Leave_A | Leave_B | Arrive_A nat | Arrive_B nat

fun nt_do :: "(nat \<Rightarrow> byte) \<Rightarrow> (nat \<Rightarrow> byte) \<Rightarrow> nt_event \<Rightarrow> network \<Rightarrow> network option" where
  "nt_do f g (Do_A op) w = (if local_op op \<and> cn_fair f op (nt_a w) then Some (w\<lparr>nt_a := cn_step op (nt_a w)\<rparr>) else None)"
| "nt_do f g (Do_B op) w = (if local_op op \<and> cn_fair g op (nt_b w) then Some (w\<lparr>nt_b := cn_step op (nt_b w)\<rparr>) else None)"
| "nt_do f g Leave_A w = (case cn_segments_out (nt_a w) of [] \<Rightarrow> None
     | seg # _ \<Rightarrow> Some (w\<lparr>nt_a := cn_step Cn_Take (nt_a w), nt_to_b := seg # nt_to_b w\<rparr>))"
| "nt_do f g Leave_B w = (case cn_segments_out (nt_b w) of [] \<Rightarrow> None
     | seg # _ \<Rightarrow> Some (w\<lparr>nt_b := cn_step Cn_Take (nt_b w), nt_to_a := seg # nt_to_a w\<rparr>))"
| "nt_do f g (Arrive_A k) w = (if k < length (nt_to_a w)
     then Some (w\<lparr>nt_a := cn_step (Cn_Segment (nt_to_a w ! k)) (nt_a w)\<rparr>) else None)"
| "nt_do f g (Arrive_B k) w = (if k < length (nt_to_b w)
     then Some (w\<lparr>nt_b := cn_step (Cn_Segment (nt_to_b w ! k)) (nt_b w)\<rparr>) else None)"

lemma nt_do_step: "nt_do f g e w = Some w' \<Longrightarrow> nt_step f g w w'"
  by (cases e) (auto intro: nt_step.intros split: if_splits list.splits simp del: cn_step.simps)

text \<open>The schedules take exactly the steps of the relation.\<close>

lemma nt_step_iff_do: "nt_step f g w w' \<longleftrightarrow> (\<exists>e. nt_do f g e w = Some w')"
proof
  assume "nt_step f g w w'"
  then show "\<exists>e. nt_do f g e w = Some w'"
  proof (cases rule: nt_step.cases)
    case (local_a op)
    then have "nt_do f g (Do_A op) w = Some w'" by (simp del: cn_step.simps)
    then show ?thesis ..
  next
    case (local_b op)
    then have "nt_do f g (Do_B op) w = Some w'" by (simp del: cn_step.simps)
    then show ?thesis ..
  next
    case (leave_a seg rest)
    then have "nt_do f g Leave_A w = Some w'" by simp
    then show ?thesis ..
  next
    case (leave_b seg rest)
    then have "nt_do f g Leave_B w = Some w'" by simp
    then show ?thesis ..
  next
    case (arrive_a seg)
    then obtain k where "k < length (nt_to_a w)" "nt_to_a w ! k = seg" by (auto simp: in_set_conv_nth)
    then have "nt_do f g (Arrive_A k) w = Some w'" using arrive_a by simp
    then show ?thesis ..
  next
    case (arrive_b seg)
    then obtain k where "k < length (nt_to_b w)" "nt_to_b w ! k = seg" by (auto simp: in_set_conv_nth)
    then have "nt_do f g (Arrive_B k) w = Some w'" using arrive_b by simp
    then show ?thesis ..
  qed
qed (use nt_do_step in blast)

fun nt_run :: "(nat \<Rightarrow> byte) \<Rightarrow> (nat \<Rightarrow> byte) \<Rightarrow> nt_event list \<Rightarrow> network \<Rightarrow> network option" where
  "nt_run f g [] w = Some w"
| "nt_run f g (e # es) w = (case nt_do f g e w of None \<Rightarrow> None | Some w' \<Rightarrow> nt_run f g es w')"

lemma nt_run_reach: "nt_reach f g n0 w \<Longrightarrow> nt_run f g es w = Some w' \<Longrightarrow> nt_reach f g n0 w'"
proof (induction es arbitrary: w)
  case (Cons e es)
  then obtain w1 where "nt_do f g e w = Some w1" "nt_run f g es w1 = Some w'"
    by (auto split: option.splits)
  then show ?case using Cons.IH Cons.prems(1) nt_do_step nt_reach.step by blast
qed simp

lemma nt_run_append:
  "nt_run f g (es @ es') w = (case nt_run f g es w of None \<Rightarrow> None | Some w' \<Rightarrow> nt_run f g es' w')"
  by (induction es arbitrary: w) (auto split: option.split)

lemma nt_reach_iff_run: "nt_reach f g n0 w \<longleftrightarrow> (\<exists>es. nt_run f g es n0 = Some w)"
proof
  assume "nt_reach f g n0 w"
  then show "\<exists>es. nt_run f g es n0 = Some w"
  proof (induction rule: nt_reach.induct)
    case start
    have "nt_run f g [] n0 = Some n0" by simp
    then show ?case ..
  next
    case (step n n')
    then obtain es e where "nt_run f g es n0 = Some n" "nt_do f g e n = Some n'" using nt_step_iff_do by blast
    then have "nt_run f g (es @ [e]) n0 = Some n'" by (simp add: nt_run_append)
    then show ?case ..
  qed
qed (use nt_run_reach nt_reach.start in blast)

definition nt_example_cfg :: tcp_config where
  "nt_example_cfg = \<lparr>rt_timeout = 1000, recv_capacity = 8, send_capacity = 8, fixed_isn = Some (WrappingInt32 5)\<rparr>"

text \<open>The handshake, a byte written, the stream ended; every segment of A has left it.\<close>

definition nt_example_open :: "nt_event list" where
  "nt_example_open = [Do_A Cn_Connect, Leave_A, Arrive_B 0, Leave_B, Arrive_A 0,
     Do_A (Cn_Write [0]), Do_A Cn_End, Leave_A, Leave_A, Leave_A]"

definition nt_example :: "nt_event list \<Rightarrow> network" where
  "nt_example es = the (nt_run of_nat of_nat (nt_example_open @ es) (nt_start nt_example_cfg 0 nt_example_cfg 0))"

lemma nt_example_reach:
  assumes "nt_run of_nat of_nat (nt_example_open @ es) (nt_start nt_example_cfg 0 nt_example_cfg 0) \<noteq> None"
  shows "nt_reach of_nat of_nat (nt_start nt_example_cfg 0 nt_example_cfg 0) (nt_example es)"
  using assms nt_run_reach [OF nt_reach.start] by (auto simp: nt_example_def)

section \<open>Properties\<close>

lemma nt_output:
  assumes "nt_reach f g (nt_start acfg ar bcfg br) w"
    and "int (bs_written (tx_stream (cn_sender (nt_a w)))) + 2 < 2 ^ 31"
  defines "out \<equiv> cn_inbound_stream (nt_b w)"
  shows "bs_content out = excerpt f (bs_readden out) (length (bs_content out))"
    and "bs_written out = bs_readden out + length (bs_content out)"
    and "bs_written out \<le> bs_written (tx_stream (cn_sender (nt_a w)))"
proof -
  let ?m = "bs_written (tx_stream (cn_sender (nt_a w)))"
  have "nt_inv f g ?m 0 w" by (rule nt_reach_inv [OF assms(1)]) (use assms(2) in simp_all)
  then have fed: "rx_fed f ?m (tx_isn (cn_sender (nt_a w))) (cn_receiver (nt_b w))"
    by (simp add: nt_inv_def nt_half_def)
  show "bs_content out = excerpt f (bs_readden out) (length (bs_content out))"
    "bs_written out = bs_readden out + length (bs_content out)" "bs_written out \<le> ?m"
    using fed rx_inv_output [of "bytes_upto f ?m" "cn_receiver (nt_b w)"]
    by (auto simp: rx_fed_def out_def cn_inbound_stream_def bytes_upto_def bytes_of_def bs_inv_def)
qed

text \<open>C1: (end to end) Two endpoints start afresh, whatever their configurations, applications and clocks,
  and the network loses, delays, reorders and repeats segments as it likes. As long as A's
  application has written fewer than \<open>2^31 - 2\<close> bytes, what B's application can read next is exactly
  the next bytes that A's application wrote, and never more than were written.\<close>

theorem tcp_end_to_end:
  assumes "nt_reach f g (nt_start acfg ar bcfg br) w"
    and "int (bs_bytes_written (tx_stream (cn_sender (nt_a w)))) + 2 < 2 ^ 31"
  defines "out \<equiv> cn_inbound_stream (nt_b w)"
  shows "bs_content out = excerpt f (bs_bytes_read out) (bs_buffer_size out) \<and>
    bs_bytes_written out = bs_bytes_read out + bs_buffer_size out \<and>
    bs_bytes_written out \<le> bs_bytes_written (tx_stream (cn_sender (nt_a w)))"
  using nt_output [OF assms(1)] assms(2) by (simp add: out_def stream_simps)

theorem tcp_end_to_end_witness:
  "let out = cn_inbound_stream (nt_b (nt_example [Arrive_B 2, Arrive_B 1])) in
   bs_bytes_written out = 1 \<and> bs_content out = excerpt of_nat (bs_bytes_read out) (bs_buffer_size out)"
proof -
  have run: "nt_run of_nat of_nat (nt_example_open @ [Arrive_B 2, Arrive_B 1]) (nt_start nt_example_cfg 0 nt_example_cfg 0) \<noteq> None"
    by code_simp
  have "bs_bytes_written (tx_stream (cn_sender (nt_a (nt_example [Arrive_B 2, Arrive_B 1])))) = 1 \<and>
      bs_bytes_written (cn_inbound_stream (nt_b (nt_example [Arrive_B 2, Arrive_B 1]))) = 1"
    by code_simp
  then show ?thesis
    unfolding Let_def using tcp_end_to_end [OF nt_example_reach [OF run]] by simp
qed

text \<open>
  What the arrival of a segment can do to the receiver of a connection: nothing, what the receiver
  does with it, or that and the error that a RST leaves.
\<close>

lemma cn_segment_receiver:
  "cn_receiver (cn_segment_received seg cn) = cn_receiver cn \<or>
   cn_receiver (cn_segment_received seg cn) = rx_segment_received seg (cn_receiver cn) \<or>
   cn_receiver (cn_segment_received seg cn) = rx_step Rx_Error (rx_segment_received seg (cn_receiver cn))"
  by (simp add: cn_segment_received_def cn_answer_def cn_take_ack_def cn_connect_def Let_def)

lemma cn_closed_stays:
  assumes "rx_closed (cn_receiver cn)"
  shows "rx_closed (cn_receiver (fold cn_segment_received segs cn)) \<and>
    bs_bytes_written (cn_inbound_stream (fold cn_segment_received segs cn)) =
      bs_bytes_written (cn_inbound_stream cn)"
  using assms
proof (induction segs arbitrary: cn)
  case (Cons seg segs)
  have "rx_closed (cn_receiver (cn_segment_received seg cn)) \<and>
      bs_written (rx_stream_out (cn_receiver (cn_segment_received seg cn))) =
        bs_written (rx_stream_out (cn_receiver cn))"
    using Cons.prems cn_segment_receiver [of seg cn] rx_closed_step [OF Cons.prems, of seg]
      rx_closed_error [OF rx_closed_step(1) [OF Cons.prems, of seg]] by auto
  then show ?case
    using Cons.IH [of "cn_segment_received seg cn"] by (simp add: cn_inbound_stream_def stream_simps)
qed simp

text \<open>
  From a fresh start: A's application writes one byte and ends its stream, the network delivers the
  segment with the FIN first, and B's application sees the end of the stream having received
  nothing.
\<close>

lemma premature_eof_reachable:
  "\<exists>w. nt_reach of_nat of_nat (nt_start nt_example_cfg 0 nt_example_cfg 0) w \<and>
    bs_bytes_written (tx_stream (cn_sender (nt_a w))) = 1 \<and>
    bs_eof (cn_inbound_stream (nt_b w)) \<and> bs_bytes_written (cn_inbound_stream (nt_b w)) = 0"
proof -
  have run: "nt_run of_nat of_nat (nt_example_open @ [Arrive_B 0]) (nt_start nt_example_cfg 0 nt_example_cfg 0) \<noteq> None"
    by code_simp
  have "bs_bytes_written (tx_stream (cn_sender (nt_a (nt_example [Arrive_B 0])))) = 1 \<and>
      bs_eof (cn_inbound_stream (nt_b (nt_example [Arrive_B 0]))) \<and>
      bs_bytes_written (cn_inbound_stream (nt_b (nt_example [Arrive_B 0]))) = 0"
    by code_simp
  then show ?thesis using nt_example_reach [OF run] by blast
qed

text \<open>C37: (the end of the stream can overtake it) The guarantee does not extend to the end of the
  stream. In any active connection that has received the peer's SYN and has nothing unassembled, a
  segment that carries the FIN and no data ends the inbound stream whatever its sequence number,
  that is, however many bytes of the peer are still on their way in front of it: the reader, once it
  has read what is buffered, is at the end of the stream; the next sequence number is acknowledged
  as if it were the FIN; and no segment that arrives later, in whatever order, adds a byte to the
  stream, so what the FIN has overtaken is lost. (An early FIN in a segment
  with data that starts inside the window does not do this: the data waits in the reassembler and
  holds the end of the stream back.)\<close>

theorem tcp_premature_eof:
  assumes "cn_active cn" and "rx_synced (cn_receiver cn)" and "th_fin (seg_header seg)"
    and "\<not> th_syn (seg_header seg)" and "\<not> th_rst (seg_header seg)"
    and "buffer_str (seg_payload seg) = []"
  defines "cn' \<equiv> cn_segment_received seg cn"
  shows "bs_input_ended (cn_inbound_stream cn') \<and>
    bs_eof (cn_inbound_stream cn') = bs_buffer_empty (cn_inbound_stream cn) \<and>
    bs_bytes_written (cn_inbound_stream cn') = bs_bytes_written (cn_inbound_stream cn) \<and>
    rx_ackno (cn_receiver cn') = wi_plus (rx_ackno (cn_receiver cn)) 1 \<and>
    bs_bytes_written (cn_inbound_stream (fold cn_segment_received segs cn')) =
      bs_bytes_written (cn_inbound_stream cn)"
proof -
  have "buffer_size (seg_payload seg) = 0" using assms(6) by (simp add: buffer_size_def)
  then have rx: "cn_receiver cn' = rx_segment_received seg (cn_receiver cn)"
    using assms(1,4,5)
    by (simp add: cn'_def cn_segment_received_def cn_answer_def cn_take_ack_def Let_def)
  note p = premature_fin_acknowledged [OF assms(2,3,4,6)]
  have closed: "rx_closed (cn_receiver cn')" using p rx by simp
  show ?thesis
    using p rx cn_closed_stays [OF closed, of segs]
    by (simp add: cn_inbound_stream_def rx_closed_def stream_simps)
qed

text \<open>
  A connection that has received the SYN with sequence number 9 and two bytes, which the
  application has read. The FIN has sequence number 15: the bytes 12, 13 and 14 are missing.
\<close>

definition overtaken_example :: tcp_connection where
  "overtaken_example = cn_segment_received (rx_example True 9 [5, 6])
     (cn_new \<lparr>rt_timeout = 1000, recv_capacity = 8, send_capacity = 8, fixed_isn = None\<rparr> 7)"

definition overtaking_fin :: tcp_segment where
  "overtaking_fin = \<lparr>seg_header = th_new\<lparr>th_fin := True, th_seqno := WrappingInt32 15\<rparr>,
     seg_payload = buffer_of_string []\<rparr>"

theorem tcp_premature_eof_witness:
  "let cn' = cn_segment_received overtaking_fin overtaken_example;
     late = cn_segment_received (rx_example False 12 [7, 8, 9]) cn' in
   bs_input_ended (cn_inbound_stream cn') \<and> rx_ackno (cn_receiver cn') = WrappingInt32 13 \<and>
   bs_bytes_written (cn_inbound_stream late) = 2"
proof -
  have "\<not> tx_summary (cn_sender (cn_new \<lparr>rt_timeout = 1000, recv_capacity = 8, send_capacity = 8, fixed_isn = None\<rparr> 7))
      = TX_SYN_SENT"
    by code_simp
  then have rx: "cn_receiver overtaken_example = rx_segment_received (rx_example True 9 [5, 6]) (rx_new 8)"
    by (simp add: overtaken_example_def cn_segment_received_def cn_connect_def cn_take_ack_def cn_answer_def
        Let_def cn_new_def rx_example_def th_new_def tx_new_def)
  have "rx_ackno (cn_receiver overtaken_example) = WrappingInt32 12"
    "bs_bytes_written (cn_inbound_stream overtaken_example) = 2" "cn_active overtaken_example"
    by code_simp+
  then show ?thesis
    using tcp_premature_eof [of overtaken_example overtaking_fin "[rx_example False 12 [7, 8, 9]]"]
      rx_example_synced [of 9]
    by (simp add: rx Let_def overtaking_fin_def th_new_def wi_plus_def)
qed

end
