(* ===== verification/Text.thy ===== *)
theory Text
  imports Sponge_Prelude "HOL-Library.Char_ord"
begin

text \<open>
  The text formats of the standard library that the sources use: numbers in decimal and in
  hexadecimal (\<open>std::to_string\<close>, \<open>operator<<\<close> with \<open>hex\<close>), padding (\<open>setw\<close>, \<open>setfill\<close>), \<open>boolalpha\<close>
  and the conversion back (\<open>std::stoi\<close>); the dotted form of an IPv4 address (\<open>inet_ntoa\<close>) and its
  reading.
\<close>

section \<open>Writing numbers\<close>

definition digit :: "nat \<Rightarrow> char" where
  "digit d = ''0123456789abcdef'' ! d"

fun in_base :: "nat \<Rightarrow> nat \<Rightarrow> string" where
  "in_base b n = (if n < b \<or> b < 2 then [digit (n mod 16)] else in_base b (n div b) @ [digit (n mod b)])"

declare in_base.simps [simp del]

definition decimal :: "nat \<Rightarrow> string" where "decimal n = in_base 10 n"
definition hexadecimal :: "nat \<Rightarrow> string" where "hexadecimal n = in_base 16 n"

definition padded :: "nat \<Rightarrow> char \<Rightarrow> string \<Rightarrow> string" where
  "padded w c s = replicate (w - length s) c @ s"

definition boolalpha :: "bool \<Rightarrow> string" where
  "boolalpha b = (if b then ''true'' else ''false'')"

section \<open>Reading numbers\<close>

definition is_digit :: "char \<Rightarrow> bool" where
  "is_digit c = (48 \<le> (of_char c :: nat) \<and> (of_char c :: nat) \<le> 57)"

definition is_space :: "char \<Rightarrow> bool" where
  "is_space c = (c = CHR '' '' \<or> (9 \<le> (of_char c :: nat) \<and> (of_char c :: nat) \<le> 13))"

definition dec_value :: "string \<Rightarrow> nat" where
  "dec_value s = fold (\<lambda>c v. 10 * v + (of_char c - 48)) s 0"

text \<open>
  \<open>std::stoi\<close> skips white space, takes a sign and the longest run of digits, ignores the rest, and
  throws when there is no digit or the value is not an \<open>int\<close>.
\<close>

definition stoi :: "string \<Rightarrow> exn + int" where
  "stoi s =
     (let s = dropWhile is_space s;
          neg = (s \<noteq> [] \<and> hd s = CHR ''-'');
          s = (if s \<noteq> [] \<and> hd s \<in> {CHR ''-'', CHR ''+''} then tl s else s);
          ds = takeWhile is_digit s;
          v = (if neg then - int (dec_value ds) else int (dec_value ds)) in
      if ds = [] then Inl (Invalid_Argument ''stoi'')
      else if v < - (2 ^ 31) \<or> 2 ^ 31 \<le> v then Inl (Out_Of_Range ''stoi'')
      else Inr v)"

lemma digit_ten:
  assumes "d < 10"
  shows "is_digit (digit d)" and "(of_char (digit d) :: nat) = 48 + d" and "\<not> is_space (digit d)"
    and "digit d \<notin> {CHR ''-'', CHR ''+'', CHR ''.'', CHR '':''}"
proof -
  have "d \<in> {0, 1, 2, 3, 4, 5, 6, 7, 8, 9}" using assms by auto
  then show "is_digit (digit d)" "(of_char (digit d) :: nat) = 48 + d" "\<not> is_space (digit d)"
    "digit d \<notin> {CHR ''-'', CHR ''+'', CHR ''.'', CHR '':''}"
    by (auto simp: digit_def is_digit_def is_space_def)
qed

lemma decimal_digits: "c \<in> set (decimal n) \<Longrightarrow> \<exists>d<10. c = digit d"
  unfolding decimal_def
proof (induction "10 :: nat" n rule: in_base.induct)
  case (1 n)
  then show ?case
    by (subst (asm) (2) in_base.simps) (auto split: if_splits, (metis mod_less mod_less_divisor zero_less_numeral)+)
qed

lemma decimal_nonempty [simp]: "decimal n \<noteq> []"
  unfolding decimal_def by (subst in_base.simps) simp

lemma dec_value_decimal [simp]: "dec_value (decimal n) = n"
  unfolding decimal_def
proof (induction "10 :: nat" n rule: in_base.induct)
  case (1 n)
  show ?case
  proof (cases "n < 10")
    case True
    then show ?thesis by (subst in_base.simps) (simp add: dec_value_def digit_ten)
  next
    case False
    then have "fold (\<lambda>c v. 10 * v + (of_char c - 48)) (in_base 10 (n div 10)) 0 = n div 10"
      using 1 by (simp add: dec_value_def)
    then show ?thesis
      using False digit_ten(2) [of "n mod 10"] by (subst in_base.simps) (simp add: dec_value_def)
  qed
qed

lemma all_digits_decimal [simp]: "list_all is_digit (decimal n)"
  using decimal_digits digit_ten(1) by (force simp: list_all_iff)

lemma decimal_inject [simp]: "decimal m = decimal n \<longleftrightarrow> m = n"
  by (metis dec_value_decimal)

lemma stoi_decimal: "n < 2 ^ 31 \<Longrightarrow> stoi (decimal n) = Inr (int n)"
proof -
  obtain d ds where s: "decimal n = d # ds" by (cases "decimal n") auto
  then obtain k where k: "k < 10" "d = digit k" using decimal_digits [of d n] by auto
  have "takeWhile is_digit (decimal n) = decimal n"
    using all_digits_decimal [of n] by (simp add: list_all_iff)
  moreover have "\<not> is_space d" "d \<noteq> CHR ''-''" "d \<noteq> CHR ''+''" "int (dec_value (d # ds)) = int n"
    using k digit_ten [of k] dec_value_decimal [of n] s by auto
  ultimately show "n < 2 ^ 31 \<Longrightarrow> stoi (decimal n) = Inr (int n)"
    using s by (simp add: stoi_def Let_def)
qed

section \<open>Dotted IPv4 addresses\<close>

text \<open>\<open>inet_ntoa({htobe32(ip)})\<close>.\<close>

definition ip_octets :: "u32 \<Rightarrow> nat list" where
  "ip_octets ip = map unat [ucast (drop_bit 24 ip) :: u8, ucast (drop_bit 16 ip), ucast (drop_bit 8 ip), ucast ip]"

fun joined :: "char \<Rightarrow> string list \<Rightarrow> string" where
  "joined c [] = []"
| "joined c [s] = s"
| "joined c (s # t # ss) = s @ c # joined c (t # ss)"

definition inet_ntoa :: "u32 \<Rightarrow> string" where
  "inet_ntoa ip = joined (CHR ''.'') (map decimal (ip_octets ip))"

text \<open>
  The numeric addresses that \<open>getaddrinfo\<close> reads under \<open>AI_NUMERICHOST\<close>: four octets, or a single
  number. It is used to run the model on concrete addresses.
\<close>

fun split_at :: "char \<Rightarrow> string \<Rightarrow> string list" where
  "split_at c [] = [[]]"
| "split_at c (x # xs) =
     (if x = c then [] # split_at c xs
      else (x # hd (split_at c xs)) # tl (split_at c xs))"

definition inet_aton :: "string \<Rightarrow> u32 option" where
  "inet_aton s =
     (let parts = split_at (CHR ''.'') s; vs = map dec_value parts in
      if list_all (\<lambda>p. p \<noteq> [] \<and> list_all is_digit p) parts then
        (case vs of
           [v] \<Rightarrow> if v < 2 ^ 32 then Some (of_nat v) else None
         | [a, b, c, d] \<Rightarrow>
             if list_all (\<lambda>v. v < 256) vs
             then Some (of_nat (((a * 256 + b) * 256 + c) * 256 + d)) else None
         | _ \<Rightarrow> None)
      else None)"

lemma split_at_nonempty: "split_at c s \<noteq> []"
  by (induction s) auto

lemma split_at_append: "c \<notin> set s \<Longrightarrow> split_at c (s @ c # t) = s # split_at c t"
  by (induction s) auto

lemma split_at_none: "c \<notin> set s \<Longrightarrow> split_at c s = [s]"
  by (induction s) auto

lemma split_at_joined:
  "ss \<noteq> [] \<Longrightarrow> \<forall>s\<in>set ss. c \<notin> set s \<Longrightarrow> split_at c (joined c ss) = ss"
  by (induction c ss rule: joined.induct) (auto simp: split_at_append split_at_none)

lemma octets_value:
  fixes ip :: u32
  defines "o1 \<equiv> unat (ucast (drop_bit 24 ip) :: u8)" and "o2 \<equiv> unat (ucast (drop_bit 16 ip) :: u8)"
    and "o3 \<equiv> unat (ucast (drop_bit 8 ip) :: u8)" and "o4 \<equiv> unat (ucast ip :: u8)"
  shows "((o1 * 256 + o2) * 256 + o3) * 256 + o4 = unat ip"
proof -
  have o1: "o1 = unat ip div 16777216 mod 256" and o2: "o2 = unat ip div 65536 mod 256"
    and o3: "o3 = unat ip div 256 mod 256" and o4: "o4 = unat ip mod 256"
    by (simp_all add: o1_def o2_def o3_def o4_def unsigned_ucast_eq take_bit_eq_mod
        unat_drop_bit_eq drop_bit_eq_div [where 'a = nat])
  have "unat ip < 2 ^ 32" using unsigned_less [of ip, where 'a = nat] by simp
  then have "unat ip div 16777216 < 256" by simp
  moreover have "unat ip div 16777216 = unat ip div 65536 div 256" "unat ip div 65536 = unat ip div 256 div 256"
    by (simp_all flip: div_mult2_eq)
  ultimately show ?thesis unfolding o1 o2 o3 o4 by (metis div_mult_mod_eq mod_less)
qed

lemma inet_aton_ntoa [simp]: "inet_aton (inet_ntoa ip) = Some ip"
proof -
  have dot: "CHR ''.'' \<notin> set (decimal n)" for n
    using decimal_digits [of "CHR ''.''" n] digit_ten(4) by (metis insertCI)
  have "split_at (CHR ''.'') (inet_ntoa ip) = map decimal (ip_octets ip)"
    unfolding inet_ntoa_def by (rule split_at_joined) (auto simp: ip_octets_def dot)
  moreover have "list_all (\<lambda>v. v < 256) (ip_octets ip)"
    using unsigned_less [where 'a = nat and 'b = 8] by (auto simp: ip_octets_def)
  moreover have "\<forall>n. of_nat (unat ip) = ip" by simp
  ultimately show ?thesis
    using octets_value [of ip] by (simp add: inet_aton_def Let_def ip_octets_def del: of_nat_add of_nat_mult)
qed

lemma inet_ntoa_colon: "CHR '':'' \<notin> set (inet_ntoa ip)"
proof -
  have "CHR '':'' \<notin> set (decimal n)" for n
    using decimal_digits [of "CHR '':''" n] digit_ten(4) by (metis insertCI)
  then show ?thesis by (simp add: inet_ntoa_def ip_octets_def)
qed

lemma inet_ntoa_inject [simp]: "inet_ntoa a = inet_ntoa b \<longleftrightarrow> a = b"
  by (metis inet_aton_ntoa option.inject)

end
