(* ===== verification/Address.thy ===== *)
theory Address
  imports Text Net_Parser
begin

text \<open>
  \<open>libsponge/util/address.{hh,cc}\<close>: a socket address is the bytes of a \<open>sockaddr_storage\<close> and the
  number of them in use. The layout of \<open>sockaddr_in\<close> is that of Linux on a little-endian machine:
  two bytes of family, the port and the address in network order, eight bytes of padding. The
  resolver, \<open>getaddrinfo\<close> and \<open>getnameinfo\<close>, is a parameter.
\<close>

section \<open>The representation\<close>

record address =
  ad_size :: nat
  ad_storage :: "byte list"

definition SOCKADDR_STORAGE :: nat where "SOCKADDR_STORAGE = 128"
definition SOCKADDR_IN :: nat where "SOCKADDR_IN = 16"
definition AF_INET :: "byte list" where "AF_INET = [2, 0]"

definition sockaddr_in :: "u32 \<Rightarrow> u16 \<Rightarrow> byte list" where
  "sockaddr_in ip port = AF_INET @ be16 port @ be32 ip @ replicate 8 0"

definition ad_raw :: "byte list \<Rightarrow> nat \<Rightarrow> exn + address" where
  "ad_raw addr n =
     (if n > SOCKADDR_STORAGE then Inl (Runtime_Error ''invalid sockaddr size'')
      else Inr \<lparr>ad_size = n, ad_storage = take n addr @ replicate (SOCKADDR_STORAGE - n) 0\<rparr>)"

section \<open>Name resolution\<close>

record gai_hints =
  ai_flags :: "string set"
  ai_family :: "byte list"

text \<open>
  \<open>getaddrinfo\<close> answers with a code and the first entry of the result list, \<open>getnameinfo\<close> with a
  code, the host and the service.
\<close>

record resolver =
  gai :: "string \<Rightarrow> string \<Rightarrow> gai_hints \<Rightarrow> int \<times> byte list option"
  gni :: "byte list \<Rightarrow> int \<times> string \<times> string"

definition make_hints :: "string set \<Rightarrow> byte list \<Rightarrow> gai_hints" where
  "make_hints flags family = \<lparr>ai_flags = flags, ai_family = family\<rparr>"

definition ad_resolve :: "resolver \<Rightarrow> string \<Rightarrow> string \<Rightarrow> gai_hints \<Rightarrow> exn + address" where
  "ad_resolve R node service hints =
     (let (gai_ret, resolved) = gai R node service hints in
      if gai_ret \<noteq> 0 then Inl (Tagged_Error (''getaddrinfo('' @ node @ '', '' @ service @ '')'') gai_ret)
      else case resolved of
             None \<Rightarrow> Inl (Runtime_Error ''getaddrinfo returned successfully but with no results'')
           | Some bs \<Rightarrow> ad_raw bs (length bs))"

definition ad_host :: "resolver \<Rightarrow> string \<Rightarrow> string \<Rightarrow> exn + address" where
  "ad_host R hostname service = ad_resolve R hostname service (make_hints {''AI_ALL''} AF_INET)"

definition ad_numeric :: "resolver \<Rightarrow> string \<Rightarrow> u16 \<Rightarrow> exn + address" where
  "ad_numeric R ip port =
     ad_resolve R ip (decimal (unat port)) (make_hints {''AI_NUMERICHOST'', ''AI_NUMERICSERV''} AF_INET)"

section \<open>Conversions\<close>

definition ad_ip_port :: "resolver \<Rightarrow> address \<Rightarrow> exn + string \<times> u16" where
  "ad_ip_port R a =
     (let (gni_ret, ip, port) = gni R (take (ad_size a) (ad_storage a)) in
      if gni_ret \<noteq> 0 then Inl (Tagged_Error ''getnameinfo'' gni_ret)
      else andthen (stoi port) (\<lambda>n. Inr (ip, of_int n)))"

definition ad_ip :: "resolver \<Rightarrow> address \<Rightarrow> exn + string" where
  "ad_ip R a = andthen (ad_ip_port R a) (\<lambda>p. Inr (fst p))"

definition ad_port :: "resolver \<Rightarrow> address \<Rightarrow> exn + u16" where
  "ad_port R a = andthen (ad_ip_port R a) (\<lambda>p. Inr (snd p))"

definition ad_to_string :: "resolver \<Rightarrow> address \<Rightarrow> exn + string" where
  "ad_to_string R a = andthen (ad_ip_port R a) (\<lambda>(ip, port). Inr (ip @ '':'' @ decimal (unat port)))"

definition ipv4_numeric :: "address \<Rightarrow> exn + u32" where
  "ipv4_numeric a =
     (if take 2 (ad_storage a) \<noteq> AF_INET \<or> ad_size a \<noteq> SOCKADDR_IN
      then Inl (Runtime_Error ''ipv4_numeric called on non-IPV4 address'')
      else let s = ad_storage a in Inr (of_be32 (s ! 4) (s ! 5) (s ! 6) (s ! 7)))"

definition from_ipv4_numeric :: "u32 \<Rightarrow> exn + address" where
  "from_ipv4_numeric ip = ad_raw (sockaddr_in ip 0) SOCKADDR_IN"

definition ad_eq :: "address \<Rightarrow> address \<Rightarrow> bool" where
  "ad_eq a b =
     (if ad_size a \<noteq> ad_size b then False
      else take (ad_size a) (ad_storage a) = take (ad_size a) (ad_storage b))"

section \<open>Internet addresses\<close>

definition inet_address :: "u32 \<Rightarrow> u16 \<Rightarrow> address" where
  "inet_address ip port = \<lparr>ad_size = 16, ad_storage = sockaddr_in ip port @ replicate 112 0\<rparr>"

lemma length_sockaddr_in [simp]: "length (sockaddr_in ip port) = 16"
  by (simp add: sockaddr_in_def AF_INET_def)

lemma ad_raw_sockaddr_in [simp]: "ad_raw (sockaddr_in ip port) 16 = Inr (inet_address ip port)"
  by (simp add: ad_raw_def SOCKADDR_STORAGE_def inet_address_def)

lemma from_ipv4_numeric_eq [simp]: "from_ipv4_numeric ip = Inr (inet_address ip 0)"
  by (simp add: from_ipv4_numeric_def SOCKADDR_IN_def)

lemma ipv4_numeric_inet [simp]: "ipv4_numeric (inet_address ip port) = Inr ip"
  by (simp add: ipv4_numeric_def inet_address_def sockaddr_in_def AF_INET_def SOCKADDR_IN_def be16_def be32_def)

lemma inet_address_inject [simp]: "inet_address ip port = inet_address ip' port' \<longleftrightarrow> ip = ip' \<and> port = port'"
proof
  assume eq: "inet_address ip port = inet_address ip' port'"
  then have "ip = ip'" using ipv4_numeric_inet by (metis sum.inject(2))
  moreover have "be16 port = be16 port'"
    using eq by (simp add: inet_address_def sockaddr_in_def be16_def)
  then have "port = port'" by (metis be16_def list.inject of_be16_be16)
  ultimately show "ip = ip' \<and> port = port'" by simp
qed simp

lemma ad_eq_inet [simp]: "ad_eq (inet_address ip port) (inet_address ip' port') \<longleftrightarrow> ip = ip' \<and> port = port'"
proof -
  have "ad_eq (inet_address ip port) (inet_address ip' port') \<longleftrightarrow> sockaddr_in ip port = sockaddr_in ip' port'"
    by (simp add: ad_eq_def inet_address_def)
  also have "\<dots> \<longleftrightarrow> inet_address ip port = inet_address ip' port'" by (simp add: inet_address_def)
  finally show ?thesis by simp
qed

text \<open>Equality of addresses is an equivalence on what the sockaddr in use holds.\<close>

lemma ad_eq_refl [simp]: "ad_eq a a"
  by (simp add: ad_eq_def)

section \<open>A resolver of numeric addresses\<close>

text \<open>
  What the code relies on: the numeric form of an Internet address reads back as the address. The
  manual pages of \<open>getaddrinfo\<close> (\<open>AI_NUMERICHOST\<close>, \<open>AI_NUMERICSERV\<close>) and of \<open>getnameinfo\<close>
  (\<open>NI_NUMERICHOST\<close>, \<open>NI_NUMERICSERV\<close>) promise it.
\<close>

locale numeric_service =
  fixes R :: resolver
  assumes gni_inet: "gni R (sockaddr_in ip port) = (0, inet_ntoa ip, decimal (unat port))"
    and gai_inet: "ai_flags hints = {''AI_NUMERICHOST'', ''AI_NUMERICSERV''} \<Longrightarrow>
      gai R (inet_ntoa ip) (decimal (unat port)) hints = (0, Some (sockaddr_in ip port))"
begin

lemma ip_port_inet: "ad_ip_port R (inet_address ip port) = Inr (inet_ntoa ip, port)"
proof -
  have "unat port < 2 ^ 31" using unsigned_less [of port, where 'a = nat] by simp
  then show ?thesis
    by (simp add: ad_ip_port_def inet_address_def gni_inet stoi_decimal)
qed

lemma ip_inet: "ad_ip R (inet_address ip port) = Inr (inet_ntoa ip)"
  by (simp add: ad_ip_def ip_port_inet)

lemma port_inet: "ad_port R (inet_address ip port) = Inr port"
  by (simp add: ad_port_def ip_port_inet)

lemma numeric_inet: "ad_numeric R (inet_ntoa ip) port = Inr (inet_address ip port)"
  by (simp add: ad_numeric_def ad_resolve_def gai_inet make_hints_def)

lemma to_string_inet: "ad_to_string R (inet_address ip port) = Inr (inet_ntoa ip @ '':'' @ decimal (unat port))"
  by (simp add: ad_to_string_def ip_port_inet)

end

text \<open>The instance: numbers only, every name is unknown.\<close>

definition EAI_NONAME :: int where "EAI_NONAME = -2"
definition EAI_FAMILY :: int where "EAI_FAMILY = -6"

definition numeric_resolver :: resolver where
  "numeric_resolver = \<lparr>
     gai = (\<lambda>node service hints.
       case inet_aton node of
         None \<Rightarrow> (EAI_NONAME, None)
       | Some ip \<Rightarrow>
           if service \<noteq> [] \<and> list_all is_digit service
           then (0, Some (sockaddr_in ip (of_nat (dec_value service)))) else (EAI_NONAME, None)),
     gni = (\<lambda>s.
       if length s = 16 \<and> take 2 s = AF_INET then
         (0, inet_ntoa (of_be32 (s ! 4) (s ! 5) (s ! 6) (s ! 7)), decimal (unat (of_be16 (s ! 2) (s ! 3))))
       else (EAI_FAMILY, [], []))\<rparr>"

interpretation numeric: numeric_service numeric_resolver
proof
  show "gni numeric_resolver (sockaddr_in ip port) = (0, inet_ntoa ip, decimal (unat port))" for ip port
    by (simp add: numeric_resolver_def sockaddr_in_def AF_INET_def be16_def be32_def)
  show "gai numeric_resolver (inet_ntoa ip) (decimal (unat port)) hints = (0, Some (sockaddr_in ip port))"
    for ip port hints by (simp add: numeric_resolver_def)
qed

lemma numeric_text:
  "inet_aton s = Some ip \<Longrightarrow> ad_numeric numeric_resolver s port = Inr (inet_address ip port)"
  by (simp add: ad_numeric_def ad_resolve_def numeric_resolver_def make_hints_def)

section \<open>Addresses as text\<close>

text \<open>(addresses as text) With a resolver that reads numeric addresses back, the printed form
  \<open>ip:port\<close> of an Internet address names it uniquely: its \<open>ip()\<close> and \<open>port()\<close> give the address
  again, \<open>ipv4_numeric\<close> and \<open>from_ipv4_numeric\<close> are inverse, and two addresses that print the same
  are equal.\<close>

theorem address_text_roundtrip:
  assumes "numeric_service R" and "a = inet_address ip port" and "b = inet_address ip' port'"
  shows "andthen (ad_ip R a) (\<lambda>s. andthen (ad_port R a) (ad_numeric R s)) = Inr a \<and>
    ipv4_numeric a = Inr ip \<and> from_ipv4_numeric ip = Inr (inet_address ip 0) \<and>
    (ad_to_string R a = ad_to_string R b \<longleftrightarrow> ad_eq a b)"
proof -
  note R = numeric_service.ip_inet [OF assms(1)] numeric_service.port_inet [OF assms(1)]
    numeric_service.numeric_inet [OF assms(1)] numeric_service.to_string_inet [OF assms(1)]
  have colon: "CHR '':'' \<notin> set (inet_ntoa i)" for i
    by (rule inet_ntoa_colon)
  have "split_at (CHR '':'') (inet_ntoa i @ '':'' @ decimal (unat p)) = [inet_ntoa i, decimal (unat p)]"
    for i and p :: u16
    using decimal_digits [of "CHR '':''" "unat p"] digit_ten(4)
    by (simp add: split_at_append colon) (metis insertCI split_at_none)
  then have "ad_to_string R a = ad_to_string R b \<longleftrightarrow> ip = ip' \<and> port = port'"
    unfolding assms(2,3) R by (metis decimal_inject inet_ntoa_inject list.inject sum.inject(2) unsigned_word_eqI)
  then show ?thesis by (simp add: assms(2,3) R)
qed

theorem address_text_roundtrip_witness:
  "andthen (ad_ip numeric_resolver (inet_address 0xC0A80001 80))
     (\<lambda>s. andthen (ad_port numeric_resolver (inet_address 0xC0A80001 80)) (ad_numeric numeric_resolver s)) =
   Inr (inet_address 0xC0A80001 80)"
  using address_text_roundtrip [OF numeric.numeric_service_axioms refl refl] by blast

end
