(* ===== verification/File_Descriptor.thy ===== *)
theory File_Descriptor
  imports Address Buffers "HOL-Library.Sublist"
begin

text \<open>
  \<open>libsponge/util/file_descriptor.{hh,cc}\<close>, \<open>socket.{hh,cc}\<close>, \<open>tun.cc\<close> and \<open>SystemCall\<close> of \<open>util.cc\<close>: the
  wrappers around the system calls. The kernel is a parameter, a function from a call and its own
  state to a reply and the next state; a reply has the return value, \<open>errno\<close>, and the bytes, the address
  and the numbers that the call stores through its pointers. A descriptor is the record that all its copies
  share.
\<close>

section \<open>The kernel\<close>

datatype sys_call =
    Sys_Read int nat
  | Sys_Writev int "byte list list"
  | Sys_Close int
  | Sys_Getfl int
  | Sys_Setfl int int
  | Sys_Socket int int
  | Sys_Socketpair int int
  | Sys_Getsockopt int string
  | Sys_Setsockopt int string int
  | Sys_Getsockname int
  | Sys_Getpeername int
  | Sys_Bind int "byte list"
  | Sys_Connect int "byte list"
  | Sys_Shutdown int int
  | Sys_Recvfrom int nat
  | Sys_Sendmsg int "byte list option" "byte list list"
  | Sys_Listen int int
  | Sys_Accept int
  | Sys_Open string
  | Sys_Tunsetiff int "byte list" "string set"

record sys_reply =
  sr_ret :: int
  sr_errno :: int
  sr_bytes :: "byte list"
  sr_address :: "byte list"
  sr_value :: int
  sr_second :: int

type_synonym 'k kernel = "sys_call \<Rightarrow> 'k \<Rightarrow> sys_reply \<times> 'k"

definition system_call :: "string \<Rightarrow> int \<Rightarrow> int \<Rightarrow> int \<Rightarrow> exn + int" where
  "system_call attempt return_value errno_mask errno =
     (if return_value \<ge> 0 \<or> errno = errno_mask then Inr return_value
      else Inl (Tagged_Error attempt errno))"

text \<open>\<open>SystemCall(attempt, ::call(...))\<close>.\<close>

definition sys :: "'k kernel \<Rightarrow> string \<Rightarrow> sys_call \<Rightarrow> 'k \<Rightarrow> exn + sys_reply \<times> 'k" where
  "sys K attempt call k =
     (let (reply, k) = K call k in
      andthen (system_call attempt (sr_ret reply) 0 (sr_errno reply)) (\<lambda>_. Inr (reply, k)))"

section \<open>FileDescriptor\<close>

record fd_wrapper =
  fd_num :: int
  fd_eof :: bool
  fd_closed :: bool
  fd_read_count :: u32
  fd_write_count :: u32

text \<open>\<open>to_string(int)\<close>.\<close>

definition int_decimal :: "int \<Rightarrow> string" where
  "int_decimal n = (if n < 0 then ''-'' @ decimal (nat (- n)) else decimal (nat n))"

definition fd_new :: "int \<Rightarrow> exn + fd_wrapper" where
  "fd_new fd =
     (if fd < 0 then Inl (Runtime_Error (''invalid fd number:'' @ int_decimal fd))
      else Inr \<lparr>fd_num = fd, fd_eof = False, fd_closed = False, fd_read_count = 0, fd_write_count = 0\<rparr>)"

definition fd_close :: "'k kernel \<Rightarrow> fd_wrapper \<Rightarrow> 'k \<Rightarrow> exn + fd_wrapper \<times> 'k" where
  "fd_close K fd k =
     andthen (sys K ''close'' (Sys_Close (fd_num fd)) k) (\<lambda>(_, k).
       Inr (fd\<lparr>fd_closed := True, fd_eof := True\<rparr>, k))"

text \<open>The destructor of the last copy swallows exceptions.\<close>

definition fd_destructor :: "'k kernel \<Rightarrow> fd_wrapper \<Rightarrow> 'k \<Rightarrow> 'k" where
  "fd_destructor K fd k =
     (if fd_closed fd then k
      else case fd_close K fd k of Inr (_, k) \<Rightarrow> k | Inl _ \<Rightarrow> snd (K (Sys_Close (fd_num fd)) k))"

definition fd_register_read :: "fd_wrapper \<Rightarrow> fd_wrapper" where
  "fd_register_read fd = fd\<lparr>fd_read_count := fd_read_count fd + 1\<rparr>"

definition fd_register_write :: "fd_wrapper \<Rightarrow> fd_wrapper" where
  "fd_register_write fd = fd\<lparr>fd_write_count := fd_write_count fd + 1\<rparr>"

definition BUFFER_SIZE :: nat where "BUFFER_SIZE = 1024 * 1024"

text \<open>A string of \<open>n\<close> null characters after the kernel has stored \<open>s\<close> in it.\<close>

definition stored :: "nat \<Rightarrow> byte list \<Rightarrow> byte list" where
  "stored n s = take n s @ replicate (n - length s) 0"

text \<open>Resizing a string to a negative number of bytes throws.\<close>

definition str_shrink :: "int \<Rightarrow> byte list \<Rightarrow> exn + byte list" where
  "str_shrink n s = (if n < 0 then Inl (Out_Of_Range ''basic_string::resize'') else Inr (take (nat n) s))"

definition fd_read :: "'k kernel \<Rightarrow> nat \<Rightarrow> fd_wrapper \<Rightarrow> 'k \<Rightarrow> exn + byte list \<times> fd_wrapper \<times> 'k" where
  "fd_read K limit fd k =
     (let size_to_read = min BUFFER_SIZE limit in
      andthen (sys K ''read'' (Sys_Read (fd_num fd) size_to_read) k) (\<lambda>(reply, k).
        let bytes_read = sr_ret reply;
            fd = (if limit > 0 \<and> bytes_read = 0 then fd\<lparr>fd_eof := True\<rparr> else fd) in
        if bytes_read > int size_to_read then Inl (Runtime_Error ''read() read more than requested'')
        else andthen (str_shrink bytes_read (stored size_to_read (sr_bytes reply))) (\<lambda>str. Inr (str, fd_register_read fd, k))))"

lemma bvl_remove_prefix_size:
  assumes "bvl_remove_prefix n views = Inr rest" and "n \<le> bvl_size views"
  shows "bvl_size rest = bvl_size views - n" and "concat rest = drop n (concat views)"
  using bvl_remove_prefix_ok [of n views] assms by (auto simp: bvl_size_eq)

text \<open>\<open>do { ... } while (write_all and buffer.size())\<close>; what has been handed to the kernel is collected.\<close>

function fd_write_loop ::
  "'k kernel \<Rightarrow> buffer_view_list \<Rightarrow> bool \<Rightarrow> nat \<Rightarrow> fd_wrapper \<Rightarrow> 'k \<Rightarrow> exn + nat \<times> fd_wrapper \<times> 'k" where
  "fd_write_loop K buffer write_all written fd k =
     andthen (sys K ''writev'' (Sys_Writev (fd_num fd) buffer) k) (\<lambda>(reply, k).
       let bytes_written = sr_ret reply in
       if bytes_written = 0 \<and> bvl_size buffer \<noteq> 0
       then Inl (Runtime_Error ''write returned 0 given non-empty input buffer'')
       else if bytes_written > int (bvl_size buffer)
       then Inl (Runtime_Error ''write wrote more than length of input buffer'')
       else if bytes_written < 0 then Inl (Out_Of_Range ''BufferListView::remove_prefix'')
       else
         andthen (bvl_remove_prefix (nat bytes_written) buffer) (\<lambda>rest.
           if write_all \<and> bvl_size rest \<noteq> 0
           then fd_write_loop K rest write_all (written + nat bytes_written) (fd_register_write fd) k
           else Inr (written + nat bytes_written, fd_register_write fd, k)))"
  by auto

termination
proof (relation "measure (\<lambda>(K, buffer, _). bvl_size buffer)", goal_cases)
  case (2 K buffer write_all written fd k x reply k' bytes_written rest)
  then have bounds: "0 \<le> bytes_written" "bytes_written \<le> int (bvl_size buffer)" "bvl_size rest \<noteq> 0"
    "bytes_written = 0 \<Longrightarrow> bvl_size buffer = 0" by auto
  moreover have "bvl_size rest = bvl_size buffer - nat bytes_written"
    using 2 bounds by (intro bvl_remove_prefix_size) auto
  moreover have "bytes_written \<noteq> 0" using calculation by auto
  ultimately show ?case by simp
qed simp

declare fd_write_loop.simps [simp del]

definition fd_write ::
  "'k kernel \<Rightarrow> buffer_view_list \<Rightarrow> bool \<Rightarrow> fd_wrapper \<Rightarrow> 'k \<Rightarrow> exn + nat \<times> fd_wrapper \<times> 'k" where
  "fd_write K buffer write_all fd k = fd_write_loop K buffer write_all 0 fd k"

definition O_NONBLOCK :: int where "O_NONBLOCK = 2048"

definition fd_set_blocking :: "'k kernel \<Rightarrow> bool \<Rightarrow> fd_wrapper \<Rightarrow> 'k \<Rightarrow> exn + 'k" where
  "fd_set_blocking K blocking_state fd k =
     andthen (sys K ''fcntl'' (Sys_Getfl (fd_num fd)) k) (\<lambda>(reply, k).
       let flags = sr_ret reply;
           flags = (if blocking_state then flags XOR (flags AND O_NONBLOCK) else flags OR O_NONBLOCK) in
       andthen (sys K ''fcntl'' (Sys_Setfl (fd_num fd) flags) k) (\<lambda>(_, k). Inr k))"

lemma fd_read_limit:
  assumes "fd_read K limit fd k = Inr (str, fd', k')"
  shows "length str \<le> limit"
  using assms by (auto simp: fd_read_def Let_def str_shrink_def stored_def split: if_splits)

lemma andthen_Inl: "andthen m f = Inl e \<longleftrightarrow> m = Inl e \<or> (\<exists>x. m = Inr x \<and> f x = Inl e)"
  by (cases m) auto

lemma fd_read_error:
  assumes "fd_read K limit fd k = Inl e"
  shows "e \<in> {Runtime_Error ''read() read more than requested'', Out_Of_Range ''basic_string::resize''} \<or>
    (\<exists>errno. e = Tagged_Error ''read'' errno)"
  using assms
  by (auto simp: fd_read_def Let_def str_shrink_def andthen_Inl sys_def system_call_def split: if_splits prod.splits)

section \<open>Socket\<close>

definition DOMAIN_INET :: int where "DOMAIN_INET = 2"
definition DOMAIN_UNIX :: int where "DOMAIN_UNIX = 1"
definition SOCK_STREAM :: int where "SOCK_STREAM = 1"
definition SOCK_DGRAM :: int where "SOCK_DGRAM = 2"

definition so_new :: "'k kernel \<Rightarrow> int \<Rightarrow> int \<Rightarrow> 'k \<Rightarrow> exn + fd_wrapper \<times> 'k" where
  "so_new K domain type k =
     andthen (sys K ''socket'' (Sys_Socket domain type) k) (\<lambda>(reply, k).
     andthen (fd_new (sr_ret reply)) (\<lambda>fd. Inr (fd, k)))"

text \<open>The length stored by the kernel is that of the bytes it stored.\<close>

definition so_check ::
  "'k kernel \<Rightarrow> string \<Rightarrow> int \<Rightarrow> string \<Rightarrow> fd_wrapper \<Rightarrow> 'k \<Rightarrow> exn + 'k" where
  "so_check K option expected message fd k =
     andthen (sys K ''getsockopt'' (Sys_Getsockopt (fd_num fd) option) k) (\<lambda>(reply, k).
       if length (sr_bytes reply) \<noteq> 4 \<or> sr_value reply \<noteq> expected then Inl (Runtime_Error message) else Inr k)"

definition so_of_fd :: "'k kernel \<Rightarrow> fd_wrapper \<Rightarrow> int \<Rightarrow> int \<Rightarrow> 'k \<Rightarrow> exn + fd_wrapper \<times> 'k" where
  "so_of_fd K fd domain type k =
     andthen (so_check K ''SO_DOMAIN'' domain ''socket domain mismatch'' fd k) (\<lambda>k.
     andthen (so_check K ''SO_TYPE'' type ''socket type mismatch'' fd k) (\<lambda>k. Inr (fd, k)))"

definition so_get_address ::
  "'k kernel \<Rightarrow> string \<Rightarrow> (int \<Rightarrow> sys_call) \<Rightarrow> fd_wrapper \<Rightarrow> 'k \<Rightarrow> exn + address \<times> 'k" where
  "so_get_address K name_of_function function fd k =
     andthen (sys K name_of_function (function (fd_num fd)) k) (\<lambda>(reply, k).
     andthen (ad_raw (sr_address reply) (length (sr_address reply))) (\<lambda>a. Inr (a, k)))"

definition so_local_address :: "'k kernel \<Rightarrow> fd_wrapper \<Rightarrow> 'k \<Rightarrow> exn + address \<times> 'k" where
  "so_local_address K = so_get_address K ''getsockname'' Sys_Getsockname"

definition so_peer_address :: "'k kernel \<Rightarrow> fd_wrapper \<Rightarrow> 'k \<Rightarrow> exn + address \<times> 'k" where
  "so_peer_address K = so_get_address K ''getpeername'' Sys_Getpeername"

definition ad_bytes :: "address \<Rightarrow> byte list" where
  "ad_bytes a = take (ad_size a) (ad_storage a)"

definition so_bind :: "'k kernel \<Rightarrow> address \<Rightarrow> fd_wrapper \<Rightarrow> 'k \<Rightarrow> exn + 'k" where
  "so_bind K a fd k = andthen (sys K ''bind'' (Sys_Bind (fd_num fd) (ad_bytes a)) k) (\<lambda>(_, k). Inr k)"

definition so_connect :: "'k kernel \<Rightarrow> address \<Rightarrow> fd_wrapper \<Rightarrow> 'k \<Rightarrow> exn + 'k" where
  "so_connect K a fd k = andthen (sys K ''connect'' (Sys_Connect (fd_num fd) (ad_bytes a)) k) (\<lambda>(_, k). Inr k)"

definition SHUT_RD :: int where "SHUT_RD = 0"
definition SHUT_WR :: int where "SHUT_WR = 1"
definition SHUT_RDWR :: int where "SHUT_RDWR = 2"

definition so_shutdown :: "'k kernel \<Rightarrow> int \<Rightarrow> fd_wrapper \<Rightarrow> 'k \<Rightarrow> exn + fd_wrapper \<times> 'k" where
  "so_shutdown K how fd k =
     andthen (sys K ''shutdown'' (Sys_Shutdown (fd_num fd) how) k) (\<lambda>(_, k).
       if how = SHUT_RD then Inr (fd_register_read fd, k)
       else if how = SHUT_WR then Inr (fd_register_write fd, k)
       else if how = SHUT_RDWR then Inr (fd_register_write (fd_register_read fd), k)
       else Inl (Runtime_Error ''Socket::shutdown() called with invalid `how`''))"

definition so_set_reuseaddr :: "'k kernel \<Rightarrow> fd_wrapper \<Rightarrow> 'k \<Rightarrow> exn + 'k" where
  "so_set_reuseaddr K fd k =
     andthen (sys K ''setsockopt'' (Sys_Setsockopt (fd_num fd) ''SO_REUSEADDR'' 1) k) (\<lambda>(_, k). Inr k)"

section \<open>UDPSocket and TCPSocket\<close>

record received_datagram =
  rd_source_address :: address
  rd_payload :: "byte list"

definition us_recv :: "'k kernel \<Rightarrow> nat \<Rightarrow> fd_wrapper \<Rightarrow> 'k \<Rightarrow> exn + received_datagram \<times> fd_wrapper \<times> 'k" where
  "us_recv K mtu fd k =
     andthen (sys K ''recvfrom'' (Sys_Recvfrom (fd_num fd) mtu) k) (\<lambda>(reply, k).
       let recv_len = sr_ret reply in
       if recv_len > int mtu then Inl (Runtime_Error ''recvfrom (oversized datagram)'')
       else
         andthen (ad_raw (sr_address reply) (length (sr_address reply))) (\<lambda>source_address.
         andthen (str_shrink recv_len (stored mtu (sr_bytes reply))) (\<lambda>payload.
           Inr (\<lparr>rd_source_address = source_address, rd_payload = payload\<rparr>, fd_register_read fd, k))))"

definition sendmsg_helper ::
  "'k kernel \<Rightarrow> int \<Rightarrow> byte list option \<Rightarrow> buffer_view_list \<Rightarrow> 'k \<Rightarrow> exn + 'k" where
  "sendmsg_helper K fd destination_address payload k =
     andthen (sys K ''sendmsg'' (Sys_Sendmsg fd destination_address payload) k) (\<lambda>(reply, k).
       if sr_ret reply \<noteq> int (bvl_size payload)
       then Inl (Runtime_Error ''datagram payload too big for sendmsg()'') else Inr k)"

definition us_sendto ::
  "'k kernel \<Rightarrow> address \<Rightarrow> buffer_view_list \<Rightarrow> fd_wrapper \<Rightarrow> 'k \<Rightarrow> exn + fd_wrapper \<times> 'k" where
  "us_sendto K destination payload fd k =
     andthen (sendmsg_helper K (fd_num fd) (Some (ad_bytes destination)) payload k) (\<lambda>k.
       Inr (fd_register_write fd, k))"

definition us_send :: "'k kernel \<Rightarrow> buffer_view_list \<Rightarrow> fd_wrapper \<Rightarrow> 'k \<Rightarrow> exn + fd_wrapper \<times> 'k" where
  "us_send K payload fd k =
     andthen (sendmsg_helper K (fd_num fd) None payload k) (\<lambda>k. Inr (fd_register_write fd, k))"

definition tcp_listen :: "'k kernel \<Rightarrow> int \<Rightarrow> fd_wrapper \<Rightarrow> 'k \<Rightarrow> exn + 'k" where
  "tcp_listen K backlog fd k = andthen (sys K ''listen'' (Sys_Listen (fd_num fd) backlog) k) (\<lambda>(_, k). Inr k)"

text \<open>The new socket, the listening one with its count, the kernel.\<close>

definition tcp_accept :: "'k kernel \<Rightarrow> fd_wrapper \<Rightarrow> 'k \<Rightarrow> exn + fd_wrapper \<times> fd_wrapper \<times> 'k" where
  "tcp_accept K fd k =
     (let fd = fd_register_read fd in
      andthen (sys K ''accept'' (Sys_Accept (fd_num fd)) k) (\<lambda>(reply, k).
      andthen (fd_new (sr_ret reply)) (\<lambda>new.
      andthen (so_of_fd K new DOMAIN_INET SOCK_STREAM k) (\<lambda>(new, k). Inr (new, fd, k)))))"

section \<open>TUN and TAP devices\<close>

definition IFNAMSIZ :: nat where "IFNAMSIZ = 16"

text \<open>\<open>strncpy\<close> copies up to the first null character and pads with nulls.\<close>

definition tun_ifr_name :: "byte list \<Rightarrow> byte list" where
  "tun_ifr_name devname =
     (let s = take (IFNAMSIZ - 1) (takeWhile (\<lambda>b. b \<noteq> 0) devname) in s @ replicate (IFNAMSIZ - length s) 0)"

definition tun_new :: "'k kernel \<Rightarrow> byte list \<Rightarrow> bool \<Rightarrow> 'k \<Rightarrow> exn + fd_wrapper \<times> 'k" where
  "tun_new K devname is_tun k =
     andthen (sys K ''open'' (Sys_Open ''/dev/net/tun'') k) (\<lambda>(reply, k).
     andthen (fd_new (sr_ret reply)) (\<lambda>fd.
     andthen (sys K ''ioctl'' (Sys_Tunsetiff (fd_num fd) (tun_ifr_name devname)
         {if is_tun then ''IFF_TUN'' else ''IFF_TAP'', ''IFF_NO_PI''}) k) (\<lambda>(_, k). Inr (fd, k))))"

section \<open>Writing everything\<close>

text \<open>
  What the kernel takes of the views handed to \<open>writev\<close> in the course of a write: as many bytes as it
  says. \<open>fd_taken\<close> collects them by following the loop.
\<close>

function fd_taken :: "'k kernel \<Rightarrow> buffer_view_list \<Rightarrow> bool \<Rightarrow> fd_wrapper \<Rightarrow> 'k \<Rightarrow> byte list" where
  "fd_taken K buffer write_all fd k =
     (case sys K ''writev'' (Sys_Writev (fd_num fd) buffer) k of
        Inl e \<Rightarrow> []
      | Inr (reply, k) \<Rightarrow>
          let n = nat (sr_ret reply) in
          take n (concat buffer) @
          (case bvl_remove_prefix n buffer of
             Inl e \<Rightarrow> []
           | Inr rest \<Rightarrow>
               if write_all \<and> 0 < n \<and> n \<le> bvl_size buffer \<and> bvl_size rest \<noteq> 0
               then fd_taken K rest write_all (fd_register_write fd) k else []))"
  by auto
termination
proof (relation "measure (\<lambda>(K, buffer, _). bvl_size buffer)", goal_cases)
  case (2 K buffer write_all fd k r reply k' n rest)
  then show ?case using bvl_remove_prefix_size(1) [of n buffer rest] by simp
qed simp

declare fd_taken.simps [simp del]

lemma fd_write_loop_step:
  assumes "fd_write_loop K buffer write_all written fd k = Inr result"
  obtains reply k1 rest where
    "sys K ''writev'' (Sys_Writev (fd_num fd) buffer) k = Inr (reply, k1)"
    "\<not> (sr_ret reply = 0 \<and> bvl_size buffer \<noteq> 0)" "\<not> sr_ret reply > int (bvl_size buffer)"
    "\<not> sr_ret reply < 0" "bvl_remove_prefix (nat (sr_ret reply)) buffer = Inr rest"
    "(if write_all \<and> bvl_size rest \<noteq> 0
      then fd_write_loop K rest write_all (written + nat (sr_ret reply)) (fd_register_write fd) k1
      else Inr (written + nat (sr_ret reply), fd_register_write fd, k1)) = Inr result"
  using assms by (subst (asm) fd_write_loop.simps) (auto simp: Let_def split: if_split_asm)

lemma fd_write_loop_taken:
  assumes "fd_write_loop K buffer write_all written fd k = Inr (n, fd', k')"
  shows "n = written + length (fd_taken K buffer write_all fd k) \<and>
    prefix (fd_taken K buffer write_all fd k) (concat buffer) \<and>
    (write_all \<longrightarrow> fd_taken K buffer write_all fd k = concat buffer)"
  using assms
proof (induction K buffer write_all written fd k arbitrary: n fd' k' rule: fd_write_loop.induct)
  case (1 K buffer write_all written fd k)
  obtain reply k1 rest where reply: "sys K ''writev'' (Sys_Writev (fd_num fd) buffer) k = Inr (reply, k1)"
    and ok: "\<not> (sr_ret reply = 0 \<and> bvl_size buffer \<noteq> 0)" "\<not> sr_ret reply > int (bvl_size buffer)"
      "\<not> sr_ret reply < 0"
    and rest: "bvl_remove_prefix (nat (sr_ret reply)) buffer = Inr rest"
    and result: "(if write_all \<and> bvl_size rest \<noteq> 0
      then fd_write_loop K rest write_all (written + nat (sr_ret reply)) (fd_register_write fd) k1
      else Inr (written + nat (sr_ret reply), fd_register_write fd, k1)) = Inr (n, fd', k')"
    using "1.prems" by (rule fd_write_loop_step)
  define w where "w = nat (sr_ret reply)"
  have w: "w \<le> bvl_size buffer" using ok by (simp add: w_def)
  note size = bvl_remove_prefix_size [OF rest [folded w_def] w]
  have len: "length (take w (concat buffer)) = w" using w by (simp add: bvl_size_eq)
  show ?case
  proof (cases "write_all \<and> bvl_size rest \<noteq> 0")
    case True
    have more: "fd_write_loop K rest write_all (written + w) (fd_register_write fd) k1 = Inr (n, fd', k')"
      using result True by (simp add: w_def)
    have "0 < w" using ok size True by (cases "w = 0") (auto simp: w_def)
    then have taken: "fd_taken K buffer write_all fd k =
        take w (concat buffer) @ fd_taken K rest write_all (fd_register_write fd) k1"
      using reply rest w True by (subst fd_taken.simps) (simp add: w_def)
    have IH: "n = written + w + length (fd_taken K rest write_all (fd_register_write fd) k1)"
      "fd_taken K rest write_all (fd_register_write fd) k1 = concat rest"
      using "1.IH" [OF reply [folded sys_def] refl refl ok rest True more [unfolded w_def]] True
      by (simp_all add: w_def)
    have "fd_taken K buffer write_all fd k = concat buffer" using IH(2) taken size(2) by simp
    then show ?thesis using IH taken len size(2) True by simp
  next
    case False
    have n: "n = written + w" using result False by (auto simp: w_def)
    have taken: "fd_taken K buffer write_all fd k = take w (concat buffer)"
      using reply rest False by (subst fd_taken.simps) (auto simp: w_def)
    have "take w (concat buffer) = concat buffer" if write_all
    proof -
      have "bvl_size buffer \<le> w" using False that size(1) by simp
      then show ?thesis by (simp add: bvl_size_eq)
    qed
    then have "write_all \<longrightarrow> fd_taken K buffer write_all fd k = concat buffer" unfolding taken by blast
    moreover have "n = written + length (fd_taken K buffer write_all fd k)" using n taken len by simp
    ultimately show ?thesis unfolding taken by (blast intro: take_is_prefix)
  qed
qed

text \<open>C28: (writing everything) \<open>FileDescriptor::write\<close> returns or throws, whatever the kernel does. When it
  returns, it returns the number of bytes that the kernel took, these are a prefix of the buffer in order,
  and with \<open>write_all\<close> they are the whole buffer.\<close>

theorem write_takes_prefix:
  "case fd_write K buffer write_all fd k of
     Inl e \<Rightarrow> True
   | Inr (n, fd', k') \<Rightarrow>
       n = length (fd_taken K buffer write_all fd k) \<and> prefix (fd_taken K buffer write_all fd k) (concat buffer) \<and>
       (if write_all then n = bvl_size buffer else True)"
proof (cases "fd_write K buffer write_all fd k")
  case (Inr r)
  obtain n fd' k' where r: "r = (n, fd', k')" by (cases r)
  show ?thesis
    using fd_write_loop_taken [of K buffer write_all 0 fd k n fd' k'] Inr unfolding r
    by (cases write_all) (simp_all add: fd_write_def bvl_size_eq)
qed simp

end
