(* ===== verification/Event_Loop.thy ===== *)
theory Event_Loop
  imports File_Descriptor
begin

text \<open>
  \<open>libsponge/util/eventloop.{hh,cc}\<close>: rules that are served when their descriptor is ready. The
  functions of a rule work on a world of any type, which holds the descriptors and whatever the rules
  capture by reference; a rule's descriptor is read from the world, since all copies share one record.
  Every \<open>interest\<close> function of the repository only tests the captured state, so it is a predicate.
  \<open>poll(2)\<close> is a parameter.
\<close>

section \<open>Rules\<close>

datatype direction = Dir_In | Dir_Out

definition POLLIN :: "16 word" where "POLLIN = 1"
definition POLLOUT :: "16 word" where "POLLOUT = 4"
definition POLLERR :: "16 word" where "POLLERR = 8"
definition POLLHUP :: "16 word" where "POLLHUP = 16"
definition POLLNVAL :: "16 word" where "POLLNVAL = 32"

fun direction_events :: "direction \<Rightarrow> 16 word" where
  "direction_events Dir_In = POLLIN"
| "direction_events Dir_Out = POLLOUT"

record 'w el_rule =
  ru_fd :: "'w \<Rightarrow> fd_wrapper"
  ru_direction :: direction
  ru_callback :: "'w \<Rightarrow> exn + 'w"
  ru_interest :: "'w \<Rightarrow> bool"
  ru_cancel :: "'w \<Rightarrow> exn + 'w"

definition ru_service_count :: "'w el_rule \<Rightarrow> 'w \<Rightarrow> u32" where
  "ru_service_count r w =
     (if ru_direction r = Dir_In then fd_read_count (ru_fd r w) else fd_write_count (ru_fd r w))"

datatype el_result = El_Success | El_Timeout | El_Exit

definition el_add_rule ::
  "('w \<Rightarrow> fd_wrapper) \<Rightarrow> direction \<Rightarrow> ('w \<Rightarrow> exn + 'w) \<Rightarrow> ('w \<Rightarrow> bool) \<Rightarrow> ('w \<Rightarrow> exn + 'w) \<Rightarrow>
     'w el_rule list \<Rightarrow> 'w el_rule list" where
  "el_add_rule fd direction callback interest cancel rules =
     rules @ [\<lparr>ru_fd = fd, ru_direction = direction, ru_callback = callback, ru_interest = interest,
               ru_cancel = cancel\<rparr>]"

section \<open>wait_next_event\<close>

record pollfd =
  pf_fd :: int
  pf_events :: "16 word"
  pf_revents :: "16 word"

text \<open>The first loop: cancel what is at its end or closed, list what to poll.\<close>

definition ru_defunct :: "'w el_rule \<Rightarrow> 'w \<Rightarrow> bool" where
  "ru_defunct r w \<longleftrightarrow> (ru_direction r = Dir_In \<and> fd_eof (ru_fd r w)) \<or> fd_closed (ru_fd r w)"

definition ru_pollfd :: "'w el_rule \<Rightarrow> 'w \<Rightarrow> pollfd" where
  "ru_pollfd r w =
     \<lparr>pf_fd = fd_num (ru_fd r w),
      pf_events = (if ru_interest r w then direction_events (ru_direction r) else 0), pf_revents = 0\<rparr>"

fun el_setup :: "'w el_rule list \<Rightarrow> 'w \<Rightarrow> exn + 'w el_rule list \<times> pollfd list \<times> bool \<times> 'w" where
  "el_setup [] w = Inr ([], [], False, w)"
| "el_setup (r # rs) w =
     (if ru_defunct r w then andthen (ru_cancel r w) (\<lambda>w. el_setup rs w)
      else
        andthen (el_setup rs w) (\<lambda>(kept, pollfds, something_to_poll, w').
          Inr (r # kept, ru_pollfd r w # pollfds, ru_interest r w \<or> something_to_poll, w')))"

text \<open>
  The second loop, over the rules and the answers of \<open>poll\<close>, position by position. There is an answer
  for every rule (\<open>el_setup_aligned\<close>); reading one that is missing would be undefined.
\<close>

fun el_serve :: "'w el_rule list \<Rightarrow> pollfd list \<Rightarrow> 'w \<Rightarrow> exn + 'w el_rule list \<times> 'w" where
  "el_serve [] pollfds w = Inr ([], w)"
| "el_serve (r # rs) [] w = Inl (Undefined_Behaviour ''pollfds[idx]'')"
| "el_serve (r # rs) (p # ps) w =
     (if pf_revents p AND (POLLERR OR POLLNVAL) \<noteq> 0
      then Inl (Runtime_Error ''EventLoop: error on polled file descriptor'')
      else
        let poll_ready = (pf_revents p AND pf_events p \<noteq> 0);
            poll_hup = (pf_revents p AND POLLHUP \<noteq> 0) in
        if poll_hup \<and> pf_events p \<noteq> 0 \<and> \<not> poll_ready
        then andthen (ru_cancel r w) (\<lambda>w. el_serve rs ps w)
        else
          andthen
            (if poll_ready
             then
               andthen (ru_callback r w) (\<lambda>w'.
                 if ru_service_count r w = ru_service_count r w' \<and> ru_interest r w'
                 then Inl (Runtime_Error
                   ''EventLoop: busy wait detected: callback did not read/write fd and is still interested'')
                 else Inr w')
             else Inr w)
            (\<lambda>w. andthen (el_serve rs ps w) (\<lambda>(kept, w). Inr (r # kept, w))))"

text \<open>
  What \<open>poll\<close> does, given the list and the time: its return value, \<open>errno\<close>, what it stores in the
  \<open>revents\<close> of each entry, and the next world.
\<close>

record poll_reply =
  pr_ret :: int
  pr_errno :: int
  pr_revents :: "nat \<Rightarrow> 16 word"

type_synonym 'w poll = "pollfd list \<Rightarrow> int \<Rightarrow> 'w \<Rightarrow> poll_reply \<times> 'w"

definition EINTR :: int where "EINTR = 4"

definition polled :: "pollfd list \<Rightarrow> poll_reply \<Rightarrow> pollfd list" where
  "polled pollfds reply =
     map2 (\<lambda>p i. p\<lparr>pf_revents := pr_revents reply i\<rparr>) pollfds [0..<length pollfds]"

definition el_wait_next_event ::
  "'w poll \<Rightarrow> int \<Rightarrow> 'w el_rule list \<Rightarrow> 'w \<Rightarrow> exn + el_result \<times> 'w el_rule list \<times> 'w" where
  "el_wait_next_event poll timeout_ms rules w =
     andthen (el_setup rules w) (\<lambda>(rules, pollfds, something_to_poll, w).
       if \<not> something_to_poll then Inr (El_Exit, rules, w)
       else
         let (reply, w) = poll pollfds timeout_ms w;
             serve = andthen (el_serve rules (polled pollfds reply) w) (\<lambda>(rules, w). Inr (El_Success, rules, w))
         in
         case system_call ''poll'' (pr_ret reply) 0 (pr_errno reply) of
           Inr n \<Rightarrow> if n = 0 then Inr (El_Timeout, rules, w) else serve
         | Inl e \<Rightarrow> if pr_errno reply = EINTR then Inr (El_Exit, rules, w) else serve)"

section \<open>The two loops agree on the positions\<close>

lemma subseq_subset: "subseq xs ys \<Longrightarrow> set xs \<subseteq> set ys"
  by (induction rule: list_emb.induct) auto

lemma el_setup_aligned:
  "el_setup rules w = Inr (kept, pollfds, something, w') \<Longrightarrow>
     length pollfds = length kept \<and> subseq kept rules \<and> (something \<longleftrightarrow> (\<exists>p\<in>set pollfds. pf_events p \<noteq> 0))"
proof (induction rules arbitrary: w kept pollfds something)
  case (Cons r rs)
  show ?case
  proof (cases "ru_defunct r w")
    case True
    then show ?thesis using Cons by fastforce
  next
    case False
    have "direction_events (ru_direction r) \<noteq> 0"
      by (cases "ru_direction r") (simp_all add: POLLIN_def POLLOUT_def)
    then show ?thesis using False Cons.prems Cons.IH [of w] by (auto simp: ru_pollfd_def)
  qed
qed simp

lemma polled_length [simp]: "length (polled pollfds reply) = length pollfds"
  by (simp add: polled_def)

lemma polled_nth [simp]:
  "i < length pollfds \<Longrightarrow> polled pollfds reply ! i = (pollfds ! i)\<lparr>pf_revents := pr_revents reply i\<rparr>"
  by (simp add: polled_def)

definition ready :: "pollfd \<Rightarrow> bool" where
  "ready p \<longleftrightarrow> pf_revents p AND pf_events p \<noteq> 0"

definition hung_up :: "pollfd \<Rightarrow> bool" where
  "hung_up p \<longleftrightarrow> pf_revents p AND POLLHUP \<noteq> 0 \<and> pf_events p \<noteq> 0 \<and> \<not> ready p"

definition failed :: "pollfd \<Rightarrow> bool" where
  "failed p \<longleftrightarrow> pf_revents p AND (POLLERR OR POLLNVAL) \<noteq> 0"

definition busy :: "'w el_rule \<Rightarrow> 'w \<Rightarrow> 'w \<Rightarrow> bool" where
  "busy r w w' \<longleftrightarrow> ru_service_count r w = ru_service_count r w' \<and> ru_interest r w'"

text \<open>What serving one rule does to the world.\<close>

definition serves :: "'w el_rule \<Rightarrow> pollfd \<Rightarrow> 'w \<Rightarrow> 'w \<Rightarrow> bool" where
  "serves r p w w' \<longleftrightarrow>
     \<not> failed p \<and>
     (if hung_up p then ru_cancel r w = Inr w'
      else if ready p then ru_callback r w = Inr w' \<and> \<not> busy r w w' else w' = w)"

lemma el_serve_step:
  "el_serve (r # rs) (p # ps) w = Inr (kept, w') \<longleftrightarrow>
     (\<exists>w1 kept1. serves r p w w1 \<and> el_serve rs ps w1 = Inr (kept1, w') \<and>
        kept = (if hung_up p then kept1 else r # kept1))"
proof -
  consider "failed p" | "\<not> failed p" "hung_up p" | "\<not> failed p" "\<not> hung_up p" "ready p"
    | "\<not> failed p" "\<not> hung_up p" "\<not> ready p" by blast
  then show ?thesis
  proof cases
    case 1
    then show ?thesis by (simp add: failed_def serves_def)
  next
    case 2
    then show ?thesis by (auto simp: failed_def hung_up_def ready_def serves_def Let_def)
  next
    case 3
    then have "el_serve (r # rs) (p # ps) w = andthen
        (andthen (ru_callback r w) (\<lambda>w'. if busy r w w'
           then Inl (Runtime_Error
             ''EventLoop: busy wait detected: callback did not read/write fd and is still interested'')
           else Inr w'))
        (\<lambda>w. andthen (el_serve rs ps w) (\<lambda>(kept, w). Inr (r # kept, w)))"
      by (simp add: failed_def hung_up_def ready_def busy_def Let_def)
    with 3 show ?thesis by (auto simp: serves_def split: if_splits)
  next
    case 4
    then show ?thesis by (auto simp: failed_def hung_up_def ready_def serves_def Let_def)
  qed
qed

lemma el_serve_subseq: "el_serve rules pollfds w = Inr (kept, w') \<Longrightarrow> subseq kept rules"
proof (induction rules arbitrary: pollfds w kept)
  case (Cons r rs)
  then obtain p ps where ps: "pollfds = p # ps" by (cases pollfds) auto
  from Cons.prems obtain w1 kept1 where "el_serve rs ps w1 = Inr (kept1, w')"
    and kept: "kept = (if hung_up p then kept1 else r # kept1)" unfolding ps el_serve_step by blast
  then have "subseq kept1 rs" using Cons.IH by blast
  then show ?case using kept by (cases "hung_up p") (simp_all add: list_emb_Cons)
qed simp

text \<open>The worlds that the rules see, one after the other.\<close>

definition served :: "'w el_rule list \<Rightarrow> pollfd list \<Rightarrow> 'w list \<Rightarrow> bool" where
  "served rules pollfds ws \<longleftrightarrow>
     length ws = Suc (length rules) \<and>
     (\<forall>i<length rules. serves (rules ! i) (pollfds ! i) (ws ! i) (ws ! Suc i))"

lemma el_serve_iff:
  assumes "length pollfds = length rules"
  shows "el_serve rules pollfds w = Inr (kept, w') \<longleftrightarrow>
    (\<exists>ws. served rules pollfds (w # ws) \<and> w' = last (w # ws) \<and>
       kept = map fst (filter (\<lambda>(r, p). \<not> hung_up p) (zip rules pollfds)))"
  using assms
proof (induction rules pollfds arbitrary: w kept rule: list_induct2')
  case 1
  show ?case by (auto simp: served_def)
next
  case (4 r rs p ps)
  have served_step: "served (r # rs) (p # ps) (w # ws) \<longleftrightarrow>
      (\<exists>w1 ws1. ws = w1 # ws1 \<and> serves r p w w1 \<and> served rs ps (w1 # ws1))" for ws
    by (cases ws) (auto simp: served_def All_less_Suc2)
  have IH: "el_serve rs ps w1 = Inr (kept1, w') \<longleftrightarrow>
      (\<exists>ws. served rs ps (w1 # ws) \<and> w' = last (w1 # ws) \<and>
         kept1 = map fst (filter (\<lambda>(r, p). \<not> hung_up p) (zip rs ps)))" for w1 kept1
    using 4 by simp
  define K where "K = map fst (filter (\<lambda>(r, p). \<not> hung_up p) (zip rs ps))"
  have kept: "map fst (filter (\<lambda>(r, p). \<not> hung_up p) (zip (r # rs) (p # ps))) = (if hung_up p then K else r # K)"
    by (simp add: K_def)
  show ?case
    unfolding el_serve_step IH served_step kept K_def [symmetric]
  proof (intro iffI; elim exE conjE)
    fix w1 kept1 ws
    assume "kept = (if hung_up p then kept1 else r # kept1)" "serves r p w w1" "served rs ps (w1 # ws)"
      "w' = last (w1 # ws)" "kept1 = K"
    then show "\<exists>ws. (\<exists>w1 ws1. ws = w1 # ws1 \<and> serves r p w w1 \<and> served rs ps (w1 # ws1)) \<and>
        w' = last (w # ws) \<and> kept = (if hung_up p then K else r # K)"
      by (intro exI [of _ "w1 # ws"]) simp
  next
    fix ws w1 ws1
    assume "w' = last (w # ws)" "kept = (if hung_up p then K else r # K)" "ws = w1 # ws1" "serves r p w w1"
      "served rs ps (w1 # ws1)"
    then show "\<exists>w1 kept1. serves r p w w1 \<and>
        (\<exists>ws. served rs ps (w1 # ws) \<and> w' = last (w1 # ws) \<and> kept1 = K) \<and>
        kept = (if hung_up p then kept1 else r # kept1)"
      by (intro exI [of _ w1] exI [of _ K] conjI exI [of _ ws1]) simp_all
  qed
qed simp_all

section \<open>What every rule keeps, the loop keeps\<close>

locale rule_invariant =
  fixes rules :: "'w el_rule list" and poll :: "'w poll" and I :: "'w \<Rightarrow> bool"
  assumes callback: "r \<in> set rules \<Longrightarrow> I w \<Longrightarrow> ru_callback r w = Inr w' \<Longrightarrow> I w'"
    and cancel: "r \<in> set rules \<Longrightarrow> I w \<Longrightarrow> ru_cancel r w = Inr w' \<Longrightarrow> I w'"
    and poll: "I w \<Longrightarrow> I (snd (poll pollfds timeout_ms w))"
begin

lemma setup_keeps:
  "el_setup rs w = Inr (kept, pollfds, something, w') \<Longrightarrow> set rs \<subseteq> set rules \<Longrightarrow> I w \<Longrightarrow> I w'"
proof (induction rs arbitrary: w kept pollfds something)
  case (Cons r rs)
  show ?case
  proof (cases "ru_defunct r w")
    case True
    then obtain w1 where w1: "ru_cancel r w = Inr w1" "el_setup rs w1 = Inr (kept, pollfds, something, w')"
      using Cons.prems(1) by auto
    have r: "r \<in> set rules" "set rs \<subseteq> set rules" using Cons.prems(2) by simp_all
    show ?thesis using Cons.IH [OF w1(2) r(2) cancel [OF r(1) Cons.prems(3) w1(1)]] .
  next
    case False
    then show ?thesis using Cons by auto
  qed
qed simp

lemma serve_keeps:
  "el_serve rs pollfds w = Inr (kept, w') \<Longrightarrow> set rs \<subseteq> set rules \<Longrightarrow> I w \<Longrightarrow> I w'"
proof (induction rs arbitrary: pollfds w kept)
  case (Cons r rs)
  then obtain p ps where ps: "pollfds = p # ps" by (cases pollfds) auto
  from Cons.prems(1) obtain w1 kept1 where step: "serves r p w w1" "el_serve rs ps w1 = Inr (kept1, w')"
    unfolding ps el_serve_step by blast
  have r: "r \<in> set rules" "set rs \<subseteq> set rules" using Cons.prems(2) by simp_all
  have "ru_cancel r w = Inr w1 \<or> ru_callback r w = Inr w1 \<or> w1 = w"
    using step(1) unfolding serves_def by metis
  then have "I w1" using cancel [OF r(1) Cons.prems(3)] callback [OF r(1) Cons.prems(3)] Cons.prems(3) by blast
  then show ?case using Cons.IH [OF step(2) r(2)] by blast
qed simp

lemma wait_keeps:
  assumes "el_wait_next_event poll timeout_ms rs w = Inr (result, kept, w')"
    and "set rs \<subseteq> set rules" "I w"
  shows "I w' \<and> set kept \<subseteq> set rules"
proof -
  obtain kept1 pollfds something w1 where setup1: "el_setup rs w = Inr (kept1, pollfds, something, w1)"
    using assms(1) by (auto simp: el_wait_next_event_def)
  have kept1: "set kept1 \<subseteq> set rules" "I w1"
    using el_setup_aligned [OF setup1] setup_keeps [OF setup1] assms(2,3) by (auto dest: subseq_subset)
  obtain reply w2 where reply: "poll pollfds timeout_ms w1 = (reply, w2)" by (cases "poll pollfds timeout_ms w1")
  then have w2: "I w2" using poll [OF kept1(2)] by (metis snd_conv)
  consider "kept = kept1" "w' = w1" | "kept = kept1" "w' = w2"
    | "el_serve kept1 (polled pollfds reply) w2 = Inr (kept, w')"
    using assms(1) setup1 reply
    by (auto simp: el_wait_next_event_def Let_def split: if_splits sum.splits)
  then show ?thesis
  proof cases
    case 3
    then show ?thesis
      using serve_keeps [OF 3 kept1(1) w2] el_serve_subseq [OF 3] kept1(1) by (auto dest: subseq_subset)
  qed (use kept1 w2 in auto)
qed

end

section \<open>One round\<close>

lemma el_wait_polls:
  assumes "el_setup rules w = Inr (kept, pollfds, True, w1)" and "poll pollfds timeout_ms w1 = (reply, w2)"
  shows "el_wait_next_event poll timeout_ms rules w =
    (let serve = andthen (el_serve kept (polled pollfds reply) w2) (\<lambda>(rules, w). Inr (El_Success, rules, w)) in
     if pr_ret reply \<ge> 0 \<or> pr_errno reply = 0
     then if pr_ret reply = 0 then Inr (El_Timeout, kept, w2) else serve
     else if pr_errno reply = EINTR then Inr (El_Exit, kept, w2) else serve)"
  using assms by (simp add: el_wait_next_event_def system_call_def Let_def)

lemma el_serve_idle:
  "length pollfds = length rules \<Longrightarrow> \<forall>p\<in>set pollfds. pf_revents p = 0 \<Longrightarrow> el_serve rules pollfds w = Inr (rules, w)"
  by (induction rules pollfds rule: list_induct2') simp_all

text \<open>C27: (each ready rule is served once) When \<open>poll\<close> reports events, \<open>wait_next_event\<close> succeeds exactly
  when the rules can be served one after the other in the order they were added, none skipped when an
  earlier one is erased: no descriptor of a rule is in error, one that only hung up is cancelled, one that is
  ready gets its callback, which then has read or written the descriptor or has lost interest, and any
  other is left alone. The rules that hung up are then gone, all others stay.\<close>

theorem wait_serves_ready_rules:
  assumes "el_setup rules w = Inr (kept, pollfds, True, w1)" and "poll pollfds timeout_ms w1 = (reply, w2)"
    and "0 < pr_ret reply"
  shows "el_wait_next_event poll timeout_ms rules w = Inr (El_Success, rules', w') \<longleftrightarrow>
    (\<exists>ws. served kept (polled pollfds reply) (w2 # ws) \<and> w' = last (w2 # ws) \<and>
       rules' = map fst (filter (\<lambda>(r, p). \<not> hung_up p) (zip kept (polled pollfds reply))))"
proof -
  have aligned: "length (polled pollfds reply) = length kept" using el_setup_aligned [OF assms(1)] by simp
  have "el_wait_next_event poll timeout_ms rules w = Inr (El_Success, rules', w') \<longleftrightarrow>
      el_serve kept (polled pollfds reply) w2 = Inr (rules', w')"
    using assms(3) by (auto simp: el_wait_polls [of rules w kept pollfds w1 poll timeout_ms reply w2, OF assms(1,2)] Let_def)
  then show ?thesis using el_serve_iff [OF aligned] by simp
qed

text \<open>A reader and a writer of one descriptor; the reader is ready and reads, the writer has hung up.\<close>

definition example_fd :: fd_wrapper where
  "example_fd = \<lparr>fd_num = 3, fd_eof = False, fd_closed = False, fd_read_count = 0, fd_write_count = 0\<rparr>"

definition example_rules :: "fd_wrapper el_rule list" where
  "example_rules =
     el_add_rule id Dir_Out (\<lambda>fd. Inr (fd_register_write fd)) (\<lambda>_. True) Inr
      (el_add_rule id Dir_In (\<lambda>fd. Inr (fd_register_read fd)) (\<lambda>_. True) Inr [])"

definition example_poll :: "fd_wrapper poll" where
  "example_poll pollfds timeout_ms w =
     (\<lparr>pr_ret = 2, pr_errno = 0, pr_revents = (\<lambda>i. if i = 0 then POLLIN else POLLHUP)\<rparr>, w)"

definition example_pollfds :: "pollfd list" where
  "example_pollfds =
     [\<lparr>pf_fd = 3, pf_events = POLLIN, pf_revents = 0\<rparr>, \<lparr>pf_fd = 3, pf_events = POLLOUT, pf_revents = 0\<rparr>]"

lemmas example_loop_defs =
  example_fd_def example_rules_def example_poll_def example_pollfds_def el_add_rule_def ru_defunct_def ru_pollfd_def
  POLLIN_def POLLOUT_def POLLHUP_def

lemma example_setup: "el_setup example_rules example_fd = Inr (example_rules, example_pollfds, True, example_fd)"
  by (simp add: example_loop_defs)

lemma wait_serves_ready_rules_witness:
  "(el_wait_next_event example_poll 10 example_rules example_fd =
      Inr (El_Success, [example_rules ! 0], fd_register_read example_fd)) \<longleftrightarrow>
    (\<exists>ws. served example_rules (polled example_pollfds (fst (example_poll example_pollfds 10 example_fd)))
       (example_fd # ws) \<and> fd_register_read example_fd = last (example_fd # ws) \<and>
     [example_rules ! 0] = map fst (filter (\<lambda>(r, p). \<not> hung_up p)
       (zip example_rules (polled example_pollfds (fst (example_poll example_pollfds 10 example_fd))))))"
  by (rule wait_serves_ready_rules [OF example_setup]) (simp_all add: example_poll_def)

text \<open>(what becomes of a failing poll) When no event is reported, the rules are left as they are and no
  callback runs; the result is \<open>Timeout\<close> after the timeout and \<open>Exit\<close> after a signal, and any other error of
  \<open>poll\<close> is swallowed: the result is \<open>Success\<close>, although the comment promises an exception.\<close>

lemma poll_error_is_success:
  assumes "el_setup rules w = Inr (kept, pollfds, True, w1)" and "poll pollfds timeout_ms w1 = (reply, w2)"
    and "\<forall>i<length pollfds. pr_revents reply i = 0"
    and "pr_ret reply = 0 \<or> (pr_ret reply < 0 \<and> pr_errno reply \<noteq> 0)"
  shows "el_wait_next_event poll timeout_ms rules w =
    Inr (if pr_ret reply = 0 then El_Timeout else if pr_errno reply = EINTR then El_Exit else El_Success, kept, w2)"
proof -
  have "el_serve kept (polled pollfds reply) w2 = Inr (kept, w2)"
    using el_setup_aligned [OF assms(1)] assms(3)
    by (intro el_serve_idle) (auto simp: in_set_conv_nth)
  then show ?thesis using assms(4) by (auto simp: el_wait_polls [of rules w kept pollfds w1 poll timeout_ms reply w2, OF assms(1,2)] Let_def)
qed

definition broken_poll :: "int \<Rightarrow> fd_wrapper poll" where
  "broken_poll errno pollfds timeout_ms w = (\<lparr>pr_ret = - 1, pr_errno = errno, pr_revents = (\<lambda>_. 0)\<rparr>, w)"

lemma poll_error_is_success_witness:
  "el_wait_next_event (broken_poll 12) 10 example_rules example_fd = Inr (El_Success, example_rules, example_fd) \<and>
   el_wait_next_event (broken_poll EINTR) 10 example_rules example_fd = Inr (El_Exit, example_rules, example_fd)"
proof -
  have "el_wait_next_event (broken_poll e) 10 example_rules example_fd =
      Inr (if e = EINTR then El_Exit else El_Success, example_rules, example_fd)" if "e = 12 \<or> e = EINTR" for e
    using poll_error_is_success [OF example_setup, of "broken_poll e" 10
        "\<lparr>pr_ret = - 1, pr_errno = e, pr_revents = (\<lambda>_. 0)\<rparr>" example_fd] that
    by (auto simp: broken_poll_def EINTR_def)
  then show ?thesis by (auto simp: EINTR_def)
qed

end
