(* ===== verification/Kernel_Log.thy ===== *)
theory Kernel_Log
  imports File_Descriptor
begin

text \<open>
  A kernel that keeps a log of the calls and their replies, with what has been read from and written to
  a descriptor according to the log. It behaves as the kernel that it wraps; the bytes that a program
  moves are stated with it, for any kernel.
\<close>

type_synonym kernel_log = "(sys_call \<times> sys_reply) list"

definition logged :: "'k kernel \<Rightarrow> ('k \<times> kernel_log) kernel" where
  "logged K call state = (let (reply, k) = K call (fst state) in (reply, k, snd state @ [(call, reply)]))"

fun call_read :: "int \<Rightarrow> sys_call \<times> sys_reply \<Rightarrow> byte list" where
  "call_read n (Sys_Read fd limit, reply) =
     (if fd = n then take (nat (sr_ret reply)) (stored limit (sr_bytes reply)) else [])"
| "call_read n _ = []"

fun call_written :: "int \<Rightarrow> sys_call \<times> sys_reply \<Rightarrow> byte list" where
  "call_written n (Sys_Writev fd views, reply) =
     (if fd = n then take (nat (sr_ret reply)) (concat views) else [])"
| "call_written n _ = []"

definition read_from :: "int \<Rightarrow> kernel_log \<Rightarrow> byte list" where
  "read_from n log = concat (map (call_read n) log)"

definition written_to :: "int \<Rightarrow> kernel_log \<Rightarrow> byte list" where
  "written_to n log = concat (map (call_written n) log)"

lemma log_simps [simp]:
  "read_from n [] = []" "written_to n [] = []"
  "read_from n (log @ log') = read_from n log @ read_from n log'"
  "written_to n (log @ log') = written_to n log @ written_to n log'"
  "read_from n (e # log) = call_read n e @ read_from n log"
  "written_to n (e # log) = call_written n e @ written_to n log"
  by (simp_all add: read_from_def written_to_def)

lemma logged_cases:
  assumes "logged K call state = (reply, state')"
  shows "snd state' = snd state @ [(call, reply)]"
  using assms by (auto simp: logged_def split: prod.splits)

lemma logged_sys:
  assumes "sys (logged K) attempt call state = Inr (reply, state')"
  shows "snd state' = snd state @ [(call, reply)]"
  using assms by (auto simp: sys_def system_call_def split: prod.splits if_splits dest: logged_cases)

section \<open>What the wrappers add to the log\<close>

lemma fd_read_logged:
  assumes "fd_read (logged K) limit fd state = Inr (str, fd', state')"
  shows "length str \<le> limit \<and> fd_num fd' = fd_num fd \<and>
    read_from n (snd state') = read_from n (snd state) @ (if n = fd_num fd then str else []) \<and>
    written_to n (snd state') = written_to n (snd state)"
proof -
  let ?size = "min BUFFER_SIZE limit"
  obtain reply state1 where
    reply: "sys (logged K) ''read'' (Sys_Read (fd_num fd) ?size) state = Inr (reply, state1)"
    using assms by (auto simp: fd_read_def Let_def)
  have "\<not> sr_ret reply < 0" and str: "str = take (nat (sr_ret reply)) (stored ?size (sr_bytes reply))"
    and "fd_num fd' = fd_num fd" "state' = state1"
    using assms reply
    by (auto simp: fd_read_def Let_def str_shrink_def fd_register_read_def split: if_splits)
  moreover have "length (stored ?size (sr_bytes reply)) = ?size" by (simp add: stored_def)
  ultimately show ?thesis using logged_sys [OF reply] by simp
qed

lemma fd_write_once:
  assumes "fd_write K views False fd k = Inr (m, fd', k')"
  obtains reply where "sys K ''writev'' (Sys_Writev (fd_num fd) views) k = Inr (reply, k')"
    "m = nat (sr_ret reply)" "m \<le> bvl_size views" "fd' = fd_register_write fd"
proof -
  have "fd_write_loop K views False 0 fd k = Inr (m, fd', k')" using assms by (simp add: fd_write_def)
  then show thesis
  proof (rule fd_write_loop_step)
    fix reply k1 rest
    assume "sys K ''writev'' (Sys_Writev (fd_num fd) views) k = Inr (reply, k1)"
      "\<not> sr_ret reply > int (bvl_size views)"
      "(if False \<and> bvl_size rest \<noteq> 0
        then fd_write_loop K rest False (0 + nat (sr_ret reply)) (fd_register_write fd) k1
        else Inr (0 + nat (sr_ret reply), fd_register_write fd, k1)) = Inr (m, fd', k')"
    then show thesis by (intro that [of reply]) auto
  qed
qed

lemma fd_write_logged:
  assumes "fd_write (logged K) [str] False fd state = Inr (m, fd', state')"
  shows "m \<le> length str \<and> fd_num fd' = fd_num fd \<and>
    written_to n (snd state') = written_to n (snd state) @ (if n = fd_num fd then take m str else []) \<and>
    read_from n (snd state') = read_from n (snd state)"
  using assms
proof (rule fd_write_once)
  fix reply
  assume reply: "sys (logged K) ''writev'' (Sys_Writev (fd_num fd) [str]) state = Inr (reply, state')"
    and "m = nat (sr_ret reply)" "m \<le> bvl_size [str]" "fd' = fd_register_write fd"
  then show ?thesis using logged_sys [OF reply] by (simp add: bvl_size_eq fd_register_write_def)
qed

lemma so_shutdown_logged:
  assumes "so_shutdown (logged K) how fd state = Inr (fd', state')"
  shows "fd_num fd' = fd_num fd \<and> (\<forall>n. read_from n (snd state') = read_from n (snd state)) \<and>
    (\<forall>n. written_to n (snd state') = written_to n (snd state))"
  using assms
  by (auto simp: so_shutdown_def fd_register_read_def fd_register_write_def split: if_splits dest!: logged_sys)

lemma fd_close_logged:
  assumes "fd_close (logged K) fd state = Inr (fd', state')"
  shows "fd_num fd' = fd_num fd \<and> (\<forall>n. read_from n (snd state') = read_from n (snd state)) \<and>
    (\<forall>n. written_to n (snd state') = written_to n (snd state))"
  using assms by (auto simp: fd_close_def dest!: logged_sys)

lemma fd_set_blocking_logged:
  assumes "fd_set_blocking (logged K) b fd state = Inr state'"
  shows "(\<forall>n. read_from n (snd state') = read_from n (snd state)) \<and>
    (\<forall>n. written_to n (snd state') = written_to n (snd state))"
  using assms by (auto simp: fd_set_blocking_def Let_def dest!: logged_sys)

end
