(* ===== verification/Stream_Copy.thy ===== *)
theory Stream_Copy
  imports Event_Loop Kernel_Log Byte_Stream
begin

text \<open>
  \<open>apps/bidirectional_stream_copy.cc\<close>: the standard input is copied to a socket and the socket to the
  standard output, by four rules of an event loop and two byte streams. For any kernel and any \<open>poll\<close>,
  no byte is lost, added or reordered in either direction (\<open>copy_invariant\<close>).
\<close>

section \<open>State and rules\<close>

record 'k copy =
  cp_kernel :: 'k
  cp_socket :: fd_wrapper
  cp_input :: fd_wrapper
  cp_output :: fd_wrapper
  cp_outbound :: byte_stream
  cp_inbound :: byte_stream
  cp_outbound_shutdown :: bool
  cp_inbound_shutdown :: bool

definition max_copy_length :: nat where "max_copy_length = 65536"
definition copy_buffer_size :: nat where "copy_buffer_size = 1048576"

text \<open>Rule 1: read from stdin into outbound byte stream.\<close>

definition read_input :: "'k kernel \<Rightarrow> 'k copy \<Rightarrow> exn + 'k copy" where
  "read_input K w =
     andthen (fd_read K (bs_remaining_capacity (cp_outbound w)) (cp_input w) (cp_kernel w)) (\<lambda>(str, input, k).
       let outbound = snd (bs_write str (cp_outbound w));
           outbound = (if fd_eof input then bs_end_input outbound else outbound) in
       Inr (w\<lparr>cp_kernel := k, cp_input := input, cp_outbound := outbound\<rparr>))"

definition wants_input :: "'k copy \<Rightarrow> bool" where
  "wants_input w \<longleftrightarrow>
     \<not> bs_error (cp_outbound w) \<and> bs_remaining_capacity (cp_outbound w) > 0 \<and> \<not> bs_error (cp_inbound w)"

definition end_outbound :: "'k copy \<Rightarrow> exn + 'k copy" where
  "end_outbound w = Inr (w\<lparr>cp_outbound := bs_end_input (cp_outbound w)\<rparr>)"

text \<open>Rule 2: read from outbound byte stream into socket.\<close>

definition write_socket :: "'k kernel \<Rightarrow> 'k copy \<Rightarrow> exn + 'k copy" where
  "write_socket K w =
     (let bytes_to_write = min max_copy_length (bs_buffer_size (cp_outbound w)) in
      andthen (fd_write K (bvl_of_string (bs_peek_output bytes_to_write (cp_outbound w))) False
          (cp_socket w) (cp_kernel w)) (\<lambda>(bytes_written, socket, k).
      andthen (bs_pop_output bytes_written (cp_outbound w)) (\<lambda>outbound.
        let w = w\<lparr>cp_kernel := k, cp_socket := socket, cp_outbound := outbound\<rparr> in
        if bs_eof outbound then
          andthen (so_shutdown K SHUT_WR socket k) (\<lambda>(socket, k).
            Inr (w\<lparr>cp_kernel := k, cp_socket := socket, cp_outbound_shutdown := True\<rparr>))
        else Inr w)))"

definition wants_socket_out :: "'k copy \<Rightarrow> bool" where
  "wants_socket_out w \<longleftrightarrow>
     \<not> bs_buffer_empty (cp_outbound w) \<or> (bs_eof (cp_outbound w) \<and> \<not> cp_outbound_shutdown w)"

text \<open>Rule 3: read from socket into inbound byte stream.\<close>

definition read_socket :: "'k kernel \<Rightarrow> 'k copy \<Rightarrow> exn + 'k copy" where
  "read_socket K w =
     andthen (fd_read K (bs_remaining_capacity (cp_inbound w)) (cp_socket w) (cp_kernel w)) (\<lambda>(str, socket, k).
       let inbound = snd (bs_write str (cp_inbound w));
           inbound = (if fd_eof socket then bs_end_input inbound else inbound) in
       Inr (w\<lparr>cp_kernel := k, cp_socket := socket, cp_inbound := inbound\<rparr>))"

definition wants_socket_in :: "'k copy \<Rightarrow> bool" where
  "wants_socket_in w \<longleftrightarrow>
     \<not> bs_error (cp_inbound w) \<and> bs_remaining_capacity (cp_inbound w) > 0 \<and> \<not> bs_error (cp_outbound w)"

definition end_inbound :: "'k copy \<Rightarrow> exn + 'k copy" where
  "end_inbound w = Inr (w\<lparr>cp_inbound := bs_end_input (cp_inbound w)\<rparr>)"

text \<open>Rule 4: read from inbound byte stream into stdout.\<close>

definition write_output :: "'k kernel \<Rightarrow> 'k copy \<Rightarrow> exn + 'k copy" where
  "write_output K w =
     (let bytes_to_write = min max_copy_length (bs_buffer_size (cp_inbound w)) in
      andthen (fd_write K (bvl_of_string (bs_peek_output bytes_to_write (cp_inbound w))) False
          (cp_output w) (cp_kernel w)) (\<lambda>(bytes_written, output, k).
      andthen (bs_pop_output bytes_written (cp_inbound w)) (\<lambda>inbound.
        let w = w\<lparr>cp_kernel := k, cp_output := output, cp_inbound := inbound\<rparr> in
        if bs_eof inbound then
          andthen (fd_close K output k) (\<lambda>(output, k).
            Inr (w\<lparr>cp_kernel := k, cp_output := output, cp_inbound_shutdown := True\<rparr>))
        else Inr w)))"

definition wants_output :: "'k copy \<Rightarrow> bool" where
  "wants_output w \<longleftrightarrow>
     \<not> bs_buffer_empty (cp_inbound w) \<or> (bs_eof (cp_inbound w) \<and> \<not> cp_inbound_shutdown w)"

definition copy_rules :: "'k kernel \<Rightarrow> 'k copy el_rule list" where
  "copy_rules K =
     el_add_rule cp_output Dir_Out (write_output K) wants_output end_inbound
     (el_add_rule cp_socket Dir_In (read_socket K) wants_socket_in end_inbound
     (el_add_rule cp_socket Dir_Out (write_socket K) wants_socket_out end_outbound
     (el_add_rule cp_input Dir_In (read_input K) wants_input end_outbound [])))"

section \<open>The program\<close>

definition STDIN_FILENO :: int where "STDIN_FILENO = 0"
definition STDOUT_FILENO :: int where "STDOUT_FILENO = 1"

definition copy_start :: "'k kernel \<Rightarrow> fd_wrapper \<Rightarrow> 'k \<Rightarrow> exn + 'k copy" where
  "copy_start K socket k =
     andthen (fd_new STDIN_FILENO) (\<lambda>input.
     andthen (fd_new STDOUT_FILENO) (\<lambda>output.
     andthen (fd_set_blocking K False socket k) (\<lambda>k.
     andthen (fd_set_blocking K False input k) (\<lambda>k.
     andthen (fd_set_blocking K False output k) (\<lambda>k.
       Inr \<lparr>cp_kernel = k, cp_socket = socket, cp_input = input, cp_output = output,
            cp_outbound = bs_new copy_buffer_size, cp_inbound = bs_new copy_buffer_size,
            cp_outbound_shutdown = False, cp_inbound_shutdown = False\<rparr>)))))"

text \<open>
  The rounds of the event loop, at most \<open>fuel\<close> of them: \<open>None\<close> when it has not ended by then. \<open>poll\<close>
  works on the state of the kernel.
\<close>

definition kernel_poll :: "'k poll \<Rightarrow> 'k copy poll" where
  "kernel_poll poll pollfds timeout_ms w =
     (let (reply, k) = poll pollfds timeout_ms (cp_kernel w) in (reply, w\<lparr>cp_kernel := k\<rparr>))"

fun copy_loop :: "nat \<Rightarrow> 'k poll \<Rightarrow> 'k copy el_rule list \<Rightarrow> 'k copy \<Rightarrow> (exn + 'k copy) option" where
  "copy_loop 0 poll rules w = None"
| "copy_loop (Suc fuel) poll rules w =
     (case el_wait_next_event (kernel_poll poll) (- 1) rules w of
        Inl e \<Rightarrow> Some (Inl e)
      | Inr (result, rules, w) \<Rightarrow> if result = El_Exit then Some (Inr w) else copy_loop fuel poll rules w)"

definition bidirectional_stream_copy ::
  "'k kernel \<Rightarrow> 'k poll \<Rightarrow> nat \<Rightarrow> fd_wrapper \<Rightarrow> 'k \<Rightarrow> (exn + 'k copy) option" where
  "bidirectional_stream_copy K poll fuel socket k =
     (case copy_start K socket k of
        Inl e \<Rightarrow> Some (Inl e)
      | Inr w \<Rightarrow> copy_loop fuel poll (copy_rules K) w)"

section \<open>No byte is lost\<close>

definition logged_poll :: "'k poll \<Rightarrow> ('k \<times> kernel_log) poll" where
  "logged_poll poll pollfds timeout_ms state =
     (let (reply, k) = poll pollfds timeout_ms (fst state) in (reply, k, snd state))"

definition copy_inv :: "int \<Rightarrow> ('k \<times> kernel_log) copy \<Rightarrow> bool" where
  "copy_inv s w \<longleftrightarrow>
     s \<noteq> STDIN_FILENO \<and> s \<noteq> STDOUT_FILENO \<and>
     fd_num (cp_socket w) = s \<and> fd_num (cp_input w) = STDIN_FILENO \<and> fd_num (cp_output w) = STDOUT_FILENO \<and>
     (let log = snd (cp_kernel w) in
      read_from STDIN_FILENO log = written_to s log @ bs_content (cp_outbound w) \<and>
      read_from s log = written_to STDOUT_FILENO log @ bs_content (cp_inbound w))"

lemma bs_write_fits:
  "length str \<le> bs_remaining_capacity b \<Longrightarrow> bs_content (snd (bs_write str b)) = bs_content b @ str"
  by (simp add: stream_simps)

lemma read_input_keeps:
  assumes "read_input (logged K) w = Inr w'" and "copy_inv s w"
  shows "copy_inv s w'"
proof -
  obtain str input state where
    "fd_read (logged K) (bs_remaining_capacity (cp_outbound w)) (cp_input w) (cp_kernel w) = Inr (str, input, state)"
    and w': "w' = w\<lparr>cp_kernel := state, cp_input := input,
      cp_outbound := (let outbound = snd (bs_write str (cp_outbound w)) in
                      if fd_eof input then bs_end_input outbound else outbound)\<rparr>"
    using assms(1) by (auto simp: read_input_def Let_def)
  note log = fd_read_logged [OF this(1)]
  have "bs_content (snd (bs_write str (cp_outbound w))) = bs_content (cp_outbound w) @ str"
    using log by (intro bs_write_fits) blast
  then show ?thesis using assms(2) log by (simp add: copy_inv_def w' Let_def)
qed

lemma read_socket_keeps:
  assumes "read_socket (logged K) w = Inr w'" and "copy_inv s w"
  shows "copy_inv s w'"
proof -
  obtain str socket state where
    "fd_read (logged K) (bs_remaining_capacity (cp_inbound w)) (cp_socket w) (cp_kernel w) = Inr (str, socket, state)"
    and w': "w' = w\<lparr>cp_kernel := state, cp_socket := socket,
      cp_inbound := (let inbound = snd (bs_write str (cp_inbound w)) in
                     if fd_eof socket then bs_end_input inbound else inbound)\<rparr>"
    using assms(1) by (auto simp: read_socket_def Let_def)
  note log = fd_read_logged [OF this(1)]
  have "bs_content (snd (bs_write str (cp_inbound w))) = bs_content (cp_inbound w) @ str"
    using log by (intro bs_write_fits) blast
  then show ?thesis using assms(2) log by (simp add: copy_inv_def w' Let_def)
qed

lemma write_peeked:
  assumes "fd_write (logged K) (bvl_of_string (bs_peek_output limit b)) False fd state = Inr (m, fd', state')"
    and "bs_pop_output m b = Inr b'"
  shows "fd_num fd' = fd_num fd \<and> read_from n (snd state') = read_from n (snd state) \<and>
    written_to n (snd state') @ (if n = fd_num fd then bs_content b' else []) =
      written_to n (snd state) @ (if n = fd_num fd then bs_content b else [])"
proof -
  have log: "m \<le> length (bs_peek_output limit b)" "fd_num fd' = fd_num fd"
    "written_to n (snd state') =
      written_to n (snd state) @ (if n = fd_num fd then take m (bs_peek_output limit b) else [])"
    "read_from n (snd state') = read_from n (snd state)"
    using fd_write_logged [OF assms(1) [unfolded bvl_of_string_def]] by blast+
  have "take m (bs_peek_output limit b) = take m (bs_content b)"
    using log(1) by (simp add: bs_peek_content)
  moreover have "bs_content b' = drop m (bs_content b)" using bs_pop_output_total [of m b] assms(2) by auto
  ultimately show ?thesis using log by simp
qed

lemma write_socket_keeps:
  assumes "write_socket (logged K) w = Inr w'" and inv: "copy_inv s w"
  shows "copy_inv s w'"
proof -
  let ?bytes = "bvl_of_string (bs_peek_output (min max_copy_length (bs_buffer_size (cp_outbound w))) (cp_outbound w))"
  obtain m socket state outbound where
    wrote: "fd_write (logged K) ?bytes False (cp_socket w) (cp_kernel w) = Inr (m, socket, state)"
    and popped: "bs_pop_output m (cp_outbound w) = Inr outbound"
    and rest: "(let w = w\<lparr>cp_kernel := state, cp_socket := socket, cp_outbound := outbound\<rparr> in
        if bs_eof outbound then
          andthen (so_shutdown (logged K) SHUT_WR socket state) (\<lambda>(socket, k).
            Inr (w\<lparr>cp_kernel := k, cp_socket := socket, cp_outbound_shutdown := True\<rparr>))
        else Inr w) = Inr w'"
    using assms(1) by (auto simp: write_socket_def Let_def)
  have "copy_inv s (w\<lparr>cp_kernel := state, cp_socket := socket, cp_outbound := outbound\<rparr>)"
    using inv write_peeked [OF wrote popped, of s] write_peeked [OF wrote popped, of STDIN_FILENO]
      write_peeked [OF wrote popped, of STDOUT_FILENO]
    by (simp add: copy_inv_def Let_def)
  then show ?thesis
    using rest by (auto simp: copy_inv_def Let_def split: if_splits dest!: so_shutdown_logged)
qed

lemma write_output_keeps:
  assumes "write_output (logged K) w = Inr w'" and inv: "copy_inv s w"
  shows "copy_inv s w'"
proof -
  let ?bytes = "bvl_of_string (bs_peek_output (min max_copy_length (bs_buffer_size (cp_inbound w))) (cp_inbound w))"
  obtain m stdout state inbound where
    wrote: "fd_write (logged K) ?bytes False (cp_output w) (cp_kernel w) = Inr (m, stdout, state)"
    and popped: "bs_pop_output m (cp_inbound w) = Inr inbound"
    and rest: "(let w = w\<lparr>cp_kernel := state, cp_output := stdout, cp_inbound := inbound\<rparr> in
        if bs_eof inbound then
          andthen (fd_close (logged K) stdout state) (\<lambda>(stdout, k).
            Inr (w\<lparr>cp_kernel := k, cp_output := stdout, cp_inbound_shutdown := True\<rparr>))
        else Inr w) = Inr w'"
    using assms(1) by (auto simp: write_output_def Let_def)
  have "copy_inv s (w\<lparr>cp_kernel := state, cp_output := stdout, cp_inbound := inbound\<rparr>)"
    using inv write_peeked [OF wrote popped, of s] write_peeked [OF wrote popped, of STDIN_FILENO]
      write_peeked [OF wrote popped, of STDOUT_FILENO]
    by (simp add: copy_inv_def Let_def)
  then show ?thesis
    using rest by (auto simp: copy_inv_def Let_def split: if_splits dest!: fd_close_logged)
qed

interpretation copy: rule_invariant "copy_rules (logged K)" "kernel_poll (logged_poll P)" "copy_inv s"
  for K :: "'k kernel" and P s
proof
  fix r and w w' :: "('k \<times> kernel_log) copy"
  assume r: "r \<in> set (copy_rules (logged K))" and inv: "copy_inv s w"
  show "copy_inv s w'" if "ru_callback r w = Inr w'"
    using r that inv read_input_keeps read_socket_keeps write_socket_keeps write_output_keeps
    by (auto simp: copy_rules_def el_add_rule_def)
  show "copy_inv s w'" if "ru_cancel r w = Inr w'"
    using r that inv by (auto simp: copy_rules_def el_add_rule_def end_outbound_def end_inbound_def copy_inv_def Let_def)
next
  fix w :: "('k \<times> kernel_log) copy" and pollfds timeout_ms
  assume "copy_inv s w"
  then show "copy_inv s (snd (kernel_poll (logged_poll P) pollfds timeout_ms w))"
    by (simp add: copy_inv_def kernel_poll_def logged_poll_def Let_def split: prod.splits)
qed

lemma copy_start_inv:
  assumes "copy_start (logged K) socket (k, []) = Inr w" and "fd_num socket \<notin> {STDIN_FILENO, STDOUT_FILENO}"
  shows "copy_inv (fd_num socket) w"
  using assms
  by (auto simp: copy_start_def fd_new_def STDIN_FILENO_def STDOUT_FILENO_def copy_inv_def Let_def
      dest!: fd_set_blocking_logged)

lemma copy_loop_inv:
  assumes "copy_loop fuel (logged_poll P) rules w = Some (Inr w')"
    and "set rules \<subseteq> set (copy_rules (logged K))" and "copy_inv s w"
  shows "copy_inv s w'"
  using assms
proof (induction fuel arbitrary: rules w)
  case (Suc fuel)
  obtain result rules1 w1 where
    round: "el_wait_next_event (kernel_poll (logged_poll P)) (- 1) rules w = Inr (result, rules1, w1)"
    using Suc.prems(1) by (auto split: sum.splits)
  note keeps = copy.wait_keeps [OF round Suc.prems(2,3)]
  show ?case
  proof (cases "result = El_Exit")
    case True
    then show ?thesis using Suc.prems(1) round keeps by simp
  next
    case False
    then show ?thesis using Suc.prems(1) round keeps Suc.IH [of rules1 w1] by simp
  qed
qed simp

text \<open>C8: (nothing lost on the way) When \<open>bidirectional_stream_copy\<close> returns, whatever the kernel and \<open>poll\<close>
  did, with partial reads and writes in any order: what has been read from the standard input is what has
  been written to the socket followed by what is still in the outbound stream, and what has been read
  from the socket is what has been written to the standard output followed by what is still in the
  inbound stream.\<close>

theorem copy_loses_nothing:
  assumes "bidirectional_stream_copy (logged K) (logged_poll P) fuel socket (k, []) = Some (Inr w)"
    and "fd_num socket \<notin> {STDIN_FILENO, STDOUT_FILENO}"
  shows "read_from STDIN_FILENO (snd (cp_kernel w)) =
      written_to (fd_num socket) (snd (cp_kernel w)) @ bs_content (cp_outbound w) \<and>
    read_from (fd_num socket) (snd (cp_kernel w)) =
      written_to STDOUT_FILENO (snd (cp_kernel w)) @ bs_content (cp_inbound w)"
proof -
  obtain w0 where w0: "copy_start (logged K) socket (k, []) = Inr w0"
    "copy_loop fuel (logged_poll P) (copy_rules (logged K)) w0 = Some (Inr w)"
    using assms(1) by (auto simp: bidirectional_stream_copy_def split: sum.splits)
  have "copy_inv (fd_num socket) w"
    using copy_loop_inv [OF w0(2) subset_refl copy_start_inv [OF w0(1) assms(2)]] .
  then show ?thesis by (simp add: copy_inv_def Let_def)
qed

text \<open>
  A run of three rounds: the standard input has some bytes and the socket has none, everything that is
  polled is ready.
\<close>

fun example_kernel :: "byte list kernel" where
  "example_kernel (Sys_Read fd limit) k =
     (let bytes = take limit (if fd = STDIN_FILENO then k else []) in
      (\<lparr>sr_ret = int (length bytes), sr_errno = 0, sr_bytes = bytes, sr_address = [], sr_value = 0, sr_second = 0\<rparr>,
       if fd = STDIN_FILENO then drop limit k else k))"
| "example_kernel (Sys_Writev fd views) k =
     (\<lparr>sr_ret = int (length (concat views)), sr_errno = 0, sr_bytes = [], sr_address = [], sr_value = 0, sr_second = 0\<rparr>, k)"
| "example_kernel call k = (\<lparr>sr_ret = 0, sr_errno = 0, sr_bytes = [], sr_address = [], sr_value = 0, sr_second = 0\<rparr>, k)"

definition all_ready :: "'k poll" where
  "all_ready pollfds timeout_ms k =
     (\<lparr>pr_ret = 1, pr_errno = 0, pr_revents = (\<lambda>i. pf_events (pollfds ! i))\<rparr>, k)"

definition example_socket :: fd_wrapper where
  "example_socket = \<lparr>fd_num = 5, fd_eof = False, fd_closed = False, fd_read_count = 0, fd_write_count = 0\<rparr>"

lemmas copy_run_defs =
  bidirectional_stream_copy_def copy_start_def kernel_poll_def logged_poll_def all_ready_def example_socket_def
  copy_rules_def el_add_rule_def el_wait_next_event_def ru_defunct_def ru_pollfd_def polled_def ru_service_count_def
  POLLIN_def POLLOUT_def POLLERR_def POLLNVAL_def POLLHUP_def STDIN_FILENO_def STDOUT_FILENO_def
  sys_def system_call_def logged_def fd_new_def fd_set_blocking_def O_NONBLOCK_def

lemmas copy_rule_defs =
  read_input_def read_socket_def write_socket_def write_output_def wants_input_def wants_socket_in_def
  wants_socket_out_def wants_output_def end_inbound_def end_outbound_def fd_read_def fd_write_def
  fd_write_loop.simps so_shutdown_def fd_close_def fd_register_read_def fd_register_write_def str_shrink_def
  stored_def BUFFER_SIZE_def SHUT_WR_def SHUT_RD_def SHUT_RDWR_def

lemmas copy_stream_defs =
  copy_buffer_size_def max_copy_length_def bs_new_def bs_write_def bs_peek_output_def bs_pop_output_def
  bs_end_input_def bs_accessor_defs bs_content_def bvl_of_string_def bvl_size_def bl_of_string_def bl_append_def
  buffer_of_string_def bl_concatenate_def bl_size_def buffer_size_def bl_of_buffer_def buffer_str_def
  buffer_remove_prefix_def

lemma example_copy_runs:
  "\<exists>w. bidirectional_stream_copy (logged example_kernel) (logged_poll all_ready) (Suc (Suc (Suc 0)))
       example_socket ([7, 8], []) = Some (Inr w) \<and>
     read_from STDIN_FILENO (snd (cp_kernel w)) = [7, 8] \<and> bs_content (cp_outbound w) = []"
  by (simp add: copy_run_defs copy_rule_defs copy_stream_defs Let_def)

lemma copy_loses_nothing_witness:
  "\<exists>w. bidirectional_stream_copy (logged example_kernel) (logged_poll all_ready) (Suc (Suc (Suc 0)))
       example_socket ([7, 8], []) = Some (Inr w) \<and>
     written_to 5 (snd (cp_kernel w)) = [7, 8]"
proof -
  obtain w where run: "bidirectional_stream_copy (logged example_kernel) (logged_poll all_ready)
      (Suc (Suc (Suc 0))) example_socket ([7, 8], []) = Some (Inr w)"
    and bytes: "read_from STDIN_FILENO (snd (cp_kernel w)) = [7, 8]" "bs_content (cp_outbound w) = []"
    using example_copy_runs by blast
  have "fd_num example_socket \<notin> {STDIN_FILENO, STDOUT_FILENO}"
    by (simp add: example_socket_def STDIN_FILENO_def STDOUT_FILENO_def)
  from copy_loses_nothing [OF run this] run bytes show ?thesis by (auto simp: example_socket_def)
qed

end
