(* ===== verification/IPv4.thy ===== *)
theory IPv4
  imports Checksum
begin

text \<open>
  \<open>libsponge/tcp_helpers/ipv4_header.{hh,cc}\<close> and \<open>ipv4_datagram.{hh,cc}\<close>: the IPv4 header with
  its parser (every error result is a branch), its serialiser (which throws), the derived payload
  length and pseudo checksum, and the datagram built on it.
\<close>

section \<open>IPv4Header\<close>

record ipv4_header =
  ip_ver :: u8
  ip_hlen :: u8
  ip_tos :: u8
  ip_len :: u16
  ip_id :: u16
  ip_df :: bool
  ip_mf :: bool
  ip_offset :: u16
  ip_ttl :: u8
  ip_proto :: u8
  ip_cksum :: u16
  ip_src :: u32
  ip_dst :: u32

definition ip_LENGTH :: nat where "ip_LENGTH = 20"
definition DEFAULT_TTL :: u8 where "DEFAULT_TTL = 128"
definition PROTO_TCP :: u8 where "PROTO_TCP = 6"

definition ip_new :: ipv4_header where
  "ip_new = \<lparr>ip_ver = 4, ip_hlen = of_nat (ip_LENGTH div 4), ip_tos = 0, ip_len = 0, ip_id = 0,
     ip_df = True, ip_mf = False, ip_offset = 0, ip_ttl = DEFAULT_TTL, ip_proto = PROTO_TCP,
     ip_cksum = 0, ip_src = 0, ip_dst = 0\<rparr>"

definition ip_parse :: "ipv4_header \<Rightarrow> net_parser \<Rightarrow> parse_result \<times> ipv4_header \<times> net_parser" where
  "ip_parse h p =
     (let original_serialized_version = np_buffer p;
          data_size = buffer_size (np_buffer p) in
      if data_size < ip_LENGTH then (PacketTooShort, h, p)
      else
        let (first_byte, p) = np_u8 p;
            ver = drop_bit 4 first_byte;
            hlen = first_byte AND 0x0f;
            (tos, p) = np_u8 p;
            (len, p) = np_u16 p;
            (id, p) = np_u16 p;
            (fo_val, p) = np_u16 p;
            df = (fo_val AND 0x4000 \<noteq> 0);
            mf = (fo_val AND 0x2000 \<noteq> 0);
            off = fo_val AND 0x1fff;
            (ttl, p) = np_u8 p;
            (proto, p) = np_u8 p;
            (cksum, p) = np_u16 p;
            (src, p) = np_u32 p;
            (dst, p) = np_u32 p;
            h = \<lparr>ip_ver = ver, ip_hlen = hlen, ip_tos = tos, ip_len = len, ip_id = id,
                 ip_df = df, ip_mf = mf, ip_offset = off, ip_ttl = ttl, ip_proto = proto,
                 ip_cksum = cksum, ip_src = src, ip_dst = dst\<rparr> in
        if data_size < 4 * unat hlen then (PacketTooShort, h, p)
        else if ver \<noteq> 4 then (WrongIPVersion, h, p)
        else if hlen < 5 then (HeaderTooShort, h, p)
        else if data_size \<noteq> unat len then (TruncatedPacket, h, p)
        else
          let p = np_remove_prefix (unat hlen * 4 - ip_LENGTH) p in
          if np_has_error p then (np_error p, h, p)
          else
            let check = ck_add (take (4 * unat hlen) (buffer_str original_serialized_version)) (ck_new 0) in
            if ck_value check \<noteq> 0 then (BadChecksum, h, p)
            else (NoError, h, p))"

definition ip_serialize :: "ipv4_header \<Rightarrow> exn + byte list" where
  "ip_serialize h =
     (if ip_ver h \<noteq> 4 then Inl (Runtime_Error ''wrong IP version'')
      else if 4 * unat (ip_hlen h) < ip_LENGTH then Inl (Runtime_Error ''IP header too short'')
      else
        let first_byte = push_bit 4 (ip_ver h) OR (ip_hlen h AND 0xf);
            ret = put_u8 [] first_byte;
            ret = put_u8 ret (ip_tos h);
            ret = put_u16 ret (ip_len h);
            ret = put_u16 ret (ip_id h);
            fo_val = (if ip_df h then 0x4000 else 0) OR (if ip_mf h then 0x2000 else 0)
              OR (ip_offset h AND 0x1fff);
            ret = put_u16 ret fo_val;
            ret = put_u8 ret (ip_ttl h);
            ret = put_u8 ret (ip_proto h);
            ret = put_u16 ret (ip_cksum h);
            ret = put_u32 ret (ip_src h);
            ret = put_u32 ret (ip_dst h) in
        Inr (str_resize (4 * unat (ip_hlen h)) ret))"

definition ip_payload_length :: "ipv4_header \<Rightarrow> u16" where
  "ip_payload_length h = ip_len h - 4 * ucast (ip_hlen h)"

definition ip_pseudo_cksum :: "ipv4_header \<Rightarrow> u32" where
  "ip_pseudo_cksum h =
     (let pcksum = drop_bit 16 (ip_src h) + (ip_src h AND 0xffff);
          pcksum = pcksum + (drop_bit 16 (ip_dst h) + (ip_dst h AND 0xffff));
          pcksum = pcksum + ucast (ip_proto h);
          pcksum = pcksum + ucast (ip_payload_length h) in
      pcksum)"

section \<open>IPv4Datagram\<close>

record ipv4_datagram =
  dg_header :: ipv4_header
  dg_payload :: buffer_list

definition dg_new :: ipv4_datagram where
  "dg_new = \<lparr>dg_header = ip_new, dg_payload = []\<rparr>"

definition dg_parse :: "buffer \<Rightarrow> ipv4_datagram \<Rightarrow> parse_result \<times> ipv4_datagram" where
  "dg_parse buffer d =
     (let p = np_new buffer;
          (_, h, p) = ip_parse (dg_header d) p;
          payload = bl_of_buffer (np_buffer p);
          d = \<lparr>dg_header = h, dg_payload = payload\<rparr> in
      if bl_size payload \<noteq> unat (ip_payload_length h) then (PacketTooShort, d)
      else (np_error p, d))"

definition dg_serialize :: "ipv4_datagram \<Rightarrow> exn + buffer_list" where
  "dg_serialize d =
     (if bl_size (dg_payload d) \<noteq> unat (ip_payload_length (dg_header d)) then
        Inl (Runtime_Error ''IPv4Datagram::serialize: payload is wrong size'')
      else
        let header_out = (dg_header d)\<lparr>ip_cksum := 0\<rparr> in
        case ip_serialize header_out of
          Inl e \<Rightarrow> Inl e
        | Inr header_zero_checksum \<Rightarrow>
            let check = ck_add header_zero_checksum (ck_new 0);
                header_out = header_out\<lparr>ip_cksum := ck_value check\<rparr> in
            (case ip_serialize header_out of
               Inl e \<Rightarrow> Inl e
             | Inr s \<Rightarrow> Inr (bl_append (bl_append [] (bl_of_string s)) (dg_payload d))))"

section \<open>The wire format of the header\<close>

text \<open>The headers that \<open>serialize\<close> writes without losing bits.\<close>

definition ip_header_ok :: "ipv4_header \<Rightarrow> bool" where
  "ip_header_ok h = (ip_ver h = 4 \<and> 5 \<le> ip_hlen h \<and> ip_hlen h < 16 \<and> ip_offset h < 0x2000)"

definition ip_flags :: "ipv4_header \<Rightarrow> u16" where
  "ip_flags h = (if ip_df h then 0x4000 else 0) OR (if ip_mf h then 0x2000 else 0)
     OR (ip_offset h AND 0x1fff)"

text \<open>The first ten bytes, then the checksum, then the rest.\<close>

definition ip_front :: "ipv4_header \<Rightarrow> byte list" where
  "ip_front h = [push_bit 4 (ip_ver h) OR (ip_hlen h AND 0xf), ip_tos h] @ be16 (ip_len h) @
     be16 (ip_id h) @ be16 (ip_flags h) @ [ip_ttl h, ip_proto h]"

definition ip_back :: "ipv4_header \<Rightarrow> byte list" where
  "ip_back h = be32 (ip_src h) @ be32 (ip_dst h) @ replicate (4 * unat (ip_hlen h) - 20) 0"

definition ip_wire :: "ipv4_header \<Rightarrow> byte list" where
  "ip_wire h = ip_front h @ be16 (ip_cksum h) @ ip_back h"

lemma length_ip_wire [simp]:
  "5 \<le> unat (ip_hlen h) \<Longrightarrow> length (ip_wire h) = 4 * unat (ip_hlen h)"
  "length (ip_front h) = 10"
  by (simp_all add: ip_wire_def ip_front_def ip_back_def)

lemma ip_serialize_eq:
  "ip_serialize h =
     (if ip_ver h \<noteq> 4 then Inl (Runtime_Error ''wrong IP version'')
      else if unat (ip_hlen h) < 5 then Inl (Runtime_Error ''IP header too short'')
      else Inr (ip_wire h))"
  by (auto simp: ip_serialize_def ip_LENGTH_def parse_simps Let_def str_resize_def ip_wire_def
      ip_front_def ip_back_def ip_flags_def)

lemma take_bit_small_u16: "off < 0x2000 \<Longrightarrow> take_bit 13 (off :: u16) = off"
  by (rule unsigned_word_eqI [where 'a = int])
    (simp add: unsigned_take_bit_eq take_bit_int_eq_self_iff word_less_def)

lemma ip_flags_bits:
  "ip_flags h AND 0x4000 \<noteq> 0 \<longleftrightarrow> ip_df h"
  "ip_flags h AND 0x2000 \<noteq> 0 \<longleftrightarrow> ip_mf h"
  "ip_offset h < 0x2000 \<Longrightarrow> ip_flags h AND 0x1fff = ip_offset h"
proof -
  have m: "(0x1fff :: u16) = mask 13" by (simp add: mask_eq_exp_minus_1)
  have "w AND 0x4000 \<noteq> 0 \<longleftrightarrow> bit w 14" "w AND 0x2000 \<noteq> 0 \<longleftrightarrow> bit w 13" for w :: u16
    using and_exp_eq_0_iff_not_bit [of w 14] and_exp_eq_0_iff_not_bit [of w 13] by simp_all
  then show "ip_flags h AND 0x4000 \<noteq> 0 \<longleftrightarrow> ip_df h" "ip_flags h AND 0x2000 \<noteq> 0 \<longleftrightarrow> ip_mf h"
    unfolding ip_flags_def m by (auto simp: bit_simps)
  assume "ip_offset h < 0x2000"
  then show "ip_flags h AND 0x1fff = ip_offset h"
    using take_bit_small_u16 [of "ip_offset h"]
    by (simp add: ip_flags_def bit.conj_disj_distrib2 m flip: take_bit_eq_mask)
qed

lemma ip_first_byte:
  fixes v hl :: u8
  assumes "v = 4" and "hl < 16"
  shows "drop_bit 4 (push_bit 4 v OR (hl AND 0xf)) = 4"
    and "(push_bit 4 v OR (hl AND 0xf)) AND 0xf = hl"
proof -
  have m: "(0xf :: u8) = mask 4" by (simp add: mask_eq_exp_minus_1)
  have hl: "take_bit 4 hl = hl" using assms(2) by (rule take_bit_small_u8)
  then have "drop_bit 4 hl = 0" by (metis drop_bit_take_bit diff_self_eq_0 take_bit_0)
  then show "drop_bit 4 (push_bit 4 v OR (hl AND 0xf)) = 4"
    using assms(1) hl by (simp add: m drop_bit_or flip: take_bit_eq_mask)
  show "(push_bit 4 v OR (hl AND 0xf)) AND 0xf = hl"
    using assms(1) hl by (simp add: bit.conj_disj_distrib2 m flip: take_bit_eq_mask)
qed

section \<open>Parsing a written header\<close>

text \<open>What a parser whose data starts with \<open>ip_wire h\<close> does, on every branch after the fields.\<close>

lemma ip_parse_wire:
  assumes e: "np_error p = NoError" and s: "np_str p = ip_wire h @ rest" and ok: "ip_header_ok h"
  shows "ip_parse h' p =
    (if unat (ip_len h) \<noteq> 4 * unat (ip_hlen h) + length rest then (TruncatedPacket, h, np_adv 20 p)
     else (if ck_value (ck_add (ip_wire h) (ck_new 0)) \<noteq> 0 then BadChecksum else NoError, h,
           np_adv (4 * unat (ip_hlen h)) p))"
proof -
  define hl where "hl = unat (ip_hlen h)"
  have hl: "5 \<le> hl" using ok by (simp add: ip_header_ok_def word_le_nat_alt hl_def)
  have hl5: "\<not> ip_hlen h < 5" using ok by (simp add: ip_header_ok_def not_less)
  have len: "length (np_str p) = 4 * hl + length rest"
    using hl by (simp add: s hl_def)
  define b0 where "b0 = push_bit 4 (ip_ver h) OR (ip_hlen h AND 0xf)"
  have b0: "drop_bit 4 b0 = 4" "b0 AND 0xf = ip_hlen h" "ip_ver h = 4"
    using ip_first_byte [of "ip_ver h" "ip_hlen h"] ok by (auto simp: b0_def ip_header_ok_def)
  have str: "np_str p = b0 # ip_tos h # ucast (drop_bit 8 (ip_len h)) # ucast (ip_len h)
      # ucast (drop_bit 8 (ip_id h)) # ucast (ip_id h)
      # ucast (drop_bit 8 (ip_flags h)) # ucast (ip_flags h) # ip_ttl h # ip_proto h
      # ucast (drop_bit 8 (ip_cksum h)) # ucast (ip_cksum h)
      # ucast (drop_bit 24 (ip_src h)) # ucast (drop_bit 16 (ip_src h))
      # ucast (drop_bit 8 (ip_src h)) # ucast (ip_src h)
      # ucast (drop_bit 24 (ip_dst h)) # ucast (drop_bit 16 (ip_dst h))
      # ucast (drop_bit 8 (ip_dst h)) # ucast (ip_dst h)
      # replicate (4 * hl - 20) 0 @ rest"
    by (simp add: s ip_wire_def ip_front_def ip_back_def be16_def be32_def b0_def hl_def)
  have orig: "take (4 * hl) (buffer_str (np_buffer p)) = ip_wire h"
    using hl s by (simp add: hl_def flip: np_str_def)
  have flags: "ip_flags h AND 0x1fff = ip_offset h"
    using ok ip_flags_bits(3) by (simp add: ip_header_ok_def)
  have fields: "\<lparr>ip_ver = 4, ip_hlen = ip_hlen h, ip_tos = ip_tos h, ip_len = ip_len h,
      ip_id = ip_id h, ip_df = ip_df h, ip_mf = ip_mf h, ip_offset = ip_offset h,
      ip_ttl = ip_ttl h, ip_proto = ip_proto h, ip_cksum = ip_cksum h, ip_src = ip_src h,
      ip_dst = ip_dst h\<rparr> = h" using b0(3) by (cases h) simp
  show ?thesis
    using e hl len orig hl5
    by (simp add: ip_parse_def buffer_size_np_str ip_LENGTH_def parse_simps Let_def str
        b0(1,2) flags ip_flags_bits(1,2) fields np_has_error_def mult.commute [of hl]
        hl_def [symmetric])
qed

definition ip_get :: "byte list \<Rightarrow> (ipv4_header \<times> byte list) option" where
  "ip_get bs =
     (let (r, h, p) = ip_parse ip_new (np_new (buffer_of_string bs)) in
      if r \<in> {NoError, BadChecksum} then Some (h, np_str p)
      else if r = TruncatedPacket then Some (h, drop (4 * unat (ip_hlen h) - ip_LENGTH) (np_str p))
      else None)"

text \<open>Read off the wire in any context, a header is recovered with its options skipped.\<close>

interpretation ip_codec: codec ip_header_ok ip_wire ip_get
proof
  fix h rest
  assume ok: "ip_header_ok h"
  then have hl: "5 \<le> unat (ip_hlen h)" by (simp add: ip_header_ok_def word_le_nat_alt)
  let ?p = "np_new (buffer_of_string (ip_wire h @ rest))"
  show "ip_get (ip_wire h @ rest) = Some (h, rest)"
    using ip_parse_wire [of ?p h rest ip_new] ok hl
    by (simp add: ip_get_def ip_LENGTH_def)
qed

section \<open>Datagrams on the wire\<close>

text \<open>The header with the checksum that \<open>serialize\<close> computes.\<close>

definition ip_with_cksum :: "ipv4_header \<Rightarrow> ipv4_header" where
  "ip_with_cksum h = h\<lparr>ip_cksum := ck_value (ck_add (ip_wire (h\<lparr>ip_cksum := 0\<rparr>)) (ck_new 0))\<rparr>"

definition dg_ok :: "ipv4_datagram \<Rightarrow> bool" where
  "dg_ok d = (ip_header_ok (dg_header d) \<and>
     unat (ip_len (dg_header d)) = 4 * unat (ip_hlen (dg_header d)) + bl_size (dg_payload d))"

lemma ip_header_ok_hlen: "ip_header_ok h \<Longrightarrow> 5 \<le> unat (ip_hlen h) \<and> unat (ip_hlen h) \<le> 15"
  by (auto simp: ip_header_ok_def word_le_nat_alt word_less_nat_alt)

lemma ip_with_cksum_ok [simp]: "ip_header_ok (ip_with_cksum h) = ip_header_ok h"
  "ip_len (ip_with_cksum h) = ip_len h" "ip_hlen (ip_with_cksum h) = ip_hlen h"
  by (simp_all add: ip_header_ok_def ip_with_cksum_def)

lemma ip_with_cksum_verifies:
  assumes "ip_header_ok h"
  shows "ck_value (ck_add (ip_wire (ip_with_cksum h)) (ck_new 0)) = 0"
proof -
  let ?z = "h\<lparr>ip_cksum := 0\<rparr>"
  have parts: "ip_front ?z = ip_front h" "ip_back ?z = ip_back h"
    "ip_front (ip_with_cksum h) = ip_front h" "ip_back (ip_with_cksum h) = ip_back h"
    by (simp_all add: ip_front_def ip_back_def ip_with_cksum_def ip_flags_def)
  have "length (ip_back h) \<le> 48"
    using ip_header_ok_hlen [OF assms] by (auto simp: ip_back_def intro!: le_diff_conv [THEN iffD2])
  then have "ck_value (ck_add (ip_front h @ be16 (ip_cksum (ip_with_cksum h)) @ ip_back h) (ck_new 0)) = 0"
    by (intro ck_inserted) (simp_all add: ip_with_cksum_def ip_wire_def parts be16_def)
  then show ?thesis by (simp add: ip_wire_def parts)
qed

lemma ip_payload_length_ok:
  assumes "unat (ip_len h) = 4 * unat (ip_hlen h) + n"
  shows "unat (ip_payload_length h) = n"
proof -
  have n: "n < 2 ^ 16" "4 * unat (ip_hlen h) < 2 ^ 16"
    using unsigned_less [of "ip_len h", where 'a = nat] assms by simp_all
  then have "unat (4 * ucast (ip_hlen h) :: u16) = 4 * unat (ip_hlen h)"
    by (simp add: unat_word_ariths unsigned_ucast_eq take_bit_eq_mod)
  moreover have "(4 * ucast (ip_hlen h) :: u16) \<le> ip_len h"
    using assms calculation by (simp add: word_le_nat_alt)
  ultimately show ?thesis
    using assms by (simp add: ip_payload_length_def unat_sub)
qed

lemma dg_serialize_ok:
  assumes "dg_ok d"
  shows "dg_serialize d =
    Inr (buffer_of_string (ip_wire (ip_with_cksum (dg_header d))) # dg_payload d)"
proof -
  let ?h = "dg_header d"
  have ok: "ip_header_ok ?h" and len: "unat (ip_payload_length ?h) = bl_size (dg_payload d)"
    using assms ip_payload_length_ok by (auto simp: dg_ok_def)
  then have "ip_ver ?h = 4" "\<not> unat (ip_hlen ?h) < 5"
    using ip_header_ok_hlen [OF ok] by (auto simp: ip_header_ok_def)
  then show ?thesis
    using len by (simp add: dg_serialize_def ip_serialize_eq ip_with_cksum_def bl_of_string_eq)
qed

lemma dg_parse_bytes:
  assumes ok: "ip_header_ok h" and len: "unat (ip_len h) = 4 * unat (ip_hlen h) + length pay"
    and bytes: "buffer_str buffer = ip_wire h @ pay"
  shows "\<exists>b. dg_parse buffer old = (NoError, \<lparr>dg_header = h, dg_payload = [b]\<rparr>) \<and> buffer_str b = pay"
proof -
  let ?p = "np_new buffer"
  let ?b = "np_buffer (np_adv (4 * unat (ip_hlen h)) ?p)"
  have hl: "5 \<le> unat (ip_hlen h)" using ip_header_ok_hlen [OF ok] by simp
  have p: "np_str ?p = ip_wire h @ pay" by (simp add: bytes)
  have str: "buffer_str ?b = pay"
    using np_str_adv [of "4 * unat (ip_hlen h)" ?p] hl p by (simp add: np_str_def)
  then have "bl_size [?b] = unat (ip_payload_length h)"
    using ip_payload_length_ok [OF len] by simp
  then show ?thesis
    using ip_parse_wire [of ?p h pay "dg_header old"] ok len str p
    by (simp add: dg_parse_def bl_of_buffer_def)
qed

lemma dg_parse_wire:
  assumes "ip_header_ok h" and "unat (ip_len h) = 4 * unat (ip_hlen h) + length pay"
  shows "\<exists>b. dg_parse (buffer_of_string (ip_wire h @ pay)) old
    = (NoError, \<lparr>dg_header = h, dg_payload = [b]\<rparr>) \<and> buffer_str b = pay"
  using dg_parse_bytes [OF assms] by simp

text \<open>C15: Serialising a well-formed IPv4 datagram (version 4, header length 5 to 15, 13-bit
  fragment offset, total length field equal to header plus payload) never throws, and parsing the
  bytes gives no error, the same header with a checksum that verifies to zero (so the header's own
  parse reports no error either), and exactly the payload bytes.\<close>

theorem ipv4_datagram_roundtrip:
  assumes "dg_ok d"
  shows "\<exists>bl b. dg_serialize d = Inr bl
    \<and> dg_parse (buffer_of_string (bl_concatenate bl)) old
        = (NoError, \<lparr>dg_header = ip_with_cksum (dg_header d), dg_payload = [b]\<rparr>)
    \<and> buffer_str b = bl_concatenate (dg_payload d)
    \<and> fst (ip_parse (dg_header old) (np_new (buffer_of_string (bl_concatenate bl)))) = NoError"
proof -
  let ?h = "ip_with_cksum (dg_header d)" and ?pay = "bl_concatenate (dg_payload d)"
  let ?p = "np_new (buffer_of_string (ip_wire ?h @ ?pay))"
  have ok: "ip_header_ok ?h" "unat (ip_len ?h) = 4 * unat (ip_hlen ?h) + length ?pay"
    using assms by (simp_all add: dg_ok_def)
  have "fst (ip_parse (dg_header old) ?p) = NoError"
    using ip_parse_wire [of ?p ?h ?pay "dg_header old"] ok ip_with_cksum_verifies
    by (simp add: dg_ok_def)
  then show ?thesis
    using dg_serialize_ok [OF assms] dg_parse_wire [OF ok, of old] by auto
qed

theorem ipv4_datagram_roundtrip_witness:
  "\<exists>bl b. dg_serialize \<lparr>dg_header = ip_new\<lparr>ip_len := 22\<rparr>, dg_payload = [buffer_of_string [7, 8]]\<rparr> = Inr bl
    \<and> dg_parse (buffer_of_string (bl_concatenate bl)) dg_new
        = (NoError, \<lparr>dg_header = ip_with_cksum (ip_new\<lparr>ip_len := 22\<rparr>), dg_payload = [b]\<rparr>)
    \<and> buffer_str b = [7, 8]
    \<and> fst (ip_parse ip_new (np_new (buffer_of_string (bl_concatenate bl)))) = NoError"
  using ipv4_datagram_roundtrip
    [of "\<lparr>dg_header = ip_new\<lparr>ip_len := 22\<rparr>, dg_payload = [buffer_of_string [7, 8]]\<rparr>" dg_new]
  by (simp add: dg_ok_def ip_header_ok_def ip_new_def ip_LENGTH_def dg_new_def)

text \<open>C36: \<open>IPv4Datagram::parse\<close> accepts a datagram whose header checksum is wrong: the header's
  parse reports \<open>BadChecksum\<close> as a return value, which the datagram's parse drops; it returns the
  parser's own error instead, which stays \<open>NoError\<close>.\<close>

theorem ipv4_bad_checksum_accepted:
  assumes "ip_header_ok h" and "unat (ip_len h) = 4 * unat (ip_hlen h) + length pay"
    and "ck_value (ck_add (ip_wire h) (ck_new 0)) \<noteq> 0"
  shows "fst (ip_parse (dg_header old) (np_new (buffer_of_string (ip_wire h @ pay)))) = BadChecksum
    \<and> (\<exists>b. dg_parse (buffer_of_string (ip_wire h @ pay)) old
          = (NoError, \<lparr>dg_header = h, dg_payload = [b]\<rparr>) \<and> buffer_str b = pay)"
  using dg_parse_wire [OF assms(1,2), of old]
    ip_parse_wire [of "np_new (buffer_of_string (ip_wire h @ pay))" h pay "dg_header old"] assms
  by simp

theorem ipv4_bad_checksum_accepted_witness:
  "\<exists>b. dg_parse (buffer_of_string (ip_wire (ip_new\<lparr>ip_len := 21\<rparr>) @ [7])) dg_new
     = (NoError, \<lparr>dg_header = ip_new\<lparr>ip_len := 21\<rparr>, dg_payload = [b]\<rparr>) \<and> buffer_str b = [7]"
proof -
  have "ck_value (ck_add (ip_wire (ip_new\<lparr>ip_len := 21\<rparr>)) (ck_new 0)) \<noteq> 0"
    by (simp add: ck_value_zero_iff ip_wire_def ip_front_def ip_back_def ip_flags_def ip_new_def
        ip_LENGTH_def be16_def be32_def DEFAULT_TTL_def PROTO_TCP_def)
  then show ?thesis
    using ipv4_bad_checksum_accepted [of "ip_new\<lparr>ip_len := 21\<rparr>" "[7]" dg_new]
    by (simp add: ip_header_ok_def ip_new_def ip_LENGTH_def)
qed

text \<open>\<open>IPv4Datagram::serialize\<close> throws in exactly three cases, tested in this order: the
  payload's size is not the header's total length less its header length, the version is not 4,
  the header length is below 5 words. Otherwise it returns the header bytes with the computed
  checksum followed by the payload buffers.\<close>

theorem ipv4_serialize_cases:
  "dg_serialize d =
    (if bl_size (dg_payload d) \<noteq> unat (ip_payload_length (dg_header d)) then
       Inl (Runtime_Error ''IPv4Datagram::serialize: payload is wrong size'')
     else if ip_ver (dg_header d) \<noteq> 4 then Inl (Runtime_Error ''wrong IP version'')
     else if unat (ip_hlen (dg_header d)) < 5 then Inl (Runtime_Error ''IP header too short'')
     else Inr (buffer_of_string (ip_wire (ip_with_cksum (dg_header d))) # dg_payload d))"
  by (simp add: dg_serialize_def ip_serialize_eq ip_with_cksum_def bl_of_string_eq)

end
