(* ===== verification/TCP_Over_IP.thy ===== *)
theory TCP_Over_IP
  imports Address TCP_Segment IPv4
begin

text \<open>
  \<open>libsponge/tcp_helpers/tcp_over_ip.{hh,cc}\<close>, the base class of \<open>fd_adapter.hh\<close> and \<open>FdAdapterConfig\<close>
  of \<open>tcp_config.hh\<close>: TCP segments in IPv4 datagrams, and the filter that ties an adapter to its peer.
\<close>

section \<open>FdAdapterConfig and FdAdapterBase\<close>

record fd_adapter_config =
  fc_source :: address
  fc_destination :: address
  fc_loss_rate_dn :: u16
  fc_loss_rate_up :: u16

record fd_adapter =
  fa_cfg :: fd_adapter_config
  fa_listen :: bool

definition fc_new :: "resolver \<Rightarrow> exn + fd_adapter_config" where
  "fc_new R =
     andthen (ad_numeric R ''0'' 0) (\<lambda>source.
     andthen (ad_numeric R ''0'' 0) (\<lambda>destination.
       Inr \<lparr>fc_source = source, fc_destination = destination, fc_loss_rate_dn = 0, fc_loss_rate_up = 0\<rparr>))"

definition fa_new :: "resolver \<Rightarrow> exn + fd_adapter" where
  "fa_new R = andthen (fc_new R) (\<lambda>cfg. Inr \<lparr>fa_cfg = cfg, fa_listen = False\<rparr>)"

definition fa_set_listening :: "bool \<Rightarrow> fd_adapter \<Rightarrow> fd_adapter" where
  "fa_set_listening l fa = fa\<lparr>fa_listen := l\<rparr>"

definition fa_tick :: "u64 \<Rightarrow> fd_adapter \<Rightarrow> fd_adapter" where
  "fa_tick ms fa = fa"

section \<open>TCPOverIPv4Adapter\<close>

text \<open>The two tests of the addresses, for an adapter that is not listening.\<close>

definition ipa_related :: "ipv4_header \<Rightarrow> fd_adapter \<Rightarrow> exn + bool" where
  "ipa_related h fa =
     (if fa_listen fa then Inr True
      else
        andthen (ipv4_numeric (fc_source (fa_cfg fa))) (\<lambda>source.
          if ip_dst h \<noteq> source then Inr False
          else andthen (ipv4_numeric (fc_destination (fa_cfg fa))) (\<lambda>destination.
            Inr (ip_src h = destination))))"

text \<open>A listening adapter takes the addresses of the first SYN.\<close>

definition ipa_adopt ::
  "resolver \<Rightarrow> ipv4_header \<Rightarrow> tcp_header \<Rightarrow> fd_adapter \<Rightarrow> exn + fd_adapter" where
  "ipa_adopt R ip tcp fa =
     andthen (ad_port R (fc_source (fa_cfg fa))) (\<lambda>port.
     andthen (ad_numeric R (inet_ntoa (ip_dst ip)) port) (\<lambda>source.
     andthen (ad_numeric R (inet_ntoa (ip_src ip)) (th_sport tcp)) (\<lambda>destination.
       Inr (fa_set_listening False
         (fa\<lparr>fa_cfg := (fa_cfg fa)\<lparr>fc_source := source, fc_destination := destination\<rparr>\<rparr>)))))"

definition ipa_unwrap ::
  "resolver \<Rightarrow> ipv4_datagram \<Rightarrow> fd_adapter \<Rightarrow> exn + tcp_segment option \<times> fd_adapter" where
  "ipa_unwrap R ip_dgram fa =
     andthen (ipa_related (dg_header ip_dgram) fa) (\<lambda>related.
       if \<not> related then Inr (None, fa)
       else if ip_proto (dg_header ip_dgram) \<noteq> PROTO_TCP then Inr (None, fa)
       else
         andthen (bl_to_buffer (dg_payload ip_dgram)) (\<lambda>payload.
           let (state, tcp_seg) = seg_parse payload (ip_pseudo_cksum (dg_header ip_dgram)) seg_new;
               h = seg_header tcp_seg in
           if state \<noteq> NoError then Inr (None, fa)
           else
             andthen (ad_port R (fc_source (fa_cfg fa))) (\<lambda>own_port.
               if th_dport h \<noteq> own_port then Inr (None, fa)
               else if fa_listen fa \<and> \<not> (th_syn h \<and> \<not> th_rst h) then Inr (None, fa)
               else
                 andthen (if fa_listen fa then ipa_adopt R (dg_header ip_dgram) h fa else Inr fa) (\<lambda>fa.
                 andthen (ad_port R (fc_destination (fa_cfg fa))) (\<lambda>peer_port.
                   Inr (if th_sport h \<noteq> peer_port then None else Some tcp_seg, fa))))))"

definition ipa_wrap ::
  "resolver \<Rightarrow> tcp_segment \<Rightarrow> fd_adapter \<Rightarrow> exn + ipv4_datagram \<times> tcp_segment" where
  "ipa_wrap R seg fa =
     andthen (ad_port R (fc_source (fa_cfg fa))) (\<lambda>sport.
     andthen (ad_port R (fc_destination (fa_cfg fa))) (\<lambda>dport.
       let seg = seg\<lparr>seg_header := (seg_header seg)\<lparr>th_sport := sport, th_dport := dport\<rparr>\<rparr> in
       andthen (ipv4_numeric (fc_source (fa_cfg fa))) (\<lambda>src.
       andthen (ipv4_numeric (fc_destination (fa_cfg fa))) (\<lambda>dst.
         let h = ip_new\<lparr>ip_src := src, ip_dst := dst\<rparr>;
             h = h\<lparr>ip_len := of_nat (unat (ip_hlen h) * 4 + unat (th_doff (seg_header seg)) * 4 + buffer_size (seg_payload seg))\<rparr> in
         andthen (seg_serialize (ip_pseudo_cksum h) seg) (\<lambda>payload.
           Inr (\<lparr>dg_header = h, dg_payload = payload\<rparr>, seg))))))"

section \<open>What comes back\<close>

text \<open>An adapter between two Internet addresses.\<close>

definition fa_between :: "u32 \<Rightarrow> u16 \<Rightarrow> u32 \<Rightarrow> u16 \<Rightarrow> bool \<Rightarrow> fd_adapter \<Rightarrow> bool" where
  "fa_between source sport destination dport listen fa \<longleftrightarrow>
     fc_source (fa_cfg fa) = inet_address source sport \<and>
     fc_destination (fa_cfg fa) = inet_address destination dport \<and> fa_listen fa = listen"

text \<open>The bytes of a datagram as the other end parses them.\<close>

definition dg_over_wire :: "ipv4_datagram \<Rightarrow> exn + parse_result \<times> ipv4_datagram" where
  "dg_over_wire d = andthen (dg_serialize d) (\<lambda>bl. Inr (dg_parse (buffer_of_string (bl_concatenate bl)) dg_new))"

lemma seg_parse_bytes:
  assumes "th_ok h" and "uint init + 65280 * (60 + int (length pay)) < 2 ^ 32"
    and "buffer_str buffer = th_wire (th_with_cksum init pay h) @ pay"
  obtains b where "seg_parse buffer init old = (NoError, \<lparr>seg_header = th_with_cksum init pay h, seg_payload = b\<rparr>)"
    and "buffer_str b = pay"
proof -
  let ?h = "th_with_cksum init pay h"
  have "5 \<le> unat (th_doff ?h)" using th_ok_doff [OF assms(1)] by simp
  moreover have "th_parse (seg_header old) (np_new buffer) = (NoError, ?h, np_adv (4 * unat (th_doff ?h)) (np_new buffer))"
    by (rule th_parse_wire) (use assms in simp_all)
  moreover have "buffer_str (np_buffer (np_adv (4 * unat (th_doff ?h)) (np_new buffer))) = pay"
    using np_str_adv [of "4 * unat (th_doff ?h)" "np_new buffer"] calculation(1) assms(3) by (simp add: np_str_def)
  ultimately show thesis
    using th_with_cksum_verifies [OF assms(1,2)] assms(3) by (intro that) (auto simp: seg_parse_def)
qed

text \<open>The pseudo checksum is a sum of six halves, so it stays below \<open>6 * 2^16\<close>.\<close>

lemma ip_pseudo_cksum_bound: "uint (ip_pseudo_cksum h) < 6 * 2 ^ 16"
proof -
  have high: "uint (drop_bit 16 w) < 2 ^ 16" for w :: u32
  proof -
    have "uint w < 2 ^ 32" using unsigned_less [of w, where 'a = int] by simp
    then show ?thesis by (simp add: unsigned_drop_bit_eq take_bit_eq_mod drop_bit_eq_div [where 'a = int])
  qed
  have low: "uint (w AND 0xffff) < 2 ^ 16" for w :: u32
  proof -
    have "w AND 0xffff = take_bit 16 w" by (simp add: take_bit_eq_mask mask_eq_exp_minus_1)
    then show ?thesis by (simp only: unsigned_take_bit_eq take_bit_int_less_exp)
  qed
  have rest: "uint (ucast (ip_proto h) :: u32) < 2 ^ 16" "uint (ucast (ip_payload_length h) :: u32) < 2 ^ 16"
    using unsigned_less [of "ip_proto h", where 'a = int] unsigned_less [of "ip_payload_length h", where 'a = int]
    by (simp_all add: unsigned_ucast_eq take_bit_eq_mod)
  have add: "uint (a + b) \<le> uint a + uint b" for a b :: u32 by (rule uint_add_le)
  show ?thesis
    unfolding ip_pseudo_cksum_def Let_def
    using high [of "ip_src h"] low [of "ip_src h"] high [of "ip_dst h"] low [of "ip_dst h"] rest
      add [of "drop_bit 16 (ip_src h)" "ip_src h AND 0xffff"]
      add [of "drop_bit 16 (ip_dst h)" "ip_dst h AND 0xffff"]
      add [of "drop_bit 16 (ip_src h) + (ip_src h AND 0xffff)" "drop_bit 16 (ip_dst h) + (ip_dst h AND 0xffff)"]
      add [of "drop_bit 16 (ip_src h) + (ip_src h AND 0xffff) + (drop_bit 16 (ip_dst h) + (ip_dst h AND 0xffff))"
        "ucast (ip_proto h)"]
      add [of "drop_bit 16 (ip_src h) + (ip_src h AND 0xffff) + (drop_bit 16 (ip_dst h) + (ip_dst h AND 0xffff)) +
        ucast (ip_proto h)" "ucast (ip_payload_length h)"]
    by linarith
qed

text \<open>What \<open>wrap_tcp_in_ip\<close> builds.\<close>

lemma ipa_wrap_ok:
  assumes R: "numeric_service R" and fa: "fa_between source sport destination dport listen fa"
    and ok: "th_ok (seg_header seg)" and size: "length (buffer_str (seg_payload seg)) \<le> 65455"
  defines "h \<equiv> (seg_header seg)\<lparr>th_sport := sport, th_dport := dport\<rparr>"
  defines "ip \<equiv> ip_new\<lparr>ip_src := source, ip_dst := destination,
    ip_len := of_nat (20 + 4 * unat (th_doff (seg_header seg)) + length (buffer_str (seg_payload seg)))\<rparr>"
  defines "payload \<equiv> [buffer_of_string (th_wire (th_with_cksum (ip_pseudo_cksum ip) (buffer_str (seg_payload seg)) h)),
    seg_payload seg]"
  shows "ipa_wrap R seg fa = Inr (\<lparr>dg_header = ip, dg_payload = payload\<rparr>, seg\<lparr>seg_header := h\<rparr>)"
    and "dg_ok \<lparr>dg_header = ip, dg_payload = payload\<rparr>"
    and "uint (ip_pseudo_cksum ip) + 65280 * (60 + int (length (buffer_str (seg_payload seg)))) < 2 ^ 32"
proof -
  have d: "5 \<le> unat (th_doff (seg_header seg))" "unat (th_doff (seg_header seg)) \<le> 15"
    using th_ok_doff [OF ok] by simp_all
  then have "\<not> th_doff (seg_header seg) < 5" by (simp add: word_less_nat_alt)
  moreover have hl: "ip_hlen ip_new = 5" by (simp add: ip_new_def ip_LENGTH_def)
  ultimately show "ipa_wrap R seg fa = Inr (\<lparr>dg_header = ip, dg_payload = payload\<rparr>, seg\<lparr>seg_header := h\<rparr>)"
    using fa numeric_service.port_inet [OF R]
    by (simp add: ipa_wrap_def fa_between_def Let_def seg_serialize_eq payload_def h_def ip_def buffer_size_def
        mult.commute)
  have len: "length (bl_concatenate payload) = 4 * unat (th_doff (seg_header seg)) + length (buffer_str (seg_payload seg))"
    using d by (simp add: payload_def h_def)
  have "unat (ip_len ip) = 20 + length (bl_concatenate payload)"
  proof -
    define n where "n = 20 + 4 * unat (th_doff (seg_header seg)) + length (buffer_str (seg_payload seg))"
    have "ip_len ip = of_nat n" unfolding ip_def n_def by simp
    moreover have "n < 2 ^ 16" using d size by (simp add: n_def)
    ultimately have "unat (ip_len ip) = n" by (simp add: unat_of_nat)
    then show ?thesis using len by (simp add: n_def)
  qed
  then show "dg_ok \<lparr>dg_header = ip, dg_payload = payload\<rparr>"
    using hl by (simp add: dg_ok_def ip_header_ok_def ip_def) (simp add: ip_new_def)
  show "uint (ip_pseudo_cksum ip) + 65280 * (60 + int (length (buffer_str (seg_payload seg)))) < 2 ^ 32"
    using ip_pseudo_cksum_bound [of ip] size by simp
qed

lemma ip_pseudo_cksum_with_cksum [simp]: "ip_pseudo_cksum (ip_with_cksum h) = ip_pseudo_cksum h"
  by (simp add: ip_pseudo_cksum_def ip_with_cksum_def ip_payload_length_def)

lemma ip_with_cksum_fields [simp]:
  "ip_src (ip_with_cksum h) = ip_src h" "ip_dst (ip_with_cksum h) = ip_dst h" "ip_proto (ip_with_cksum h) = ip_proto h"
  by (simp_all add: ip_with_cksum_def)

lemma ipa_wrap_unwrap:
  assumes "numeric_service R" and "fa_between source sport destination dport listen sender"
    and "fa_between destination dport source sport False receiver"
    and "th_ok (seg_header seg)" and "length (buffer_str (seg_payload seg)) \<le> 65455"
  obtains d seg' init where "ipa_wrap R seg sender = Inr (d, seg')" and "dg_ok d"
    and "\<And>pb. buffer_str pb = bl_concatenate (dg_payload d) \<Longrightarrow>
      \<exists>b. ipa_unwrap R \<lparr>dg_header = ip_with_cksum (dg_header d), dg_payload = [pb]\<rparr> receiver =
        Inr (Some \<lparr>seg_header = th_with_cksum init (buffer_str (seg_payload seg))
             ((seg_header seg)\<lparr>th_sport := sport, th_dport := dport\<rparr>), seg_payload = b\<rparr>, receiver) \<and>
        buffer_str b = buffer_str (seg_payload seg)"
proof -
  define h where "h = (seg_header seg)\<lparr>th_sport := sport, th_dport := dport\<rparr>"
  define ip where "ip = ip_new\<lparr>ip_src := source, ip_dst := destination,
    ip_len := of_nat (20 + 4 * unat (th_doff (seg_header seg)) + length (buffer_str (seg_payload seg)))\<rparr>"
  define tcp where "tcp = th_with_cksum (ip_pseudo_cksum ip) (buffer_str (seg_payload seg)) h"
  define d where "d = \<lparr>dg_header = ip, dg_payload = [buffer_of_string (th_wire tcp), seg_payload seg]\<rparr>"
  note wrap = ipa_wrap_ok [OF assms(1,2,4,5), folded h_def ip_def]
  have w: "ipa_wrap R seg sender = Inr (d, seg\<lparr>seg_header := h\<rparr>)" "dg_ok d"
    using wrap(1,2) by (simp_all add: d_def tcp_def)
  have bytes: "bl_concatenate (dg_payload d) = th_wire tcp @ buffer_str (seg_payload seg)" by (simp add: d_def)
  have ok: "th_ok h" using assms(4) by (simp add: h_def th_ok_def)
  have fields: "th_dport tcp = dport" "th_sport tcp = sport" "ip_src ip = source" "ip_dst ip = destination"
    "ip_proto ip = PROTO_TCP" "dg_header d = ip"
    by (simp_all add: tcp_def th_with_cksum_def h_def ip_def ip_new_def d_def)
  show thesis
  proof (rule that [OF w])
    fix pb
    assume pb: "buffer_str pb = bl_concatenate (dg_payload d)"
    then obtain b where b: "seg_parse pb (ip_pseudo_cksum ip) seg_new = (NoError, \<lparr>seg_header = tcp, seg_payload = b\<rparr>)"
      "buffer_str b = buffer_str (seg_payload seg)"
      using seg_parse_bytes [OF ok wrap(3), of pb seg_new] bytes unfolding tcp_def by metis
    then have "ipa_unwrap R \<lparr>dg_header = ip_with_cksum (dg_header d), dg_payload = [pb]\<rparr> receiver =
        Inr (Some \<lparr>seg_header = tcp, seg_payload = b\<rparr>, receiver)"
      using assms(3) fields numeric_service.port_inet [OF assms(1)]
      by (simp add: ipa_unwrap_def ipa_related_def fa_between_def bl_to_buffer_def)
    then show "\<exists>b. ipa_unwrap R \<lparr>dg_header = ip_with_cksum (dg_header d), dg_payload = [pb]\<rparr> receiver =
        Inr (Some \<lparr>seg_header = th_with_cksum (ip_pseudo_cksum ip) (buffer_str (seg_payload seg))
             ((seg_header seg)\<lparr>th_sport := sport, th_dport := dport\<rparr>), seg_payload = b\<rparr>, receiver) \<and>
        buffer_str b = buffer_str (seg_payload seg)"
      using b(2) unfolding tcp_def h_def by blast
  qed
qed

definition example_adapter :: "u32 \<Rightarrow> u16 \<Rightarrow> u32 \<Rightarrow> u16 \<Rightarrow> bool \<Rightarrow> fd_adapter" where
  "example_adapter source sport destination dport listen =
     \<lparr>fa_cfg = \<lparr>fc_source = inet_address source sport, fc_destination = inet_address destination dport,
        fc_loss_rate_dn = 0, fc_loss_rate_up = 0\<rparr>, fa_listen = listen\<rparr>"

lemma example_adapter_between:
  "fa_between source sport destination dport listen (example_adapter source sport destination dport listen)"
  by (simp add: fa_between_def example_adapter_def)

section \<open>Properties\<close>

text \<open>(the filter) With Internet addresses on both sides, \<open>unwrap_tcp_in_ip\<close> never throws on a datagram
  with a single payload buffer. It returns the parsed segment exactly when the datagram claims TCP,
  the segment's checksum verifies and its header parses, the destination port is the adapter's, and
  either the adapter is not listening and both addresses and the source port are those of its peer,
  or it is listening and the segment has SYN without RST. The adapter changes only in the second
  case: it stops listening and takes both addresses and the peer's port from the segment.\<close>

theorem unwrap_filters:
  assumes "numeric_service R" and "fa_between source sport destination dport listen fa"
    and "dg_payload d = [b]"
    and "seg_parse b (ip_pseudo_cksum (dg_header d)) seg_new = (state, seg)"
  defines "h \<equiv> seg_header seg" and "ip \<equiv> dg_header d"
  defines "mine \<equiv> ip_proto ip = PROTO_TCP \<and> state = NoError \<and> th_dport h = sport"
  shows "ipa_unwrap R d fa = Inr
    (if mine \<and> \<not> listen \<and> ip_dst ip = source \<and> ip_src ip = destination \<and> th_sport h = dport then (Some seg, fa)
     else if mine \<and> listen \<and> th_syn h \<and> \<not> th_rst h then
       (Some seg, fa\<lparr>fa_listen := False, fa_cfg := (fa_cfg fa)\<lparr>fc_source := inet_address (ip_dst ip) sport,
          fc_destination := inet_address (ip_src ip) (th_sport h)\<rparr>\<rparr>)
     else (None, fa))"
proof -
  note R = numeric_service.port_inet [OF assms(1)] numeric_service.numeric_inet [OF assms(1)]
  have cfg: "fc_source (fa_cfg fa) = inet_address source sport" "fc_destination (fa_cfg fa) = inet_address destination dport"
    "fa_listen fa = listen" using assms(2) by (simp_all add: fa_between_def)
  have adopt: "ipa_adopt R ip h fa = Inr (fa\<lparr>fa_listen := False, fa_cfg := (fa_cfg fa)\<lparr>fc_source := inet_address (ip_dst ip) sport,
      fc_destination := inet_address (ip_src ip) (th_sport h)\<rparr>\<rparr>)"
    by (simp add: ipa_adopt_def cfg R fa_set_listening_def)
  show ?thesis
  proof (cases listen)
    case True
    then show ?thesis
      using adopt assms(3,4) by (simp add: ipa_unwrap_def ipa_related_def cfg bl_to_buffer_def R mine_def h_def ip_def Let_def)
  next
    case False
    then show ?thesis
      using assms(3,4)
      by (simp add: ipa_unwrap_def ipa_related_def cfg bl_to_buffer_def R mine_def h_def ip_def Let_def) blast
  qed
qed

theorem unwrap_filters_witness:
  "ipa_unwrap numeric_resolver \<lparr>dg_header = ip_new\<lparr>ip_proto := 17\<rparr>, dg_payload = [empty_buffer]\<rparr>
     (example_adapter 0 80 0 0 True) = Inr (None, example_adapter 0 80 0 0 True)"
proof -
  obtain state seg where "seg_parse empty_buffer
      (ip_pseudo_cksum (dg_header \<lparr>dg_header = ip_new\<lparr>ip_proto := 17\<rparr>, dg_payload = [empty_buffer]\<rparr>)) seg_new = (state, seg)"
    by force
  then show ?thesis
    using unwrap_filters [OF numeric.numeric_service_axioms example_adapter_between [of 0 80 0 0 True],
        of "\<lparr>dg_header = ip_new\<lparr>ip_proto := 17\<rparr>, dg_payload = [empty_buffer]\<rparr>" empty_buffer state seg]
    by (simp add: PROTO_TCP_def)
qed

text \<open>C34: (through the wire) A segment with a data offset of 5 to 15 words and at most 65455 payload bytes, wrapped by one
  adapter, serialised, parsed by the other end and unwrapped by the adapter of the peer, comes
  through: same header, with the ports of the connection and a checksum that verifies, and the same
  payload.\<close>

theorem wrap_unwrap_roundtrip:
  assumes "numeric_service R" and "fa_between source sport destination dport listen sender"
    and "fa_between destination dport source sport False receiver"
    and "th_ok (seg_header seg)" and "length (buffer_str (seg_payload seg)) \<le> 65455"
  shows "\<exists>d seg' d' b init. ipa_wrap R seg sender = Inr (d, seg') \<and> dg_over_wire d = Inr (NoError, d') \<and>
    ipa_unwrap R d' receiver =
      Inr (Some \<lparr>seg_header = th_with_cksum init (buffer_str (seg_payload seg))
             ((seg_header seg)\<lparr>th_sport := sport, th_dport := dport\<rparr>), seg_payload = b\<rparr>, receiver) \<and>
    buffer_str b = buffer_str (seg_payload seg)"
proof -
  obtain d seg' init where w: "ipa_wrap R seg sender = Inr (d, seg')" "dg_ok d"
    and unwrap: "\<And>pb. buffer_str pb = bl_concatenate (dg_payload d) \<Longrightarrow>
      \<exists>b. ipa_unwrap R \<lparr>dg_header = ip_with_cksum (dg_header d), dg_payload = [pb]\<rparr> receiver =
        Inr (Some \<lparr>seg_header = th_with_cksum init (buffer_str (seg_payload seg))
             ((seg_header seg)\<lparr>th_sport := sport, th_dport := dport\<rparr>), seg_payload = b\<rparr>, receiver) \<and>
        buffer_str b = buffer_str (seg_payload seg)"
    using ipa_wrap_unwrap [OF assms] by metis
  obtain pb where "dg_parse (buffer_of_string (ip_wire (ip_with_cksum (dg_header d)) @ bl_concatenate (dg_payload d))) dg_new
      = (NoError, \<lparr>dg_header = ip_with_cksum (dg_header d), dg_payload = [pb]\<rparr>)" "buffer_str pb = bl_concatenate (dg_payload d)"
    using dg_parse_wire [of "ip_with_cksum (dg_header d)" "bl_concatenate (dg_payload d)" dg_new] w(2)
    by (auto simp: dg_ok_def)
  then have "dg_over_wire d = Inr (NoError, \<lparr>dg_header = ip_with_cksum (dg_header d), dg_payload = [pb]\<rparr>)"
    "buffer_str pb = bl_concatenate (dg_payload d)"
    using dg_serialize_ok [OF w(2)] by (simp_all add: dg_over_wire_def)
  then show ?thesis using w(1) unwrap [of pb] by blast
qed

theorem wrap_unwrap_roundtrip_witness:
  "\<exists>d seg' d' seg. ipa_wrap numeric_resolver (seg_new\<lparr>seg_payload := buffer_of_string [1, 2, 3]\<rparr>)
     (example_adapter 0x0A000001 1000 0x0A000002 80 True) = Inr (d, seg') \<and> dg_over_wire d = Inr (NoError, d') \<and>
   ipa_unwrap numeric_resolver d' (example_adapter 0x0A000002 80 0x0A000001 1000 False) =
     Inr (Some seg, example_adapter 0x0A000002 80 0x0A000001 1000 False) \<and> buffer_str (seg_payload seg) = [1, 2, 3]"
proof -
  let ?seg = "seg_new\<lparr>seg_payload := buffer_of_string [1, 2, 3]\<rparr>"
  have "th_ok (seg_header ?seg)" "length (buffer_str (seg_payload ?seg)) \<le> 65455" "buffer_str (seg_payload ?seg) = [1, 2, 3]"
    by (simp_all add: seg_new_def th_new_def th_LENGTH_def th_ok_def)
  then show ?thesis
    using wrap_unwrap_roundtrip [OF numeric.numeric_service_axioms
        example_adapter_between [of "0x0A000001" 1000 "0x0A000002" 80 True] example_adapter_between, of ?seg]
    by (metis tcp_segment.select_convs(2))
qed

end
