(* ===== verification/Link_Layer.thy ===== *)
theory Link_Layer
  imports Net_Parser
begin

text \<open>
  \<open>libsponge/tcp_helpers/ethernet_header.{hh,cc}\<close>, \<open>ethernet_frame.{hh,cc}\<close> and
  \<open>arp_message.{hh,cc}\<close>: the Ethernet header and frame and the ARP message, with their parsers and
  serialisers. A \<open>parse\<close> member function is a function from the parser and the object's old fields
  to the result, the new fields and the parser, since an early return leaves later fields as they
  were.
\<close>

section \<open>Ethernet addresses\<close>

text \<open>\<open>std::array<uint8_t, 6>\<close>.\<close>

datatype ethernet_address = EA byte byte byte byte byte byte

fun ea_bytes :: "ethernet_address \<Rightarrow> byte list" where
  "ea_bytes (EA a b c d e f) = [a, b, c, d, e, f]"

definition ethernet_broadcast :: ethernet_address where
  "ethernet_broadcast = EA 0xff 0xff 0xff 0xff 0xff 0xff"

definition ea_zero :: ethernet_address where
  "ea_zero = EA 0 0 0 0 0 0"

lemma length_ea_bytes [simp]: "length (ea_bytes a) = 6"
  by (cases a) simp

lemma ea_bytes_inject [simp]: "ea_bytes a = ea_bytes b \<longleftrightarrow> a = b"
  by (cases a; cases b) simp

text \<open>\<open>for (auto &byte : address) byte = p.u8();\<close>\<close>

definition np_address :: "net_parser \<Rightarrow> ethernet_address \<times> net_parser" where
  "np_address p =
     (let (a, p) = np_u8 p; (b, p) = np_u8 p; (c, p) = np_u8 p;
          (d, p) = np_u8 p; (e, p) = np_u8 p; (f, p) = np_u8 p in
      (EA a b c d e f, p))"

text \<open>\<open>for (auto &byte : address) NetUnparser::u8(ret, byte);\<close>\<close>

definition put_address :: "byte list \<Rightarrow> ethernet_address \<Rightarrow> byte list" where
  "put_address ret a = fold (\<lambda>b ret. put_u8 ret b) (ea_bytes a) ret"

lemma put_address_eq [parse_simps]: "put_address s a = s @ ea_bytes a"
  by (cases a) (simp add: put_address_def parse_simps)

lemma np_address_ok [parse_simps]:
  assumes "np_error p = NoError" and "6 \<le> length (np_str p)"
  shows "np_address p =
    (EA (np_str p ! 0) (np_str p ! 1) (np_str p ! 2) (np_str p ! 3) (np_str p ! 4) (np_str p ! 5),
     np_adv 6 p)"
proof -
  have "n + 1 \<le> length (np_str p) \<Longrightarrow> np_u8 (np_adv n p) = (np_str p ! n, np_adv (n + 1) p)" for n
    using assms by (simp add: np_u8_ok)
  then show ?thesis
    using assms by (simp add: np_address_def np_u8_ok Let_def numeral_2_eq_2 [symmetric])
qed

section \<open>EthernetHeader\<close>

record ethernet_header =
  eth_dst :: ethernet_address
  eth_src :: ethernet_address
  eth_type :: u16

definition eth_LENGTH :: nat where "eth_LENGTH = 14"
definition TYPE_IPv4 :: u16 where "TYPE_IPv4 = 0x800"
definition TYPE_ARP :: u16 where "TYPE_ARP = 0x806"

definition eth_header_zero :: ethernet_header where
  "eth_header_zero = \<lparr>eth_dst = ea_zero, eth_src = ea_zero, eth_type = 0\<rparr>"

definition eth_parse ::
  "ethernet_header \<Rightarrow> net_parser \<Rightarrow> parse_result \<times> ethernet_header \<times> net_parser" where
  "eth_parse h p =
     (if buffer_size (np_buffer p) < eth_LENGTH then (PacketTooShort, h, p)
      else
        let (dst, p) = np_address p; (src, p) = np_address p; (type, p) = np_u16 p in
        (np_error p, \<lparr>eth_dst = dst, eth_src = src, eth_type = type\<rparr>, p))"

definition eth_serialize :: "ethernet_header \<Rightarrow> byte list" where
  "eth_serialize h = put_u16 (put_address (put_address [] (eth_dst h)) (eth_src h)) (eth_type h)"

lemma length_eth_serialize [simp]: "length (eth_serialize h) = 14"
  by (simp add: eth_serialize_def parse_simps)

lemma eth_parse_serialize:
  assumes "np_error p = NoError" and "np_str p = eth_serialize h @ rest"
  shows "eth_parse h' p = (NoError, h, np_adv 14 p)"
proof -
  obtain a b c d e f a' b' c' d' e' f' t where
    h: "h = \<lparr>eth_dst = EA a b c d e f, eth_src = EA a' b' c' d' e' f', eth_type = t\<rparr>"
    by (cases h, metis ethernet_address.exhaust)
  have s: "np_str p = a # b # c # d # e # f # a' # b' # c' # d' # e' # f'
      # ucast (drop_bit 8 t) # ucast t # rest"
    using assms(2) by (simp add: h eth_serialize_def parse_simps be16_def)
  show ?thesis
    using assms(1) s
    by (simp add: eth_parse_def buffer_size_np_str eth_LENGTH_def parse_simps h)
qed

text \<open>A parse that reports no error has read the header and left the rest.\<close>

lemma eth_parse_short:
  "length (np_str p) < 14 \<Longrightarrow> eth_parse h p = (PacketTooShort, h, p)"
  by (simp add: eth_parse_def buffer_size_np_str eth_LENGTH_def)

definition eth_get :: "byte list \<Rightarrow> (ethernet_header \<times> byte list) option" where
  "eth_get bs =
     (let (r, h, p) = eth_parse eth_header_zero (np_new (buffer_of_string bs)) in
      if r = NoError then Some (h, np_str p) else None)"

interpretation eth_codec: codec "\<lambda>_. True" eth_serialize eth_get
  proof
  fix h rest
  let ?p = "np_new (buffer_of_string (eth_serialize h @ rest))"
  have "eth_parse eth_header_zero ?p = (NoError, h, np_adv 14 ?p)"
    by (rule eth_parse_serialize) simp_all
  then show "eth_get (eth_serialize h @ rest) = Some (h, rest)"
    by (simp add: eth_get_def)
qed

section \<open>EthernetFrame\<close>

record ethernet_frame =
  ef_header :: ethernet_header
  ef_payload :: buffer_list

definition ef_new :: ethernet_frame where
  "ef_new = \<lparr>ef_header = eth_header_zero, ef_payload = []\<rparr>"

definition ef_parse :: "buffer \<Rightarrow> ethernet_frame \<Rightarrow> parse_result \<times> ethernet_frame" where
  "ef_parse buffer fr =
     (let p = np_new buffer; (_, h, p) = eth_parse (ef_header fr) p in
      (np_error p, \<lparr>ef_header = h, ef_payload = bl_of_buffer (np_buffer p)\<rparr>))"

definition ef_serialize :: "ethernet_frame \<Rightarrow> buffer_list" where
  "ef_serialize fr =
     bl_append (bl_append [] (bl_of_string (eth_serialize (ef_header fr)))) (ef_payload fr)"

definition ef_wire :: "ethernet_frame \<Rightarrow> byte list" where
  "ef_wire fr = bl_concatenate (ef_serialize fr)"

lemma ef_wire_eq: "ef_wire fr = eth_serialize (ef_header fr) @ bl_concatenate (ef_payload fr)"
  by (simp add: ef_wire_def ef_serialize_def)

lemma ef_parse_wire:
  "\<exists>b. ef_parse (buffer_of_string (ef_wire fr)) old = (NoError, \<lparr>ef_header = ef_header fr, ef_payload = [b]\<rparr>) \<and>
     buffer_str b = bl_concatenate (ef_payload fr)"
proof -
  let ?p = "np_new (buffer_of_string (ef_wire fr))"
  have "eth_parse (ef_header old) ?p = (NoError, ef_header fr, np_adv 14 ?p)"
    by (rule eth_parse_serialize) (simp_all add: ef_wire_eq)
  moreover have "buffer_str (np_buffer (np_adv 14 ?p)) = bl_concatenate (ef_payload fr)"
    using np_str_adv [of 14 ?p] by (simp add: np_str_def ef_wire_eq)
  ultimately show ?thesis by (simp add: ef_parse_def bl_of_buffer_def)
qed

section \<open>ARPMessage\<close>

record arp_message =
  hardware_type :: u16
  protocol_type :: u16
  hardware_address_size :: u8
  protocol_address_size :: u8
  opcode :: u16
  sender_ethernet_address :: ethernet_address
  sender_ip_address :: u32
  target_ethernet_address :: ethernet_address
  target_ip_address :: u32

definition arp_LENGTH :: nat where "arp_LENGTH = 28"
definition TYPE_ETHERNET :: u16 where "TYPE_ETHERNET = 1"
definition OPCODE_REQUEST :: u16 where "OPCODE_REQUEST = 1"
definition OPCODE_REPLY :: u16 where "OPCODE_REPLY = 2"

definition arp_new :: arp_message where
  "arp_new = \<lparr>hardware_type = TYPE_ETHERNET, protocol_type = TYPE_IPv4,
     hardware_address_size = 6, protocol_address_size = 4, opcode = 0,
     sender_ethernet_address = ea_zero, sender_ip_address = 0,
     target_ethernet_address = ea_zero, target_ip_address = 0\<rparr>"

definition supported :: "arp_message \<Rightarrow> bool" where
  "supported m =
     (hardware_type m = TYPE_ETHERNET \<and> protocol_type m = TYPE_IPv4 \<and>
      hardware_address_size m = 6 \<and> protocol_address_size m = 4 \<and>
      (opcode m = OPCODE_REQUEST \<or> opcode m = OPCODE_REPLY))"

definition arp_parse :: "buffer \<Rightarrow> arp_message \<Rightarrow> parse_result \<times> arp_message" where
  "arp_parse buffer m =
     (let p = np_new buffer in
      if buffer_size (np_buffer p) < arp_LENGTH then (PacketTooShort, m)
      else
        let (ht, p) = np_u16 p; (pt, p) = np_u16 p; (hs, p) = np_u8 p; (ps, p) = np_u8 p;
            (op, p) = np_u16 p;
            m = m\<lparr>hardware_type := ht, protocol_type := pt, hardware_address_size := hs,
                   protocol_address_size := ps, opcode := op\<rparr> in
        if \<not> supported m then (Unsupported, m)
        else
          let (sea, p) = np_address p; (sip, p) = np_u32 p;
              (tea, p) = np_address p; (tip, p) = np_u32 p in
          (np_error p,
           m\<lparr>sender_ethernet_address := sea, sender_ip_address := sip,
              target_ethernet_address := tea, target_ip_address := tip\<rparr>))"

definition arp_serialize :: "arp_message \<Rightarrow> exn + byte list" where
  "arp_serialize m =
     (if \<not> supported m then
        Inl (Runtime_Error ''ARPMessage::serialize(): unsupported field combination (must be Ethernet/IP, and request or reply)'')
      else
        let ret = put_u16 [] (hardware_type m);
            ret = put_u16 ret (protocol_type m);
            ret = put_u8 ret (hardware_address_size m);
            ret = put_u8 ret (protocol_address_size m);
            ret = put_u16 ret (opcode m);
            ret = put_address ret (sender_ethernet_address m);
            ret = put_u32 ret (sender_ip_address m);
            ret = put_address ret (target_ethernet_address m);
            ret = put_u32 ret (target_ip_address m) in
        Inr ret)"

text \<open>The bytes of a message, whatever its fields.\<close>

definition arp_wire :: "arp_message \<Rightarrow> byte list" where
  "arp_wire m = be16 (hardware_type m) @ be16 (protocol_type m) @
     [hardware_address_size m, protocol_address_size m] @ be16 (opcode m) @
     ea_bytes (sender_ethernet_address m) @ be32 (sender_ip_address m) @
     ea_bytes (target_ethernet_address m) @ be32 (target_ip_address m)"

lemma arp_serialize_eq:
  "arp_serialize m = (if supported m then Inr (arp_wire m)
     else Inl (Runtime_Error ''ARPMessage::serialize(): unsupported field combination (must be Ethernet/IP, and request or reply)''))"
  by (simp add: arp_serialize_def arp_wire_def parse_simps Let_def)

lemma length_arp_wire [simp]: "length (arp_wire m) = 28"
  by (simp add: arp_wire_def)

lemma arp_parse_wire:
  assumes "buffer_str b = arp_wire m @ rest" and "supported m"
  shows "arp_parse b m' = (NoError, m)"
proof -
  obtain ht pt hs ps op a b c d e f sip a' b' c' d' e' f' tip where
    m: "m = \<lparr>hardware_type = ht, protocol_type = pt, hardware_address_size = hs,
      protocol_address_size = ps, opcode = op,
      sender_ethernet_address = EA a b c d e f, sender_ip_address = sip,
      target_ethernet_address = EA a' b' c' d' e' f', target_ip_address = tip\<rparr>"
    by (cases m, metis ethernet_address.exhaust)
  show ?thesis
    using assms
    by (simp add: m arp_parse_def buffer_size_np_str arp_LENGTH_def parse_simps arp_wire_def
        be16_def be32_def Let_def supported_def)
qed

lemma arp_parse_accepts:
  assumes "arp_parse b m' = (NoError, m)"
  shows "supported m \<and> buffer_str b = arp_wire m @ drop 28 (buffer_str b)"
proof -
  let ?s = "buffer_str b"
  have len: "28 \<le> length ?s"
    using assms by (simp add: arp_parse_def buffer_size_np_str arp_LENGTH_def split: if_splits)
  have upt: "[0..<28] = [0, 1, 2, 3, 4, 5, 6, 7, 8, 9, 10, 11, 12, 13, 14, 15, 16, 17, 18, 19,
      20, 21, 22, 23, 24, 25, 26, 27 :: nat]" by (simp add: upt_rec)
  have "supported m"
    using assms len
    by (auto simp: arp_parse_def buffer_size_np_str arp_LENGTH_def parse_simps Let_def
        supported_def split: if_splits)
  moreover have "arp_wire m = take 28 ?s"
    using assms len
    by (auto simp: arp_parse_def buffer_size_np_str arp_LENGTH_def parse_simps Let_def
        arp_wire_def take_map_nth upt split: if_splits)
  ultimately show ?thesis by (metis append_take_drop_id)
qed

definition arp_get :: "byte list \<Rightarrow> (arp_message \<times> byte list) option" where
  "arp_get bs =
     (let (r, m) = arp_parse (buffer_of_string bs) arp_new in
      if r = NoError then Some (m, drop arp_LENGTH bs) else None)"

interpretation arp_codec: codec supported arp_wire arp_get
  by unfold_locales (simp add: arp_get_def arp_parse_wire arp_LENGTH_def)

text \<open>Parsing an Ethernet frame from its own serialisation reports no error and gives back
  the header and exactly the payload bytes, whatever the frame object held before; and two frames
  with the same wire bytes have the same header and the same payload bytes.\<close>

theorem ethernet_frame_roundtrip:
  "ef_parse (buffer_of_string (ef_wire fr)) old =
     (NoError, \<lparr>ef_header = ef_header fr,
        ef_payload = [np_buffer (np_adv 14 (np_new (buffer_of_string (ef_wire fr))))]\<rparr>)
   \<and> bl_concatenate [np_buffer (np_adv 14 (np_new (buffer_of_string (ef_wire fr))))]
       = bl_concatenate (ef_payload fr)
   \<and> (ef_wire fr = ef_wire fr' \<longleftrightarrow>
        ef_header fr = ef_header fr' \<and>
        bl_concatenate (ef_payload fr) = bl_concatenate (ef_payload fr'))"
proof (intro conjI)
  let ?p = "np_new (buffer_of_string (ef_wire fr))"
  have "eth_parse (ef_header old) ?p = (NoError, ef_header fr, np_adv 14 ?p)"
    by (rule eth_parse_serialize) (simp_all add: ef_wire_eq)
  then show "ef_parse (buffer_of_string (ef_wire fr)) old =
     (NoError, \<lparr>ef_header = ef_header fr, ef_payload = [np_buffer (np_adv 14 ?p)]\<rparr>)"
    by (simp add: ef_parse_def bl_of_buffer_def)
  show "bl_concatenate [np_buffer (np_adv 14 ?p)] = bl_concatenate (ef_payload fr)"
    using np_str_adv [of 14 ?p] by (simp add: np_str_def ef_wire_eq)
  show "ef_wire fr = ef_wire fr' \<longleftrightarrow> ef_header fr = ef_header fr' \<and>
      bl_concatenate (ef_payload fr) = bl_concatenate (ef_payload fr')"
    using eth_codec.put_prefix_unique by (auto simp: ef_wire_eq)
qed

text \<open>A frame shorter than an Ethernet header is accepted: \<open>EthernetFrame::parse\<close> drops the
  result of the header's parse and returns the parser's own error, which is never set, so the
  frame keeps its old header and takes the runt bytes as payload.\<close>

theorem runt_frame_accepted:
  assumes "length (buffer_str b) < 14"
  shows "ef_parse b old = (NoError, \<lparr>ef_header = ef_header old, ef_payload = [b]\<rparr>)"
  using assms by (simp add: ef_parse_def eth_parse_short bl_of_buffer_def)

theorem runt_frame_accepted_witness:
  "ef_parse (buffer_of_string [1, 2, 3]) ef_new
    = (NoError, \<lparr>ef_header = eth_header_zero, ef_payload = [buffer_of_string [1, 2, 3]]\<rparr>)"
  using runt_frame_accepted [of "buffer_of_string [1, 2, 3]" ef_new] by (simp add: ef_new_def)

text \<open>\<open>ARPMessage::parse\<close> accepts exactly the strings that start with the 28-byte encoding of
  a supported message (Ethernet, IPv4, 6-byte and 4-byte addresses, request or reply) and returns
  that message; \<open>serialize\<close> of an accepted message does not throw and gives those bytes.\<close>

theorem arp_parse_exact:
  "(arp_parse b old = (NoError, m) \<longleftrightarrow> supported m \<and> (\<exists>rest. buffer_str b = arp_wire m @ rest))
   \<and> (arp_serialize m = Inr bs \<longleftrightarrow> supported m \<and> bs = arp_wire m)"
proof
  show "arp_parse b old = (NoError, m) \<longleftrightarrow>
      supported m \<and> (\<exists>rest. buffer_str b = arp_wire m @ rest)"
    by (metis arp_parse_accepts arp_parse_wire)
  show "arp_serialize m = Inr bs \<longleftrightarrow> supported m \<and> bs = arp_wire m"
    by (auto simp: arp_serialize_eq)
qed

end
