(* ===== verification/Network_Interface.thy ===== *)
theory Network_Interface
  imports Address Link_Layer IPv4 "HOL-Library.AList" "HOL-Library.Multiset"
begin

text \<open>
  \<open>libsponge/network_interface.{hh,cc}\<close>: the network interface resolves the next hop of a datagram
  to an Ethernet address by ARP, keeps what it learns for 30 seconds, and holds back the datagrams
  whose next hop is not resolved yet. A \<open>std::map\<close> is an association list with one entry for each
  key; the order of the entries makes no difference.

  Two loops erase from the container that they walk through. Erasing the element at hand of a
  \<open>std::map\<close> frees the node that the loop then steps from: the run is undefined. For the vector of
  waiting datagrams the iterators are the pointers of the library that the build uses, so the
  elements behind the erased one move down, the loop goes on to the old end, and it is undefined
  once it reads a position that no longer exists. (The standard calls the first step after the
  erasure undefined already.)
\<close>

declare distinct_update [simp]

definition past_the_end :: exn where
  "past_the_end = Undefined_Behaviour ''_dgram_stage: read past the end after an erase''"

definition erased_entry :: exn where
  "erased_entry = Undefined_Behaviour ''_map_status: step from an erased entry''"

section \<open>State\<close>

record network_interface =
  ni_ethernet_address :: ethernet_address
  ni_ip_address :: address
  ni_frames_out :: "ethernet_frame list"
  ni_addr_map :: "(u32 \<times> ethernet_address) list"
  ni_map_status :: "(u32 \<times> u32) list"
  ni_dgram_stage :: "(address \<times> ipv4_datagram) list"

definition ni_new :: "resolver \<Rightarrow> ethernet_address \<Rightarrow> address \<Rightarrow> exn + network_interface" where
  "ni_new R ethernet_address ip_address =
     andthen (ad_ip R ip_address) (\<lambda>_.
       Inr \<lparr>ni_ethernet_address = ethernet_address, ni_ip_address = ip_address, ni_frames_out = [],
            ni_addr_map = [], ni_map_status = [], ni_dgram_stage = []\<rparr>)"

definition ni_push_frame :: "ethernet_frame \<Rightarrow> network_interface \<Rightarrow> network_interface" where
  "ni_push_frame frame ni = ni\<lparr>ni_frames_out := ni_frames_out ni @ [frame]\<rparr>"

section \<open>Sending\<close>

definition ni_frame :: "network_interface \<Rightarrow> u16 \<Rightarrow> ethernet_address \<Rightarrow> buffer_list \<Rightarrow> ethernet_frame" where
  "ni_frame ni type dst payload =
     \<lparr>ef_header = \<lparr>eth_dst = dst, eth_src = ni_ethernet_address ni, eth_type = type\<rparr>, ef_payload = payload\<rparr>"

definition ni_request :: "network_interface \<Rightarrow> u32 \<Rightarrow> u32 \<Rightarrow> arp_message" where
  "ni_request ni own_ip next_hop_ip =
     arp_new\<lparr>sender_ethernet_address := ni_ethernet_address ni, sender_ip_address := own_ip,
       target_ethernet_address := ea_zero, target_ip_address := next_hop_ip, opcode := OPCODE_REQUEST\<rparr>"

definition ni_send_datagram ::
  "ipv4_datagram \<Rightarrow> address \<Rightarrow> network_interface \<Rightarrow> exn + network_interface" where
  "ni_send_datagram dgram next_hop ni =
     andthen (ipv4_numeric next_hop) (\<lambda>next_hop_ip.
       case map_of (ni_addr_map ni) next_hop_ip of
         Some dst \<Rightarrow>
           andthen (dg_serialize dgram) (\<lambda>payload.
             Inr (ni_push_frame (ni_frame ni TYPE_IPv4 dst payload) ni))
       | None \<Rightarrow>
           (case map_of (ni_map_status ni) next_hop_ip of
              None \<Rightarrow>
                andthen (ipv4_numeric (ni_ip_address ni)) (\<lambda>own_ip.
                  andthen (arp_serialize (ni_request ni own_ip next_hop_ip)) (\<lambda>msg.
                    Inr (ni_push_frame (ni_frame ni TYPE_ARP ethernet_broadcast (bl_of_string msg))
                      (ni\<lparr>ni_dgram_stage := ni_dgram_stage ni @ [(next_hop, dgram)],
                          ni_map_status := AList.update next_hop_ip (- 1) (ni_map_status ni)\<rparr>))))
            | Some status \<Rightarrow>
                if sint status < 0
                then Inr (ni\<lparr>ni_dgram_stage := ni_dgram_stage ni @ [(next_hop, dgram)]\<rparr>)
                else Inr (ni_push_frame ef_new ni)))"

text \<open>
  \<open>send_stage_datagram\<close>: \<open>pos\<close> is the position of the loop, \<open>k\<close> how far it still is from the end
  that the vector had when the loop began.
\<close>

definition ni_resolved :: "network_interface \<Rightarrow> u32 \<Rightarrow> bool" where
  "ni_resolved ni ip = (case map_of (ni_map_status ni) ip of None \<Rightarrow> False | Some status \<Rightarrow> 0 \<le> sint status)"

fun ni_stage_loop :: "nat \<Rightarrow> nat \<Rightarrow> network_interface \<Rightarrow> exn + network_interface" where
  "ni_stage_loop pos 0 ni = Inr ni"
| "ni_stage_loop pos (Suc k) ni =
     (if pos \<ge> length (ni_dgram_stage ni)
      then Inl past_the_end
      else
        let (next_hop, dgram) = ni_dgram_stage ni ! pos in
        andthen (ipv4_numeric next_hop) (\<lambda>ip.
          if ni_resolved ni ip then
            andthen (ni_send_datagram dgram next_hop ni) (\<lambda>ni.
              ni_stage_loop (Suc pos) k
                (ni\<lparr>ni_dgram_stage := take pos (ni_dgram_stage ni) @ drop (Suc pos) (ni_dgram_stage ni)\<rparr>))
          else ni_stage_loop (Suc pos) k ni))"

definition ni_send_stage_datagram :: "network_interface \<Rightarrow> exn + network_interface" where
  "ni_send_stage_datagram ni = ni_stage_loop 0 (length (ni_dgram_stage ni)) ni"

section \<open>Receiving\<close>

definition ni_learn :: "arp_message \<Rightarrow> network_interface \<Rightarrow> network_interface" where
  "ni_learn msg ni =
     ni\<lparr>ni_addr_map := AList.update (sender_ip_address msg) (sender_ethernet_address msg) (ni_addr_map ni),
        ni_map_status := AList.update (sender_ip_address msg) 0 (ni_map_status ni)\<rparr>"

text \<open>The answer to a request for the interface's own address.\<close>

definition ni_reply :: "arp_message \<Rightarrow> network_interface \<Rightarrow> exn + network_interface" where
  "ni_reply msg ni =
     (if opcode msg \<noteq> OPCODE_REQUEST then Inr ni
      else
        andthen (ipv4_numeric (ni_ip_address ni)) (\<lambda>own_ip.
          if target_ip_address msg \<noteq> own_ip then Inr ni
          else
            let back = msg\<lparr>target_ethernet_address := sender_ethernet_address msg,
                           target_ip_address := sender_ip_address msg,
                           sender_ethernet_address := ni_ethernet_address ni,
                           sender_ip_address := own_ip, opcode := OPCODE_REPLY\<rparr> in
            andthen (arp_serialize back) (\<lambda>payload.
              Inr (ni_push_frame (ni_frame ni TYPE_ARP (target_ethernet_address back) (bl_of_string payload)) ni))))"

definition ni_handle_arp :: "buffer_list \<Rightarrow> network_interface \<Rightarrow> exn + network_interface" where
  "ni_handle_arp payload ni =
     andthen (bl_to_buffer payload) (\<lambda>b.
       let (state, msg) = arp_parse b arp_new;
           ni = (if state = NoError then ni_learn msg ni else ni) in
       ni_reply msg ni)"

text \<open>The datagram of a frame for the interface, if there is one that parses.\<close>

definition ni_datagram :: "ethernet_frame \<Rightarrow> network_interface \<Rightarrow> exn + ipv4_datagram option" where
  "ni_datagram frame ni =
     (if eth_type (ef_header frame) = TYPE_IPv4 \<and> eth_dst (ef_header frame) = ni_ethernet_address ni then
        andthen (bl_to_buffer (ef_payload frame)) (\<lambda>b.
          let (state, dgram) = dg_parse b dg_new in
          Inr (if state = NoError then Some dgram else None))
      else Inr None)"

definition ni_recv_frame ::
  "ethernet_frame \<Rightarrow> network_interface \<Rightarrow> exn + ipv4_datagram option \<times> network_interface" where
  "ni_recv_frame frame ni =
     andthen (ni_datagram frame ni) (\<lambda>found.
       case found of
         Some dgram \<Rightarrow> Inr (Some dgram, ni)
       | None \<Rightarrow>
           andthen (if eth_type (ef_header frame) = TYPE_ARP then ni_handle_arp (ef_payload frame) ni else Inr ni)
             (\<lambda>ni. andthen (ni_send_stage_datagram ni) (\<lambda>ni. Inr (None, ni))))"

section \<open>Time\<close>

text \<open>
  \<open>int += size_t\<close>: the status is converted to 64 bits, the sum back to 32. The loop visits the keys
  that the map held when it began; nothing is inserted meanwhile.
\<close>

definition ni_later :: "u64 \<Rightarrow> u32 \<Rightarrow> u32" where
  "ni_later ms status = ucast ((scast status :: u64) + ms)"

definition ni_earlier :: "u64 \<Rightarrow> u32 \<Rightarrow> u32" where
  "ni_earlier ms status = ucast ((scast status :: u64) - ms)"

fun ni_tick_loop :: "u64 \<Rightarrow> u32 list \<Rightarrow> network_interface \<Rightarrow> exn + network_interface" where
  "ni_tick_loop ms [] ni = Inr ni"
| "ni_tick_loop ms (ip # ips) ni =
     (let status = the (map_of (ni_map_status ni) ip) in
      if 0 \<le> sint status then
        let status = ni_later ms status in
        if 30000 \<le> sint status then Inl erased_entry
        else ni_tick_loop ms ips (ni\<lparr>ni_map_status := AList.update ip status (ni_map_status ni)\<rparr>)
      else
        let status = ni_earlier ms status in
        if sint status \<le> - 5001 then Inl erased_entry
        else ni_tick_loop ms ips (ni\<lparr>ni_map_status := AList.update ip status (ni_map_status ni)\<rparr>))"

definition ni_tick :: "u64 \<Rightarrow> network_interface \<Rightarrow> exn + network_interface" where
  "ni_tick ms ni = andthen (ni_tick_loop ms (map fst (ni_map_status ni)) ni) ni_send_stage_datagram"

section \<open>Operations\<close>

datatype ni_op = Ni_Send ipv4_datagram address | Ni_Recv ethernet_frame | Ni_Tick u64

fun ni_exec :: "ni_op \<Rightarrow> network_interface \<Rightarrow> exn + network_interface" where
  "ni_exec (Ni_Send dgram next_hop) ni = ni_send_datagram dgram next_hop ni"
| "ni_exec (Ni_Recv frame) ni = andthen (ni_recv_frame frame ni) (\<lambda>r. Inr (snd r))"
| "ni_exec (Ni_Tick ms) ni = ni_tick ms ni"

fun ni_run :: "ni_op list \<Rightarrow> network_interface \<Rightarrow> exn + network_interface" where
  "ni_run [] ni = Inr ni"
| "ni_run (op # ops) ni = andthen (ni_exec op ni) (ni_run ops)"

section \<open>What the interface has learnt and what it has been given\<close>

text \<open>
  \<open>known\<close> holds the pairs of an address and an Ethernet address that accepted ARP messages carried.
  The invariant ties the two maps together and accounts for every datagram given: it waits in the
  stage or one IPv4 frame, to an Ethernet address learnt for its next hop, carries it.
\<close>

definition ni_carries ::
  "ethernet_address \<Rightarrow> (u32 \<times> ethernet_address) set \<Rightarrow> ethernet_frame \<Rightarrow> address \<times> ipv4_datagram \<Rightarrow> bool" where
  "ni_carries own known frame given \<longleftrightarrow>
     (\<exists>ip mac payload. ipv4_numeric (fst given) = Inr ip \<and> (ip, mac) \<in> known \<and>
        dg_serialize (snd given) = Inr payload \<and>
        frame = \<lparr>ef_header = \<lparr>eth_dst = mac, eth_src = own, eth_type = TYPE_IPv4\<rparr>, ef_payload = payload\<rparr>)"

definition ni_ip_frames :: "network_interface \<Rightarrow> ethernet_frame list" where
  "ni_ip_frames ni = filter (\<lambda>fr. eth_type (ef_header fr) \<noteq> TYPE_ARP) (ni_frames_out ni)"

definition ni_maps_ok :: "(u32 \<times> ethernet_address) set \<Rightarrow> network_interface \<Rightarrow> bool" where
  "ni_maps_ok known ni \<longleftrightarrow>
     distinct (map fst (ni_map_status ni)) \<and>
     (\<forall>ip mac. map_of (ni_addr_map ni) ip = Some mac \<longrightarrow> (ip, mac) \<in> known \<and> ni_resolved ni ip) \<and>
     (\<forall>ip. ni_resolved ni ip \<longrightarrow> map_of (ni_addr_map ni) ip \<noteq> None) \<and>
     (\<forall>ip status. map_of (ni_map_status ni) ip = Some status \<longrightarrow> - 5001 < sint status \<and> sint status < 30000)"

definition ni_accounts ::
  "(u32 \<times> ethernet_address) set \<Rightarrow> (address \<times> ipv4_datagram) multiset \<Rightarrow> network_interface \<Rightarrow> bool" where
  "ni_accounts known given ni \<longleftrightarrow>
     (\<exists>sent. mset sent + mset (ni_dgram_stage ni) = given \<and>
        list_all2 (ni_carries (ni_ethernet_address ni) known) (ni_ip_frames ni) sent)"

definition ni_inv ::
  "(u32 \<times> ethernet_address) set \<Rightarrow> (address \<times> ipv4_datagram) multiset \<Rightarrow> network_interface \<Rightarrow> bool" where
  "ni_inv known given ni \<longleftrightarrow> ni_maps_ok known ni \<and> ni_accounts known given ni"

lemma ni_push_frame_simps [simp]:
  "ni_ethernet_address (ni_push_frame fr ni) = ni_ethernet_address ni"
  "ni_ip_address (ni_push_frame fr ni) = ni_ip_address ni"
  "ni_addr_map (ni_push_frame fr ni) = ni_addr_map ni"
  "ni_map_status (ni_push_frame fr ni) = ni_map_status ni"
  "ni_dgram_stage (ni_push_frame fr ni) = ni_dgram_stage ni"
  "ni_frames_out (ni_push_frame fr ni) = ni_frames_out ni @ [fr]"
  "ni_resolved (ni_push_frame fr ni) ip = ni_resolved ni ip"
  by (simp_all add: ni_push_frame_def ni_resolved_def)

lemma ni_push_arp_accounts:
  "ni_accounts known given ni \<Longrightarrow> ni_accounts known given (ni_push_frame (ni_frame ni TYPE_ARP dst payload) ni)"
  by (simp add: ni_accounts_def ni_ip_frames_def ni_frame_def)

lemma ni_push_ip_accounts:
  assumes "ni_accounts known given ni" and "ipv4_numeric next_hop = Inr ip" and "(ip, mac) \<in> known"
    and "dg_serialize dgram = Inr payload"
  shows "ni_accounts known (add_mset (next_hop, dgram) given) (ni_push_frame (ni_frame ni TYPE_IPv4 mac payload) ni)"
proof -
  obtain sent where sent: "mset sent + mset (ni_dgram_stage ni) = given"
      "list_all2 (ni_carries (ni_ethernet_address ni) known) (ni_ip_frames ni) sent"
    using assms(1) by (auto simp: ni_accounts_def)
  have "ni_carries (ni_ethernet_address ni) known (ni_frame ni TYPE_IPv4 mac payload) (next_hop, dgram)"
    using assms(2-4) by (auto simp: ni_carries_def ni_frame_def)
  then show ?thesis
    using sent unfolding ni_accounts_def
    by (intro exI [of _ "sent @ [(next_hop, dgram)]"])
      (auto simp: ni_ip_frames_def ni_frame_def TYPE_IPv4_def TYPE_ARP_def intro: list_all2_appendI)
qed

lemma ni_accounts_cong:
  "ni_frames_out ni' = ni_frames_out ni \<Longrightarrow> ni_ethernet_address ni' = ni_ethernet_address ni \<Longrightarrow>
     mset (ni_dgram_stage ni') = mset (ni_dgram_stage ni) + extra \<Longrightarrow> ni_accounts known given ni \<Longrightarrow>
     ni_accounts known (given + extra) ni'"
  by (auto simp: ni_accounts_def ni_ip_frames_def)

lemma ni_accounts_mono: "ni_accounts known given ni \<Longrightarrow> known \<subseteq> known' \<Longrightarrow> ni_accounts known' given ni"
  unfolding ni_accounts_def ni_carries_def by (elim exE conjE, intro exI conjI, assumption)
    (rule list_all2_mono, assumption, blast)

section \<open>Every operation keeps the invariant\<close>

lemma ni_send_inv:
  assumes inv: "ni_inv known given ni" and ok: "ni_send_datagram dgram next_hop ni = Inr ni'"
  shows "ni_inv known (add_mset (next_hop, dgram) given) ni' \<and> ni_ethernet_address ni' = ni_ethernet_address ni"
proof -
  obtain ip where ip: "ipv4_numeric next_hop = Inr ip" using ok by (auto simp: ni_send_datagram_def)
  have maps: "ni_maps_ok known ni" and acc: "ni_accounts known given ni" using inv by (simp_all add: ni_inv_def)
  consider (known) mac where "map_of (ni_addr_map ni) ip = Some mac"
    | (new) "map_of (ni_addr_map ni) ip = None" "map_of (ni_map_status ni) ip = None"
    | (asked) status where "map_of (ni_addr_map ni) ip = None" "map_of (ni_map_status ni) ip = Some status"
    by fastforce
  then show ?thesis
  proof cases
    case known
    then obtain payload where "dg_serialize dgram = Inr payload"
      "ni' = ni_push_frame (ni_frame ni TYPE_IPv4 mac payload) ni"
      using ok ip by (auto simp: ni_send_datagram_def)
    then show ?thesis
      using known maps ni_push_ip_accounts [OF acc ip] by (auto simp: ni_inv_def ni_maps_ok_def)
  next
    case new
    then obtain own msg where ni': "ni' = ni_push_frame (ni_frame ni TYPE_ARP ethernet_broadcast (bl_of_string msg))
        (ni\<lparr>ni_dgram_stage := ni_dgram_stage ni @ [(next_hop, dgram)],
            ni_map_status := AList.update ip (- 1) (ni_map_status ni)\<rparr>)" (is "_ = ni_push_frame _ ?ni")
      using ok ip by (auto simp: ni_send_datagram_def)
    have "ni_accounts known (add_mset (next_hop, dgram) given) ?ni"
      using ni_accounts_cong [OF _ _ _ acc, of ?ni "{#(next_hop, dgram)#}"] by simp
    moreover have "ni_frame ni t d p = ni_frame ?ni t d p" for t d p by (simp add: ni_frame_def)
    moreover have "ni_maps_ok known ?ni"
      using maps new(1) by (auto simp: ni_maps_ok_def ni_resolved_def update_conv')
    ultimately show ?thesis
      by (auto simp: ni' ni_inv_def ni_maps_ok_def intro: ni_push_arp_accounts)
  next
    case asked
    have "\<not> ni_resolved ni ip" using maps asked(1) by (auto simp: ni_maps_ok_def)
    then have "sint status < 0" using asked(2) by (simp add: ni_resolved_def)
    then have "ni' = ni\<lparr>ni_dgram_stage := ni_dgram_stage ni @ [(next_hop, dgram)]\<rparr>"
      using ok ip asked by (simp add: ni_send_datagram_def)
    then show ?thesis
      using maps ni_accounts_cong [OF _ _ _ acc, of ni' "{#(next_hop, dgram)#}"]
      by (simp add: ni_inv_def ni_maps_ok_def ni_resolved_def)
  qed
qed

lemma ni_send_resolved:
  assumes "ni_maps_ok known ni" and "ipv4_numeric next_hop = Inr ip" and "ni_resolved ni ip"
    and "ni_send_datagram dgram next_hop ni = Inr ni'"
  obtains mac payload where "map_of (ni_addr_map ni) ip = Some mac" and "dg_serialize dgram = Inr payload"
    and "ni' = ni_push_frame (ni_frame ni TYPE_IPv4 mac payload) ni"
  using assms by (fastforce simp: ni_send_datagram_def ni_maps_ok_def)

lemma ni_unstage:
  assumes "ni_accounts known (add_mset (ni_dgram_stage ni ! pos) given) ni" and "pos < length (ni_dgram_stage ni)"
  shows "ni_accounts known given
    (ni\<lparr>ni_dgram_stage := take pos (ni_dgram_stage ni) @ drop (Suc pos) (ni_dgram_stage ni)\<rparr>)"
proof -
  have "mset (ni_dgram_stage ni) =
      add_mset (ni_dgram_stage ni ! pos) (mset (take pos (ni_dgram_stage ni) @ drop (Suc pos) (ni_dgram_stage ni)))"
    by (subst id_take_nth_drop [OF assms(2)]) simp
  then show ?thesis using assms(1) by (auto simp: ni_accounts_def ni_ip_frames_def)
qed

lemma ni_stage_inv:
  "ni_inv known given ni \<Longrightarrow> ni_stage_loop pos k ni = Inr ni' \<Longrightarrow>
     ni_inv known given ni' \<and> ni_ethernet_address ni' = ni_ethernet_address ni"
proof (induction pos k ni rule: ni_stage_loop.induct)
  case (2 pos k ni)
  obtain next_hop dgram where at: "ni_dgram_stage ni ! pos = (next_hop, dgram)" by force
  have pos: "pos < length (ni_dgram_stage ni)" using "2.prems"(2) by (auto split: if_splits)
  obtain ip where ip: "ipv4_numeric next_hop = Inr ip" using "2.prems"(2) pos at by auto
  show ?case
  proof (cases "ni_resolved ni ip")
    case True
    then obtain ni1 where ni1: "ni_send_datagram dgram next_hop ni = Inr ni1"
      "ni_stage_loop (Suc pos) k
         (ni1\<lparr>ni_dgram_stage := take pos (ni_dgram_stage ni1) @ drop (Suc pos) (ni_dgram_stage ni1)\<rparr>) = Inr ni'"
      using "2.prems"(2) pos at ip by auto
    have "ni_inv known (add_mset (ni_dgram_stage ni ! pos) given) ni1"
      and own: "ni_ethernet_address ni1 = ni_ethernet_address ni"
      using ni_send_inv [OF "2.prems"(1) ni1(1)] at by simp_all
    moreover have "ni_dgram_stage ni1 = ni_dgram_stage ni"
      using ni_send_resolved [OF _ ip True ni1(1)] "2.prems"(1) by (metis ni_inv_def ni_push_frame_simps(5))
    ultimately have "ni_inv known given
        (ni1\<lparr>ni_dgram_stage := take pos (ni_dgram_stage ni1) @ drop (Suc pos) (ni_dgram_stage ni1)\<rparr>)"
      using ni_unstage [of known ni1 pos given] pos by (simp add: ni_inv_def ni_maps_ok_def ni_resolved_def)
    then show ?thesis
      using "2.IH"(1) [OF _ at [symmetric] refl ip True ni1(1) _ ni1(2)] pos own by simp
  next
    case False
    then have "ni_stage_loop (Suc pos) k ni = Inr ni'" using "2.prems"(2) pos at ip by auto
    then show ?thesis using "2.IH"(2) [OF _ at [symmetric] refl ip False "2.prems"(1)] pos by simp
  qed
qed simp

lemma ni_learn_inv:
  assumes "ni_inv known given ni"
  shows "ni_inv (insert (sender_ip_address msg, sender_ethernet_address msg) known) given (ni_learn msg ni)"
proof -
  have "ni_accounts (insert (sender_ip_address msg, sender_ethernet_address msg) known) given ni"
    using assms by (metis ni_accounts_mono subset_insertI ni_inv_def)
  then have "ni_accounts (insert (sender_ip_address msg, sender_ethernet_address msg) known) given (ni_learn msg ni)"
    using ni_accounts_cong [of "ni_learn msg ni" ni "{#}"] by (simp add: ni_learn_def)
  then show ?thesis
    using assms by (auto simp: ni_inv_def ni_maps_ok_def ni_learn_def ni_resolved_def update_conv')
qed

lemma ni_reply_inv:
  assumes "ni_inv known given ni" and "ni_reply msg ni = Inr ni'"
  shows "ni_inv known given ni' \<and> ni_ethernet_address ni' = ni_ethernet_address ni"
proof -
  consider "ni' = ni" | dst payload where "ni' = ni_push_frame (ni_frame ni TYPE_ARP dst payload) ni"
    using assms(2) by (auto simp: ni_reply_def Let_def split: if_splits)
  then show ?thesis
  proof cases
    case 2
    have "ni_accounts known given ni'"
      unfolding 2 using assms(1) by (intro ni_push_arp_accounts) (simp add: ni_inv_def)
    moreover have "ni_maps_ok known ni'" using assms(1) by (simp add: 2 ni_inv_def ni_maps_ok_def)
    ultimately show ?thesis by (simp add: 2 ni_inv_def)
  qed (use assms(1) in simp)
qed

text \<open>The pair that a frame teaches.\<close>

definition ni_lesson :: "ethernet_frame \<Rightarrow> (u32 \<times> ethernet_address) set" where
  "ni_lesson frame =
     (case bl_to_buffer (ef_payload frame) of
        Inl e \<Rightarrow> {}
      | Inr b \<Rightarrow>
          (let (state, msg) = arp_parse b arp_new in
           if eth_type (ef_header frame) = TYPE_ARP \<and> state = NoError
           then {(sender_ip_address msg, sender_ethernet_address msg)} else {}))"

lemma ni_inv_mono: "ni_inv known given ni \<Longrightarrow> known \<subseteq> known' \<Longrightarrow> ni_inv known' given ni"
  using ni_accounts_mono by (auto simp: ni_inv_def ni_maps_ok_def)

lemma ni_handle_arp_inv:
  assumes inv: "ni_inv known given ni" and type: "eth_type (ef_header frame) = TYPE_ARP"
    and ok: "ni_handle_arp (ef_payload frame) ni = Inr ni'"
  shows "ni_inv (known \<union> ni_lesson frame) given ni' \<and> ni_ethernet_address ni' = ni_ethernet_address ni"
proof -
  obtain b where b1: "bl_to_buffer (ef_payload frame) = Inr b" using ok by (auto simp: ni_handle_arp_def)
  obtain state msg where b2: "arp_parse b arp_new = (state, msg)" by force
  note b = b1 b2
  have reply: "ni_reply msg (if state = NoError then ni_learn msg ni else ni) = Inr ni'"
    using ok by (simp add: ni_handle_arp_def b Let_def)
  have "ni_inv (known \<union> ni_lesson frame) given (if state = NoError then ni_learn msg ni else ni)"
    using inv ni_learn_inv [OF inv, of msg] ni_inv_mono by (auto simp: ni_lesson_def b type)
  then show ?thesis
    using ni_reply_inv [OF _ reply] by (auto simp: ni_learn_def split: if_splits)
qed

lemma ni_recv_inv:
  assumes inv: "ni_inv known given ni" and ok: "ni_recv_frame frame ni = Inr (found, ni')"
  shows "ni_inv (known \<union> ni_lesson frame) given ni' \<and> ni_ethernet_address ni' = ni_ethernet_address ni"
proof -
  have known: "ni_inv (known \<union> ni_lesson frame) given ni" using inv ni_inv_mono by blast
  consider "ni' = ni" | ni1 where
    "(if eth_type (ef_header frame) = TYPE_ARP then ni_handle_arp (ef_payload frame) ni else Inr ni) = Inr ni1"
    "ni_send_stage_datagram ni1 = Inr ni'"
    using ok by (auto simp: ni_recv_frame_def split: option.splits)
  then show ?thesis
  proof cases
    case 2
    then have "ni_inv (known \<union> ni_lesson frame) given ni1 \<and> ni_ethernet_address ni1 = ni_ethernet_address ni"
      using ni_handle_arp_inv [OF inv, of frame ni1] known by (auto split: if_splits)
    then show ?thesis using ni_stage_inv 2(2) by (auto simp: ni_send_stage_datagram_def)
  qed (use known in simp)
qed

lemma take_bit_below:
  "m \<le> n \<Longrightarrow> take_bit m (x + take_bit n y) = take_bit m (x + y :: int)"
  "m \<le> n \<Longrightarrow> take_bit m (x - take_bit n y) = take_bit m (x - y :: int)"
  by (metis take_bit_add take_bit_take_bit min.absorb1) (metis take_bit_diff take_bit_take_bit min.absorb1)

lemma sint_ni_time:
  "sint status + uint ms < 2 ^ 31 \<Longrightarrow> sint (ni_later ms status) = sint status + uint ms"
  "- (2 ^ 31) \<le> sint status - uint ms \<Longrightarrow> sint (ni_earlier ms status) = sint status - uint ms"
proof -
  have later: "ni_later ms status = word_of_int (sint status + uint ms)"
    unfolding ni_later_def by transfer (simp add: take_bit_add take_bit_below)
  have earlier: "ni_earlier ms status = word_of_int (sint status - uint ms)"
    unfolding ni_earlier_def by transfer (simp add: take_bit_diff take_bit_below)
  have bounds: "- (2 ^ 31) \<le> sint status" "sint status < 2 ^ 31" "0 \<le> uint ms"
    using sint_greater_eq [of status] sint_less [of status] by simp_all
  define t where "t = uint ms"
  then have t: "uint ms = t" "0 \<le> t" by simp_all
  show "sint status + uint ms < 2 ^ 31 \<Longrightarrow> sint (ni_later ms status) = sint status + uint ms"
    unfolding later sint_sbintrunc' t(1) using bounds t(2) by (intro signed_take_bit_int_eq_self) simp_all
  show "- (2 ^ 31) \<le> sint status - uint ms \<Longrightarrow> sint (ni_earlier ms status) = sint status - uint ms"
    unfolding earlier sint_sbintrunc' t(1) using bounds t(2) by (intro signed_take_bit_int_eq_self) simp_all
qed

lemma ni_tick_loop_inv:
  assumes "uint ms < 2 ^ 30"
  shows "ni_inv known given ni \<Longrightarrow> set ips \<subseteq> dom (map_of (ni_map_status ni)) \<Longrightarrow>
    ni_tick_loop ms ips ni = Inr ni' \<Longrightarrow>
    ni_inv known given ni' \<and> ni_ethernet_address ni' = ni_ethernet_address ni"
proof (induction ips arbitrary: ni)
  case (Cons ip ips)
  then obtain status where s: "map_of (ni_map_status ni) ip = Some status" by auto
  have bound: "- 5001 < sint status" "sint status < 30000"
    using Cons.prems(1) s by (simp_all add: ni_inv_def ni_maps_ok_def)
  then have later: "sint (ni_later ms status) = sint status + uint ms"
    and earlier: "sint (ni_earlier ms status) = sint status - uint ms"
    using assms by (simp_all add: sint_ni_time)
  define status' where "status' = (if 0 \<le> sint status then ni_later ms status else ni_earlier ms status)"
  define ni1 where "ni1 = ni\<lparr>ni_map_status := AList.update ip status' (ni_map_status ni)\<rparr>"
  define t where "t = uint ms"
  then have t: "uint ms = t" "0 \<le> t" by simp_all
  have bound': "- 5001 < sint status'" "sint status' < 30000" and rest: "ni_tick_loop ms ips ni1 = Inr ni'"
    using Cons.prems(3) s bound later earlier t(2) unfolding t(1)
    by (auto simp: status'_def ni1_def Let_def split: if_splits)
  have same: "0 \<le> sint status' \<longleftrightarrow> 0 \<le> sint status"
    using t by (simp add: status'_def later earlier)
  have "ni_resolved ni1 ip' = ni_resolved ni ip'" for ip'
    using s same by (simp add: ni_resolved_def ni1_def update_conv')
  then have "ni_maps_ok known ni1"
    using Cons.prems(1) bound' by (simp add: ni_inv_def ni_maps_ok_def) (simp add: ni1_def update_conv')
  moreover have "ni_accounts known given ni1"
    using Cons.prems(1) ni_accounts_cong [of ni1 ni "{#}" known given] by (simp add: ni_inv_def ni1_def)
  moreover have "set ips \<subseteq> dom (map_of (ni_map_status ni1))"
    using Cons.prems(2) by (auto simp: ni1_def update_conv')
  ultimately show ?case
    using Cons.IH [of ni1] rest by (simp add: ni_inv_def) (simp add: ni1_def)
qed simp

lemma ni_tick_inv:
  assumes "uint ms < 2 ^ 30" and "ni_inv known given ni" and "ni_tick ms ni = Inr ni'"
  shows "ni_inv known given ni' \<and> ni_ethernet_address ni' = ni_ethernet_address ni"
proof -
  obtain ni1 where "ni_tick_loop ms (map fst (ni_map_status ni)) ni = Inr ni1" "ni_send_stage_datagram ni1 = Inr ni'"
    using assms(3) by (auto simp: ni_tick_def)
  then show ?thesis
    using ni_tick_loop_inv [OF assms(1,2), of "map fst (ni_map_status ni)" ni1] ni_stage_inv
    by (auto simp: ni_send_stage_datagram_def dom_map_of_conv_image_fst)
qed

end
