(* ===== verification/ARP_Resolution.thy ===== *)
theory ARP_Resolution
  imports Network_Interface
begin

text \<open>
  What the network interface does over time: every datagram is accounted for, an answer to an ARP
  request releases what waits for it (or runs into undefined behaviour), the passing of time, and
  the exchange by which two interfaces on one link deliver a first datagram.
\<close>

section \<open>Runs\<close>

fun ni_gives :: "ni_op \<Rightarrow> (address \<times> ipv4_datagram) list" where
  "ni_gives (Ni_Send dgram next_hop) = [(next_hop, dgram)]"
| "ni_gives _ = []"

fun ni_teaches :: "ni_op \<Rightarrow> (u32 \<times> ethernet_address) set" where
  "ni_teaches (Ni_Recv frame) = ni_lesson frame"
| "ni_teaches _ = {}"

text \<open>Time does not jump by more than twelve days, so that the counters do not wrap.\<close>

fun ni_patient :: "ni_op \<Rightarrow> bool" where
  "ni_patient (Ni_Tick ms) = (uint ms < 2 ^ 30)"
| "ni_patient _ = True"

type_synonym ni_history =
  "(u32 \<times> ethernet_address) set \<times> (address \<times> ipv4_datagram) multiset \<times> network_interface"

definition ni_step :: "ni_op \<Rightarrow> ni_history \<Rightarrow> ni_history" where
  "ni_step op h =
     (case h of (known, given, ni) \<Rightarrow>
        case ni_exec op ni of
          Inl e \<Rightarrow> h
        | Inr ni \<Rightarrow> (known \<union> ni_teaches op, given + mset (ni_gives op), ni))"

definition ni_defined :: "ni_op \<Rightarrow> ni_history \<Rightarrow> bool" where
  "ni_defined op h = (ni_patient op \<and> (\<exists>ni'. ni_exec op (snd (snd h)) = Inr ni'))"

definition ni_history_ok :: "ethernet_address \<Rightarrow> ni_history \<Rightarrow> bool" where
  "ni_history_ok own h =
     (case h of (known, given, ni) \<Rightarrow> ni_inv known given ni \<and> ni_ethernet_address ni = own)"

lemma ni_exec_inv:
  assumes "ni_inv known given ni" and "ni_patient op" and "ni_exec op ni = Inr ni'"
  shows "ni_inv (known \<union> ni_teaches op) (given + mset (ni_gives op)) ni' \<and>
    ni_ethernet_address ni' = ni_ethernet_address ni"
proof (cases op)
  case (Ni_Send dgram next_hop)
  then show ?thesis using assms(1,3) ni_send_inv [OF assms(1), of dgram next_hop ni'] by simp
next
  case (Ni_Recv frame)
  then obtain found where "ni_recv_frame frame ni = Inr (found, ni')" using assms(3) by auto
  then show ?thesis using ni_recv_inv [OF assms(1)] Ni_Recv by simp
next
  case (Ni_Tick ms)
  then show ?thesis using assms(2,3) ni_tick_inv [OF _ assms(1), of ms ni'] by simp
qed

lemma ni_new_inv: "ni_new R own a = Inr ni \<Longrightarrow> ni_inv {} {#} ni \<and> ni_ethernet_address ni = own"
  by (auto simp: ni_new_def ni_inv_def ni_maps_ok_def ni_accounts_def ni_ip_frames_def ni_resolved_def)

interpretation ni_machine: machine "\<lambda>h. \<exists>R a ni. ni_new R own a = Inr ni \<and> h = ({}, {#}, ni)"
    ni_defined ni_step "ni_history_ok own"
proof
  show "\<exists>R a ni. ni_new R own a = Inr ni \<and> s = ({}, {#}, ni) \<Longrightarrow> ni_history_ok own s" for s
    using ni_new_inv by (auto simp: ni_history_ok_def)
next
  fix s op
  assume ok: "ni_history_ok own s" and defined: "ni_defined op s"
  obtain known given ni where s: "s = (known, given, ni)" by (cases s) auto
  obtain ni' where "ni_exec op ni = Inr ni'" "ni_patient op" using defined s by (auto simp: ni_defined_def)
  then show "ni_history_ok own (ni_step op s)"
    using ni_exec_inv [of known given ni op ni'] ok by (simp add: s ni_history_ok_def ni_step_def)
qed

lemma ni_run_steps:
  assumes "ni_run ops ni = Inr ni'" and "list_all ni_patient ops"
  shows "all_steps ni_defined ni_step ops (known, given, ni) \<and>
    fold ni_step ops (known, given, ni) =
      (known \<union> \<Union> (set (map ni_teaches ops)), given + mset (concat (map ni_gives ops)), ni')"
  using assms
  by (induction ops arbitrary: known given ni) (auto simp: ni_defined_def ni_step_def Un_assoc add.assoc)

section \<open>The datagrams that wait\<close>

definition ni_waiting :: "network_interface \<Rightarrow> bool" where
  "ni_waiting ni \<longleftrightarrow> list_all (\<lambda>(next_hop, dgram). \<exists>ip. ipv4_numeric next_hop = Inr ip \<and> \<not> ni_resolved ni ip)
     (ni_dgram_stage ni)"

text \<open>One pass over the stage, by what is resolved.\<close>

lemma ni_stage_none:
  assumes "\<And>j. pos \<le> j \<Longrightarrow> j < pos + k \<Longrightarrow>
      \<exists>ip. ipv4_numeric (fst (ni_dgram_stage ni ! j)) = Inr ip \<and> \<not> ni_resolved ni ip"
    and "pos + k \<le> length (ni_dgram_stage ni)"
  shows "ni_stage_loop pos k ni = Inr ni"
  using assms
proof (induction k arbitrary: pos)
  case (Suc k)
  obtain ip where "ipv4_numeric (fst (ni_dgram_stage ni ! pos)) = Inr ip" "\<not> ni_resolved ni ip"
    using Suc.prems(1) [of pos] by auto
  then show ?case
    using Suc.IH [of "Suc pos"] Suc.prems by (simp add: case_prod_beta Let_def)
qed simp

lemma ni_stage_skip:
  assumes "\<And>j. pos \<le> j \<Longrightarrow> j < pos + m \<Longrightarrow>
      \<exists>ip. ipv4_numeric (fst (ni_dgram_stage ni ! j)) = Inr ip \<and> \<not> ni_resolved ni ip"
    and "pos + m \<le> length (ni_dgram_stage ni)"
  shows "ni_stage_loop pos (m + k) ni = ni_stage_loop (pos + m) k ni"
  using assms
proof (induction m arbitrary: pos)
  case (Suc m)
  obtain ip where "ipv4_numeric (fst (ni_dgram_stage ni ! pos)) = Inr ip" "\<not> ni_resolved ni ip"
    using Suc.prems(1) [of pos] by auto
  then show ?case
    using Suc.IH [of "Suc pos"] Suc.prems by (simp add: case_prod_beta Let_def)
qed simp

text \<open>Once the stage is shorter than the old end, the loop runs into the missing element or throws.\<close>

definition ni_sendable :: "network_interface \<Rightarrow> bool" where
  "ni_sendable ni \<longleftrightarrow> list_all (\<lambda>(next_hop, dgram). (\<exists>ip. ipv4_numeric next_hop = Inr ip) \<and>
     (\<exists>payload. dg_serialize dgram = Inr payload)) (ni_dgram_stage ni)"

lemma ni_stage_past_end:
  assumes "ni_maps_ok known ni" and "length (ni_dgram_stage ni) < pos + k" and "0 < k"
    and "ni_sendable ni"
  shows "ni_stage_loop pos k ni = Inl past_the_end"
  using assms
proof (induction pos k ni rule: ni_stage_loop.induct)
  case (2 pos k ni)
  show ?case
  proof (cases "pos < length (ni_dgram_stage ni)")
    case True
    then have k: "0 < k" "length (ni_dgram_stage ni) < Suc pos + k" using "2.prems"(2) by simp_all
    obtain next_hop dgram where at: "ni_dgram_stage ni ! pos = (next_hop, dgram)" by force
    have mem: "(next_hop, dgram) \<in> set (ni_dgram_stage ni)" using True at by (metis nth_mem)
    then obtain ip payload where ip: "ipv4_numeric next_hop = Inr ip" and payload: "dg_serialize dgram = Inr payload"
      using "2.prems"(4) by (fastforce simp: ni_sendable_def list_all_iff)
    show ?thesis
    proof (cases "ni_resolved ni ip")
      case False
      then show ?thesis using "2.IH"(2) [OF _ at [symmetric] refl ip False "2.prems"(1) k(2,1) "2.prems"(4)] True at ip
        by simp
    next
      case resolved: True
      then obtain mac where mac: "map_of (ni_addr_map ni) ip = Some mac"
        using "2.prems"(1) by (auto simp: ni_maps_ok_def)
      let ?ni1 = "ni_push_frame (ni_frame ni TYPE_IPv4 mac payload) ni"
      let ?ni2 = "?ni1\<lparr>ni_dgram_stage := take pos (ni_dgram_stage ?ni1) @ drop (Suc pos) (ni_dgram_stage ?ni1)\<rparr>"
      have send: "ni_send_datagram dgram next_hop ni = Inr ?ni1"
        using ip mac payload by (simp add: ni_send_datagram_def)
      have "ni_maps_ok known ?ni2" using "2.prems"(1) by (simp add: ni_maps_ok_def ni_resolved_def)
      moreover have "length (ni_dgram_stage ?ni2) < Suc pos + k" using k(2) by simp
      moreover have "ni_sendable ?ni2"
        using "2.prems"(4) by (auto simp: ni_sendable_def list_all_iff dest: in_set_takeD in_set_dropD)
      ultimately have "ni_stage_loop (Suc pos) k ?ni2 = Inl past_the_end"
        using "2.IH"(1) [OF _ at [symmetric] refl ip resolved send _ _ k(1)] True by simp
      then show ?thesis using True at ip resolved send by simp
    qed
  qed simp
qed simp

lemma ni_stage_one:
  assumes "ni_maps_ok known ni" and "ni_sendable ni" and "p < length (ni_dgram_stage ni)"
    and "\<And>j. j < p \<Longrightarrow> \<exists>ip. ipv4_numeric (fst (ni_dgram_stage ni ! j)) = Inr ip \<and> \<not> ni_resolved ni ip"
    and "ni_dgram_stage ni ! p = (next_hop, dgram)" and "ipv4_numeric next_hop = Inr ip"
    and "map_of (ni_addr_map ni) ip = Some mac" and "ni_resolved ni ip"
  shows "ni_send_stage_datagram ni =
    (if p = length (ni_dgram_stage ni) - 1
     then Inr ((ni_push_frame (ni_frame ni TYPE_IPv4 mac (projr (dg_serialize dgram))) ni)
       \<lparr>ni_dgram_stage := butlast (ni_dgram_stage ni)\<rparr>)
     else Inl past_the_end)"
proof -
  let ?n = "length (ni_dgram_stage ni)"
  have "(next_hop, dgram) \<in> set (ni_dgram_stage ni)" using assms(3,5) by (metis nth_mem)
  then obtain payload where payload: "dg_serialize dgram = Inr payload"
    using assms(2) by (fastforce simp: ni_sendable_def list_all_iff)
  let ?ni1 = "ni_push_frame (ni_frame ni TYPE_IPv4 mac payload) ni"
  let ?ni2 = "?ni1\<lparr>ni_dgram_stage := take p (ni_dgram_stage ni) @ drop (Suc p) (ni_dgram_stage ni)\<rparr>"
  have send: "ni_send_datagram dgram next_hop ni = Inr ?ni1"
    using assms(6,7) payload by (simp add: ni_send_datagram_def)
  have "ni_stage_loop 0 (p + Suc (?n - Suc p)) ni = ni_stage_loop (0 + p) (Suc (?n - Suc p)) ni"
    using assms(3,4) by (intro ni_stage_skip) auto
  moreover have "p + Suc (?n - Suc p) = ?n" using assms(3) by simp
  ultimately have "ni_send_stage_datagram ni = ni_stage_loop p (Suc (?n - Suc p)) ni"
    by (metis ni_send_stage_datagram_def add_0)
  then have loop: "ni_send_stage_datagram ni = ni_stage_loop (Suc p) (?n - Suc p) ?ni2"
    using assms(3,5,6,8) send by simp
  show ?thesis
  proof (cases "p = ?n - 1")
    case True
    then have "?n - Suc p = 0" "take p (ni_dgram_stage ni) @ drop (Suc p) (ni_dgram_stage ni) = butlast (ni_dgram_stage ni)"
      using assms(3) by (simp_all add: butlast_conv_take)
    then show ?thesis using True loop payload by simp
  next
    case False
    have "ni_maps_ok known ?ni2" using assms(1) by (simp add: ni_maps_ok_def ni_resolved_def)
    moreover have "ni_sendable ?ni2"
      using assms(2) by (auto simp: ni_sendable_def list_all_iff dest: in_set_takeD in_set_dropD)
    ultimately show ?thesis using False assms(3) by (simp add: loop ni_stage_past_end)
  qed
qed

section \<open>One pass over the ages\<close>

definition ni_age :: "u64 \<Rightarrow> u32 \<Rightarrow> u32" where
  "ni_age ms status = (if 0 \<le> sint status then ni_later ms status else ni_earlier ms status)"

definition ni_expires :: "u64 \<Rightarrow> u32 \<Rightarrow> bool" where
  "ni_expires ms status \<longleftrightarrow> 30000 \<le> sint status + uint ms \<and> 0 \<le> sint status \<or>
     sint status - uint ms \<le> - 5001 \<and> sint status < 0"

lemma ni_age_sign:
  assumes "- 5001 < sint status" and "sint status < 30000" and "uint ms < 2 ^ 30"
  shows "0 \<le> sint (ni_age ms status) \<longleftrightarrow> 0 \<le> sint status"
proof -
  define t where "t = uint ms"
  then have "uint ms = t" "0 \<le> t" by simp_all
  then show ?thesis using assms by (simp add: ni_age_def sint_ni_time)
qed

lemma ni_tick_step:
  assumes "map_of (ni_map_status ni) ip = Some status"
    and "- 5001 < sint status" and "sint status < 30000" and "uint ms < 2 ^ 30"
  shows "ni_tick_loop ms (ip # ips) ni =
    (if ni_expires ms status then Inl erased_entry
     else ni_tick_loop ms ips (ni\<lparr>ni_map_status := AList.update ip (ni_age ms status) (ni_map_status ni)\<rparr>))"
  using assms by (simp add: Let_def ni_expires_def ni_age_def sint_ni_time)

lemma ni_tick_loop_eq:
  assumes "uint ms < 2 ^ 30"
  shows "distinct (map fst (old @ new)) \<Longrightarrow>
    \<forall>(ip, status) \<in> set new. - 5001 < sint status \<and> sint status < 30000 \<Longrightarrow>
    ni_tick_loop ms (map fst new) (ni\<lparr>ni_map_status := old @ new\<rparr>) =
      (if list_ex (\<lambda>(ip, status). ni_expires ms status) new then Inl erased_entry
       else Inr (ni\<lparr>ni_map_status := old @ map (\<lambda>(ip, status). (ip, ni_age ms status)) new\<rparr>))"
proof (induction new arbitrary: old)
  case (Cons entry new)
  obtain ip status where e: "entry = (ip, status)" by force
  have at: "map_of (old @ (ip, status) # new) ip = Some status"
    and upd: "AList.update ip status' (old @ (ip, status) # new) = (old @ [(ip, status')]) @ new" for status'
    using Cons.prems(1) e by (induction old) auto
  have step: "ni_tick_loop ms (ip # map fst new) (ni\<lparr>ni_map_status := old @ (ip, status) # new\<rparr>) =
    (if ni_expires ms status then Inl erased_entry
     else ni_tick_loop ms (map fst new) (ni\<lparr>ni_map_status := (old @ [(ip, ni_age ms status)]) @ new\<rparr>))"
    using ni_tick_step [of "ni\<lparr>ni_map_status := old @ (ip, status) # new\<rparr>" ip status ms "map fst new"]
      Cons.prems(2) assms e at upd by simp
  have "distinct (map fst ((old @ [(ip, ni_age ms status)]) @ new))" using Cons.prems(1) e by simp
  then show ?case
    using Cons.IH [of "old @ [(ip, ni_age ms status)]"] Cons.prems(2) step by (simp add: e)
qed simp

section \<open>Examples\<close>

definition example_mac :: "byte \<Rightarrow> ethernet_address" where
  "example_mac n = EA 2 0 0 0 0 n"

definition example_dgram :: ipv4_datagram where
  "example_dgram = \<lparr>dg_header = ip_new\<lparr>ip_len := 22\<rparr>, dg_payload = [buffer_of_string [7, 8]]\<rparr>"

definition example_reply :: arp_message where
  "example_reply = arp_new\<lparr>sender_ethernet_address := example_mac 2, sender_ip_address := 0x0A000002,
     target_ethernet_address := example_mac 1, target_ip_address := 0x0A000001, opcode := OPCODE_REPLY\<rparr>"

definition example_reply_frame :: ethernet_frame where
  "example_reply_frame = \<lparr>ef_header = \<lparr>eth_dst = example_mac 1, eth_src = example_mac 2, eth_type = TYPE_ARP\<rparr>,
     ef_payload = [buffer_of_string (arp_wire example_reply)]\<rparr>"

definition example_ni :: network_interface where
  "example_ni = \<lparr>ni_ethernet_address = example_mac 1, ni_ip_address = inet_address 0x0A000001 0, ni_frames_out = [],
     ni_addr_map = [], ni_map_status = [], ni_dgram_stage = []\<rparr>"

definition example_waiting :: "nat \<Rightarrow> network_interface" where
  "example_waiting n = example_ni\<lparr>ni_map_status := [(0x0A000002, - 1)],
     ni_dgram_stage := replicate n (inet_address 0x0A000002 0, example_dgram)\<rparr>"

lemma example_dgram_ok: "dg_ok example_dgram"
  by (simp add: example_dgram_def dg_ok_def ip_header_ok_def ip_new_def ip_LENGTH_def)

lemma example_new: "ni_new numeric_resolver (example_mac 1) (inet_address 0x0A000001 0) = Inr example_ni"
  by (simp add: ni_new_def numeric.ip_inet example_ni_def)

lemma example_reply_parse: "arp_parse (buffer_of_string (arp_wire example_reply)) arp_new = (NoError, example_reply)"
  by (rule arp_parse_wire [of _ _ "[]"]) (simp_all add: example_reply_def supported_def arp_new_def)

lemma example_waiting_inv:
  "ni_inv {} (mset (ni_dgram_stage (example_waiting n))) (example_waiting n)"
  "ni_waiting (example_waiting n)" "ni_sendable (example_waiting n)"
  using dg_serialize_ok [OF example_dgram_ok]
  by (auto simp: ni_inv_def ni_maps_ok_def ni_accounts_def ni_ip_frames_def ni_resolved_def example_waiting_def
      example_ni_def ni_waiting_def ni_sendable_def list_all_iff)

section \<open>Properties\<close>

text \<open>C9: (every datagram is accounted for) Whatever frames arrive and however time passes, as long as the run
  is defined, every datagram given to \<open>send_datagram\<close> is either waiting or has gone out in exactly one
  IPv4 frame, in the order in which they went out, from the interface's own Ethernet address to one
  that an accepted ARP message gave for the datagram's next hop; and no other frame than these and
  the ARP messages goes out.\<close>

theorem interface_accounts_for_datagrams:
  assumes "ni_new R own a = Inr ni0" and "ni_run ops ni0 = Inr ni" and "list_all ni_patient ops"
  shows "\<exists>sent. mset sent + mset (ni_dgram_stage ni) = mset (concat (map ni_gives ops)) \<and>
    list_all2 (ni_carries own (\<Union> (set (map ni_teaches ops)))) (ni_ip_frames ni) sent"
proof -
  note steps = ni_run_steps [OF assms(2,3), of "{}" "{#}"]
  have "ni_history_ok own (fold ni_step ops ({}, {#}, ni0))"
    using assms(1) steps by (intro ni_machine.run_inv) auto
  then show ?thesis using steps by (auto simp: ni_history_ok_def ni_inv_def ni_accounts_def)
qed

theorem interface_accounts_for_datagrams_witness:
  "let ni = projr (ni_run [Ni_Send example_dgram (inet_address 0x0A000002 0), Ni_Tick 5, Ni_Recv example_reply_frame]
       example_ni) in
   ni_dgram_stage ni = [] \<and> length (ni_ip_frames ni) = 1"
proof -
  let ?ops = "[Ni_Send example_dgram (inet_address 0x0A000002 0), Ni_Tick 5, Ni_Recv example_reply_frame]"
  obtain ni where run: "ni_run ?ops example_ni = Inr ni" and stage: "ni_dgram_stage ni = []"
    using dg_serialize_ok [OF example_dgram_ok] example_reply_parse
    by (simp add: example_ni_def ni_send_datagram_def arp_serialize_eq ni_request_def supported_def arp_new_def
        ni_tick_def ni_push_frame_def ni_earlier_def ni_send_stage_datagram_def ni_resolved_def ni_recv_frame_def
        example_reply_frame_def ni_datagram_def TYPE_ARP_def TYPE_IPv4_def ni_handle_arp_def bl_to_buffer_def
        ni_reply_def ni_learn_def example_reply_def OPCODE_REPLY_def OPCODE_REQUEST_def)
  obtain sent where "mset sent + mset (ni_dgram_stage ni) = mset (concat (map ni_gives ?ops))"
    "list_all2 (ni_carries (example_mac 1) (\<Union> (set (map ni_teaches ?ops)))) (ni_ip_frames ni) sent"
    using interface_accounts_for_datagrams [OF example_new run] by auto
  then have "length (ni_ip_frames ni) = 1"
    using stage by (auto simp: dest: list_all2_lengthD)
  then show ?thesis unfolding run Let_def using stage by simp
qed

text \<open>C26: (an ARP answer) A supported ARP reply is learnt, and releases what waits for its sender: with
  nothing waiting for it nothing is sent; when the only datagram that waits for it is the last of
  the stage, that one is sent and leaves the stage; in every other case, two datagrams for the same
  next hop already, the loop erases and then reads past the end of the vector.\<close>

theorem arp_answer_releases_one:
  assumes inv: "ni_inv known given ni" and "ni_waiting ni" and "ni_sendable ni"
    and "eth_type (ef_header frame) = TYPE_ARP" and "bl_to_buffer (ef_payload frame) = Inr b"
    and "arp_parse b arp_new = (NoError, msg)" and "opcode msg = OPCODE_REPLY"
  defines "waits \<equiv> filter (\<lambda>(next_hop, dgram). ipv4_numeric next_hop = Inr (sender_ip_address msg)) (ni_dgram_stage ni)"
  shows "ni_recv_frame frame ni =
    (if waits = [] then Inr (None, ni_learn msg ni)
     else if waits = [last (ni_dgram_stage ni)] then
       Inr (None, (ni_push_frame (ni_frame ni TYPE_IPv4 (sender_ethernet_address msg)
           (projr (dg_serialize (snd (last (ni_dgram_stage ni)))))) (ni_learn msg ni))
         \<lparr>ni_dgram_stage := butlast (ni_dgram_stage ni)\<rparr>)
     else Inl past_the_end)"
proof -
  let ?ip = "sender_ip_address msg" and ?ni = "ni_learn msg ni"
  let ?stage = "ni_dgram_stage ni" and ?n = "length (ni_dgram_stage ni)"
  let ?P = "\<lambda>d. ipv4_numeric (fst d) = Inr ?ip"
  have waits: "waits = filter ?P ?stage" by (auto simp: waits_def intro: filter_cong)
  have recv: "ni_recv_frame frame ni = andthen (ni_send_stage_datagram ?ni) (\<lambda>ni. Inr (None, ni))"
    using assms(4-7) by (simp add: ni_recv_frame_def ni_datagram_def TYPE_IPv4_def TYPE_ARP_def ni_handle_arp_def
        ni_reply_def OPCODE_REPLY_def OPCODE_REQUEST_def)
  have learnt: "ni_dgram_stage ?ni = ?stage" "map_of (ni_addr_map ?ni) ?ip = Some (sender_ethernet_address msg)"
    "ni_ethernet_address ?ni = ni_ethernet_address ni"
    "\<And>ip. ni_resolved ?ni ip \<longleftrightarrow> ip = ?ip \<or> ni_resolved ni ip"
    by (simp_all add: ni_learn_def ni_resolved_def update_conv')
  have unresolved: "\<exists>ip. ipv4_numeric (fst (?stage ! j)) = Inr ip \<and> \<not> ni_resolved ?ni ip"
    if j: "j < ?n" "\<not> ?P (?stage ! j)" for j
  proof -
    obtain ip where "ipv4_numeric (fst (?stage ! j)) = Inr ip" "\<not> ni_resolved ni ip"
      using assms(2) j(1) by (auto simp: ni_waiting_def list_all_length case_prod_beta)
    then show ?thesis using j(2) learnt(4) by auto
  qed
  show ?thesis
  proof (cases "waits = []")
    case True
    then have "ni_send_stage_datagram ?ni = Inr ?ni"
      unfolding ni_send_stage_datagram_def learnt(1)
      by (intro ni_stage_none) (use unresolved in \<open>auto simp: learnt(1) waits filter_empty_conv\<close>)
    then show ?thesis using True recv by simp
  next
    case False
    then obtain p where p: "p < ?n" "?P (?stage ! p)" and before: "\<And>j. j < p \<Longrightarrow> \<not> ?P (?stage ! j)"
      and one: "waits = [last ?stage] \<longleftrightarrow> p = ?n - 1"
      using filter_first [of ?P ?stage] unfolding waits by blast
    have last_eq: "p = ?n - 1 \<Longrightarrow> ?stage ! p = last ?stage"
      using p(1) by (metis last_conv_nth list.size(3) not_less_zero)
    have maps: "ni_maps_ok (insert (?ip, sender_ethernet_address msg) known) ?ni"
      using ni_learn_inv [OF inv] by (simp add: ni_inv_def)
    have "ni_send_stage_datagram ?ni =
      (if p = ?n - 1
       then Inr ((ni_push_frame (ni_frame ni TYPE_IPv4 (sender_ethernet_address msg)
             (projr (dg_serialize (snd (?stage ! p))))) ?ni)\<lparr>ni_dgram_stage := butlast ?stage\<rparr>)
       else Inl past_the_end)"
      using ni_stage_one [OF maps, of p "fst (?stage ! p)" "snd (?stage ! p)" ?ip] assms(3) p before unresolved
      by (simp add: learnt ni_sendable_def ni_frame_def)
    then show ?thesis using False one recv last_eq by (simp split: if_splits)
  qed
qed

theorem arp_answer_releases_one_witness:
  "ni_recv_frame example_reply_frame (example_waiting 2) = Inl past_the_end \<and>
   length (ni_frames_out (snd (projr (ni_recv_frame example_reply_frame (example_waiting 1))))) = 1"
proof -
  have fr: "eth_type (ef_header example_reply_frame) = TYPE_ARP"
    "bl_to_buffer (ef_payload example_reply_frame) = Inr (buffer_of_string (arp_wire example_reply))"
    by (simp_all add: bl_to_buffer_def example_reply_frame_def)
  have "opcode example_reply = OPCODE_REPLY" "sender_ip_address example_reply = 0x0A000002"
    by (simp_all add: example_reply_def)
  then show ?thesis
    using arp_answer_releases_one [OF example_waiting_inv fr example_reply_parse, of 2]
      arp_answer_releases_one [OF example_waiting_inv fr example_reply_parse, of 1]
    by (simp add: example_waiting_def numeral_2_eq_2 ni_learn_def example_ni_def ni_push_frame_def)
qed

text \<open>C39: (time) A tick that takes the age of a learnt address to 30 seconds, or the wait for an answer
  past 5 seconds, erases the entry that the loop stands on and then steps from it. Otherwise the
  tick ages every learnt address, counts every pending request down and changes nothing else.\<close>

theorem tick_expires_or_ages:
  assumes "ni_inv known given ni" and "ni_waiting ni" and "uint ms < 2 ^ 30"
  shows "ni_tick ms ni =
    (if list_ex (\<lambda>(ip, status). ni_expires ms status) (ni_map_status ni) then Inl erased_entry
     else Inr (ni\<lparr>ni_map_status := map (\<lambda>(ip, status). (ip, ni_age ms status)) (ni_map_status ni)\<rparr>))"
proof -
  have maps: "ni_maps_ok known ni" using assms(1) by (simp add: ni_inv_def)
  then have "\<forall>(ip, status) \<in> set (ni_map_status ni). - 5001 < sint status \<and> sint status < 30000"
    "distinct (map fst (ni_map_status ni))"
    by (auto simp: ni_maps_ok_def)
  then have loop: "ni_tick_loop ms (map fst (ni_map_status ni)) ni =
    (if list_ex (\<lambda>(ip, status). ni_expires ms status) (ni_map_status ni) then Inl erased_entry
     else Inr (ni\<lparr>ni_map_status := map (\<lambda>(ip, status). (ip, ni_age ms status)) (ni_map_status ni)\<rparr>))"
    using ni_tick_loop_eq [OF assms(3), of "[]" "ni_map_status ni" ni] by simp
  let ?ni = "ni\<lparr>ni_map_status := map (\<lambda>(ip, status). (ip, ni_age ms status)) (ni_map_status ni)\<rparr>"
  have "ni_resolved ?ni ip \<longleftrightarrow> ni_resolved ni ip" for ip
    using maps ni_age_sign [OF _ _ assms(3)]
    by (auto simp: ni_resolved_def map_of_map ni_maps_ok_def split: option.split)
  then have "ni_send_stage_datagram ?ni = Inr ?ni"
    using assms(2) unfolding ni_send_stage_datagram_def
    by (intro ni_stage_none) (auto simp: ni_waiting_def list_all_length case_prod_beta)
  then show ?thesis by (simp add: ni_tick_def loop)
qed

theorem tick_expires_or_ages_witness:
  "ni_tick 5000 (example_waiting 1) = Inl erased_entry \<and>
   ni_tick 4999 (example_waiting 1) = Inr ((example_waiting 1)\<lparr>ni_map_status := [(0x0A000002, - 5000)]\<rparr>)"
  using tick_expires_or_ages [OF example_waiting_inv(1,2), of 5000 1]
    tick_expires_or_ages [OF example_waiting_inv(1,2), of 4999 1]
  by (simp add: example_waiting_def ni_expires_def ni_age_def ni_earlier_def)

section \<open>Two interfaces on one link\<close>

text \<open>A frame as the other end reads it from the link.\<close>

definition over_link :: "ethernet_frame \<Rightarrow> ethernet_frame" where
  "over_link fr = snd (ef_parse (buffer_of_string (ef_wire fr)) ef_new)"

text \<open>
  A link carries the header of a frame and the bytes of its payload, which arrive in one buffer. Reading
  back the bytes of the frame is such a link.
\<close>

locale link =
  fixes carry :: "ethernet_frame \<Rightarrow> ethernet_frame"
  assumes carry: "\<exists>b. carry fr = \<lparr>ef_header = ef_header fr, ef_payload = [b]\<rparr> \<and>
    buffer_str b = bl_concatenate (ef_payload fr)"

text \<open>What a fresh interface does with the frames of the exchange.\<close>

definition ni_fresh :: "ethernet_address \<Rightarrow> address \<Rightarrow> network_interface" where
  "ni_fresh mac a = \<lparr>ni_ethernet_address = mac, ni_ip_address = a, ni_frames_out = [], ni_addr_map = [],
     ni_map_status = [], ni_dgram_stage = []\<rparr>"

context link
begin

lemma ni_recv_arp:
  assumes "eth_type (ef_header fr) = TYPE_ARP" and "bl_concatenate (ef_payload fr) = arp_wire msg" and "supported msg"
  shows "ni_recv_frame (carry fr) ni =
    andthen (ni_reply msg (ni_learn msg ni)) (\<lambda>ni. andthen (ni_send_stage_datagram ni) (\<lambda>ni. Inr (None, ni)))"
proof -
  obtain b where b: "carry fr = \<lparr>ef_header = ef_header fr, ef_payload = [b]\<rparr>" "buffer_str b = arp_wire msg"
    using carry [of fr] assms(2) by metis
  have "arp_parse b arp_new = (NoError, msg)" by (rule arp_parse_wire [of b msg "[]"]) (simp_all add: b assms(3))
  then show ?thesis
    using assms(1) by (simp add: b ni_recv_frame_def ni_datagram_def TYPE_ARP_def TYPE_IPv4_def ni_handle_arp_def
        bl_to_buffer_def)
qed

lemma arp_exchange:
  fixes mac_a mac_b :: ethernet_address and ip_a ip_b :: u32
  assumes "dg_ok d"
  defines "A0 \<equiv> ni_fresh mac_a (inet_address ip_a 0)" and "B0 \<equiv> ni_fresh mac_b (inet_address ip_b 0)"
  shows "\<exists>request reply frame A1 A2 B1 b.
    ni_send_datagram d (inet_address ip_b port) A0 = Inr A1 \<and> ni_frames_out A1 = [request] \<and>
    ni_recv_frame (carry request) B0 = Inr (None, B1) \<and> ni_frames_out B1 = [reply] \<and>
    ni_recv_frame (carry reply) (A1\<lparr>ni_frames_out := []\<rparr>) = Inr (None, A2) \<and> ni_frames_out A2 = [frame] \<and>
    ni_recv_frame (carry frame) (B1\<lparr>ni_frames_out := []\<rparr>) =
      Inr (Some \<lparr>dg_header = ip_with_cksum (dg_header d), dg_payload = [b]\<rparr>, B1\<lparr>ni_frames_out := []\<rparr>) \<and>
    buffer_str b = bl_concatenate (dg_payload d) \<and> ni_dgram_stage A2 = [] \<and>
    map_of (ni_addr_map A2) ip_b = Some mac_b \<and> map_of (ni_addr_map B1) ip_a = Some mac_a"
proof -
  define req where "req = ni_request A0 ip_a ip_b"
  define rep where "rep = arp_new\<lparr>sender_ethernet_address := mac_b, sender_ip_address := ip_b,
    target_ethernet_address := mac_a, target_ip_address := ip_a, opcode := OPCODE_REPLY\<rparr>"
  have sup: "supported req" "supported rep"
    by (simp_all add: req_def rep_def ni_request_def arp_new_def supported_def)
  define request where "request = ni_frame A0 TYPE_ARP ethernet_broadcast (bl_of_string (arp_wire req))"
  define reply where "reply = ni_frame B0 TYPE_ARP mac_a (bl_of_string (arp_wire rep))"
  define payload where "payload = buffer_of_string (ip_wire (ip_with_cksum (dg_header d))) # dg_payload d"
  define frame where "frame = ni_frame A0 TYPE_IPv4 mac_b payload"
  define A1 where "A1 = A0\<lparr>ni_frames_out := [request], ni_dgram_stage := [(inet_address ip_b port, d)],
    ni_map_status := [(ip_b, - 1)]\<rparr>"
  define A2 where "A2 = A0\<lparr>ni_frames_out := [frame], ni_map_status := [(ip_b, 0)], ni_addr_map := [(ip_b, mac_b)]\<rparr>"
  define B1 where "B1 = B0\<lparr>ni_frames_out := [reply], ni_map_status := [(ip_a, 0)], ni_addr_map := [(ip_a, mac_a)]\<rparr>"
  have ser: "dg_serialize d = Inr payload" using dg_serialize_ok [OF assms(1)] by (simp add: payload_def)
  have 1: "ni_send_datagram d (inet_address ip_b port) A0 = Inr A1"
    using sup(1) by (simp add: ni_send_datagram_def A1_def A0_def ni_fresh_def arp_serialize_eq request_def req_def
        ni_push_frame_def ni_frame_def)
  have "ni_reply req (ni_learn req B0) = Inr B1"
    using sup(2) by (simp add: ni_reply_def req_def ni_request_def B0_def ni_fresh_def ni_learn_def arp_serialize_eq
        B1_def reply_def rep_def A0_def arp_new_def Let_def ni_push_frame_def ni_frame_def)
  then have 2: "ni_recv_frame (carry request) B0 = Inr (None, B1)"
    using ni_recv_arp [of request req B0] sup(1)
    by (simp add: request_def ni_frame_def B1_def B0_def ni_fresh_def ni_send_stage_datagram_def)
  let ?A1 = "A1\<lparr>ni_frames_out := []\<rparr>" and ?B1 = "B1\<lparr>ni_frames_out := []\<rparr>"
  have "ni_reply rep (ni_learn rep ?A1) = Inr (ni_learn rep ?A1)"
    by (simp add: ni_reply_def rep_def OPCODE_REPLY_def OPCODE_REQUEST_def)
  moreover have "ni_send_stage_datagram (ni_learn rep ?A1) = Inr A2"
    using ser by (simp add: ni_send_stage_datagram_def ni_learn_def A1_def A0_def ni_fresh_def rep_def ni_resolved_def
        ni_send_datagram_def A2_def frame_def ni_push_frame_def ni_frame_def)
  ultimately have 3: "ni_recv_frame (carry reply) ?A1 = Inr (None, A2)"
    using ni_recv_arp [of reply rep ?A1] sup(2) by (simp add: reply_def ni_frame_def)
  obtain bb where bb: "carry frame = \<lparr>ef_header = ef_header frame, ef_payload = [bb]\<rparr>"
    "buffer_str bb = ip_wire (ip_with_cksum (dg_header d)) @ bl_concatenate (dg_payload d)"
    using carry [of frame] by (auto simp: frame_def ni_frame_def payload_def)
  obtain b where b: "dg_parse bb dg_new = (NoError, \<lparr>dg_header = ip_with_cksum (dg_header d), dg_payload = [b]\<rparr>)"
    "buffer_str b = bl_concatenate (dg_payload d)"
    using dg_parse_bytes [OF _ _ bb(2), of dg_new] assms(1) by (auto simp: dg_ok_def)
  have hd: "eth_type (ef_header frame) = TYPE_IPv4" "eth_dst (ef_header frame) = mac_b" "ni_ethernet_address B1 = mac_b"
    by (simp_all add: frame_def ni_frame_def B1_def B0_def ni_fresh_def)
  have "ni_recv_frame (carry frame) ?B1 = Inr (Some \<lparr>dg_header = ip_with_cksum (dg_header d), dg_payload = [b]\<rparr>, ?B1)"
    using b(1) hd by (simp add: ni_recv_frame_def ni_datagram_def bb(1) bl_to_buffer_def)
  then show ?thesis
    using 1 2 3 b(2)
    by (intro exI [of _ request] exI [of _ reply] exI [of _ frame] exI [of _ A1] exI [of _ A2] exI [of _ B1] exI [of _ b])
      (simp add: A1_def A2_def B1_def A0_def ni_fresh_def)
qed

end

interpretation parsed_link: link over_link
proof
  show "\<exists>b. over_link fr = \<lparr>ef_header = ef_header fr, ef_payload = [b]\<rparr> \<and>
    buffer_str b = bl_concatenate (ef_payload fr)" for fr
    using ef_parse_wire [of fr ef_new] by (auto simp: over_link_def)
qed

text \<open>C25: (a first datagram over a link) Two fresh interfaces share a link. Sending a well-formed datagram from one to
  the other's address puts an ARP request on the link, which teaches the other end the sender's
  address and is answered with a reply; the reply releases one IPv4 frame (each end takes the frames to send off its queue); and that frame, received
  at the other end, is the datagram: the same header, with a checksum that verifies, and the same
  payload bytes.\<close>

theorem arp_exchange_delivers:
  fixes mac_a mac_b :: ethernet_address and ip_a ip_b :: u32
  assumes "dg_ok d"
  defines "A0 \<equiv> ni_fresh mac_a (inet_address ip_a 0)" and "B0 \<equiv> ni_fresh mac_b (inet_address ip_b 0)"
  shows "\<exists>request reply frame A1 A2 B1 b.
    ni_send_datagram d (inet_address ip_b port) A0 = Inr A1 \<and> ni_frames_out A1 = [request] \<and>
    ni_recv_frame (over_link request) B0 = Inr (None, B1) \<and> ni_frames_out B1 = [reply] \<and>
    ni_recv_frame (over_link reply) (A1\<lparr>ni_frames_out := []\<rparr>) = Inr (None, A2) \<and> ni_frames_out A2 = [frame] \<and>
    ni_recv_frame (over_link frame) (B1\<lparr>ni_frames_out := []\<rparr>) =
      Inr (Some \<lparr>dg_header = ip_with_cksum (dg_header d), dg_payload = [b]\<rparr>, B1\<lparr>ni_frames_out := []\<rparr>) \<and>
    buffer_str b = bl_concatenate (dg_payload d) \<and> ni_dgram_stage A2 = [] \<and>
    map_of (ni_addr_map A2) ip_b = Some mac_b \<and> map_of (ni_addr_map B1) ip_a = Some mac_a"
  using parsed_link.arp_exchange [OF assms(1)] unfolding A0_def B0_def .

theorem arp_exchange_delivers_witness:
  "\<exists>A1 b frame. ni_send_datagram example_dgram (inet_address 0x0A000002 0)
     (ni_fresh (example_mac 1) (inet_address 0x0A000001 0)) = Inr A1 \<and> buffer_str b = [7, 8] \<and>
   ni_frames_out A1 = [frame] \<and>
   eth_dst (ef_header frame) = ethernet_broadcast"
proof -
  obtain request A1 b where A1: "ni_send_datagram example_dgram (inet_address 0x0A000002 0)
      (ni_fresh (example_mac 1) (inet_address 0x0A000001 0)) = Inr A1" "ni_frames_out A1 = [request]"
    "buffer_str b = bl_concatenate (dg_payload example_dgram)"
    using arp_exchange_delivers [OF example_dgram_ok, of "0x0A000002" 0 "example_mac 1" "0x0A000001" "example_mac 2"]
    by blast
  have "eth_dst (ef_header request) = ethernet_broadcast"
    using A1(1,2) by (auto simp: ni_send_datagram_def ni_fresh_def ni_push_frame_def ni_frame_def)
  then show ?thesis using A1 by (auto simp: example_dgram_def)
qed

end
