(* ===== verification/Adapters.thy ===== *)
theory Adapters
  imports TCP_Over_IP ARP_Resolution File_Descriptor
begin

text \<open>
  \<open>libsponge/tcp_helpers/fd_adapter.{hh,cc}\<close>, \<open>lossy_fd_adapter.hh\<close> and \<open>tuntap_adapter.{hh,cc}\<close>: the
  adapters that carry TCP segments over UDP datagrams, over a TUN device and, through the network
  interface, over a TAP device, and the one that loses some of them. What the socket or the device
  delivers is an argument, what is written to it a result.
\<close>

section \<open>TCPOverUDPSocketAdapter\<close>

definition udp_read ::
  "received_datagram \<Rightarrow> fd_adapter \<Rightarrow> tcp_segment option \<times> fd_adapter" where
  "udp_read datagram fa =
     (if \<not> fa_listen fa \<and> \<not> ad_eq (rd_source_address datagram) (fc_destination (fa_cfg fa)) then (None, fa)
      else
        let (state, seg) = seg_parse (buffer_of_string (rd_payload datagram)) 0 seg_new in
        if state \<noteq> NoError then (None, fa)
        else if fa_listen fa then
          if th_syn (seg_header seg) \<and> \<not> th_rst (seg_header seg) then
            (Some seg, fa_set_listening False
               (fa\<lparr>fa_cfg := (fa_cfg fa)\<lparr>fc_destination := rd_source_address datagram\<rparr>\<rparr>))
          else (None, fa)
        else (Some seg, fa))"

text \<open>The segment with its ports set, the address and the bytes given to \<open>sendto\<close>.\<close>

definition udp_write ::
  "resolver \<Rightarrow> tcp_segment \<Rightarrow> fd_adapter \<Rightarrow> exn + tcp_segment \<times> address \<times> buffer_list" where
  "udp_write R seg fa =
     andthen (ad_port R (fc_source (fa_cfg fa))) (\<lambda>sport.
     andthen (ad_port R (fc_destination (fa_cfg fa))) (\<lambda>dport.
       let seg = seg\<lparr>seg_header := (seg_header seg)\<lparr>th_sport := sport, th_dport := dport\<rparr>\<rparr> in
       andthen (seg_serialize 0 seg) (\<lambda>bytes. Inr (seg, fc_destination (fa_cfg fa), bytes))))"

section \<open>TCPOverIPv4OverTunFdAdapter\<close>

definition tun_read :: "resolver \<Rightarrow> byte list \<Rightarrow> fd_adapter \<Rightarrow> exn + tcp_segment option \<times> fd_adapter" where
  "tun_read R bytes fa =
     (let (state, ip_dgram) = dg_parse (buffer_of_string bytes) dg_new in
      if state \<noteq> NoError then Inr (None, fa) else ipa_unwrap R ip_dgram fa)"

definition tun_write :: "resolver \<Rightarrow> tcp_segment \<Rightarrow> fd_adapter \<Rightarrow> exn + tcp_segment \<times> buffer_list" where
  "tun_write R seg fa =
     andthen (ipa_wrap R seg fa) (\<lambda>(ip_dgram, seg).
     andthen (dg_serialize ip_dgram) (\<lambda>bytes. Inr (seg, bytes)))"

section \<open>TCPOverIPv4OverEthernetAdapter\<close>

text \<open>\<open>tap_out\<close> lists the frames written to the TAP device so far.\<close>

record tap_adapter =
  tap_base :: fd_adapter
  tap_interface :: network_interface
  tap_next_hop :: address
  tap_out :: "byte list list"

definition tap_new ::
  "resolver \<Rightarrow> ethernet_address \<Rightarrow> address \<Rightarrow> address \<Rightarrow> exn + tap_adapter" where
  "tap_new R eth_address ip_address next_hop =
     andthen (fa_new R) (\<lambda>base.
     andthen (ni_new R eth_address ip_address) (\<lambda>ni.
       let dummy_frame = ef_new in
       Inr \<lparr>tap_base = base, tap_interface = ni, tap_next_hop = next_hop, tap_out = [ef_wire dummy_frame]\<rparr>))"

function tap_send_pending :: "tap_adapter \<Rightarrow> tap_adapter" where
  "tap_send_pending tap =
     (if ni_frames_out (tap_interface tap) = [] then tap
      else tap_send_pending
        (tap\<lparr>tap_out := tap_out tap @ [ef_wire (hd (ni_frames_out (tap_interface tap)))],
             tap_interface := (tap_interface tap)\<lparr>ni_frames_out := tl (ni_frames_out (tap_interface tap))\<rparr>\<rparr>))"
  by auto
termination by (relation "measure (\<lambda>tap. length (ni_frames_out (tap_interface tap)))") auto

declare tap_send_pending.simps [simp del]

definition tap_read ::
  "resolver \<Rightarrow> byte list \<Rightarrow> tap_adapter \<Rightarrow> exn + tcp_segment option \<times> tap_adapter" where
  "tap_read R bytes tap =
     (let (state, frame) = ef_parse (buffer_of_string bytes) ef_new in
      if state \<noteq> NoError then Inr (None, tap)
      else
        andthen (ni_recv_frame frame (tap_interface tap)) (\<lambda>(ip_dgram, ni).
          let tap = tap_send_pending (tap\<lparr>tap_interface := ni\<rparr>) in
          case ip_dgram of
            None \<Rightarrow> Inr (None, tap)
          | Some d \<Rightarrow>
              andthen (ipa_unwrap R d (tap_base tap)) (\<lambda>(seg, base). Inr (seg, tap\<lparr>tap_base := base\<rparr>))))"

definition tap_tick :: "u64 \<Rightarrow> tap_adapter \<Rightarrow> exn + tap_adapter" where
  "tap_tick ms tap =
     andthen (ni_tick ms (tap_interface tap)) (\<lambda>ni. Inr (tap_send_pending (tap\<lparr>tap_interface := ni\<rparr>)))"

definition tap_write :: "resolver \<Rightarrow> tcp_segment \<Rightarrow> tap_adapter \<Rightarrow> exn + tcp_segment \<times> tap_adapter" where
  "tap_write R seg tap =
     andthen (ipa_wrap R seg (tap_base tap)) (\<lambda>(d, seg).
     andthen (ni_send_datagram d (tap_next_hop tap) (tap_interface tap)) (\<lambda>ni.
       Inr (seg, tap_send_pending (tap\<lparr>tap_interface := ni\<rparr>))))"

lemma tap_send_pending_eq:
  "tap_send_pending tap = tap\<lparr>tap_out := tap_out tap @ map ef_wire (ni_frames_out (tap_interface tap)),
     tap_interface := (tap_interface tap)\<lparr>ni_frames_out := []\<rparr>\<rparr>"
proof (induction tap rule: tap_send_pending.induct)
  case (1 tap)
  show ?case
  proof (cases "ni_frames_out (tap_interface tap)")
    case Nil
    then have "tap = tap\<lparr>tap_interface := (tap_interface tap)\<lparr>ni_frames_out := []\<rparr>\<rparr>" by simp
    then show ?thesis using Nil by (subst tap_send_pending.simps) simp
  next
    case (Cons fr frs)
    then show ?thesis using 1 by (subst tap_send_pending.simps) simp
  qed
qed

section \<open>LossyFdAdapter\<close>

text \<open>
  The random generator is a parameter: a function from its state to a value and the next state. The
  generator is asked only when the loss rate is not 0.
\<close>

record ('g, 'a) lossy =
  lo_rand :: 'g
  lo_adapter :: 'a

definition lo_should_drop ::
  "('g \<Rightarrow> u32 \<times> 'g) \<Rightarrow> fd_adapter_config \<Rightarrow> bool \<Rightarrow> 'g \<Rightarrow> bool \<times> 'g" where
  "lo_should_drop rand cfg uplink g =
     (let loss = (if uplink then fc_loss_rate_up cfg else fc_loss_rate_dn cfg) in
      if loss = 0 then (False, g)
      else let (r, g) = rand g in ((ucast r :: u16) < loss, g))"

definition lo_read ::
  "('g \<Rightarrow> u32 \<times> 'g) \<Rightarrow> ('a \<Rightarrow> fd_adapter_config) \<Rightarrow> ('a \<Rightarrow> exn + tcp_segment option \<times> 'a) \<Rightarrow>
   ('g, 'a) lossy \<Rightarrow> exn + tcp_segment option \<times> ('g, 'a) lossy" where
  "lo_read rand config read lo =
     andthen (read (lo_adapter lo)) (\<lambda>(ret, adapter).
       let (drop, g) = lo_should_drop rand (config adapter) False (lo_rand lo) in
       Inr (if drop then None else ret, \<lparr>lo_rand = g, lo_adapter = adapter\<rparr>))"

definition lo_write ::
  "('g \<Rightarrow> u32 \<times> 'g) \<Rightarrow> ('a \<Rightarrow> fd_adapter_config) \<Rightarrow> ('a \<Rightarrow> exn + tcp_segment \<times> 'a) \<Rightarrow>
   tcp_segment \<Rightarrow> ('g, 'a) lossy \<Rightarrow> exn + tcp_segment \<times> ('g, 'a) lossy" where
  "lo_write rand config write seg lo =
     (let (drop, g) = lo_should_drop rand (config (lo_adapter lo)) True (lo_rand lo) in
      if drop then Inr (seg, lo\<lparr>lo_rand := g\<rparr>)
      else andthen (write (lo_adapter lo)) (\<lambda>(seg, adapter). Inr (seg, \<lparr>lo_rand = g, lo_adapter = adapter\<rparr>)))"

text \<open>A segment is lost when the low 16 bits of the next random number are below the rate of its direction.\<close>

lemma lo_should_drop_eq:
  "lo_should_drop rand cfg uplink g =
    (let loss = unat (if uplink then fc_loss_rate_up cfg else fc_loss_rate_dn cfg) in
     if loss = 0 then (False, g) else (unat (fst (rand g)) mod 2 ^ 16 < loss, snd (rand g)))"
  by (simp add: lo_should_drop_def Let_def case_prod_beta word_less_nat_alt unsigned_ucast_eq take_bit_eq_mod
      unat_eq_0)

lemma lo_lossless:
  assumes "fc_loss_rate_up (config (lo_adapter lo)) = 0"
  shows "lo_write rand config write seg lo =
    andthen (write (lo_adapter lo)) (\<lambda>(seg, adapter). Inr (seg, lo\<lparr>lo_adapter := adapter\<rparr>))"
  using assms by (cases lo) (simp add: lo_write_def lo_should_drop_def)

lemma over_link_parse: "ef_parse (buffer_of_string (ef_wire fr)) ef_new = (NoError, over_link fr)"
  using ef_parse_wire [of fr ef_new] by (auto simp: over_link_def)

lemma tap_read_frame:
  assumes "ni_recv_frame (over_link fr) (tap_interface tap) = Inr (None, ni)"
  shows "tap_read R (ef_wire fr) tap = Inr (None, tap_send_pending (tap\<lparr>tap_interface := ni\<rparr>))"
  using assms by (simp add: tap_read_def over_link_parse)

definition tap_at :: "fd_adapter \<Rightarrow> ethernet_address \<Rightarrow> u32 \<Rightarrow> u32 \<Rightarrow> byte list list \<Rightarrow> tap_adapter" where
  "tap_at base mac own_ip next_hop_ip out =
     \<lparr>tap_base = base, tap_interface = ni_fresh mac (inet_address own_ip 0),
       tap_next_hop = inet_address next_hop_ip 0, tap_out = out\<rparr>"

definition example_segment :: tcp_segment where
  "example_segment = seg_new\<lparr>seg_payload := buffer_of_string [1, 2, 3]\<rparr>"

lemma example_segment_ok: "th_ok (seg_header example_segment)" "length (buffer_str (seg_payload example_segment)) \<le> 65455"
  "buffer_str (seg_payload example_segment) = [1, 2, 3]"
  by (simp_all add: example_segment_def seg_new_def th_new_def th_LENGTH_def th_ok_def)

section \<open>Properties\<close>

text \<open>(a segment from TAP device to TAP device) Two adapters over Ethernet share a link and have resolved
  nothing. Writing a TCP segment puts an ARP request on the device; read by the other adapter it is
  answered; the answer, read back, releases the frame with the segment; and reading that gives the
  segment at the other end, with the ports of the connection, a checksum that verifies and the same
  payload. Each of the three steps writes exactly one frame and the other reads deliver nothing.\<close>

theorem tap_delivers_first_segment:
  assumes "numeric_service R" and "fa_between source sport destination dport listen base_a"
    and "fa_between destination dport source sport False base_b"
    and "th_ok (seg_header seg)" and "length (buffer_str (seg_payload seg)) \<le> 65455"
  shows "\<exists>A1 A2 B1 B2 f1 f2 f3 seg' b init.
    tap_write R seg (tap_at base_a mac_a source destination oa) = Inr (seg', A1) \<and> tap_out A1 = oa @ [f1] \<and>
    tap_read R f1 (tap_at base_b mac_b destination source ob) = Inr (None, B1) \<and> tap_out B1 = ob @ [f2] \<and>
    tap_read R f2 A1 = Inr (None, A2) \<and> tap_out A2 = oa @ [f1, f3] \<and>
    tap_read R f3 B1 = Inr (Some \<lparr>seg_header = th_with_cksum init (buffer_str (seg_payload seg))
      ((seg_header seg)\<lparr>th_sport := sport, th_dport := dport\<rparr>), seg_payload = b\<rparr>, B2) \<and>
    buffer_str b = buffer_str (seg_payload seg) \<and> tap_out B2 = tap_out B1"
proof -
  obtain d seg' init where w: "ipa_wrap R seg base_a = Inr (d, seg')" "dg_ok d"
    and unwrap: "\<And>pb. buffer_str pb = bl_concatenate (dg_payload d) \<Longrightarrow>
      \<exists>b. ipa_unwrap R \<lparr>dg_header = ip_with_cksum (dg_header d), dg_payload = [pb]\<rparr> base_b =
        Inr (Some \<lparr>seg_header = th_with_cksum init (buffer_str (seg_payload seg))
             ((seg_header seg)\<lparr>th_sport := sport, th_dport := dport\<rparr>), seg_payload = b\<rparr>, base_b) \<and>
        buffer_str b = buffer_str (seg_payload seg)"
    using ipa_wrap_unwrap [OF assms] by metis
  obtain request reply frame A1 A2 B1 pb where ex:
    "ni_send_datagram d (inet_address destination 0) (ni_fresh mac_a (inet_address source 0)) = Inr A1"
    "ni_frames_out A1 = [request]"
    "ni_recv_frame (over_link request) (ni_fresh mac_b (inet_address destination 0)) = Inr (None, B1)"
    "ni_frames_out B1 = [reply]"
    "ni_recv_frame (over_link reply) (A1\<lparr>ni_frames_out := []\<rparr>) = Inr (None, A2)" "ni_frames_out A2 = [frame]"
    "ni_recv_frame (over_link frame) (B1\<lparr>ni_frames_out := []\<rparr>) =
      Inr (Some \<lparr>dg_header = ip_with_cksum (dg_header d), dg_payload = [pb]\<rparr>, B1\<lparr>ni_frames_out := []\<rparr>)"
    "buffer_str pb = bl_concatenate (dg_payload d)"
    using parsed_link.arp_exchange [OF w(2), of destination 0 mac_a source mac_b] by blast
  obtain b where b: "ipa_unwrap R \<lparr>dg_header = ip_with_cksum (dg_header d), dg_payload = [pb]\<rparr> base_b =
      Inr (Some \<lparr>seg_header = th_with_cksum init (buffer_str (seg_payload seg))
           ((seg_header seg)\<lparr>th_sport := sport, th_dport := dport\<rparr>), seg_payload = b\<rparr>, base_b)"
    "buffer_str b = buffer_str (seg_payload seg)"
    using unwrap [OF ex(8)] by blast
  let ?A0 = "tap_at base_a mac_a source destination oa" and ?B0 = "tap_at base_b mac_b destination source ob"
  let ?A1 = "?A0\<lparr>tap_interface := A1\<lparr>ni_frames_out := []\<rparr>, tap_out := oa @ [ef_wire request]\<rparr>"
  let ?A2 = "?A0\<lparr>tap_interface := A2\<lparr>ni_frames_out := []\<rparr>, tap_out := oa @ [ef_wire request, ef_wire frame]\<rparr>"
  let ?B1 = "?B0\<lparr>tap_interface := B1\<lparr>ni_frames_out := []\<rparr>, tap_out := ob @ [ef_wire reply]\<rparr>"
  have 1: "tap_write R seg ?A0 = Inr (seg', ?A1)"
    using w(1) ex(1,2) by (simp add: tap_write_def tap_at_def tap_send_pending_eq)
  have 2: "tap_read R (ef_wire request) ?B0 = Inr (None, ?B1)"
    using tap_read_frame [of request ?B0 B1 R] ex(3,4) by (simp add: tap_at_def tap_send_pending_eq)
  have 3: "tap_read R (ef_wire reply) ?A1 = Inr (None, ?A2)"
    using tap_read_frame [of reply ?A1 A2 R] ex(5,6) by (simp add: tap_at_def tap_send_pending_eq)
  have 4: "tap_read R (ef_wire frame) ?B1 = Inr (Some \<lparr>seg_header = th_with_cksum init (buffer_str (seg_payload seg))
      ((seg_header seg)\<lparr>th_sport := sport, th_dport := dport\<rparr>), seg_payload = b\<rparr>, ?B1)"
    using ex(7) b(1) by (simp add: tap_read_def over_link_parse tap_send_pending_eq tap_at_def)
  have out: "tap_out ?A1 = oa @ [ef_wire request]" "tap_out ?A2 = oa @ [ef_wire request, ef_wire frame]"
    "tap_out ?B1 = ob @ [ef_wire reply]" by simp_all
  show ?thesis using 1 2 3 4 out b(2) by blast
qed

theorem tap_delivers_first_segment_witness:
  "\<exists>A1 f1 seg'. tap_write numeric_resolver example_segment
     (tap_at (example_adapter 0x0A000001 1000 0x0A000002 80 True) (example_mac 1) 0x0A000001 0x0A000002 []) = Inr (seg', A1) \<and>
   tap_out A1 = [f1]"
  using tap_delivers_first_segment [OF numeric.numeric_service_axioms
      example_adapter_between [of "0x0A000001" 1000 "0x0A000002" 80 True]
      example_adapter_between example_segment_ok(1,2), of "example_mac 1" "[]" "example_mac 2" "[]"]
  by auto

end
