(* ===== verification/Sponge_Socket.thy ===== *)
theory Sponge_Socket
  imports Event_Loop Kernel_Log Adapters TCP_Connection
begin

text \<open>
  \<open>libsponge/tcp_helpers/tcp_sponge_socket.{hh,cc}\<close>: the wrapper that runs a \<open>TCPConnection\<close> and a
  datagram adapter with an event loop of four rules, between a pair of connected stream sockets. What the
  TCP thread does is modelled; the owner's thread is part of the environment, which acts when \<open>poll\<close>
  does (it writes to its end of the socket pair, or sets \<open>_abort\<close>). The debugging output is left out.
\<close>

section \<open>The adapter and its device\<close>

text \<open>The operations that the socket calls on its adapter.\<close>

record ('a, 'k) adapter_ops =
  ao_fd :: "'a \<Rightarrow> fd_wrapper"
  ao_read :: "'a \<Rightarrow> 'k \<Rightarrow> exn + tcp_segment option \<times> 'a \<times> 'k"
  ao_write :: "tcp_segment \<Rightarrow> 'a \<Rightarrow> 'k \<Rightarrow> exn + 'a \<times> 'k"
  ao_tick :: "u64 \<Rightarrow> 'a \<Rightarrow> 'k \<Rightarrow> exn + 'a \<times> 'k"
  ao_set_config :: "fd_adapter_config \<Rightarrow> 'a \<Rightarrow> 'a"
  ao_set_listening :: "bool \<Rightarrow> 'a \<Rightarrow> 'a"

record udp_adapter =
  ud_base :: fd_adapter
  ud_sock :: fd_wrapper

definition udp_adapter_read ::
  "'k kernel \<Rightarrow> udp_adapter \<Rightarrow> 'k \<Rightarrow> exn + tcp_segment option \<times> udp_adapter \<times> 'k" where
  "udp_adapter_read K a k =
     andthen (us_recv K 65536 (ud_sock a) k) (\<lambda>(datagram, sock, k).
       let (seg, base) = udp_read datagram (ud_base a) in Inr (seg, \<lparr>ud_base = base, ud_sock = sock\<rparr>, k))"

definition udp_adapter_write ::
  "resolver \<Rightarrow> 'k kernel \<Rightarrow> tcp_segment \<Rightarrow> udp_adapter \<Rightarrow> 'k \<Rightarrow> exn + udp_adapter \<times> 'k" where
  "udp_adapter_write R K seg a k =
     andthen (udp_write R seg (ud_base a)) (\<lambda>(seg, destination, bytes).
     andthen (us_sendto K destination (bvl_of_buffer_list bytes) (ud_sock a) k) (\<lambda>(sock, k).
       Inr (a\<lparr>ud_sock := sock\<rparr>, k)))"

definition udp_ops :: "resolver \<Rightarrow> 'k kernel \<Rightarrow> (udp_adapter, 'k) adapter_ops" where
  "udp_ops R K =
     \<lparr>ao_fd = ud_sock, ao_read = udp_adapter_read K, ao_write = udp_adapter_write R K,
      ao_tick = (\<lambda>ms a k. Inr (a\<lparr>ud_base := fa_tick ms (ud_base a)\<rparr>, k)),
      ao_set_config = (\<lambda>cfg a. a\<lparr>ud_base := (ud_base a)\<lparr>fa_cfg := cfg\<rparr>\<rparr>),
      ao_set_listening = (\<lambda>l a. a\<lparr>ud_base := fa_set_listening l (ud_base a)\<rparr>)\<rparr>"

record tun_adapter =
  tn_base :: fd_adapter
  tn_tun :: fd_wrapper

definition tun_adapter_read ::
  "resolver \<Rightarrow> 'k kernel \<Rightarrow> tun_adapter \<Rightarrow> 'k \<Rightarrow> exn + tcp_segment option \<times> tun_adapter \<times> 'k" where
  "tun_adapter_read R K a k =
     andthen (fd_read K (2 ^ 64 - 1) (tn_tun a) k) (\<lambda>(bytes, tun, k).
     andthen (tun_read R bytes (tn_base a)) (\<lambda>(seg, base). Inr (seg, \<lparr>tn_base = base, tn_tun = tun\<rparr>, k)))"

definition tun_adapter_write ::
  "resolver \<Rightarrow> 'k kernel \<Rightarrow> tcp_segment \<Rightarrow> tun_adapter \<Rightarrow> 'k \<Rightarrow> exn + tun_adapter \<times> 'k" where
  "tun_adapter_write R K seg a k =
     andthen (tun_write R seg (tn_base a)) (\<lambda>(seg, bytes).
     andthen (fd_write K (bvl_of_buffer_list bytes) True (tn_tun a) k) (\<lambda>(n, tun, k).
       Inr (a\<lparr>tn_tun := tun\<rparr>, k)))"

definition tun_ops :: "resolver \<Rightarrow> 'k kernel \<Rightarrow> (tun_adapter, 'k) adapter_ops" where
  "tun_ops R K =
     \<lparr>ao_fd = tn_tun, ao_read = tun_adapter_read R K, ao_write = tun_adapter_write R K,
      ao_tick = (\<lambda>ms a k. Inr (a\<lparr>tn_base := fa_tick ms (tn_base a)\<rparr>, k)),
      ao_set_config = (\<lambda>cfg a. a\<lparr>tn_base := (tn_base a)\<lparr>fa_cfg := cfg\<rparr>\<rparr>),
      ao_set_listening = (\<lambda>l a. a\<lparr>tn_base := fa_set_listening l (tn_base a)\<rparr>)\<rparr>"

section \<open>TCPSpongeSocket\<close>

record ('a, 'k) sponge =
  sp_kernel :: 'k
  sp_owner :: fd_wrapper
  sp_thread_data :: fd_wrapper
  sp_adapter :: 'a
  sp_tcp :: "tcp_connection option"
  sp_abort :: bool
  sp_inbound_shutdown :: bool
  sp_outbound_shutdown :: bool
  sp_fully_acked :: bool

definition TCP_TICK_MS :: int where "TCP_TICK_MS = 10"

text \<open>
  \<open>_tcp-> ...\<close>, undefined without a connection, and a test of the connection. The rules only run between
  \<open>_tcp.emplace\<close> and \<open>_tcp.reset\<close>.
\<close>

definition with_tcp :: "('a, 'k) sponge \<Rightarrow> (tcp_connection \<Rightarrow> exn + 'b) \<Rightarrow> exn + 'b" where
  "with_tcp w f = (case sp_tcp w of None \<Rightarrow> Inl (Undefined_Behaviour ''_tcp->'') | Some tcp \<Rightarrow> f tcp)"

definition tcp_test :: "('a, 'k) sponge \<Rightarrow> (tcp_connection \<Rightarrow> bool) \<Rightarrow> bool" where
  "tcp_test w P \<longleftrightarrow> (case sp_tcp w of None \<Rightarrow> False | Some tcp \<Rightarrow> P tcp)"

text \<open>Rule 1: read from filtered packet stream and dump into TCPConnection.\<close>

definition sp_datagram_in :: "('a, 'k) adapter_ops \<Rightarrow> ('a, 'k) sponge \<Rightarrow> exn + ('a, 'k) sponge" where
  "sp_datagram_in A w =
     with_tcp w (\<lambda>tcp.
     andthen (ao_read A (sp_adapter w) (sp_kernel w)) (\<lambda>(seg, adapter, k).
       let tcp = (case seg of None \<Rightarrow> tcp | Some s \<Rightarrow> cn_segment_received s tcp);
           acked = (fd_eof (sp_thread_data w) \<and> cn_bytes_in_flight tcp = 0 \<and> \<not> sp_fully_acked w) in
       Inr (w\<lparr>sp_kernel := k, sp_adapter := adapter, sp_tcp := Some tcp,
              sp_fully_acked := sp_fully_acked w \<or> acked\<rparr>)))"

definition sp_wants_datagram :: "('a, 'k) sponge \<Rightarrow> bool" where
  "sp_wants_datagram w \<longleftrightarrow> tcp_test w cn_active"

text \<open>Rule 2: read from pipe into outbound buffer.\<close>

definition sp_end_outbound :: "('a, 'k) sponge \<Rightarrow> exn + ('a, 'k) sponge" where
  "sp_end_outbound w =
     with_tcp w (\<lambda>tcp. Inr (w\<lparr>sp_tcp := Some (cn_end_input_stream tcp), sp_outbound_shutdown := True\<rparr>))"

definition sp_data_in :: "'k kernel \<Rightarrow> ('a, 'k) sponge \<Rightarrow> exn + ('a, 'k) sponge" where
  "sp_data_in K w =
     with_tcp w (\<lambda>tcp.
     andthen (fd_read K (cn_remaining_outbound_capacity tcp) (sp_thread_data w) (sp_kernel w)) (\<lambda>(str, fd, k).
       let (amount_written, tcp) = cn_write str tcp;
           w = w\<lparr>sp_kernel := k, sp_thread_data := fd, sp_tcp := Some tcp\<rparr> in
       if amount_written \<noteq> length str
       then Inl (Runtime_Error ''TCPConnection::write() accepted less than advertised length'')
       else if fd_eof fd then sp_end_outbound w else Inr w))"

definition sp_wants_data :: "('a, 'k) sponge \<Rightarrow> bool" where
  "sp_wants_data w \<longleftrightarrow>
     tcp_test w (\<lambda>tcp. cn_active tcp \<and> \<not> sp_outbound_shutdown w \<and> cn_remaining_outbound_capacity tcp > 0)"

text \<open>Rule 3: read from inbound buffer into pipe.\<close>

definition cn_pop_inbound :: "nat \<Rightarrow> tcp_connection \<Rightarrow> exn + tcp_connection" where
  "cn_pop_inbound n tcp =
     andthen (bs_pop_output n (cn_inbound_stream tcp)) (\<lambda>inbound.
       Inr (tcp\<lparr>cn_receiver := rx_with_output inbound (cn_receiver tcp)\<rparr>))"

definition sp_data_out :: "'k kernel \<Rightarrow> ('a, 'k) sponge \<Rightarrow> exn + ('a, 'k) sponge" where
  "sp_data_out K w =
     with_tcp w (\<lambda>tcp.
       let amount_to_write = min 65536 (bs_buffer_size (cn_inbound_stream tcp));
           buffer = bs_peek_output amount_to_write (cn_inbound_stream tcp) in
       andthen (fd_write K (bvl_of_string buffer) False (sp_thread_data w) (sp_kernel w)) (\<lambda>(bytes_written, fd, k).
       andthen (cn_pop_inbound bytes_written tcp) (\<lambda>tcp.
         let w = w\<lparr>sp_kernel := k, sp_thread_data := fd, sp_tcp := Some tcp\<rparr> in
         if bs_eof (cn_inbound_stream tcp) \<or> bs_error (cn_inbound_stream tcp) then
           andthen (so_shutdown K SHUT_WR fd k) (\<lambda>(fd, k).
             Inr (w\<lparr>sp_kernel := k, sp_thread_data := fd, sp_inbound_shutdown := True\<rparr>))
         else Inr w)))"

definition sp_wants_data_out :: "('a, 'k) sponge \<Rightarrow> bool" where
  "sp_wants_data_out w \<longleftrightarrow>
     tcp_test w (\<lambda>tcp. \<not> bs_buffer_empty (cn_inbound_stream tcp) \<or>
       ((bs_eof (cn_inbound_stream tcp) \<or> bs_error (cn_inbound_stream tcp)) \<and> \<not> sp_inbound_shutdown w))"

text \<open>Rule 4: read outbound segments from TCPConnection and send as datagrams.\<close>

fun sp_send_all ::
  "('a, 'k) adapter_ops \<Rightarrow> tcp_segment list \<Rightarrow> 'a \<Rightarrow> 'k \<Rightarrow> exn + 'a \<times> 'k" where
  "sp_send_all A [] a k = Inr (a, k)"
| "sp_send_all A (seg # segs) a k = andthen (ao_write A seg a k) (\<lambda>(a, k). sp_send_all A segs a k)"

definition sp_datagram_out :: "('a, 'k) adapter_ops \<Rightarrow> ('a, 'k) sponge \<Rightarrow> exn + ('a, 'k) sponge" where
  "sp_datagram_out A w =
     with_tcp w (\<lambda>tcp.
     andthen (sp_send_all A (cn_segments_out tcp) (sp_adapter w) (sp_kernel w)) (\<lambda>(adapter, k).
       Inr (w\<lparr>sp_kernel := k, sp_adapter := adapter, sp_tcp := Some (tcp\<lparr>cn_segments_out := []\<rparr>)\<rparr>)))"

definition sp_wants_datagram_out :: "('a, 'k) sponge \<Rightarrow> bool" where
  "sp_wants_datagram_out w \<longleftrightarrow> tcp_test w (\<lambda>tcp. cn_segments_out tcp \<noteq> [])"

text \<open>\<open>_initialize_TCP\<close>: \<open>random\<close> is the initial sequence number drawn when the configuration fixes none.\<close>

definition sp_rules :: "'k kernel \<Rightarrow> ('a, 'k) adapter_ops \<Rightarrow> ('a, 'k) sponge el_rule list" where
  "sp_rules K A =
     el_add_rule (\<lambda>w. ao_fd A (sp_adapter w)) Dir_Out (sp_datagram_out A) sp_wants_datagram_out Inr
     (el_add_rule sp_thread_data Dir_Out (sp_data_out K) sp_wants_data_out Inr
     (el_add_rule sp_thread_data Dir_In (sp_data_in K) sp_wants_data sp_end_outbound
     (el_add_rule (\<lambda>w. ao_fd A (sp_adapter w)) Dir_In (sp_datagram_in A) sp_wants_datagram Inr [])))"

definition sp_initialize_TCP :: "tcp_config \<Rightarrow> u32 \<Rightarrow> ('a, 'k) sponge \<Rightarrow> ('a, 'k) sponge" where
  "sp_initialize_TCP config random w = w\<lparr>sp_tcp := Some (cn_new config random)\<rparr>"

section \<open>The loop of the TCP thread\<close>

text \<open>
  \<open>clock\<close> is \<open>timestamp_ms\<close>. The loop runs while the condition holds, at most \<open>fuel\<close> rounds; it gives
  the rules that are left and the state. \<open>_tcp.value()\<close> throws without a connection.
\<close>

type_synonym 'k clock = "'k \<Rightarrow> u64 \<times> 'k"

definition sp_advance ::
  "('a, 'k) adapter_ops \<Rightarrow> 'k clock \<Rightarrow> u64 \<Rightarrow> ('a, 'k) sponge \<Rightarrow> exn + u64 \<times> ('a, 'k) sponge" where
  "sp_advance A clock base_time w =
     (case sp_tcp w of
        None \<Rightarrow> Inl (Runtime_Error ''bad optional access'')
      | Some tcp \<Rightarrow>
          if \<not> cn_active tcp then Inr (base_time, w)
          else
            let (next_time, k) = clock (sp_kernel w); tcp = cn_tick (next_time - base_time) tcp in
            andthen (ao_tick A (next_time - base_time) (sp_adapter w) k) (\<lambda>(adapter, k).
              Inr (next_time, w\<lparr>sp_kernel := k, sp_adapter := adapter, sp_tcp := Some tcp\<rparr>)))"

fun sp_rounds ::
  "nat \<Rightarrow> ('a, 'k) sponge poll \<Rightarrow> ('a, 'k) adapter_ops \<Rightarrow> 'k clock \<Rightarrow> (('a, 'k) sponge \<Rightarrow> bool) \<Rightarrow> u64 \<Rightarrow>
     ('a, 'k) sponge el_rule list \<Rightarrow> ('a, 'k) sponge \<Rightarrow>
     (exn + ('a, 'k) sponge el_rule list \<times> ('a, 'k) sponge) option" where
  "sp_rounds 0 poll A clock condition base_time rules w = None"
| "sp_rounds (Suc fuel) poll A clock condition base_time rules w =
     (if \<not> condition w then Some (Inr (rules, w))
      else
        case el_wait_next_event poll TCP_TICK_MS rules w of
          Inl e \<Rightarrow> Some (Inl e)
        | Inr (ret, rules, w) \<Rightarrow>
            if ret = El_Exit \<or> sp_abort w then Some (Inr (rules, w))
            else
              case sp_advance A clock base_time w of
                Inl e \<Rightarrow> Some (Inl e)
              | Inr (base_time, w) \<Rightarrow> sp_rounds fuel poll A clock condition base_time rules w)"

definition sp_tcp_loop ::
  "nat \<Rightarrow> ('a, 'k) sponge poll \<Rightarrow> ('a, 'k) adapter_ops \<Rightarrow> 'k clock \<Rightarrow> (('a, 'k) sponge \<Rightarrow> bool) \<Rightarrow>
     ('a, 'k) sponge el_rule list \<Rightarrow> ('a, 'k) sponge \<Rightarrow>
     (exn + ('a, 'k) sponge el_rule list \<times> ('a, 'k) sponge) option" where
  "sp_tcp_loop fuel poll A clock condition rules w =
     (let (base_time, k) = clock (sp_kernel w) in
      sp_rounds fuel poll A clock condition base_time rules (w\<lparr>sp_kernel := k\<rparr>))"

section \<open>Construction, connecting, listening\<close>

definition so_local_stream :: "'k kernel \<Rightarrow> fd_wrapper \<Rightarrow> 'k \<Rightarrow> exn + fd_wrapper \<times> 'k" where
  "so_local_stream K fd k = so_of_fd K fd DOMAIN_UNIX SOCK_STREAM k"

definition socket_pair_helper :: "'k kernel \<Rightarrow> int \<Rightarrow> 'k \<Rightarrow> exn + fd_wrapper \<times> fd_wrapper \<times> 'k" where
  "socket_pair_helper K type k =
     andthen (sys K ''socketpair'' (Sys_Socketpair DOMAIN_UNIX type) k) (\<lambda>(reply, k).
     andthen (fd_new (sr_value reply)) (\<lambda>first.
     andthen (fd_new (sr_second reply)) (\<lambda>second. Inr (first, second, k))))"

definition sp_of_pair ::
  "'k kernel \<Rightarrow> fd_wrapper \<Rightarrow> fd_wrapper \<Rightarrow> 'a \<Rightarrow> 'k \<Rightarrow> exn + ('a, 'k) sponge" where
  "sp_of_pair K first second adapter k =
     andthen (so_local_stream K first k) (\<lambda>(owner, k).
     andthen (so_local_stream K second k) (\<lambda>(thread_data, k).
     andthen (fd_set_blocking K False thread_data k) (\<lambda>k.
       Inr \<lparr>sp_kernel = k, sp_owner = owner, sp_thread_data = thread_data, sp_adapter = adapter, sp_tcp = None,
            sp_abort = False, sp_inbound_shutdown = False, sp_outbound_shutdown = False,
            sp_fully_acked = False\<rparr>)))"

definition sp_new :: "'k kernel \<Rightarrow> 'a \<Rightarrow> 'k \<Rightarrow> exn + ('a, 'k) sponge" where
  "sp_new K adapter k =
     andthen (socket_pair_helper K SOCK_STREAM k) (\<lambda>(first, second, k). sp_of_pair K first second adapter k)"

definition sp_in_state :: "official_state list \<Rightarrow> ('a, 'k) sponge \<Rightarrow> bool" where
  "sp_in_state states w \<longleftrightarrow> tcp_test w (\<lambda>tcp. \<exists>s\<in>set states. ts_eq (cn_state tcp) (ts_official s))"

definition sp_connect ::
  "nat \<Rightarrow> ('a, 'k) sponge poll \<Rightarrow> 'k kernel \<Rightarrow> ('a, 'k) adapter_ops \<Rightarrow> 'k clock \<Rightarrow> tcp_config \<Rightarrow> u32 \<Rightarrow>
     fd_adapter_config \<Rightarrow> ('a, 'k) sponge \<Rightarrow> (exn + ('a, 'k) sponge el_rule list \<times> ('a, 'k) sponge) option" where
  "sp_connect fuel poll K A clock c_tcp random c_ad w =
     (if sp_tcp w \<noteq> None then Some (Inl (Runtime_Error ''connect() with TCPConnection already initialized''))
      else
        let w = sp_initialize_TCP c_tcp random w;
            w = w\<lparr>sp_adapter := ao_set_config A c_ad (sp_adapter w)\<rparr>;
            w = w\<lparr>sp_tcp := map_option cn_connect (sp_tcp w)\<rparr> in
        if \<not> sp_in_state [SYN_SENT] w
        then Some (with_tcp w (\<lambda>tcp. Inl (Runtime_Error
               (''After TCPConnection::connect(), state was '' @ ts_name (cn_state tcp) @ '' but expected '' @
                ts_name (ts_official SYN_SENT)))))
        else sp_tcp_loop fuel poll A clock (sp_in_state [SYN_SENT]) (sp_rules K A) w)"

definition sp_listen_and_accept ::
  "nat \<Rightarrow> ('a, 'k) sponge poll \<Rightarrow> 'k kernel \<Rightarrow> ('a, 'k) adapter_ops \<Rightarrow> 'k clock \<Rightarrow> tcp_config \<Rightarrow> u32 \<Rightarrow>
     fd_adapter_config \<Rightarrow> ('a, 'k) sponge \<Rightarrow> (exn + ('a, 'k) sponge el_rule list \<times> ('a, 'k) sponge) option" where
  "sp_listen_and_accept fuel poll K A clock c_tcp random c_ad w =
     (if sp_tcp w \<noteq> None
      then Some (Inl (Runtime_Error ''listen_and_accept() with TCPConnection already initialized''))
      else
        let w = sp_initialize_TCP c_tcp random w;
            w = w\<lparr>sp_adapter := ao_set_listening A True (ao_set_config A c_ad (sp_adapter w))\<rparr> in
        sp_tcp_loop fuel poll A clock (sp_in_state [LISTEN, SYN_RCVD, SYN_SENT]) (sp_rules K A) w)"

text \<open>
  \<open>_tcp_main\<close>, on the rules that connecting left. \<open>_tcp.reset()\<close> destroys the connection: what its
  destructor puts on the queue of segments goes with it.
\<close>

definition sp_tcp_main ::
  "nat \<Rightarrow> ('a, 'k) sponge poll \<Rightarrow> 'k kernel \<Rightarrow> ('a, 'k) adapter_ops \<Rightarrow> 'k clock \<Rightarrow>
     ('a, 'k) sponge el_rule list \<Rightarrow> ('a, 'k) sponge \<Rightarrow> (exn + ('a, 'k) sponge) option" where
  "sp_tcp_main fuel poll K A clock rules w =
     (if sp_tcp w = None then Some (Inl (Runtime_Error ''no TCP''))
      else
        case sp_tcp_loop fuel poll A clock (\<lambda>_. True) rules w of
          None \<Rightarrow> None
        | Some (Inl e) \<Rightarrow> Some (Inl e)
        | Some (Inr (rules, w)) \<Rightarrow>
            Some (andthen (so_shutdown K SHUT_RDWR (sp_owner w) (sp_kernel w)) (\<lambda>(owner, k).
              Inr (w\<lparr>sp_kernel := k, sp_owner := owner, sp_tcp := None\<rparr>))))"

text \<open>The configurations of \<open>CS144TCPSocket\<close> and \<open>FullStackSocket\<close>; \<open>random\<close> is the source port drawn.\<close>

definition full_stack_config ::
  "resolver \<Rightarrow> string \<Rightarrow> u16 \<Rightarrow> address \<Rightarrow> exn + tcp_config \<times> fd_adapter_config" where
  "full_stack_config R source_ip random address =
     andthen (fc_new R) (\<lambda>multiplexer_config.
     andthen (ad_host R source_ip (decimal (unat random))) (\<lambda>source.
       Inr (tcp_config_default\<lparr>rt_timeout := 100\<rparr>,
            multiplexer_config\<lparr>fc_source := source, fc_destination := address\<rparr>)))"

definition cs144_config :: "resolver \<Rightarrow> u16 \<Rightarrow> address \<Rightarrow> exn + tcp_config \<times> fd_adapter_config" where
  "cs144_config R = full_stack_config R ''169.254.144.9''"

definition LOCAL_TAP_IP_ADDRESS :: string where "LOCAL_TAP_IP_ADDRESS = ''169.254.10.9''"
definition LOCAL_TAP_NEXT_HOP_ADDRESS :: string where "LOCAL_TAP_NEXT_HOP_ADDRESS = ''169.254.10.1''"

definition full_stack_socket_config :: "resolver \<Rightarrow> u16 \<Rightarrow> address \<Rightarrow> exn + tcp_config \<times> fd_adapter_config" where
  "full_stack_socket_config R = full_stack_config R LOCAL_TAP_IP_ADDRESS"

text \<open>A private address made of six random bytes.\<close>

fun random_private_ethernet_address :: "ethernet_address \<Rightarrow> ethernet_address" where
  "random_private_ethernet_address (EA b0 b1 b2 b3 b4 b5) = EA ((b0 OR 0x02) AND 0xfe) b1 b2 b3 b4 b5"

definition full_stack_adapter :: "resolver \<Rightarrow> ethernet_address \<Rightarrow> exn + tap_adapter" where
  "full_stack_adapter R random =
     andthen (ad_host R LOCAL_TAP_IP_ADDRESS ''0'') (\<lambda>ip_address.
     andthen (ad_host R LOCAL_TAP_NEXT_HOP_ADDRESS ''0'') (\<lambda>next_hop.
       tap_new R (random_private_ethernet_address random) ip_address next_hop))"

end
