(* ===== verification/Socket_Run.thy ===== *)
theory Socket_Run
  imports Sponge_Socket
begin

text \<open>
  What the TCP thread of a \<open>TCPSpongeSocket\<close> does to its connection: a sequence of the operations of
  \<open>TCPConnection\<close>, in which the bytes written are those the owner wrote into the socket pair, in order, and
  the bytes read are those the owner gets. \<open>quiet_adapter\<close> states what is asked of the adapter: it does
  not read or write the socket pair. The adapters over UDP and TUN meet it.
\<close>

section \<open>The bytes of a sequence of operations\<close>

fun op_puts :: "cn_op \<Rightarrow> byte list" where
  "op_puts (Cn_Write d) = d"
| "op_puts _ = []"

definition owner_puts :: "cn_op list \<Rightarrow> byte list" where
  "owner_puts ops = concat (map op_puts ops)"

fun op_gets :: "cn_op \<Rightarrow> tcp_connection \<Rightarrow> byte list" where
  "op_gets (Cn_Read n) cn = take n (bs_content (cn_inbound_stream cn))"
| "op_gets _ cn = []"

fun owner_gets :: "cn_op list \<Rightarrow> tcp_connection \<Rightarrow> byte list" where
  "owner_gets [] cn = []"
| "owner_gets (e # es) cn = op_gets e cn @ owner_gets es (cn_step e cn)"

lemma owner_puts_append [simp]: "owner_puts (xs @ ys) = owner_puts xs @ owner_puts ys"
  by (simp add: owner_puts_def)

lemma owner_gets_append [simp]: "owner_gets (xs @ ys) cn = owner_gets xs cn @ owner_gets ys (fold cn_step xs cn)"
  by (induction xs arbitrary: cn) simp_all

text \<open>The writes are accepted whole, as the socket demands.\<close>

fun op_fits :: "cn_op \<Rightarrow> tcp_connection \<Rightarrow> bool" where
  "op_fits (Cn_Write d) cn \<longleftrightarrow> length d \<le> cn_remaining_outbound_capacity cn"
| "op_fits _ cn \<longleftrightarrow> True"

lemma all_steps_append [simp]:
  "all_steps ok step (xs @ ys) s \<longleftrightarrow> all_steps ok step xs s \<and> all_steps ok step ys (fold step xs s)"
  by (induction xs arbitrary: s) auto

lemma takes_all: "fold cn_step (replicate n Cn_Take) cn = cn\<lparr>cn_segments_out := drop n (cn_segments_out cn)\<rparr>"
  by (induction n arbitrary: cn) (simp_all add: drop_Suc drop_tl)

lemma takes_bytes [simp]:
  "owner_puts (replicate n Cn_Take) = []" "owner_gets (replicate n Cn_Take) cn = []"
  "all_steps op_fits cn_step (replicate n Cn_Take) cn"
  by (induction n arbitrary: cn) (simp_all add: owner_puts_def)

lemma cn_pop_step:
  assumes "cn_pop_inbound n cn = Inr cn'"
  shows "cn' = cn_step (Cn_Read n) cn"
proof -
  have "snd (projr (bs_read n b)) = projr (bs_pop_output n b)" for b
  proof -
    obtain b' where "bs_pop_output n b = Inr b'" using bs_pop_output_total [of n b] by blast
    moreover have "bs_pop_output (min n (bl_size (bs_buffer b))) b = bs_pop_output n b"
      by (simp add: bs_pop_output_def)
    ultimately show ?thesis by (simp add: bs_read_def Let_def)
  qed
  then show ?thesis using assms by (auto simp: cn_pop_inbound_def cn_inbound_stream_def)
qed

section \<open>The adapter\<close>

definition same_traffic :: "int \<Rightarrow> 'k \<times> kernel_log \<Rightarrow> 'k \<times> kernel_log \<Rightarrow> bool" where
  "same_traffic n s s' \<longleftrightarrow>
     read_from n (snd s') = read_from n (snd s) \<and> written_to n (snd s') = written_to n (snd s)"

lemma same_traffic_trans: "same_traffic n a b \<Longrightarrow> same_traffic n b c \<Longrightarrow> same_traffic n a c"
  by (simp add: same_traffic_def)

lemma same_traffic_refl [simp]: "same_traffic n a a"
  by (simp add: same_traffic_def)

locale quiet_adapter =
  fixes A :: "('a, 'k \<times> kernel_log) adapter_ops" and n :: int and ok :: "'a \<Rightarrow> bool"
  assumes read_quiet: "ok a \<Longrightarrow> ao_read A a s = Inr (got, a', s') \<Longrightarrow> ok a' \<and> same_traffic n s s'"
    and write_quiet: "ok a \<Longrightarrow> ao_write A seg a s = Inr (a', s') \<Longrightarrow> ok a' \<and> same_traffic n s s'"
    and tick_quiet: "ok a \<Longrightarrow> ao_tick A ms a s = Inr (a', s') \<Longrightarrow> ok a' \<and> same_traffic n s s'"
begin

lemma send_all:
  "sp_send_all A segs a s = Inr (a', s') \<Longrightarrow> ok a \<Longrightarrow> ok a' \<and> same_traffic n s s'"
proof (induction segs arbitrary: a s)
  case (Cons seg segs)
  obtain a1 s1 where "ao_write A seg a s = Inr (a1, s1)" "sp_send_all A segs a1 s1 = Inr (a', s')"
    using Cons.prems(1) by auto
  then show ?case using write_quiet [OF Cons.prems(2)] Cons.IH [of a1 s1] same_traffic_trans by blast
qed simp

end

lemma us_recv_quiet:
  assumes "us_recv (logged K) mtu fd s = Inr (datagram, fd', s')"
  shows "same_traffic n s s'"
  using assms
  by (auto simp: us_recv_def Let_def same_traffic_def split: if_splits dest!: logged_sys)

lemma us_sendto_quiet:
  assumes "us_sendto (logged K) destination payload fd s = Inr (fd', s')"
  shows "same_traffic n s s'"
  using assms by (auto simp: us_sendto_def sendmsg_helper_def same_traffic_def split: if_splits dest!: logged_sys)

lemma fd_write_loop_quiet:
  assumes "fd_write_loop (logged K) views write_all written fd s = Inr (m, fd', s')" and "n \<noteq> fd_num fd"
  shows "fd_num fd' = fd_num fd \<and> same_traffic n s s'"
  using assms
proof (induction "bvl_size views" arbitrary: views written fd s rule: less_induct)
  case less
  from less.prems(1) obtain reply s1 rest where
    reply: "sys (logged K) ''writev'' (Sys_Writev (fd_num fd) views) s = Inr (reply, s1)"
    and ok: "\<not> (sr_ret reply = 0 \<and> bvl_size views \<noteq> 0)" "\<not> sr_ret reply > int (bvl_size views)"
      "\<not> sr_ret reply < 0"
    and rest: "bvl_remove_prefix (nat (sr_ret reply)) views = Inr rest"
    and result: "(if write_all \<and> bvl_size rest \<noteq> 0
      then fd_write_loop (logged K) rest write_all (written + nat (sr_ret reply)) (fd_register_write fd) s1
      else Inr (written + nat (sr_ret reply), fd_register_write fd, s1)) = Inr (m, fd', s')"
    by (rule fd_write_loop_step)
  have quiet: "same_traffic n s s1" using logged_sys [OF reply] less.prems(2) by (simp add: same_traffic_def)
  have fd: "fd_num (fd_register_write fd) = fd_num fd" by (simp add: fd_register_write_def)
  show ?case
  proof (cases "write_all \<and> bvl_size rest \<noteq> 0")
    case True
    have "bvl_size rest < bvl_size views"
      using True ok bvl_remove_prefix_size(1) [OF rest] by (cases "sr_ret reply = 0") auto
    moreover have "fd_write_loop (logged K) rest write_all (written + nat (sr_ret reply)) (fd_register_write fd) s1 =
        Inr (m, fd', s')" using result True by simp
    ultimately have "fd_num fd' = fd_num (fd_register_write fd) \<and> same_traffic n s1 s'"
      using less.hyps less.prems(2) fd by simp
    then show ?thesis using same_traffic_trans [OF quiet] fd by simp
  next
    case False
    then show ?thesis using result quiet fd by auto
  qed
qed

interpretation udp_quiet: quiet_adapter "udp_ops R (logged K)" n "\<lambda>_. True" for R K n
proof
  fix a s seg a' s'
  show "ao_read (udp_ops R (logged K)) a s = Inr (seg, a', s') \<Longrightarrow> True \<and> same_traffic n s s'"
    by (auto simp: udp_ops_def udp_adapter_read_def case_prod_beta dest: us_recv_quiet)
next
  fix a s seg a' s'
  show "ao_write (udp_ops R (logged K)) seg a s = Inr (a', s') \<Longrightarrow> True \<and> same_traffic n s s'"
    by (auto simp: udp_ops_def udp_adapter_write_def dest: us_sendto_quiet)
next
  fix a s ms a' s'
  show "ao_tick (udp_ops R (logged K)) ms a s = Inr (a', s') \<Longrightarrow> True \<and> same_traffic n s s'"
    by (auto simp: udp_ops_def)
qed

interpretation tun_quiet: quiet_adapter "tun_ops R (logged K)" n "\<lambda>a. fd_num (tn_tun a) \<noteq> n" for R K n
proof
  fix a s seg a' s'
  assume "fd_num (tn_tun a) \<noteq> n" "ao_read (tun_ops R (logged K)) a s = Inr (seg, a', s')"
  then show "fd_num (tn_tun a') \<noteq> n \<and> same_traffic n s s'"
    by (auto simp: tun_ops_def tun_adapter_read_def same_traffic_def dest!: fd_read_logged [where n = n])
next
  fix a s seg a' s'
  assume "fd_num (tn_tun a) \<noteq> n" "ao_write (tun_ops R (logged K)) seg a s = Inr (a', s')"
  then show "fd_num (tn_tun a') \<noteq> n \<and> same_traffic n s s'"
    by (auto simp: tun_ops_def tun_adapter_write_def fd_write_def dest!: fd_write_loop_quiet [where n = n])
next
  fix a s ms a' s'
  assume "fd_num (tn_tun a) \<noteq> n" "ao_tick (tun_ops R (logged K)) ms a s = Inr (a', s')"
  then show "fd_num (tn_tun a') \<noteq> n \<and> same_traffic n s s'" by (auto simp: tun_ops_def)
qed

section \<open>The run of the thread\<close>

definition socket_run ::
  "int \<Rightarrow> ('a \<Rightarrow> bool) \<Rightarrow> tcp_connection \<Rightarrow> ('a, 'k \<times> kernel_log) sponge \<Rightarrow> bool" where
  "socket_run n ok tcp0 w \<longleftrightarrow>
     fd_num (sp_thread_data w) = n \<and> ok (sp_adapter w) \<and>
     (\<exists>ops. all_steps op_fits cn_step ops tcp0 \<and> sp_tcp w = Some (fold cn_step ops tcp0) \<and>
        read_from n (snd (sp_kernel w)) = owner_puts ops \<and>
        written_to n (snd (sp_kernel w)) = owner_gets ops tcp0)"

text \<open>\<open>w'\<close> is \<open>w\<close> after the operations \<open>ops\<close> on its connection.\<close>

definition socket_does ::
  "int \<Rightarrow> cn_op list \<Rightarrow> ('a, 'k \<times> kernel_log) sponge \<Rightarrow> ('a, 'k \<times> kernel_log) sponge \<Rightarrow> bool" where
  "socket_does n ops w w' \<longleftrightarrow>
     (\<exists>tcp. sp_tcp w = Some tcp \<and> all_steps op_fits cn_step ops tcp \<and> sp_tcp w' = Some (fold cn_step ops tcp) \<and>
        fd_num (sp_thread_data w') = fd_num (sp_thread_data w) \<and>
        read_from n (snd (sp_kernel w')) = read_from n (snd (sp_kernel w)) @ owner_puts ops \<and>
        written_to n (snd (sp_kernel w')) = written_to n (snd (sp_kernel w)) @ owner_gets ops tcp)"

lemma socket_run_does:
  assumes "socket_run n ok tcp0 w" and "socket_does n ops w w'" and "ok (sp_adapter w')"
  shows "socket_run n ok tcp0 w'"
proof -
  obtain ops0 where "all_steps op_fits cn_step ops0 tcp0" "sp_tcp w = Some (fold cn_step ops0 tcp0)"
    "read_from n (snd (sp_kernel w)) = owner_puts ops0" "written_to n (snd (sp_kernel w)) = owner_gets ops0 tcp0"
    "fd_num (sp_thread_data w) = n"
    using assms(1) by (auto simp: socket_run_def)
  then show ?thesis
    using assms(2,3) by (auto simp: socket_run_def socket_does_def intro!: exI [of _ "ops0 @ ops"])
qed

lemma with_tcp_Inr: "with_tcp w f = Inr x \<longleftrightarrow> (\<exists>tcp. sp_tcp w = Some tcp \<and> f tcp = Inr x)"
  by (auto simp: with_tcp_def split: option.splits)

lemma sp_end_outbound_does:
  "sp_end_outbound w = Inr w' \<Longrightarrow> socket_does n [Cn_End] w w' \<and> sp_adapter w' = sp_adapter w"
  by (auto simp: sp_end_outbound_def with_tcp_Inr socket_does_def owner_puts_def)

lemma sp_data_in_does:
  assumes "sp_data_in (logged K) w = Inr w'" and n: "fd_num (sp_thread_data w) = n"
  shows "\<exists>ops. socket_does n ops w w' \<and> sp_adapter w' = sp_adapter w"
proof -
  obtain tcp str fd s where tcp: "sp_tcp w = Some tcp"
    and got: "fd_read (logged K) (cn_remaining_outbound_capacity tcp) (sp_thread_data w) (sp_kernel w) = Inr (str, fd, s)"
    and rest: "(let (amount_written, tcp) = cn_write str tcp;
           w = w\<lparr>sp_kernel := s, sp_thread_data := fd, sp_tcp := Some tcp\<rparr> in
       if amount_written \<noteq> length str
       then Inl (Runtime_Error ''TCPConnection::write() accepted less than advertised length'')
       else if fd_eof fd then sp_end_outbound w else Inr w) = Inr w'"
    using assms(1) by (auto simp: sp_data_in_def with_tcp_Inr)
  let ?w1 = "w\<lparr>sp_kernel := s, sp_thread_data := fd, sp_tcp := Some (cn_step (Cn_Write str) tcp)\<rparr>"
  have wrote: "socket_does n [Cn_Write str] w ?w1"
    using fd_read_logged [OF got, of n] tcp n by (simp add: socket_does_def owner_puts_def)
  have "fd_eof fd \<and> sp_end_outbound ?w1 = Inr w' \<or> w' = ?w1"
    using rest by (auto simp: Let_def case_prod_beta split: if_splits)
  then show ?thesis
  proof
    assume ended: "fd_eof fd \<and> sp_end_outbound ?w1 = Inr w'"
    then have "socket_does n ([Cn_Write str] @ [Cn_End]) w w'"
      using wrote sp_end_outbound_does [of ?w1 w' n] by (auto simp: socket_does_def owner_puts_def)
    moreover have "sp_adapter w' = sp_adapter ?w1" using ended sp_end_outbound_does [of ?w1 w' n] by blast
    ultimately show ?thesis by (intro exI [of _ "[Cn_Write str] @ [Cn_End]"]) simp
  qed (use wrote in \<open>auto intro!: exI [of _ "[Cn_Write str]"]\<close>)
qed

lemma sp_data_out_does:
  assumes "sp_data_out (logged K) w = Inr w'" and n: "fd_num (sp_thread_data w) = n"
  shows "\<exists>ops. socket_does n ops w w' \<and> sp_adapter w' = sp_adapter w"
proof -
  let ?buffer = "\<lambda>tcp. bs_peek_output (min 65536 (bs_buffer_size (cn_inbound_stream tcp))) (cn_inbound_stream tcp)"
  obtain tcp m fd s tcp1 where tcp: "sp_tcp w = Some tcp"
    and wrote: "fd_write (logged K) (bvl_of_string (?buffer tcp)) False (sp_thread_data w) (sp_kernel w) = Inr (m, fd, s)"
    and popped: "cn_pop_inbound m tcp = Inr tcp1"
    and rest: "(let w = w\<lparr>sp_kernel := s, sp_thread_data := fd, sp_tcp := Some tcp1\<rparr> in
         if bs_eof (cn_inbound_stream tcp1) \<or> bs_error (cn_inbound_stream tcp1) then
           andthen (so_shutdown (logged K) SHUT_WR fd s) (\<lambda>(fd, k).
             Inr (w\<lparr>sp_kernel := k, sp_thread_data := fd, sp_inbound_shutdown := True\<rparr>))
         else Inr w) = Inr w'"
    using assms(1) by (auto simp: sp_data_out_def with_tcp_Inr Let_def)
  have log: "m \<le> length (?buffer tcp)" "fd_num fd = fd_num (sp_thread_data w)"
    "written_to n (snd s) = written_to n (snd (sp_kernel w)) @ take m (?buffer tcp)"
    "read_from n (snd s) = read_from n (snd (sp_kernel w))"
    using fd_write_logged [OF wrote [unfolded bvl_of_string_def], of n] n by simp_all
  have "take m (?buffer tcp) = take m (bs_content (cn_inbound_stream tcp))"
    using log(1) by (simp add: bs_peek_content)
  then have "socket_does n [Cn_Read m] w (w\<lparr>sp_kernel := s, sp_thread_data := fd, sp_tcp := Some tcp1\<rparr>)"
    using log tcp cn_pop_step [OF popped] by (simp add: socket_does_def owner_puts_def)
  moreover have "sp_tcp w' = Some tcp1 \<and> fd_num (sp_thread_data w') = fd_num fd \<and> sp_adapter w' = sp_adapter w \<and>
      same_traffic n s (sp_kernel w')"
    using rest by (auto simp: Let_def same_traffic_def split: if_splits dest!: so_shutdown_logged)
  ultimately show ?thesis
    by (intro exI [of _ "[Cn_Read m]"]) (simp add: socket_does_def same_traffic_def)
qed

text \<open>
  The environment: \<open>poll\<close> and the clock work on the state of the kernel, and while \<open>poll\<close> waits the owner may
  set \<open>_abort\<close>.
\<close>

definition owner_poll ::
  "(pollfd list \<Rightarrow> int \<Rightarrow> 'k \<Rightarrow> poll_reply \<times> bool \<times> 'k) \<Rightarrow> ('a, 'k \<times> kernel_log) sponge poll" where
  "owner_poll P pollfds timeout_ms w =
     (let (reply, abort, k) = P pollfds timeout_ms (fst (sp_kernel w)) in
      (reply, w\<lparr>sp_kernel := (k, snd (sp_kernel w)), sp_abort := sp_abort w \<or> abort\<rparr>))"

definition logged_clock :: "'k clock \<Rightarrow> ('k \<times> kernel_log) clock" where
  "logged_clock clock s = (let (t, k) = clock (fst s) in (t, k, snd s))"

context quiet_adapter
begin

lemma datagram_in_does:
  assumes "sp_datagram_in A w = Inr w'" and "ok (sp_adapter w)"
  shows "\<exists>ops. socket_does n ops w w' \<and> ok (sp_adapter w')"
proof -
  obtain tcp seg a s where tcp: "sp_tcp w = Some tcp"
    and got: "ao_read A (sp_adapter w) (sp_kernel w) = Inr (seg, a, s)"
    and w': "sp_tcp w' = Some (case seg of None \<Rightarrow> tcp | Some seg \<Rightarrow> cn_segment_received seg tcp)"
      "sp_kernel w' = s" "sp_adapter w' = a" "sp_thread_data w' = sp_thread_data w"
    using assms(1) by (auto simp: sp_datagram_in_def with_tcp_Inr Let_def)
  show ?thesis
    using read_quiet [OF assms(2) got] tcp w'
    by (intro exI [of _ "case seg of None \<Rightarrow> [] | Some seg \<Rightarrow> [Cn_Segment seg]"])
      (auto simp: socket_does_def same_traffic_def owner_puts_def split: option.splits)
qed

lemma datagram_out_does:
  assumes "sp_datagram_out A w = Inr w'" and "ok (sp_adapter w)"
  shows "\<exists>ops. socket_does n ops w w' \<and> ok (sp_adapter w')"
proof -
  obtain tcp a s where tcp: "sp_tcp w = Some tcp"
    and sent: "sp_send_all A (cn_segments_out tcp) (sp_adapter w) (sp_kernel w) = Inr (a, s)"
    and w': "w' = w\<lparr>sp_kernel := s, sp_adapter := a, sp_tcp := Some (tcp\<lparr>cn_segments_out := []\<rparr>)\<rparr>"
    using assms(1) by (auto simp: sp_datagram_out_def with_tcp_Inr Let_def)
  show ?thesis
    using send_all [OF sent assms(2)] tcp w'
    by (intro exI [of _ "replicate (length (cn_segments_out tcp)) Cn_Take"])
      (simp add: socket_does_def same_traffic_def takes_all del: fold_replicate)
qed

lemma advance_does:
  assumes "sp_advance A (logged_clock clock) base_time w = Inr (base_time', w')" and "ok (sp_adapter w)"
  shows "\<exists>ops. socket_does n ops w w' \<and> ok (sp_adapter w')"
proof -
  obtain tcp where tcp: "sp_tcp w = Some tcp"
    using assms(1) by (auto simp: sp_advance_def split: option.splits)
  show ?thesis
  proof (cases "cn_active tcp")
    case False
    then have "w' = w" using assms(1) tcp by (simp add: sp_advance_def)
    then show ?thesis using tcp assms(2) by (intro exI [of _ "[]"]) (simp add: socket_does_def owner_puts_def)
  next
    case True
    obtain t k where clock: "logged_clock clock (sp_kernel w) = (t, k, snd (sp_kernel w))"
      by (cases "clock (fst (sp_kernel w))") (simp add: logged_clock_def)
    then obtain a s where ticked: "ao_tick A (t - base_time) (sp_adapter w) (k, snd (sp_kernel w)) = Inr (a, s)"
      and w': "w' = w\<lparr>sp_kernel := s, sp_adapter := a, sp_tcp := Some (cn_tick (t - base_time) tcp)\<rparr>"
      using assms(1) tcp True by (auto simp: sp_advance_def Let_def)
    show ?thesis
      using tick_quiet [OF assms(2) ticked] tcp w'
      by (intro exI [of _ "[Cn_Tick (t - base_time)]"]) (simp add: socket_does_def same_traffic_def owner_puts_def)
  qed
qed

end

sublocale quiet_adapter \<subseteq> run: rule_invariant "sp_rules (logged K) A" "owner_poll P" "socket_run n ok tcp0"
  for K :: "'k kernel" and P tcp0
proof
  fix r and w w' :: "('a, 'k \<times> kernel_log) sponge"
  assume r: "r \<in> set (sp_rules (logged K) A)" and inv: "socket_run n ok tcp0 w"
  have n: "fd_num (sp_thread_data w) = n" and ok: "ok (sp_adapter w)" using inv by (auto simp: socket_run_def)
  have does: "socket_run n ok tcp0 w'" if "\<exists>ops. socket_does n ops w w' \<and> ok (sp_adapter w')"
    using socket_run_does [OF inv] that by blast
  show "socket_run n ok tcp0 w'" if "ru_callback r w = Inr w'"
    using r that ok datagram_in_does datagram_out_does sp_data_in_does [OF _ n] sp_data_out_does [OF _ n]
    by (intro does) (fastforce simp: sp_rules_def el_add_rule_def)
  show "socket_run n ok tcp0 w'" if "ru_cancel r w = Inr w'"
  proof -
    have "sp_end_outbound w = Inr w' \<or> w' = w" using r that by (auto simp: sp_rules_def el_add_rule_def)
    then show ?thesis
    proof
      assume "sp_end_outbound w = Inr w'"
      from sp_end_outbound_does [OF this, of n] show ?thesis using ok by (intro does) auto
    qed (use inv in simp)
  qed
next
  fix w :: "('a, 'k \<times> kernel_log) sponge" and pollfds timeout_ms
  assume "socket_run n ok tcp0 w"
  then show "socket_run n ok tcp0 (snd (owner_poll P pollfds timeout_ms w))"
    by (auto simp: socket_run_def owner_poll_def Let_def split: prod.splits)
qed

context quiet_adapter
begin

lemma rounds_run:
  assumes "sp_rounds fuel (owner_poll P) A (logged_clock clock) condition base_time rules w = Some (Inr (rules', w'))"
    and "set rules \<subseteq> set (sp_rules (logged K) A)" and "socket_run n ok tcp0 w"
  shows "socket_run n ok tcp0 w' \<and> set rules' \<subseteq> set (sp_rules (logged K) A)"
  using assms
proof (induction fuel arbitrary: base_time rules w)
  case (Suc fuel)
  show ?case
  proof (cases "condition w")
    case True
    then obtain ret rules1 w1 where
      round: "el_wait_next_event (owner_poll P) TCP_TICK_MS rules w = Inr (ret, rules1, w1)"
      using Suc.prems(1) by (auto split: sum.splits)
    note keeps = run.wait_keeps [OF round Suc.prems(2,3)]
    show ?thesis
    proof (cases "ret = El_Exit \<or> sp_abort w1")
      case True
      then show ?thesis using Suc.prems(1) \<open>condition w\<close> round keeps by auto
    next
      case False
      then obtain base1 w2 where advance: "sp_advance A (logged_clock clock) base_time w1 = Inr (base1, w2)"
        and rest: "sp_rounds fuel (owner_poll P) A (logged_clock clock) condition base1 rules1 w2 = Some (Inr (rules', w'))"
        using Suc.prems(1) \<open>condition w\<close> round by (auto split: sum.splits)
      have "ok (sp_adapter w1)" using keeps by (simp add: socket_run_def)
      then have "socket_run n ok tcp0 w2"
        using advance_does [OF advance] socket_run_does keeps by blast
      then show ?thesis using Suc.IH [OF rest] keeps by blast
    qed
  qed (use Suc.prems in auto)
qed simp

lemma loop_run:
  assumes "sp_tcp_loop fuel (owner_poll P) A (logged_clock clock) condition rules w = Some (Inr (rules', w'))"
    and "set rules \<subseteq> set (sp_rules (logged K) A)" and "socket_run n ok tcp0 w"
  shows "socket_run n ok tcp0 w' \<and> set rules' \<subseteq> set (sp_rules (logged K) A)"
proof -
  obtain t k where clock: "logged_clock clock (sp_kernel w) = (t, k, snd (sp_kernel w))"
    by (cases "clock (fst (sp_kernel w))") (simp add: logged_clock_def)
  have "socket_run n ok tcp0 (w\<lparr>sp_kernel := (k, snd (sp_kernel w))\<rparr>)"
    using assms(3) by (simp add: socket_run_def)
  then show ?thesis using rounds_run assms(1,2) by (simp add: sp_tcp_loop_def clock)
qed

end

section \<open>Properties\<close>

lemma connect_run:
  assumes "sp_connect fuel poll K A clock c_tcp random c_ad w = Some (Inr (rules, w'))"
  shows "\<exists>w0. sp_tcp_loop fuel poll A clock (sp_in_state [SYN_SENT]) (sp_rules K A) w0 = Some (Inr (rules, w')) \<and>
    sp_tcp w0 = Some (cn_connect (cn_new c_tcp random)) \<and> sp_kernel w0 = sp_kernel w \<and>
    sp_thread_data w0 = sp_thread_data w \<and> sp_adapter w0 = ao_set_config A c_ad (sp_adapter w)"
  using assms
  by (auto simp: sp_connect_def sp_initialize_TCP_def Let_def with_tcp_def split: if_splits option.splits)

text \<open>C2: (the owner and the connection) A socket over UDP connects and its thread runs, with any kernel,
  \<open>poll\<close>, clock and owner. The connection has then gone through a sequence of its own operations, which
  begins with \<open>connect\<close>: the data of the writes, one after the other, are the bytes read from the owner,
  every write was accepted whole, and what the reads took out of the inbound stream, one after the
  other, is what has been written to the owner.\<close>

theorem socket_serves_owner:
  fixes w :: "(udp_adapter, 'k \<times> kernel_log) sponge"
  defines "n \<equiv> fd_num (sp_thread_data w)"
  assumes "sp_connect fuel (owner_poll P) (logged K) (udp_ops R (logged K)) (logged_clock clock) c_tcp random c_ad w =
      Some (Inr (rules, w1))"
    and "sp_tcp_loop fuel' (owner_poll P') (udp_ops R (logged K)) (logged_clock clock) (\<lambda>_. True) rules w1 =
      Some (Inr (rules', w2))"
    and "snd (sp_kernel w) = []"
  shows "\<exists>ops. sp_tcp w2 = Some (fold cn_step (Cn_Connect # ops) (cn_new c_tcp random)) \<and>
    all_steps op_fits cn_step (Cn_Connect # ops) (cn_new c_tcp random) \<and>
    read_from n (snd (sp_kernel w2)) = owner_puts ops \<and>
    written_to n (snd (sp_kernel w2)) = owner_gets ops (cn_connect (cn_new c_tcp random))"
proof -
  let ?A = "udp_ops R (logged K)" and ?tcp0 = "cn_connect (cn_new c_tcp random)"
  obtain w0 where w0: "sp_tcp_loop fuel (owner_poll P) ?A (logged_clock clock) (sp_in_state [SYN_SENT])
      (sp_rules (logged K) ?A) w0 = Some (Inr (rules, w1))" "sp_tcp w0 = Some ?tcp0"
    "sp_kernel w0 = sp_kernel w" "sp_thread_data w0 = sp_thread_data w"
    using connect_run [OF assms(2)] by blast
  have "socket_run n (\<lambda>_. True) ?tcp0 w0"
    using w0 assms(4) by (auto simp: socket_run_def n_def owner_puts_def intro!: exI [of _ "[]"])
  then have "socket_run n (\<lambda>_. True) ?tcp0 w1 \<and> set rules \<subseteq> set (sp_rules (logged K) ?A)"
    using udp_quiet.loop_run [OF w0(1)] by blast
  then have "socket_run n (\<lambda>_. True) ?tcp0 w2" using udp_quiet.loop_run [OF assms(3)] by blast
  then show ?thesis by (auto simp: socket_run_def)
qed

text \<open>
  A run in which the owner has written two bytes: they are read while the connection waits for the answer
  to its SYN, then the owner gives up.
\<close>

fun pair_kernel :: "byte list kernel" where
  "pair_kernel (Sys_Read fd limit) k =
     (let bytes = take limit k in
      (\<lparr>sr_ret = int (length bytes), sr_errno = 0, sr_bytes = bytes, sr_address = [], sr_value = 0, sr_second = 0\<rparr>,
       drop limit k))"
| "pair_kernel call k =
     (\<lparr>sr_ret = 0, sr_errno = 0, sr_bytes = [], sr_address = [], sr_value = 0, sr_second = 0\<rparr>, k)"

definition second_ready :: "pollfd list \<Rightarrow> int \<Rightarrow> byte list \<Rightarrow> poll_reply \<times> bool \<times> byte list" where
  "second_ready pollfds timeout_ms k =
     (\<lparr>pr_ret = 1, pr_errno = 0, pr_revents = (\<lambda>i. if i = 1 then POLLIN else 0)\<rparr>, True, k)"

definition example_fd_num :: "int \<Rightarrow> fd_wrapper" where
  "example_fd_num n = \<lparr>fd_num = n, fd_eof = False, fd_closed = False, fd_read_count = 0, fd_write_count = 0\<rparr>"

definition example_base :: fd_adapter where
  "example_base =
     \<lparr>fa_cfg = \<lparr>fc_source = inet_address 0 0, fc_destination = inet_address 0 0, fc_loss_rate_dn = 0,
        fc_loss_rate_up = 0\<rparr>, fa_listen = False\<rparr>"

definition example_sponge :: "(udp_adapter, byte list \<times> kernel_log) sponge" where
  "example_sponge =
     \<lparr>sp_kernel = ([7, 8], []), sp_owner = example_fd_num 4, sp_thread_data = example_fd_num 5,
      sp_adapter = \<lparr>ud_base = example_base, ud_sock = example_fd_num 3\<rparr>, sp_tcp = None, sp_abort = False,
      sp_inbound_shutdown = False, sp_outbound_shutdown = False, sp_fully_acked = False\<rparr>"

definition example_tcp_config :: tcp_config where
  "example_tcp_config = \<lparr>rt_timeout = 100, recv_capacity = 4, send_capacity = 4, fixed_isn = None\<rparr>"

definition example_connect where
  "example_connect =
     sp_connect (Suc 0) (owner_poll second_ready) (logged pair_kernel) (udp_ops numeric_resolver (logged pair_kernel))
       (logged_clock (\<lambda>k. (0, k))) example_tcp_config 0 (fa_cfg example_base) example_sponge"

definition none_ready :: "pollfd list \<Rightarrow> int \<Rightarrow> byte list \<Rightarrow> poll_reply \<times> bool \<times> byte list" where
  "none_ready pollfds timeout_ms k = (\<lparr>pr_ret = 0, pr_errno = 0, pr_revents = (\<lambda>_. 0)\<rparr>, False, k)"

definition example_tcp0 where "example_tcp0 = cn_connect (cn_new example_tcp_config 0)"
definition example_tcp1 where "example_tcp1 = snd (cn_write [7, 8] example_tcp0)"

lemma example_tcp_facts:
  "cn_active example_tcp0" "cn_remaining_outbound_capacity example_tcp0 = 4"
  "ts_eq (cn_state example_tcp0) (ts_official SYN_SENT)" "fst (cn_write [7, 8] example_tcp0) = 2" 
  "bs_content (cn_inbound_stream example_tcp0) = []" "\<not> bs_input_end (cn_inbound_stream example_tcp0)"
   "cn_active example_tcp1" 
  by code_simp+

lemma example_tcp_write: "cn_write [7, 8] example_tcp0 = (2, example_tcp1)"
  using example_tcp_facts(4) by (simp add: example_tcp1_def prod_eq_iff)

lemmas socket_run_defs =
  sp_connect_def sp_initialize_TCP_def sp_in_state_def tcp_test_def example_sponge_def sp_tcp_loop_def logged_clock_def
  sp_rules_def el_add_rule_def el_wait_next_event_def ru_defunct_def ru_pollfd_def polled_def ru_service_count_def
  POLLIN_def POLLOUT_def POLLERR_def POLLNVAL_def POLLHUP_def example_fd_num_def udp_ops_def owner_poll_def
  sp_wants_datagram_def sp_wants_data_def sp_data_in_def with_tcp_def  example_base_def
  sys_def system_call_def logged_def fd_read_def str_shrink_def stored_def BUFFER_SIZE_def fd_register_read_def

definition example_ops :: "(udp_adapter, byte list \<times> kernel_log) adapter_ops" where
  "example_ops = udp_ops numeric_resolver (logged pair_kernel)"

definition example_connected :: "(udp_adapter, byte list \<times> kernel_log) sponge" where
  "example_connected = example_sponge
     \<lparr>sp_kernel := ([], [(Sys_Read 5 4, \<lparr>sr_ret = 2, sr_errno = 0, sr_bytes = [7, 8], sr_address = [],
        sr_value = 0, sr_second = 0\<rparr>)]),
      sp_thread_data := (example_fd_num 5)\<lparr>fd_read_count := 1\<rparr>, sp_tcp := Some example_tcp1, sp_abort := True\<rparr>"

lemma example_connects:
  "example_connect = Some (Inr (sp_rules (logged pair_kernel) example_ops, example_connected))"
  unfolding example_connect_def
  by (simp add: socket_run_defs second_ready_def Let_def example_tcp0_def [symmetric] example_connected_def
      example_ops_def example_tcp_facts [simplified ts_eq_eq] example_tcp_write)

lemma example_gives_up:
  "sp_tcp_loop (Suc 0) (owner_poll none_ready) example_ops (logged_clock (\<lambda>k. (0, k))) (\<lambda>_. True)
     (sp_rules (logged pair_kernel) example_ops) example_connected =
   Some (Inr (sp_rules (logged pair_kernel) example_ops, example_connected))"
  by (simp add: socket_run_defs none_ready_def Let_def example_connected_def example_ops_def
      example_tcp_facts)

lemma socket_serves_owner_witness:
  "\<exists>ops. sp_tcp example_connected = Some (fold cn_step (Cn_Connect # ops) (cn_new example_tcp_config 0)) \<and>
    all_steps op_fits cn_step (Cn_Connect # ops) (cn_new example_tcp_config 0) \<and> [7, 8] = owner_puts ops"
proof -
  have "read_from (fd_num (sp_thread_data example_sponge)) (snd (sp_kernel example_connected)) = [7, 8]"
    by (simp add: example_connected_def example_sponge_def example_fd_num_def stored_def)
  moreover have "snd (sp_kernel example_sponge) = []" by (simp add: example_sponge_def)
  ultimately show ?thesis
    using socket_serves_owner [OF example_connects [unfolded example_connect_def example_ops_def]
        example_gives_up [unfolded example_ops_def]] by metis
qed

text \<open>(what the owner wrote is never refused) The exception that reading from the owner guards against
  cannot happen: the read is limited to the free capacity of the outbound stream, which the connection
  then accepts.\<close>

lemma owner_never_refused:
  "sp_data_in K w \<noteq> Inl (Runtime_Error ''TCPConnection::write() accepted less than advertised length'')"
proof
  assume refused: "sp_data_in K w = Inl (Runtime_Error ''TCPConnection::write() accepted less than advertised length'')"
  show False
  proof (cases "sp_tcp w")
    case (Some tcp)
    let ?read = "fd_read K (cn_remaining_outbound_capacity tcp) (sp_thread_data w) (sp_kernel w)"
    show False
    proof (cases ?read)
      case (Inl e)
      then show False using refused Some fd_read_error [OF Inl] by (auto simp: sp_data_in_def with_tcp_def)
    next
      case (Inr r)
      obtain str fd k where r: "r = (str, fd, k)" by (cases r)
      have "fst (cn_write str tcp) = length str"
        using fd_read_limit [OF Inr [unfolded r]]
        by (simp add: cn_write_def case_prod_beta bs_write_fst cn_remaining_outbound_capacity_def stream_simps)
      then show False
        using refused Some Inr r
        by (auto simp: sp_data_in_def with_tcp_def Let_def case_prod_beta sp_end_outbound_def split: if_splits)
    qed
  qed (use refused in \<open>simp add: sp_data_in_def with_tcp_def\<close>)
qed

text \<open>
  With unread bytes, the rule's callback makes one \<open>writev\<close> call with up to 65536 of them, whatever
  happened to the descriptor before: the kernel's refusal is the callback's exception, and after a
  success the call and its answer stand in the log, next after what was there.
\<close>

lemma so_shutdown_appends:
  "so_shutdown (logged K) how fd s = Inr (fd', s') \<Longrightarrow> \<exists>rest. snd s' = snd s @ rest"
  by (auto simp: so_shutdown_def split: if_splits dest!: logged_sys)

lemma sp_data_out_writes:
  fixes K :: "'k kernel" and w :: "('a, 'k \<times> kernel_log) sponge"
  assumes "sp_tcp w = Some tcp"
  defines "call \<equiv> Sys_Writev (fd_num (sp_thread_data w)) [bs_peek_output 65536 (cn_inbound_stream tcp)]"
  defines "reply \<equiv> fst (K call (fst (sp_kernel w)))"
  shows "sr_ret reply < 0 \<Longrightarrow> sr_errno reply \<noteq> 0 \<Longrightarrow>
      sp_data_out (logged K) w = Inl (Tagged_Error ''writev'' (sr_errno reply))"
    and "sp_data_out (logged K) w = Inr w2 \<Longrightarrow>
      \<exists>rest. snd (sp_kernel w2) = snd (sp_kernel w) @ (call, reply) # rest"
proof -
  have buffer: "bs_peek_output (min 65536 (bs_buffer_size (cn_inbound_stream tcp))) (cn_inbound_stream tcp) =
      bs_peek_output 65536 (cn_inbound_stream tcp)"
    by (simp add: stream_simps min_def)
  have K: "logged K call (sp_kernel w) =
      (reply, snd (K call (fst (sp_kernel w))), snd (sp_kernel w) @ [(call, reply)])"
    by (simp add: logged_def reply_def case_prod_beta)
  {
    assume "sr_ret reply < 0" "sr_errno reply \<noteq> 0"
    then have "sys (logged K) ''writev'' call (sp_kernel w) = Inl (Tagged_Error ''writev'' (sr_errno reply))"
      by (simp add: sys_def system_call_def K)
    then show "sp_data_out (logged K) w = Inl (Tagged_Error ''writev'' (sr_errno reply))"
      using assms(1) buffer
      by (simp add: sp_data_out_def with_tcp_def fd_write_def fd_write_loop.simps bvl_of_string_def call_def)
  }
  assume "sp_data_out (logged K) w = Inr w2"
  then obtain m fd s tcp1 where
    wrote: "fd_write (logged K) (bvl_of_string (bs_peek_output 65536 (cn_inbound_stream tcp))) False
      (sp_thread_data w) (sp_kernel w) = Inr (m, fd, s)"
    and rest: "(let w = w\<lparr>sp_kernel := s, sp_thread_data := fd, sp_tcp := Some tcp1\<rparr> in
         if bs_eof (cn_inbound_stream tcp1) \<or> bs_error (cn_inbound_stream tcp1) then
           andthen (so_shutdown (logged K) SHUT_WR fd s) (\<lambda>(fd, k).
             Inr (w\<lparr>sp_kernel := k, sp_thread_data := fd, sp_inbound_shutdown := True\<rparr>))
         else Inr w) = Inr w2"
    using assms(1) buffer by (auto simp: sp_data_out_def with_tcp_Inr Let_def)
  obtain r where "sys (logged K) ''writev'' call (sp_kernel w) = Inr (r, s)"
    using wrote by (auto simp: call_def bvl_of_string_def elim!: fd_write_once)
  then have "snd s = snd (sp_kernel w) @ [(call, reply)]"
    by (auto simp: sys_def K)
  moreover have "\<exists>more. snd (sp_kernel w2) = snd s @ more"
    using rest so_shutdown_appends [of K SHUT_WR fd s] by (auto simp: Let_def split: if_splits)
  ultimately show "\<exists>rest. snd (sp_kernel w2) = snd (sp_kernel w) @ (call, reply) # rest" by auto
qed

text \<open>C40: (a reset in front of unread data) When the connection has been reset and the owner's socket does
  not take all that is still unread, the socket is shut down for writing and yet the rule stays
  interested. The next time it runs it writes to the socket again: its first call is a \<open>writev\<close> on the
  same descriptor with up to 65536 of the bytes still unread, after the \<open>shutdown\<close> in the log; when the
  kernel refuses it, as a kernel does after \<open>shutdown(SHUT_WR)\<close>, the callback throws that error.\<close>

theorem reset_writes_after_shutdown:
  assumes "sp_data_out (logged K) w = Inr w'" and "sp_tcp w = Some tcp" and "bs_error (cn_inbound_stream tcp)"
    and "sp_tcp w' = Some tcp'" and "\<not> bs_buffer_empty (cn_inbound_stream tcp')"
  defines "unread \<equiv> bs_peek_output 65536 (cn_inbound_stream tcp')"
  defines "call \<equiv> Sys_Writev (fd_num (sp_thread_data w)) [unread]"
  defines "reply \<equiv> fst (K call (fst (sp_kernel w')))"
  shows "sp_inbound_shutdown w' \<and> fst (last (snd (sp_kernel w'))) = Sys_Shutdown (fd_num (sp_thread_data w)) SHUT_WR \<and>
    sp_wants_data_out w' \<and> unread \<noteq> [] \<and>
    (if sr_ret reply < 0 \<and> sr_errno reply \<noteq> 0
     then sp_data_out (logged K) w' = Inl (Tagged_Error ''writev'' (sr_errno reply))
     else case sp_data_out (logged K) w' of Inl e \<Rightarrow> True
       | Inr w2 \<Rightarrow> \<exists>rest. snd (sp_kernel w2) = snd (sp_kernel w') @ (call, reply) # rest)"
proof -
  let ?buffer = "bs_peek_output (min 65536 (bs_buffer_size (cn_inbound_stream tcp))) (cn_inbound_stream tcp)"
  obtain m fd s tcp1 where
    wrote: "fd_write (logged K) (bvl_of_string ?buffer) False (sp_thread_data w) (sp_kernel w) = Inr (m, fd, s)"
    and popped: "cn_pop_inbound m tcp = Inr tcp1"
    and rest: "(let w = w\<lparr>sp_kernel := s, sp_thread_data := fd, sp_tcp := Some tcp1\<rparr> in
         if bs_eof (cn_inbound_stream tcp1) \<or> bs_error (cn_inbound_stream tcp1) then
           andthen (so_shutdown (logged K) SHUT_WR fd s) (\<lambda>(fd, k).
             Inr (w\<lparr>sp_kernel := k, sp_thread_data := fd, sp_inbound_shutdown := True\<rparr>))
         else Inr w) = Inr w'"
    using assms(1,2) by (auto simp: sp_data_out_def with_tcp_Inr Let_def)
  have err: "bs_error (cn_inbound_stream tcp1)"
    using popped assms(3) bs_pop_output_total [of m "cn_inbound_stream tcp"]
    by (auto simp: cn_pop_inbound_def cn_inbound_stream_def rx_with_output_def rx_stream_out_def stream_simps)
  then obtain fd2 s2 where shut: "so_shutdown (logged K) SHUT_WR fd s = Inr (fd2, s2)"
    and w': "w' = w\<lparr>sp_kernel := s2, sp_thread_data := fd2, sp_tcp := Some tcp1, sp_inbound_shutdown := True\<rparr>"
    using rest by (auto simp: Let_def)
  have "fst (last (snd s2)) = Sys_Shutdown (fd_num fd) SHUT_WR"
    using shut by (auto simp: so_shutdown_def split: if_splits dest!: logged_sys)
  moreover have "fd_num fd = fd_num (sp_thread_data w)" using fd_write_logged [OF wrote [unfolded bvl_of_string_def]] by blast
  moreover have "fd_num fd2 = fd_num fd" using so_shutdown_logged [OF shut] by blast
  ultimately have shutdown: "sp_inbound_shutdown w'" "fd_num (sp_thread_data w') = fd_num (sp_thread_data w)"
    "fst (last (snd (sp_kernel w'))) = Sys_Shutdown (fd_num (sp_thread_data w)) SHUT_WR"
    "sp_wants_data_out w'"
    using w' assms(4,5) by (simp_all add: sp_wants_data_out_def tcp_test_def)
  moreover have "unread \<noteq> []" using assms(5) by (simp add: unread_def stream_simps)
  ultimately show ?thesis
    using sp_data_out_writes [OF assms(4), of K, unfolded shutdown(2), folded unread_def, folded call_def, folded reply_def]
    by (simp split: sum.split)
qed

text \<open>
  A connection that has received two bytes and then a RST; its owner takes one byte at a time. The
  kernel answers EPIPE (32) to a write after the shutdown, which its state remembers.
\<close>

definition example_header :: tcp_header where
  "example_header = (seg_header seg_new)\<lparr>th_ack := True, th_ackno := WrappingInt32 1, th_win := 4\<rparr>"

definition example_reset_tcp :: tcp_connection where
  "example_reset_tcp = fold cn_step
     [Cn_Segment (seg_new\<lparr>seg_header := example_header\<lparr>th_syn := True, th_seqno := WrappingInt32 0\<rparr>\<rparr>),
      Cn_Segment (seg_new\<lparr>seg_header := example_header\<lparr>th_seqno := WrappingInt32 1\<rparr>,
                          seg_payload := buffer_of_string [1, 2]\<rparr>),
      Cn_Segment (seg_new\<lparr>seg_header := example_header\<lparr>th_rst := True, th_seqno := WrappingInt32 3\<rparr>\<rparr>)]
     example_tcp0"

definition example_reply :: "int \<Rightarrow> int \<Rightarrow> sys_reply" where
  "example_reply ret errno =
     \<lparr>sr_ret = ret, sr_errno = errno, sr_bytes = [], sr_address = [], sr_value = 0, sr_second = 0\<rparr>"

fun slow_kernel :: "byte list kernel" where
  "slow_kernel (Sys_Writev fd views) k = ((if k = [] then example_reply 1 0 else example_reply (-1) 32), k)"
| "slow_kernel (Sys_Shutdown fd how) k = (example_reply 0 0, [1])"
| "slow_kernel call k = (example_reply 0 0, k)"

definition example_reset_sponge :: "(udp_adapter, byte list \<times> kernel_log) sponge" where
  "example_reset_sponge = example_sponge\<lparr>sp_kernel := ([], []), sp_tcp := Some example_reset_tcp\<rparr>"

lemma example_reset_facts:
  "bs_content (cn_inbound_stream example_reset_tcp) = [1, 2]" "bs_error (cn_inbound_stream example_reset_tcp)"
  by code_simp+

lemma example_reset_out:
  "\<exists>w' tcp'. sp_data_out (logged slow_kernel) example_reset_sponge = Inr w' \<and> sp_tcp w' = Some tcp' \<and>
     \<not> bs_buffer_empty (cn_inbound_stream tcp') \<and> fst (sp_kernel w') = [1]"
proof -
  obtain b where b: "bs_pop_output (Suc 0) (cn_inbound_stream example_reset_tcp) = Inr b" "bs_content b = [2]" "bs_err b"
    using bs_pop_output_total [of "Suc 0" "cn_inbound_stream example_reset_tcp"] example_reset_facts
    by (auto simp: stream_simps)
  then show ?thesis
    using example_reset_facts
    by (simp add: sp_data_out_def with_tcp_def example_reset_sponge_def example_sponge_def example_fd_num_def Let_def
        stream_simps fd_write_def fd_write_loop.simps sys_def system_call_def logged_def bvl_of_string_def bvl_size_eq
        cn_pop_inbound_def so_shutdown_def rx_with_output_def rx_stream_out_def SHUT_WR_def SHUT_RD_def
        cn_inbound_stream_def example_reply_def)
qed

lemma reset_writes_after_shutdown_witness:
  "\<exists>w'. sp_data_out (logged slow_kernel) example_reset_sponge = Inr w' \<and> sp_wants_data_out w' \<and>
    fst (last (snd (sp_kernel w'))) = Sys_Shutdown 5 SHUT_WR \<and>
    sp_data_out (logged slow_kernel) w' = Inl (Tagged_Error ''writev'' 32)"
proof -
  obtain w' tcp' where w': "sp_data_out (logged slow_kernel) example_reset_sponge = Inr w'" "sp_tcp w' = Some tcp'"
    "\<not> bs_buffer_empty (cn_inbound_stream tcp')" "fst (sp_kernel w') = [1]"
    using example_reset_out by blast
  have tcp: "sp_tcp example_reset_sponge = Some example_reset_tcp"
    and n: "fd_num (sp_thread_data example_reset_sponge) = 5"
    by (simp_all add: example_reset_sponge_def example_sponge_def example_fd_num_def)
  show ?thesis
    using reset_writes_after_shutdown [OF w'(1) tcp example_reset_facts(2) w'(2,3)] w'(1,4) n
    by (auto simp: example_reply_def)
qed

end
