(* ===== verification/Printers.thy ===== *)
theory Printers
  imports IPv4 Link_Layer TCP_Segment Text
begin

text \<open>
  The textual forms: \<open>to_string\<close> of an Ethernet address (\<open>ethernet_header.cc\<close>), of the Ethernet, ARP, IPv4 and
  TCP headers, the summaries of the last two, and \<open>hexdump\<close> of \<open>util.cc\<close>.
\<close>

definition hex2 :: "byte \<Rightarrow> string" where
  "hex2 b = padded 2 CHR ''0'' (hexadecimal (unat b))"

section \<open>Ethernet and ARP\<close>

definition ea_to_string :: "ethernet_address \<Rightarrow> string" where
  "ea_to_string address = joined CHR '':'' (map hex2 (ea_bytes address))"

definition eth_to_string :: "ethernet_header \<Rightarrow> string" where
  "eth_to_string h =
     ''dst='' @ ea_to_string (eth_dst h) @ '', src='' @ ea_to_string (eth_src h) @ '', type='' @
     (if eth_type h = TYPE_IPv4 then ''IPv4''
      else if eth_type h = TYPE_ARP then ''ARP''
      else ''[unknown type '' @ hexadecimal (unat (eth_type h)) @ ''!]'')"

definition arp_to_string :: "arp_message \<Rightarrow> string" where
  "arp_to_string a =
     (let opcode_str = ''(unknown type)'';
          opcode_str = (if opcode a = OPCODE_REQUEST then ''REQUEST'' else opcode_str);
          opcode_str = (if opcode a = OPCODE_REPLY then ''REPLY'' else opcode_str) in
      ''opcode='' @ opcode_str @ '', sender='' @ ea_to_string (sender_ethernet_address a) @ ''/'' @
      inet_ntoa (sender_ip_address a) @ '', target='' @ ea_to_string (target_ethernet_address a) @ ''/'' @
      inet_ntoa (target_ip_address a))"

section \<open>IPv4 and TCP\<close>

definition newline :: string where "newline = [char_of (10 :: nat)]"

definition ip_to_string :: "ipv4_header \<Rightarrow> string" where
  "ip_to_string h =
     ''IP version: '' @ hexadecimal (unat (ip_ver h)) @ newline @
     ''IP hdr len: '' @ hexadecimal (unat (ip_hlen h)) @ newline @
     ''IP tos: '' @ hexadecimal (unat (ip_tos h)) @ newline @
     ''IP dgram len: '' @ hexadecimal (unat (ip_len h)) @ newline @
     ''IP id: '' @ hexadecimal (unat (ip_id h)) @ newline @
     ''Flags: df: '' @ boolalpha (ip_df h) @ '' mf: '' @ boolalpha (ip_mf h) @ newline @
     ''Offset: '' @ hexadecimal (unat (ip_offset h)) @ newline @
     ''TTL: '' @ hexadecimal (unat (ip_ttl h)) @ newline @
     ''Protocol: '' @ hexadecimal (unat (ip_proto h)) @ newline @
     ''Checksum: '' @ hexadecimal (unat (ip_cksum h)) @ newline @
     ''Src addr: '' @ hexadecimal (unat (ip_src h)) @ newline @
     ''Dst addr: '' @ hexadecimal (unat (ip_dst h)) @ newline"

definition ip_summary :: "ipv4_header \<Rightarrow> string" where
  "ip_summary h =
     ''IPv'' @ hexadecimal (unat (ip_ver h)) @ '', '' @
     ''len='' @ hexadecimal (unat (ip_len h)) @ '', '' @
     ''protocol='' @ hexadecimal (unat (ip_proto h)) @ '', '' @
     (if ip_ttl h \<ge> 10 then '''' else ''ttl='' @ decimal (unat (ip_ttl h)) @ '', '') @
     ''src='' @ inet_ntoa (ip_src h) @ '', '' @
     ''dst='' @ inet_ntoa (ip_dst h)"

definition th_to_string :: "tcp_header \<Rightarrow> string" where
  "th_to_string h =
     ''TCP source port: '' @ hexadecimal (unat (th_sport h)) @ newline @
     ''TCP dest port: '' @ hexadecimal (unat (th_dport h)) @ newline @
     ''TCP seqno: '' @ hexadecimal (unat (raw_value (th_seqno h))) @ newline @
     ''TCP ackno: '' @ hexadecimal (unat (raw_value (th_ackno h))) @ newline @
     ''TCP doff: '' @ hexadecimal (unat (th_doff h)) @ newline @
     ''Flags: urg: '' @ boolalpha (th_urg h) @ '' ack: '' @ boolalpha (th_ack h) @ '' psh: '' @ boolalpha (th_psh h) @
     '' rst: '' @ boolalpha (th_rst h) @ '' syn: '' @ boolalpha (th_syn h) @ '' fin: '' @ boolalpha (th_fin h) @ newline @
     ''TCP winsize: '' @ hexadecimal (unat (th_win h)) @ newline @
     ''TCP cksum: '' @ hexadecimal (unat (th_cksum h)) @ newline @
     ''TCP uptr: '' @ hexadecimal (unat (th_uptr h)) @ newline"

definition th_summary :: "tcp_header \<Rightarrow> string" where
  "th_summary h =
     ''Header(flags='' @ (if th_syn h then ''S'' else '''') @ (if th_ack h then ''A'' else '''') @
     (if th_rst h then ''R'' else '''') @ (if th_fin h then ''F'' else '''') @
     '',seqno='' @ decimal (unat (raw_value (th_seqno h))) @ '',ack='' @ decimal (unat (raw_value (th_ackno h))) @
     '',win='' @ decimal (unat (th_win h)) @ '')''"

section \<open>hexdump\<close>

text \<open>
  \<open>pchars\<close> is a string stream that starts as a blank with the write position at its beginning: the first
  character written replaces the blank.
\<close>

definition pchars_str :: "string \<Rightarrow> string" where
  "pchars_str written = (if written = [] then '' '' else written)"

definition printable :: "byte \<Rightarrow> char" where
  "printable b = (if 0x20 \<le> b \<and> b \<le> 0x7e then char_of (unat b) else CHR ''.'')"

fun hexdump_loop :: "string \<Rightarrow> byte list \<Rightarrow> nat \<Rightarrow> string \<Rightarrow> string \<Rightarrow> string \<times> nat \<times> string" where
  "hexdump_loop indent_string [] printed pchars out = (out, printed, pchars)"
| "hexdump_loop indent_string (b # bs) printed pchars out =
     (let (out, pchars) =
        (if printed mod 16 = 0 then
           let (out, pchars) =
             (if printed \<noteq> 0 then (out @ ''    '' @ pchars_str pchars @ newline, []) else (out, pchars)) in
           (out @ indent_string @ padded 8 CHR ''0'' (hexadecimal printed) @ '':    '', pchars)
         else if printed mod 2 = 0 then (out @ '' '', pchars) else (out, pchars)) in
      hexdump_loop indent_string bs (printed + 1) (pchars @ [printable b]) (out @ hex2 b))"

definition hexdump :: "byte list \<Rightarrow> nat \<Rightarrow> string" where
  "hexdump data indent =
     (let (out, printed, pchars) = hexdump_loop (replicate indent CHR '' '') data 0 [] [];
          print_rem = (16 - printed mod 16) mod 16 in
      out @ replicate (2 * print_rem + print_rem div 2 + 4) CHR '' '' @ pchars_str pchars @ newline @ newline)"

end
