(* ===== verification/Router.thy ===== *)
theory Router
  imports Network_Interface
begin

text \<open>
  \<open>libsponge/router.{hh,cc}\<close>: the asynchronous network interface, which queues the datagrams it
  receives, and the router with its table: longest-prefix match, time to live, next hop. An index
  of the table is an \<open>int\<close>, with -1 for no route; the table is taken to be shorter than \<open>2^31\<close>.
\<close>

section \<open>AsyncNetworkInterface\<close>

record async_interface =
  ai_interface :: network_interface
  ai_datagrams_out :: "ipv4_datagram list"

definition ai_new :: "network_interface \<Rightarrow> async_interface" where
  "ai_new ni = \<lparr>ai_interface = ni, ai_datagrams_out = []\<rparr>"

definition ai_recv_frame :: "ethernet_frame \<Rightarrow> async_interface \<Rightarrow> exn + async_interface" where
  "ai_recv_frame frame ai =
     andthen (ni_recv_frame frame (ai_interface ai)) (\<lambda>(optional_dgram, ni).
       Inr (case optional_dgram of
              None \<Rightarrow> ai\<lparr>ai_interface := ni\<rparr>
            | Some dgram \<Rightarrow> ai\<lparr>ai_interface := ni, ai_datagrams_out := ai_datagrams_out ai @ [dgram]\<rparr>))"

section \<open>State\<close>

record route_elem =
  re_route_prefix :: u32
  re_prefix_length :: u8
  re_next_hop :: "address option"
  re_interface_num :: nat

record router =
  rt_interfaces :: "async_interface list"
  rt_routes :: "route_elem list"

definition rt_new :: router where
  "rt_new = \<lparr>rt_interfaces = [], rt_routes = []\<rparr>"

definition rt_add_interface :: "async_interface \<Rightarrow> router \<Rightarrow> nat \<times> router" where
  "rt_add_interface ai rt =
     (let rt = rt\<lparr>rt_interfaces := rt_interfaces rt @ [ai]\<rparr> in (length (rt_interfaces rt) - 1, rt))"

definition rt_interface :: "nat \<Rightarrow> router \<Rightarrow> exn + async_interface" where
  "rt_interface n rt =
     (if n < length (rt_interfaces rt) then Inr (rt_interfaces rt ! n)
      else Inl (Out_Of_Range ''vector::at''))"

text \<open>The debugging output prints the addresses, and can throw.\<close>

definition rt_add_route ::
  "resolver \<Rightarrow> u32 \<Rightarrow> u8 \<Rightarrow> address option \<Rightarrow> nat \<Rightarrow> router \<Rightarrow> exn + router" where
  "rt_add_route R route_prefix prefix_length next_hop interface_num rt =
     andthen (andthen (from_ipv4_numeric route_prefix) (ad_ip R)) (\<lambda>_.
     andthen (case next_hop of None \<Rightarrow> Inr ''(direct)'' | Some a \<Rightarrow> ad_ip R a) (\<lambda>_.
       Inr (rt\<lparr>rt_routes := rt_routes rt @
         [\<lparr>re_route_prefix = route_prefix, re_prefix_length = prefix_length, re_next_hop = next_hop,
           re_interface_num = interface_num\<rparr>]\<rparr>)))"

section \<open>Longest-prefix match\<close>

text \<open>\<open>0xffffffff << (32 - prefix_length)\<close>: a negative shift is undefined.\<close>

definition rt_mask :: "u8 \<Rightarrow> exn + u32" where
  "rt_mask prefix_length =
     (if prefix_length = 0 then Inr 0
      else if unat prefix_length > 32 then Inl (Undefined_Behaviour ''shift by a negative amount'')
      else Inr (push_bit (32 - unat prefix_length) 0xffffffff))"

fun rt_longest_loop :: "u32 \<Rightarrow> route_elem list \<Rightarrow> int \<Rightarrow> int \<Rightarrow> int \<Rightarrow> exn + int" where
  "rt_longest_loop dst [] longest idx pos = Inr idx"
| "rt_longest_loop dst (route # routes) longest idx pos =
     andthen (rt_mask (re_prefix_length route)) (\<lambda>mask.
       if mask AND dst = mask AND re_route_prefix route \<and> longest < int (unat (re_prefix_length route))
       then rt_longest_loop dst routes (int (unat (re_prefix_length route))) pos (pos + 1)
       else rt_longest_loop dst routes longest idx (pos + 1))"

definition rt_find_longest_prefix :: "u32 \<Rightarrow> router \<Rightarrow> exn + int" where
  "rt_find_longest_prefix dst rt = rt_longest_loop dst (rt_routes rt) (- 1) (- 1) 0"

section \<open>Forwarding\<close>

definition rt_send ::
  "nat \<Rightarrow> ipv4_datagram \<Rightarrow> (unit \<Rightarrow> exn + address) \<Rightarrow> router \<Rightarrow> exn + router" where
  "rt_send n dgram next_hop rt =
     andthen (rt_interface n rt) (\<lambda>ai.
     andthen (next_hop ()) (\<lambda>hop.
     andthen (ni_send_datagram dgram hop (ai_interface ai)) (\<lambda>ni.
       Inr (rt\<lparr>rt_interfaces := (rt_interfaces rt)[n := ai\<lparr>ai_interface := ni\<rparr>]\<rparr>))))"

text \<open>The next hop of a route: its \<open>ip()\<close> makes an address with port 0; a direct route goes to the destination.\<close>

definition rt_next_hop :: "resolver \<Rightarrow> route_elem \<Rightarrow> u32 \<Rightarrow> exn + address" where
  "rt_next_hop R route dst =
     (case re_next_hop route of
        Some hop \<Rightarrow> andthen (ad_ip R hop) (\<lambda>ip. ad_numeric R ip 0)
      | None \<Rightarrow> from_ipv4_numeric dst)"

definition dg_decrement_ttl :: "ipv4_datagram \<Rightarrow> ipv4_datagram" where
  "dg_decrement_ttl dgram = dgram\<lparr>dg_header := (dg_header dgram)\<lparr>ip_ttl := ip_ttl (dg_header dgram) - 1\<rparr>\<rparr>"

definition rt_route_one_datagram :: "resolver \<Rightarrow> ipv4_datagram \<Rightarrow> router \<Rightarrow> exn + router" where
  "rt_route_one_datagram R dgram rt =
     andthen (rt_find_longest_prefix (ip_dst (dg_header dgram)) rt) (\<lambda>idx.
       if ip_ttl (dg_header dgram) > 1 \<and> idx > - 1 then
         let dgram = dg_decrement_ttl dgram; route = rt_routes rt ! nat idx in
         rt_send (re_interface_num route) dgram
           (\<lambda>_. rt_next_hop R route (ip_dst (dg_header dgram))) rt
       else Inr rt)"

definition rt_queue :: "nat \<Rightarrow> router \<Rightarrow> ipv4_datagram list" where
  "rt_queue i rt = ai_datagrams_out (rt_interfaces rt ! i)"

definition rt_pop :: "nat \<Rightarrow> router \<Rightarrow> router" where
  "rt_pop i rt = rt\<lparr>rt_interfaces := (rt_interfaces rt)
     [i := (rt_interfaces rt ! i)\<lparr>ai_datagrams_out := tl (rt_queue i rt)\<rparr>]\<rparr>"

text \<open>Sending changes an interface, never a queue of received datagrams.\<close>

lemma rt_send_frame:
  assumes "rt_send n dgram next_hop rt = Inr rt'"
  shows "length (rt_interfaces rt') = length (rt_interfaces rt)" and "rt_routes rt' = rt_routes rt"
    and "map ai_datagrams_out (rt_interfaces rt') = map ai_datagrams_out (rt_interfaces rt)"
proof -
  obtain ai ni where "n < length (rt_interfaces rt)" "ai = rt_interfaces rt ! n"
    "rt' = rt\<lparr>rt_interfaces := (rt_interfaces rt)[n := ai\<lparr>ai_interface := ni\<rparr>]\<rparr>"
    using assms by (auto simp: rt_send_def rt_interface_def split: if_splits)
  then show "length (rt_interfaces rt') = length (rt_interfaces rt)" "rt_routes rt' = rt_routes rt"
    "map ai_datagrams_out (rt_interfaces rt') = map ai_datagrams_out (rt_interfaces rt)"
    by (simp_all add: map_update list_update_same_conv)
qed

lemma rt_route_one_frame:
  assumes "rt_route_one_datagram R dgram rt = Inr rt'"
  shows "length (rt_interfaces rt') = length (rt_interfaces rt)" and "rt_routes rt' = rt_routes rt"
    and "map ai_datagrams_out (rt_interfaces rt') = map ai_datagrams_out (rt_interfaces rt)"
  using assms rt_send_frame by (auto simp: rt_route_one_datagram_def Let_def split: if_splits)

lemma rt_queue_frame:
  assumes "rt_route_one_datagram R dgram rt = Inr rt'" and "i < length (rt_interfaces rt)"
  shows "rt_queue i rt' = rt_queue i rt"
  using rt_route_one_frame [OF assms(1)] assms(2) by (metis length_map nth_map rt_queue_def)

lemma rt_pop_queue:
  "i < length (rt_interfaces rt) \<Longrightarrow> rt_queue i (rt_pop i rt) = tl (rt_queue i rt)"
  "j \<noteq> i \<Longrightarrow> rt_queue j (rt_pop i rt) = rt_queue j rt"
  "length (rt_interfaces (rt_pop i rt)) = length (rt_interfaces rt)" "rt_routes (rt_pop i rt) = rt_routes rt"
  by (simp_all add: rt_queue_def rt_pop_def)

text \<open>\<open>while (not queue.empty())\<close>, for the queue of interface \<open>i\<close>.\<close>

function rt_drain :: "resolver \<Rightarrow> nat \<Rightarrow> router \<Rightarrow> exn + router" where
  "rt_drain R i rt =
     (if \<not> i < length (rt_interfaces rt) \<or> rt_queue i rt = [] then Inr rt
      else andthen (rt_route_one_datagram R (hd (rt_queue i rt)) rt) (\<lambda>rt. rt_drain R i (rt_pop i rt)))"
  by auto

termination
proof (relation "measure (\<lambda>(R, i, rt). length (rt_queue i rt))")
  fix R i rt rt'
  assume "\<not> (\<not> i < length (rt_interfaces rt) \<or> rt_queue i rt = [])"
    and "rt_route_one_datagram R (hd (rt_queue i rt)) rt = Inr rt'"
  then have "rt_queue i rt' = rt_queue i rt" "i < length (rt_interfaces rt')" "rt_queue i rt \<noteq> []"
    using rt_queue_frame rt_route_one_frame(1) by auto
  then show "((R, i, rt_pop i rt'), R, i, rt) \<in> measure (\<lambda>(R, i, rt). length (rt_queue i rt))"
    by (simp add: rt_pop_queue(1))
qed simp

declare rt_drain.simps [simp del]

fun rt_route_from :: "resolver \<Rightarrow> nat list \<Rightarrow> router \<Rightarrow> exn + router" where
  "rt_route_from R [] rt = Inr rt"
| "rt_route_from R (i # ids) rt = andthen (rt_drain R i rt) (rt_route_from R ids)"

definition rt_route :: "resolver \<Rightarrow> router \<Rightarrow> exn + router" where
  "rt_route R rt = rt_route_from R [0..<length (rt_interfaces rt)] rt"

end
