(* ===== verification/Routing.thy ===== *)
theory Routing
  imports Router
begin

text \<open>
  What the router does: the table lookup is longest-prefix match, one datagram is forwarded or
  dropped, and \<open>route()\<close> ends with every queue empty, having routed each datagram once.
\<close>

section \<open>Longest-prefix match\<close>

text \<open>The leading bits of the address and of the prefix agree.\<close>

definition rt_matches :: "u32 \<Rightarrow> route_elem \<Rightarrow> bool" where
  "rt_matches dst route \<longleftrightarrow>
     drop_bit (32 - unat (re_prefix_length route)) dst =
     drop_bit (32 - unat (re_prefix_length route)) (re_route_prefix route)"

text \<open>-1 when no route matches, otherwise the first of the matching routes with the longest prefix.\<close>

definition rt_best :: "u32 \<Rightarrow> route_elem list \<Rightarrow> int \<Rightarrow> bool" where
  "rt_best dst routes idx \<longleftrightarrow>
     idx = - 1 \<and> list_all (\<lambda>route. \<not> rt_matches dst route) routes \<or>
     (\<exists>i<length routes. idx = int i \<and> rt_matches dst (routes ! i) \<and>
        (\<forall>j<length routes. rt_matches dst (routes ! j) \<longrightarrow>
           re_prefix_length (routes ! j) < re_prefix_length (routes ! i) \<or>
           re_prefix_length (routes ! j) = re_prefix_length (routes ! i) \<and> i \<le> j))"

definition rt_table_ok :: "route_elem list \<Rightarrow> bool" where
  "rt_table_ok routes \<longleftrightarrow> list_all (\<lambda>route. unat (re_prefix_length route) \<le> 32) routes"

lemma masked_eq:
  fixes a b :: u32
  assumes "n < 32"
  shows "push_bit n 0xffffffff AND a = push_bit n 0xffffffff AND b \<longleftrightarrow> drop_bit n a = drop_bit n b"
proof -
  have ones: "(0xffffffff :: u32) = - 1" by simp
  have "push_bit n 0xffffffff AND a = push_bit n 0xffffffff AND b \<longleftrightarrow>
      (\<forall>j<32. n \<le> j \<longrightarrow> bit a j = bit b j)"
    unfolding ones by (auto simp: bit_eq_iff bit_simps)
  also have "\<dots> \<longleftrightarrow> drop_bit n a = drop_bit n b"
  proof
    assume same: "\<forall>j<32. n \<le> j \<longrightarrow> bit a j = bit b j"
    show "drop_bit n a = drop_bit n b"
    proof (rule bit_word_eqI)
      fix k
      show "bit (drop_bit n a) k = bit (drop_bit n b) k"
        using same bit_imp_le_length [of a "n + k"] bit_imp_le_length [of b "n + k"]
        by (cases "n + k < 32") (auto simp: bit_simps)
    qed
  next
    assume eq: "drop_bit n a = drop_bit n b"
    then have "bit (drop_bit n a) (j - n) = bit (drop_bit n b) (j - n)" for j by simp
    then show "\<forall>j<32. n \<le> j \<longrightarrow> bit a j = bit b j"
      unfolding bit_drop_bit_eq o_apply by (metis le_add_diff_inverse)
  qed
  finally show ?thesis .
qed

lemma rt_mask_matches:
  assumes "unat (re_prefix_length route) \<le> 32"
  obtains mask where "rt_mask (re_prefix_length route) = Inr mask"
    and "mask AND dst = mask AND re_route_prefix route \<longleftrightarrow> rt_matches dst route"
proof (cases "re_prefix_length route = 0")
  case True
  have "drop_bit 32 w = 0" for w :: u32 by (rule bit_word_eqI) (simp add: bit_simps)
  then show ?thesis using True that [of 0] by (simp add: rt_mask_def rt_matches_def)
next
  case False
  then have "0 < unat (re_prefix_length route)" by (simp add: unat_gt_0)
  then show ?thesis
    using assms False that [of "push_bit (32 - unat (re_prefix_length route)) 0xffffffff"]
    by (simp add: rt_mask_def rt_matches_def masked_eq)
qed

lemma rt_longest_loop_best:
  assumes "rt_table_ok routes"
    and "longest = (if idx = - 1 then - 1 else int (unat (re_prefix_length (pre ! nat idx))))"
    and "rt_best dst pre idx"
  shows "\<exists>idx'. rt_longest_loop dst routes longest idx (int (length pre)) = Inr idx' \<and>
    rt_best dst (pre @ routes) idx'"
  using assms
proof (induction routes arbitrary: pre longest idx)
  case (Cons route routes)
  have len: "unat (re_prefix_length route) \<le> 32" "rt_table_ok routes"
    using Cons.prems(1) by (simp_all add: rt_table_ok_def)
  obtain mask where mask: "rt_mask (re_prefix_length route) = Inr mask"
    "mask AND dst = mask AND re_route_prefix route \<longleftrightarrow> rt_matches dst route"
    using rt_mask_matches [OF len(1)] by blast
  let ?better = "rt_matches dst route \<and> longest < int (unat (re_prefix_length route))"
  have old: "(idx = - 1 \<and> list_all (\<lambda>route. \<not> rt_matches dst route) pre) \<or>
      (\<exists>i<length pre. idx = int i \<and> longest = int (unat (re_prefix_length (pre ! i))) \<and> rt_matches dst (pre ! i) \<and>
        (\<forall>j<length pre. rt_matches dst (pre ! j) \<longrightarrow>
           re_prefix_length (pre ! j) < re_prefix_length (pre ! i) \<or>
           re_prefix_length (pre ! j) = re_prefix_length (pre ! i) \<and> i \<le> j))"
    using Cons.prems(2,3) by (auto simp: rt_best_def)
  show ?case
  proof (cases ?better)
    case True
    have "rt_best dst (pre @ [route]) (int (length pre))"
      unfolding rt_best_def
    proof (rule disjI2, intro exI [of _ "length pre"] conjI allI impI)
      fix j
      assume j: "j < length (pre @ [route])" "rt_matches dst ((pre @ [route]) ! j)"
      show "re_prefix_length ((pre @ [route]) ! j) < re_prefix_length ((pre @ [route]) ! length pre) \<or>
          re_prefix_length ((pre @ [route]) ! j) = re_prefix_length ((pre @ [route]) ! length pre) \<and> length pre \<le> j"
      proof (cases "j < length pre")
        case in_pre: True
        then have m: "rt_matches dst (pre ! j)" using j(2) by (simp add: nth_append)
        then obtain i where "longest = int (unat (re_prefix_length (pre ! i)))"
          "re_prefix_length (pre ! j) \<le> re_prefix_length (pre ! i)"
          using old in_pre by (auto simp: list_all_length order_le_less)
        then show ?thesis using True in_pre by (auto simp: nth_append word_less_def word_le_def)
      qed (use j in \<open>auto simp: less_Suc_eq\<close>)
    qed (use True in simp_all)
    then show ?thesis
      using Cons.IH [OF len(2) _ \<open>rt_best dst (pre @ [route]) (int (length pre))\<close>] mask True
      by (simp add: nth_append add.commute)
  next
    case False
    have "rt_best dst (pre @ [route]) idx"
    proof (cases "idx = - 1")
      case True
      have "- 1 < uint (re_prefix_length route)" by (rule order.strict_trans2 [of _ 0]) simp_all
      then have "\<not> rt_matches dst route" using False Cons.prems(2) True by auto
      then show ?thesis using True old by (auto simp: rt_best_def)
    next
      case found: False
      then obtain i where i: "i < length pre" "idx = int i" "longest = int (unat (re_prefix_length (pre ! i)))"
        "rt_matches dst (pre ! i)"
        and best: "\<forall>j<length pre. rt_matches dst (pre ! j) \<longrightarrow>
           re_prefix_length (pre ! j) < re_prefix_length (pre ! i) \<or>
           re_prefix_length (pre ! j) = re_prefix_length (pre ! i) \<and> i \<le> j"
        using old by auto
      show ?thesis
        unfolding rt_best_def
      proof (rule disjI2, intro exI [of _ i] conjI allI impI)
        fix j
        assume j: "j < length (pre @ [route])" "rt_matches dst ((pre @ [route]) ! j)"
        show "re_prefix_length ((pre @ [route]) ! j) < re_prefix_length ((pre @ [route]) ! i) \<or>
            re_prefix_length ((pre @ [route]) ! j) = re_prefix_length ((pre @ [route]) ! i) \<and> i \<le> j"
        proof (cases "j < length pre")
          case True
          then show ?thesis using best j(2) i(1) by (simp add: nth_append)
        next
          case last: False
          then have "re_prefix_length route \<le> re_prefix_length (pre ! i)"
            using False j i(3) by (auto simp: nth_append less_Suc_eq word_le_def not_less)
          then show ?thesis using last j(1) i(1) by (auto simp: nth_append less_Suc_eq order_le_less)
        qed
      qed (use i in \<open>simp_all add: nth_append\<close>)
    qed
    moreover have "longest = (if idx = - 1 then - 1 else int (unat (re_prefix_length ((pre @ [route]) ! nat idx))))"
      using old Cons.prems(2) by (auto simp: nth_append)
    ultimately show ?thesis
      using Cons.IH [OF len(2), of longest idx "pre @ [route]"] mask False by (auto simp: add.commute)
  qed
qed simp

lemma rt_find_best:
  assumes "rt_table_ok (rt_routes rt)"
  obtains idx where "rt_find_longest_prefix dst rt = Inr idx" and "rt_best dst (rt_routes rt) idx"
  using rt_longest_loop_best [OF assms, of "- 1" "- 1" "[]" dst]
  by (auto simp: rt_find_longest_prefix_def rt_best_def)

lemma rt_best_unique:
  assumes "rt_best dst routes i" and "rt_best dst routes j"
  shows "i = j"
proof -
  have "a = b" if "\<forall>j<length routes. rt_matches dst (routes ! j) \<longrightarrow>
      re_prefix_length (routes ! j) < re_prefix_length (routes ! a) \<or>
      re_prefix_length (routes ! j) = re_prefix_length (routes ! a) \<and> a \<le> j"
    and "\<forall>j<length routes. rt_matches dst (routes ! j) \<longrightarrow>
      re_prefix_length (routes ! j) < re_prefix_length (routes ! b) \<or>
      re_prefix_length (routes ! j) = re_prefix_length (routes ! b) \<and> b \<le> j"
    and "a < length routes" "b < length routes" "rt_matches dst (routes ! a)" "rt_matches dst (routes ! b)" for a b
    using that by (metis less_asym order_antisym less_irrefl)
  then show ?thesis using assms unfolding rt_best_def list_all_length by metis
qed

section \<open>Queues\<close>

definition rt_with_queues :: "ipv4_datagram list list \<Rightarrow> router \<Rightarrow> router" where
  "rt_with_queues qs rt =
     rt\<lparr>rt_interfaces := map2 (\<lambda>ai q. ai\<lparr>ai_datagrams_out := q\<rparr>) (rt_interfaces rt) qs\<rparr>"

definition rt_queues :: "router \<Rightarrow> ipv4_datagram list list" where
  "rt_queues rt = map ai_datagrams_out (rt_interfaces rt)"

fun rt_route_all :: "resolver \<Rightarrow> ipv4_datagram list \<Rightarrow> router \<Rightarrow> exn + router" where
  "rt_route_all R [] rt = Inr rt"
| "rt_route_all R (dgram # dgrams) rt = andthen (rt_route_one_datagram R dgram rt) (rt_route_all R dgrams)"

lemma andthen_assoc: "andthen (andthen m f) g = andthen m (\<lambda>x. andthen (f x) g)"
  by (cases m) auto

lemma rt_route_all_append:
  "rt_route_all R (ds @ es) = (\<lambda>rt. andthen (rt_route_all R ds rt) (rt_route_all R es))"
proof (induction ds)
  case (Cons d ds)
  show ?case by (rule ext) (simp add: Cons andthen_assoc)
qed (simp add: fun_eq_iff)

lemma rt_with_own_queues: "rt_with_queues (rt_queues rt) rt = rt"
proof -
  have "map2 (\<lambda>ai q. ai\<lparr>ai_datagrams_out := q\<rparr>) ais (map ai_datagrams_out ais) = ais" for ais :: "async_interface list"
    by (induction ais) simp_all
  then show ?thesis by (simp add: rt_with_queues_def rt_queues_def)
qed

lemma rt_send_with_queues:
  assumes "length qs = length (rt_interfaces rt)"
  shows "rt_send n dgram next_hop (rt_with_queues qs rt) =
    andthen (rt_send n dgram next_hop rt) (\<lambda>rt. Inr (rt_with_queues qs rt))"
proof (cases "n < length (rt_interfaces rt)")
  case True
  have upd: "(map2 (\<lambda>ai q. ai\<lparr>ai_datagrams_out := q\<rparr>) ais qs)
        [n := (ais ! n)\<lparr>ai_datagrams_out := qs ! n, ai_interface := ni\<rparr>] =
      map2 (\<lambda>ai q. ai\<lparr>ai_datagrams_out := q\<rparr>) (ais[n := (ais ! n)\<lparr>ai_interface := ni\<rparr>]) qs"
    if "length qs = length ais" "n < length ais" for ais ni
    using that by (intro nth_equalityI) (auto simp: nth_list_update)
  show ?thesis
    using True assms upd [of "rt_interfaces rt"]
    by (cases "next_hop ()"; simp add: rt_send_def rt_interface_def rt_with_queues_def)
      (cases "ni_send_datagram dgram (projr (next_hop ())) (ai_interface (rt_interfaces rt ! n))"; simp)
qed (use assms in \<open>simp add: rt_send_def rt_interface_def rt_with_queues_def\<close>)

lemma rt_route_one_with_queues:
  assumes "length qs = length (rt_interfaces rt)"
  shows "rt_route_one_datagram R dgram (rt_with_queues qs rt) =
    andthen (rt_route_one_datagram R dgram rt) (\<lambda>rt. Inr (rt_with_queues qs rt))"
proof -
  have same: "rt_routes (rt_with_queues qs rt) = rt_routes rt" by (simp add: rt_with_queues_def)
  show ?thesis
    by (cases "rt_find_longest_prefix (ip_dst (dg_header dgram)) rt")
      (simp_all add: rt_route_one_datagram_def rt_find_longest_prefix_def same Let_def rt_send_with_queues [OF assms])
qed

lemma rt_pop_with_queues:
  assumes "length qs = length (rt_interfaces rt)" and "i < length qs"
  shows "rt_queue i (rt_with_queues qs rt) = qs ! i"
    and "rt_pop i (rt_with_queues qs rt) = rt_with_queues (qs[i := tl (qs ! i)]) rt"
proof -
  show q: "rt_queue i (rt_with_queues qs rt) = qs ! i"
    using assms by (simp add: rt_queue_def rt_with_queues_def)
  have "(map2 (\<lambda>ai q. ai\<lparr>ai_datagrams_out := q\<rparr>) ais qs)[i := (map2 (\<lambda>ai q. ai\<lparr>ai_datagrams_out := q\<rparr>) ais qs ! i)\<lparr>ai_datagrams_out := q\<rparr>] =
      map2 (\<lambda>ai q. ai\<lparr>ai_datagrams_out := q\<rparr>) ais (qs[i := q])"
    if "length qs = length ais" for ais :: "async_interface list" and q
    using that assms(2) by (intro nth_equalityI) (auto simp: nth_list_update)
  then show "rt_pop i (rt_with_queues qs rt) = rt_with_queues (qs[i := tl (qs ! i)]) rt"
    using assms(1) by (simp add: rt_pop_def q) (simp add: rt_with_queues_def)
qed

lemma rt_route_all_frame:
  "rt_route_all R ds rt = Inr rt' \<Longrightarrow>
     length (rt_interfaces rt') = length (rt_interfaces rt) \<and> rt_routes rt' = rt_routes rt \<and> rt_queues rt' = rt_queues rt"
  using rt_route_one_frame by (induction ds arbitrary: rt) (fastforce simp: rt_queues_def)+

lemma rt_drain_all:
  assumes "length qs = length (rt_interfaces rt)" and "i < length qs"
  shows "rt_drain R i (rt_with_queues qs rt) =
    andthen (rt_route_all R (qs ! i) rt) (\<lambda>rt. Inr (rt_with_queues (qs[i := []]) rt))"
  using assms
proof (induction "qs ! i" arbitrary: qs rt)
  case Nil
  then have "rt_queue i (rt_with_queues qs rt) = []" using rt_pop_with_queues(1) by simp
  moreover have "qs[i := []] = qs" using Nil.hyps Nil.prems(2) by (metis list_update_id)
  ultimately show ?case using Nil.hyps by (subst rt_drain.simps) simp
next
  case (Cons d ds)
  have q: "rt_queue i (rt_with_queues qs rt) = d # ds"
    using rt_pop_with_queues(1) [OF Cons.prems] Cons.hyps(2) by simp
  have len: "i < length (rt_interfaces (rt_with_queues qs rt))" using Cons.prems by (simp add: rt_with_queues_def)
  have "rt_drain R i (rt_with_queues qs rt) =
      andthen (rt_route_one_datagram R d rt) (\<lambda>rt. rt_drain R i (rt_pop i (rt_with_queues qs rt)))"
    using len q by (subst rt_drain.simps) (simp add: rt_route_one_with_queues [OF Cons.prems(1)] andthen_assoc)
  also have "\<dots> = andthen (rt_route_one_datagram R d rt)
      (\<lambda>rt. andthen (rt_route_all R ds rt) (\<lambda>rt. Inr (rt_with_queues (qs[i := []]) rt)))"
  proof (rule andthen_cong [OF refl])
    fix rt'
    assume "rt_route_one_datagram R d rt = Inr rt'"
    then have len': "length qs = length (rt_interfaces rt')" using rt_route_one_frame(1) Cons.prems(1) by simp
    have "rt_pop i (rt_with_queues qs rt') = rt_with_queues (qs[i := ds]) rt'"
      using rt_pop_with_queues(2) [OF len' Cons.prems(2)] Cons.hyps(2) by (metis list.sel(3))
    then show "rt_drain R i (rt_pop i (rt_with_queues qs rt')) =
        andthen (rt_route_all R ds rt') (\<lambda>rt. Inr (rt_with_queues (qs[i := []]) rt))"
      using Cons.hyps(1) [of "qs[i := ds]" rt'] Cons.prems(2) len' by simp
  qed
  finally show ?case using Cons.hyps(2) by (simp add: andthen_assoc flip: Cons.hyps(2))
qed

lemma rt_route_from_all:
  assumes "length qs = length (rt_interfaces rt)" and "k \<le> length qs"
  shows "rt_route_from R [k..<length qs] (rt_with_queues (replicate k [] @ drop k qs) rt) =
    andthen (rt_route_all R (concat (drop k qs)) rt) (\<lambda>rt. Inr (rt_with_queues (replicate (length qs) []) rt))"
  using assms
proof (induction "length qs - k" arbitrary: k rt)
  case 0
  then show ?case by simp
next
  case (Suc n)
  let ?qs = "replicate k [] @ drop k qs"
  have k: "k < length qs" using Suc.hyps(2) by simp
  have at: "?qs ! k = qs ! k" "?qs[k := []] = replicate (Suc k) [] @ drop (Suc k) qs"
    using k by (simp_all add: nth_append list_update_append Cons_nth_drop_Suc [symmetric] replicate_append_same [symmetric])
  have "rt_route_from R [k..<length qs] (rt_with_queues ?qs rt) =
      andthen (rt_route_all R (qs ! k) rt)
        (\<lambda>rt. rt_route_from R [Suc k..<length qs] (rt_with_queues (replicate (Suc k) [] @ drop (Suc k) qs) rt))"
    using rt_drain_all [of ?qs rt k R] Suc.prems k at by (simp add: upt_conv_Cons andthen_assoc)
  also have "\<dots> = andthen (rt_route_all R (qs ! k) rt)
      (\<lambda>rt. andthen (rt_route_all R (concat (drop (Suc k) qs)) rt)
        (\<lambda>rt. Inr (rt_with_queues (replicate (length qs) []) rt)))"
  proof (rule andthen_cong [OF refl])
    fix rt'
    assume "rt_route_all R (qs ! k) rt = Inr rt'"
    then have "length qs = length (rt_interfaces rt')" using rt_route_all_frame Suc.prems(1) by metis
    then show "rt_route_from R [Suc k..<length qs] (rt_with_queues (replicate (Suc k) [] @ drop (Suc k) qs) rt') =
        andthen (rt_route_all R (concat (drop (Suc k) qs)) rt')
          (\<lambda>rt. Inr (rt_with_queues (replicate (length qs) []) rt))"
      using Suc.hyps(1) [of "Suc k" rt'] Suc.hyps(2) k by simp
  qed
  finally show ?case
    using k by (simp add: Cons_nth_drop_Suc [symmetric] rt_route_all_append andthen_assoc)
qed

section \<open>One datagram\<close>

lemma rt_route_one_best:
  assumes "numeric_service R" and "rt_table_ok (rt_routes rt)"
    and "list_all (\<lambda>route. re_next_hop route = None \<or> (\<exists>ip port. re_next_hop route = Some (inet_address ip port))) (rt_routes rt)"
    and "rt_best (ip_dst (dg_header dgram)) (rt_routes rt) idx"
  defines "route \<equiv> rt_routes rt ! nat idx"
  defines "hop \<equiv> (case re_next_hop route of None \<Rightarrow> ip_dst (dg_header dgram) | Some a \<Rightarrow> projr (ipv4_numeric a))"
  shows "rt_route_one_datagram R dgram rt =
    (if unat (ip_ttl (dg_header dgram)) \<le> 1 \<or> idx = - 1 then Inr rt
     else rt_send (re_interface_num route) (dg_decrement_ttl dgram) (\<lambda>_. Inr (inet_address hop 0)) rt)"
proof -
  obtain i where "rt_find_longest_prefix (ip_dst (dg_header dgram)) rt = Inr i"
    "rt_best (ip_dst (dg_header dgram)) (rt_routes rt) i" using rt_find_best [OF assms(2)] by blast
  then have find: "rt_find_longest_prefix (ip_dst (dg_header dgram)) rt = Inr idx"
    using rt_best_unique assms(4) by metis
  have idx: "idx = - 1 \<or> 0 \<le> idx \<and> nat idx < length (rt_routes rt)" using assms(4) by (auto simp: rt_best_def)
  have ttl: "ip_ttl (dg_header dgram) > 1 \<longleftrightarrow> \<not> unat (ip_ttl (dg_header dgram)) \<le> 1"
    by (auto simp: word_less_nat_alt)
  have "rt_next_hop R route (ip_dst (dg_header dgram)) = Inr (inet_address hop 0)" if "0 \<le> idx"
  proof -
    have "re_next_hop route = None \<or> (\<exists>ip port. re_next_hop route = Some (inet_address ip port))"
      using assms(3) idx that by (auto simp: route_def list_all_length)
    then show ?thesis
      using numeric_service.ip_inet [OF assms(1)] numeric_service.numeric_inet [OF assms(1)]
      by (auto simp: rt_next_hop_def hop_def)
  qed
  then show ?thesis
    using idx ttl find
    by (auto simp: rt_route_one_datagram_def Let_def rt_send_def route_def dg_decrement_ttl_def)
qed

section \<open>An example table\<close>

definition example_route :: "u32 \<Rightarrow> u8 \<Rightarrow> u32 option \<Rightarrow> nat \<Rightarrow> route_elem" where
  "example_route prefix len hop n = \<lparr>re_route_prefix = prefix, re_prefix_length = len,
     re_next_hop = map_option (\<lambda>ip. inet_address ip 0) hop, re_interface_num = n\<rparr>"

definition example_router :: router where
  "example_router = \<lparr>rt_interfaces = [], rt_routes =
     [example_route 0 0 (Some 0x0A000001) 0, example_route 0xAC100000 16 None 1, example_route 0xAC100100 24 None 0,
      example_route 0xAC100000 16 None 2]\<rparr>"

lemma example_router_ok: "rt_table_ok (rt_routes example_router)"
  by (simp add: example_router_def rt_table_ok_def example_route_def)

section \<open>Properties\<close>

text \<open>C7: (longest-prefix match) With no prefix longer than 32 bits, the lookup is defined and gives -1 when
  no route's prefix agrees with the leading bits of the address, otherwise the index of a matching
  route such that every other matching route has a shorter prefix, or the same length and comes later
  in the table.\<close>

theorem longest_prefix_match:
  assumes "rt_table_ok (rt_routes rt)"
  shows "rt_find_longest_prefix dst rt = Inr idx \<longleftrightarrow> rt_best dst (rt_routes rt) idx"
  using rt_find_best [OF assms, of dst] rt_best_unique by (metis sum.inject(2))

theorem longest_prefix_match_witness:
  "rt_find_longest_prefix 0xAC100203 example_router = Inr 1 \<and> rt_best 0xAC100203 (rt_routes example_router) 1"
  using longest_prefix_match [OF example_router_ok, of "0xAC100203" 1]
  by (simp add: rt_find_longest_prefix_def example_router_def example_route_def rt_mask_def)

text \<open>C19: (forwarding) A datagram with a time to live of 0 or 1, or without a route, is dropped and nothing
  changes. Any other datagram goes, with its time to live less one and nothing else changed, to the
  interface of the best route, for the route's next hop or else for its own destination.\<close>

theorem datagram_forwarded_or_dropped:
  assumes "numeric_service R" and "rt_table_ok (rt_routes rt)"
    and "list_all (\<lambda>route. re_next_hop route = None \<or> (\<exists>ip port. re_next_hop route = Some (inet_address ip port))) (rt_routes rt)"
    and "rt_best (ip_dst (dg_header dgram)) (rt_routes rt) idx"
  defines "route \<equiv> rt_routes rt ! nat idx"
  defines "hop \<equiv> (case re_next_hop route of None \<Rightarrow> ip_dst (dg_header dgram) | Some a \<Rightarrow> projr (ipv4_numeric a))"
  shows "rt_route_one_datagram R dgram rt =
    (if unat (ip_ttl (dg_header dgram)) \<le> 1 \<or> idx = - 1 then Inr rt
     else rt_send (re_interface_num route) (dg_decrement_ttl dgram) (\<lambda>_. Inr (inet_address hop 0)) rt) \<and>
    (1 < unat (ip_ttl (dg_header dgram)) \<longrightarrow>
       unat (ip_ttl (dg_header (dg_decrement_ttl dgram))) = unat (ip_ttl (dg_header dgram)) - 1)"
proof -
  have "unat (ip_ttl (dg_header (dg_decrement_ttl dgram))) = unat (ip_ttl (dg_header dgram)) - 1"
    if "1 < unat (ip_ttl (dg_header dgram))"
  proof -
    have "ip_ttl (dg_header dgram) \<noteq> 0" using that by auto
    then show ?thesis by (simp add: dg_decrement_ttl_def unat_minus_one)
  qed
  then show ?thesis using rt_route_one_best [OF assms(1-4)] by (auto simp: route_def hop_def)
qed

theorem datagram_forwarded_or_dropped_witness:
  "let d = dg_new\<lparr>dg_header := ip_new\<lparr>ip_ttl := 1, ip_dst := 0xAC100203\<rparr>\<rparr> in
   rt_route_one_datagram numeric_resolver d example_router = Inr example_router"
proof -
  let ?d = "dg_new\<lparr>dg_header := ip_new\<lparr>ip_ttl := 1, ip_dst := 0xAC100203\<rparr>\<rparr>"
  have "rt_find_longest_prefix 0xAC100203 example_router = Inr 1"
    by (simp add: rt_find_longest_prefix_def example_router_def example_route_def rt_mask_def)
  then have "rt_best (ip_dst (dg_header ?d)) (rt_routes example_router) 1"
    using rt_find_best [OF example_router_ok, of "0xAC100203"] by (metis ipv4_datagram.simps(1) dg_new_def ipv4_datagram.update_convs(1) ipv4_header.select_convs(13) ipv4_header.surjective ipv4_header.update_convs(13) sum.inject(2))
  then show ?thesis
    using datagram_forwarded_or_dropped [OF numeric.numeric_service_axioms example_router_ok, of ?d 1]
    by (simp add: example_router_def example_route_def)
qed

text \<open>C20: (the router's loop) \<open>route()\<close> ends: when no step throws, every queue of received datagrams is empty
  afterwards, and the effect is that of routing each datagram received so far once, interface by
  interface in the order of arrival; when a step throws, so does the sequence of single steps.\<close>

theorem route_drains_queues:
  "rt_route R rt =
    andthen (rt_route_all R (concat (rt_queues rt)) rt)
      (\<lambda>rt'. Inr (rt_with_queues (replicate (length (rt_interfaces rt)) []) rt'))"
  using rt_route_from_all [of "rt_queues rt" rt 0 R]
  by (simp add: rt_route_def rt_with_own_queues) (simp add: rt_queues_def)

end
