(* ===== verification/Network_Simulator.thy ===== *)
theory Network_Simulator
  imports Printers Routing "HOL-Library.AList"
begin

text \<open>
  \<open>apps/network_simulator.cc\<close>: hosts around a router, with the frames carried between their interfaces. The
  random generator is a parameter: the addresses and payload numbers it gives are arguments. What is
  printed on the way is left out, except what an exception says.
\<close>

section \<open>Addresses\<close>

fun random_host_ethernet_address :: "ethernet_address \<Rightarrow> ethernet_address" where
  "random_host_ethernet_address (EA b0 b1 b2 b3 b4 b5) = EA ((b0 OR 0x02) AND 0xfe) b1 b2 b3 b4 b5"

fun random_router_ethernet_address :: "ethernet_address \<Rightarrow> ethernet_address" where
  "random_router_ethernet_address (EA b0 b1 b2 b3 b4 b5) = EA 0x02 0 0 b3 b4 b5"

definition ip_of :: "resolver \<Rightarrow> string \<Rightarrow> exn + u32" where
  "ip_of R str = andthen (ad_numeric R str 0) ipv4_numeric"

definition text_of :: "byte list \<Rightarrow> string" where "text_of = map (\<lambda>b. char_of (unat b))"
definition bytes_of_text :: "string \<Rightarrow> byte list" where "bytes_of_text = map of_char"

text \<open>\<open>clear(queue1, queue2)\<close>: popping an empty queue is undefined.\<close>

definition clear_queue :: "'a list \<Rightarrow> 'a list \<Rightarrow> exn + 'a list" where
  "clear_queue queue1 queue2 =
     (if length queue1 \<le> length queue2 then Inr (drop (length queue1) queue2)
      else Inl (Undefined_Behaviour ''queue::pop''))"

definition frame_summary :: "ethernet_frame \<Rightarrow> exn + string" where
  "frame_summary frame =
     (let ret = eth_to_string (ef_header frame) in
      if eth_type (ef_header frame) = TYPE_IPv4 then
        andthen (bl_to_buffer (ef_payload frame)) (\<lambda>buffer.
          let (result, dgram) = dg_parse buffer dg_new in
          Inr (ret @
            (if result = NoError
             then '' '' @ ip_summary (dg_header dgram) @ '' payload='' @ [CHR 0x22] @
                  text_of (bl_concatenate (dg_payload dgram)) @ [CHR 0x22]
             else '' (bad IPv4)'')))
      else if eth_type (ef_header frame) = TYPE_ARP then
        andthen (bl_to_buffer (ef_payload frame)) (\<lambda>buffer.
          let (result, arp) = arp_parse buffer arp_new in
          Inr (ret @ (if result = NoError then '' '' @ arp_to_string arp else '' (bad ARP)'')))
      else Inr ret)"

section \<open>Host\<close>

record host =
  ho_name :: string
  ho_my_address :: address
  ho_interface :: async_interface
  ho_next_hop :: address
  ho_expecting_to_receive :: "ipv4_datagram list"

text \<open>\<open>x.serialize().concatenate() == expected.serialize().concatenate()\<close>.\<close>

definition dg_same :: "ipv4_datagram \<Rightarrow> ipv4_datagram \<Rightarrow> exn + bool" where
  "dg_same x y =
     andthen (dg_serialize x) (\<lambda>a. andthen (dg_serialize y) (\<lambda>b.
       Inr (bl_concatenate a = bl_concatenate b)))"

fun ho_expecting :: "ipv4_datagram \<Rightarrow> ipv4_datagram list \<Rightarrow> exn + bool" where
  "ho_expecting expected [] = Inr False"
| "ho_expecting expected (x # xs) =
     andthen (dg_same x expected) (\<lambda>same. if same then Inr True else ho_expecting expected xs)"

fun ho_remove_expectation :: "ipv4_datagram \<Rightarrow> ipv4_datagram list \<Rightarrow> exn + ipv4_datagram list" where
  "ho_remove_expectation expected [] = Inr []"
| "ho_remove_expectation expected (x # xs) =
     andthen (dg_same x expected) (\<lambda>same.
       if same then Inr xs else andthen (ho_remove_expectation expected xs) (\<lambda>xs. Inr (x # xs)))"

definition ho_new :: "resolver \<Rightarrow> string \<Rightarrow> address \<Rightarrow> address \<Rightarrow> ethernet_address \<Rightarrow> exn + host" where
  "ho_new R name my_address next_hop random =
     andthen (ni_new R (random_host_ethernet_address random) my_address) (\<lambda>ni.
       Inr \<lparr>ho_name = name, ho_my_address = my_address, ho_interface = ai_new ni, ho_next_hop = next_hop,
            ho_expecting_to_receive = []\<rparr>)"

definition ho_send_to :: "address \<Rightarrow> u8 \<Rightarrow> u32 \<Rightarrow> host \<Rightarrow> exn + ipv4_datagram \<times> host" where
  "ho_send_to destination ttl random h =
     andthen (ipv4_numeric (ho_my_address h)) (\<lambda>src.
     andthen (ipv4_numeric destination) (\<lambda>dst.
       let payload = bl_of_string (bytes_of_text (''random payload: {'' @ decimal (unat random) @ ''}''));
           header = ip_new\<lparr>ip_src := src, ip_dst := dst,
             ip_len := of_nat (unat (ip_hlen ip_new) * 4 + bl_size payload), ip_ttl := ttl\<rparr>;
           dgram = \<lparr>dg_header = header, dg_payload = payload\<rparr> in
       andthen (ni_send_datagram dgram (ho_next_hop h) (ai_interface (ho_interface h))) (\<lambda>ni.
         Inr (dgram, h\<lparr>ho_interface := (ho_interface h)\<lparr>ai_interface := ni\<rparr>\<rparr>))))"

definition ho_expect :: "ipv4_datagram \<Rightarrow> host \<Rightarrow> host" where
  "ho_expect expected h = h\<lparr>ho_expecting_to_receive := ho_expecting_to_receive h @ [expected]\<rparr>"

definition dg_text :: "ipv4_datagram \<Rightarrow> string" where
  "dg_text d = ip_summary (dg_header d) @ '' payload='' @ [CHR 0x22] @ text_of (bl_concatenate (dg_payload d)) @ [CHR 0x22]"

text \<open>\<open>check\<close>: the received datagrams, then what is still expected.\<close>

fun ho_check_received ::
  "string \<Rightarrow> ipv4_datagram list \<Rightarrow> ipv4_datagram list \<Rightarrow> exn + ipv4_datagram list" where
  "ho_check_received name [] expecting = Inr expecting"
| "ho_check_received name (d # ds) expecting =
     andthen (ho_expecting d expecting) (\<lambda>known.
       if \<not> known
       then Inl (Runtime_Error (''Host '' @ name @ '' received unexpected Internet datagram: '' @ dg_text d))
       else andthen (ho_remove_expectation d expecting) (\<lambda>expecting. ho_check_received name ds expecting))"

definition ho_check :: "host \<Rightarrow> exn + host" where
  "ho_check h =
     andthen (ho_check_received (ho_name h) (ai_datagrams_out (ho_interface h)) (ho_expecting_to_receive h))
       (\<lambda>expecting.
         let h = h\<lparr>ho_interface := (ho_interface h)\<lparr>ai_datagrams_out := []\<rparr>,
                   ho_expecting_to_receive := expecting\<rparr> in
         if expecting \<noteq> []
         then Inl (Runtime_Error (''Host '' @ ho_name h @
                '' did NOT receive an expected Internet datagram: '' @ dg_text (hd expecting)))
         else Inr h)"

section \<open>Carrying frames\<close>

text \<open>The payload of a frame arrives as one buffer.\<close>

fun deliver :: "ethernet_frame list \<Rightarrow> async_interface \<Rightarrow> exn + async_interface" where
  "deliver [] dst = Inr dst"
| "deliver (frame # frames) dst =
     andthen (ai_recv_frame (frame\<lparr>ef_payload := bl_of_string (bl_concatenate (ef_payload frame))\<rparr>) dst)
       (deliver frames)"

definition ai_frames_out :: "async_interface \<Rightarrow> ethernet_frame list" where
  "ai_frames_out ai = ni_frames_out (ai_interface ai)"

definition ai_clear :: "ethernet_frame list \<Rightarrow> async_interface \<Rightarrow> exn + async_interface" where
  "ai_clear sent ai =
     andthen (clear_queue sent (ai_frames_out ai)) (\<lambda>frames.
       Inr (ai\<lparr>ai_interface := (ai_interface ai)\<lparr>ni_frames_out := frames\<rparr>\<rparr>))"

definition exchange_frames ::
  "async_interface \<Rightarrow> async_interface \<Rightarrow> exn + async_interface \<times> async_interface" where
  "exchange_frames x y =
     (let x_frames = ai_frames_out x; y_frames = ai_frames_out y in
      andthen (deliver x_frames y) (\<lambda>y.
      andthen (deliver y_frames x) (\<lambda>x.
      andthen (ai_clear x_frames x) (\<lambda>x.
      andthen (ai_clear y_frames y) (\<lambda>y. Inr (x, y))))))"

definition exchange_frames3 ::
  "async_interface \<Rightarrow> async_interface \<Rightarrow> async_interface \<Rightarrow>
     exn + async_interface \<times> async_interface \<times> async_interface" where
  "exchange_frames3 x y z =
     (let x_frames = ai_frames_out x; y_frames = ai_frames_out y; z_frames = ai_frames_out z in
      andthen (deliver x_frames y) (\<lambda>y.
      andthen (deliver x_frames z) (\<lambda>z.
      andthen (deliver y_frames x) (\<lambda>x.
      andthen (deliver y_frames z) (\<lambda>z.
      andthen (deliver z_frames x) (\<lambda>x.
      andthen (deliver z_frames y) (\<lambda>y.
      andthen (ai_clear x_frames x) (\<lambda>x.
      andthen (ai_clear y_frames y) (\<lambda>y.
      andthen (ai_clear z_frames z) (\<lambda>z. Inr (x, y, z)))))))))))"

section \<open>Network\<close>

text \<open>
  The hosts are kept in the order in which they are inserted; that of the unordered map only decides which
  host is checked first.
\<close>

record network =
  nw_router :: router
  nw_hosts :: "(string \<times> host) list"

definition nw_host :: "string \<Rightarrow> network \<Rightarrow> exn + host" where
  "nw_host name nw =
     (case map_of (nw_hosts nw) name of
        None \<Rightarrow> Inl (Runtime_Error (''unknown host: '' @ name))
      | Some h \<Rightarrow> if ho_name h \<noteq> name then Inl (Runtime_Error (''invalid host: '' @ name)) else Inr h)"

definition nw_set_host :: "host \<Rightarrow> network \<Rightarrow> network" where
  "nw_set_host h nw = nw\<lparr>nw_hosts := AList.update (ho_name h) h (nw_hosts nw)\<rparr>"

text \<open>The numbers that \<open>add_interface\<close> gives to the seven interfaces.\<close>

definition default_id :: nat where "default_id = 0"
definition eth0_id :: nat where "eth0_id = 1"
definition eth1_id :: nat where "eth1_id = 2"
definition eth2_id :: nat where "eth2_id = 3"
definition uun3_id :: nat where "uun3_id = 4"
definition hs4_id :: nat where "hs4_id = 5"
definition mit5_id :: nat where "mit5_id = 6"

lemmas nw_ids = default_id_def eth0_id_def eth1_id_def eth2_id_def uun3_id_def hs4_id_def mit5_id_def

definition nw_interface_ips :: "string list" where
  "nw_interface_ips =
     [''171.67.76.46'', ''10.0.0.1'', ''172.16.0.1'', ''192.168.0.1'', ''198.178.229.1'', ''143.195.0.2'',
      ''128.30.76.255'']"

fun nw_add_interfaces :: "resolver \<Rightarrow> (string \<times> ethernet_address) list \<Rightarrow> router \<Rightarrow> exn + router" where
  "nw_add_interfaces R [] rt = Inr rt"
| "nw_add_interfaces R ((ip, random) # rest) rt =
     andthen (ad_numeric R ip 0) (\<lambda>a.
     andthen (ni_new R (random_router_ethernet_address random) a) (\<lambda>ni.
       nw_add_interfaces R rest (snd (rt_add_interface (ai_new ni) rt))))"

definition nw_host_list :: "(string \<times> string \<times> string) list" where
  "nw_host_list =
     [(''applesauce'', ''10.0.0.2'', ''10.0.0.1''), (''default_router'', ''171.67.76.1'', ''0''),
      (''cherrypie'', ''192.168.0.2'', ''192.168.0.1''), (''hs_router'', ''143.195.0.1'', ''0''),
      (''dm42'', ''198.178.229.42'', ''198.178.229.1''), (''dm43'', ''198.178.229.43'', ''198.178.229.1'')]"

fun nw_add_hosts ::
  "resolver \<Rightarrow> ((string \<times> string \<times> string) \<times> ethernet_address) list \<Rightarrow> network \<Rightarrow> exn + network" where
  "nw_add_hosts R [] nw = Inr nw"
| "nw_add_hosts R (((name, ip, hop), random) # rest) nw =
     andthen (ad_numeric R ip 0) (\<lambda>my_address.
     andthen (ad_numeric R hop 0) (\<lambda>next_hop.
     andthen (ho_new R name my_address next_hop random) (\<lambda>h.
       nw_add_hosts R rest (nw\<lparr>nw_hosts := nw_hosts nw @ [(name, h)]\<rparr>))))"

datatype hop_spec = Direct | Via_Host string | Via_Ip string

fun nw_hop :: "resolver \<Rightarrow> hop_spec \<Rightarrow> network \<Rightarrow> exn + address option" where
  "nw_hop R Direct nw = Inr None"
| "nw_hop R (Via_Host name) nw = andthen (nw_host name nw) (\<lambda>h. Inr (Some (ho_my_address h)))"
| "nw_hop R (Via_Ip ip) nw = andthen (ad_numeric R ip 0) (\<lambda>a. Inr (Some a))"

definition nw_route_list :: "(string \<times> u8 \<times> hop_spec \<times> nat) list" where
  "nw_route_list =
     [(''0.0.0.0'', 0, Via_Host ''default_router'', default_id), (''10.0.0.0'', 8, Direct, eth0_id),
      (''172.16.0.0'', 16, Direct, eth1_id), (''192.168.0.0'', 24, Direct, eth2_id),
      (''198.178.229.0'', 24, Direct, uun3_id), (''143.195.0.0'', 17, Via_Host ''hs_router'', hs4_id),
      (''143.195.128.0'', 18, Via_Host ''hs_router'', hs4_id), (''143.195.192.0'', 19, Via_Host ''hs_router'', hs4_id),
      (''128.30.76.255'', 16, Via_Ip ''128.30.0.1'', mit5_id)]"

fun nw_add_routes :: "resolver \<Rightarrow> (string \<times> u8 \<times> hop_spec \<times> nat) list \<Rightarrow> network \<Rightarrow> exn + network" where
  "nw_add_routes R [] nw = Inr nw"
| "nw_add_routes R ((prefix, len, hop, n) # rest) nw =
     andthen (ip_of R prefix) (\<lambda>p.
     andthen (nw_hop R hop nw) (\<lambda>next_hop.
     andthen (rt_add_route R p len next_hop n (nw_router nw)) (\<lambda>rt.
       nw_add_routes R rest (nw\<lparr>nw_router := rt\<rparr>))))"

text \<open>\<open>randoms\<close> are the thirteen addresses drawn, in this order.\<close>

definition nw_new :: "resolver \<Rightarrow> ethernet_address list \<Rightarrow> exn + network" where
  "nw_new R randoms =
     andthen (nw_add_interfaces R (zip nw_interface_ips randoms) rt_new) (\<lambda>rt.
     andthen (nw_add_hosts R (zip nw_host_list (drop 7 randoms)) \<lparr>nw_router = rt, nw_hosts = []\<rparr>) (\<lambda>nw.
       nw_add_routes R nw_route_list nw))"

section \<open>Simulation\<close>

definition nw_set_interface :: "nat \<Rightarrow> async_interface \<Rightarrow> network \<Rightarrow> network" where
  "nw_set_interface n ai nw =
     nw\<lparr>nw_router := (nw_router nw)\<lparr>rt_interfaces := (rt_interfaces (nw_router nw))[n := ai]\<rparr>\<rparr>"

definition nw_set_host_interface :: "host \<Rightarrow> async_interface \<Rightarrow> network \<Rightarrow> network" where
  "nw_set_host_interface h ai nw = nw_set_host (h\<lparr>ho_interface := ai\<rparr>) nw"

definition nw_exchange :: "nat \<Rightarrow> string \<Rightarrow> network \<Rightarrow> exn + network" where
  "nw_exchange n name nw =
     andthen (rt_interface n (nw_router nw)) (\<lambda>x.
     andthen (nw_host name nw) (\<lambda>h.
     andthen (exchange_frames x (ho_interface h)) (\<lambda>(x, y).
       Inr (nw_set_host_interface h y (nw_set_interface n x nw)))))"

definition nw_exchange3 :: "nat \<Rightarrow> string \<Rightarrow> string \<Rightarrow> network \<Rightarrow> exn + network" where
  "nw_exchange3 n name1 name2 nw =
     andthen (rt_interface n (nw_router nw)) (\<lambda>x.
     andthen (nw_host name1 nw) (\<lambda>h1.
     andthen (nw_host name2 nw) (\<lambda>h2.
     andthen (exchange_frames3 x (ho_interface h1) (ho_interface h2)) (\<lambda>(x, y, z).
       Inr (nw_set_host_interface h2 z (nw_set_host_interface h1 y (nw_set_interface n x nw)))))))"

definition nw_simulate_physical_connections :: "network \<Rightarrow> exn + network" where
  "nw_simulate_physical_connections nw =
     andthen (nw_exchange default_id ''default_router'' nw) (\<lambda>nw.
     andthen (nw_exchange eth0_id ''applesauce'' nw) (\<lambda>nw.
     andthen (nw_exchange eth2_id ''cherrypie'' nw) (\<lambda>nw.
     andthen (nw_exchange hs4_id ''hs_router'' nw) (\<lambda>nw.
       nw_exchange3 uun3_id ''dm42'' ''dm43'' nw))))"

definition nw_round :: "resolver \<Rightarrow> network \<Rightarrow> exn + network" where
  "nw_round R nw =
     andthen (rt_route R (nw_router nw)) (\<lambda>rt. nw_simulate_physical_connections (nw\<lparr>nw_router := rt\<rparr>))"

fun nw_rounds :: "resolver \<Rightarrow> nat \<Rightarrow> network \<Rightarrow> exn + network" where
  "nw_rounds R 0 nw = Inr nw"
| "nw_rounds R (Suc n) nw = andthen (nw_round R nw) (nw_rounds R n)"

fun nw_check :: "(string \<times> host) list \<Rightarrow> network \<Rightarrow> exn + network" where
  "nw_check [] nw = Inr nw"
| "nw_check ((name, h) # rest) nw = andthen (ho_check h) (\<lambda>h. nw_check rest (nw_set_host h nw))"

definition nw_simulate :: "resolver \<Rightarrow> network \<Rightarrow> exn + network" where
  "nw_simulate R nw = andthen (nw_rounds R 256 nw) (\<lambda>nw. nw_check (nw_hosts nw) nw)"

section \<open>The tests\<close>

text \<open>
  One test: a host sends to a host or an address, another host (if any) expects the datagram with its time
  to live one less, and the network runs.
\<close>

datatype destination = To_Host string | To_Ip string

fun nw_destination :: "resolver \<Rightarrow> destination \<Rightarrow> network \<Rightarrow> exn + address" where
  "nw_destination R (To_Host name) nw = andthen (nw_host name nw) (\<lambda>h. Inr (ho_my_address h))"
| "nw_destination R (To_Ip ip) nw = ad_numeric R ip 0"

definition nw_send ::
  "resolver \<Rightarrow> string \<Rightarrow> destination \<Rightarrow> u8 \<Rightarrow> u32 \<Rightarrow> network \<Rightarrow> exn + ipv4_datagram \<times> network" where
  "nw_send R sender dest ttl random nw =
     andthen (nw_host sender nw) (\<lambda>h.
     andthen (nw_destination R dest nw) (\<lambda>a.
     andthen (ho_send_to a ttl random h) (\<lambda>(dgram, h). Inr (dgram, nw_set_host h nw))))"

definition nw_expect :: "string option \<Rightarrow> ipv4_datagram \<Rightarrow> network \<Rightarrow> exn + network" where
  "nw_expect receiver dgram nw =
     (case receiver of
        None \<Rightarrow> Inr nw
      | Some name \<Rightarrow> andthen (nw_host name nw) (\<lambda>h. Inr (nw_set_host (ho_expect (dg_decrement_ttl dgram) h) nw)))"

definition nw_test ::
  "resolver \<Rightarrow> string \<Rightarrow> destination \<Rightarrow> u8 \<Rightarrow> string option \<Rightarrow> u32 \<Rightarrow> network \<Rightarrow> exn + network" where
  "nw_test R sender dest ttl receiver random nw =
     andthen (nw_send R sender dest ttl random nw) (\<lambda>(dgram_sent, nw).
     andthen (nw_expect receiver dgram_sent nw) (nw_simulate R))"

definition nw_tests :: "(string \<times> destination \<times> u8 \<times> string option) list" where
  "nw_tests =
     [(''applesauce'', To_Host ''cherrypie'', 64, Some ''cherrypie''),
      (''cherrypie'', To_Host ''applesauce'', 64, Some ''applesauce''),
      (''applesauce'', To_Ip ''1.2.3.4'', 64, Some ''default_router''),
      (''applesauce'', To_Ip ''143.195.131.17'', 64, Some ''hs_router''),
      (''cherrypie'', To_Ip ''143.195.193.52'', 64, Some ''hs_router''),
      (''cherrypie'', To_Ip ''143.195.223.255'', 64, Some ''hs_router''),
      (''cherrypie'', To_Ip ''143.195.224.0'', 64, Some ''default_router''),
      (''dm42'', To_Host ''dm43'', 64, Some ''dm43''),
      (''applesauce'', To_Ip ''1.2.3.4'', 1, None),
      (''applesauce'', To_Ip ''1.2.3.4'', 0, None)]"

fun nw_run_tests ::
  "resolver \<Rightarrow> (string \<times> destination \<times> u8 \<times> string option) list \<Rightarrow> u32 list \<Rightarrow> network \<Rightarrow> exn + network" where
  "nw_run_tests R ((sender, dest, ttl, receiver) # tests) (r # rs) nw =
     andthen (nw_test R sender dest ttl receiver r nw) (nw_run_tests R tests rs)"
| "nw_run_tests R tests randoms nw = Inr nw"

definition network_simulator :: "resolver \<Rightarrow> ethernet_address list \<Rightarrow> u32 list \<Rightarrow> exn + network" where
  "network_simulator R randoms numbers = andthen (nw_new R randoms) (nw_run_tests R nw_tests numbers)"

end
