(* ===== verification/Simulation.thy ===== *)
theory Simulation
  imports Network_Simulator
begin

text \<open>
  Carrying frames between the interfaces of the network simulator: an interface only appends to its queue of
  frames, so that popping the frames that were delivered leaves what was queued in answer.
\<close>

section \<open>A queue of frames is only appended to\<close>

definition ni_with :: "ethernet_frame list \<Rightarrow> network_interface \<Rightarrow> network_interface" where
  "ni_with frames ni = ni\<lparr>ni_frames_out := frames @ ni_frames_out ni\<rparr>"

definition ai_with :: "ethernet_frame list \<Rightarrow> async_interface \<Rightarrow> async_interface" where
  "ai_with frames ai = ai\<lparr>ai_interface := ni_with frames (ai_interface ai)\<rparr>"

lemma ni_with_simps [simp]:
  "ni_ethernet_address (ni_with frames ni) = ni_ethernet_address ni"
  "ni_ip_address (ni_with frames ni) = ni_ip_address ni"
  "ni_addr_map (ni_with frames ni) = ni_addr_map ni"
  "ni_map_status (ni_with frames ni) = ni_map_status ni"
  "ni_dgram_stage (ni_with frames ni) = ni_dgram_stage ni"
  "ni_resolved (ni_with frames ni) ip = ni_resolved ni ip"
  "ni_frame (ni_with frames ni) = ni_frame ni"
  "ni_request (ni_with frames ni) = ni_request ni"
  "ni_push_frame fr (ni_with frames ni) = ni_with frames (ni_push_frame fr ni)"
  "ni_with frames ni\<lparr>ni_dgram_stage := stage\<rparr> = ni_with frames (ni\<lparr>ni_dgram_stage := stage\<rparr>)"
  "ni_with frames ni\<lparr>ni_map_status := st\<rparr> = ni_with frames (ni\<lparr>ni_map_status := st\<rparr>)"
  "ni_with frames ni\<lparr>ni_addr_map := am\<rparr> = ni_with frames (ni\<lparr>ni_addr_map := am\<rparr>)"
  by (simp_all add: ni_with_def ni_resolved_def ni_frame_def ni_request_def ni_push_frame_def fun_eq_iff)

lemma ni_send_with:
  "ni_send_datagram dgram hop (ni_with frames ni) =
     andthen (ni_send_datagram dgram hop ni) (\<lambda>ni. Inr (ni_with frames ni))"
  by (auto simp: ni_send_datagram_def andthen_assoc split: option.split intro!: andthen_cong [OF refl])

lemma ni_stage_with:
  "ni_stage_loop pos k (ni_with frames ni) =
     andthen (ni_stage_loop pos k ni) (\<lambda>ni. Inr (ni_with frames ni))"
proof (induction pos k ni rule: ni_stage_loop.induct)
  case (2 pos k ni)
  then show ?case
    by (auto simp: ni_send_with andthen_assoc Let_def split: prod.split intro!: andthen_cong [OF refl])
qed simp

lemma ni_recv_with:
  "ni_recv_frame fr (ni_with frames ni) =
     andthen (ni_recv_frame fr ni) (\<lambda>(found, ni). Inr (found, ni_with frames ni))"
proof -
  have learn: "ni_learn msg (ni_with frames ni) = ni_with frames (ni_learn msg ni)" for msg ni
    by (simp add: ni_learn_def)
  have reply: "ni_reply msg (ni_with frames ni) = andthen (ni_reply msg ni) (\<lambda>ni. Inr (ni_with frames ni))" for msg ni
    by (auto simp: ni_reply_def andthen_assoc Let_def intro!: andthen_cong [OF refl])
  have arp: "ni_handle_arp payload (ni_with frames ni) =
      andthen (ni_handle_arp payload ni) (\<lambda>ni. Inr (ni_with frames ni))" for payload
    by (auto simp: ni_handle_arp_def andthen_assoc Let_def learn reply split: prod.split
        intro!: andthen_cong [OF refl])
  have "ni_datagram fr (ni_with frames ni) = ni_datagram fr ni" by (simp add: ni_datagram_def)
  then show ?thesis
    by (auto simp: ni_recv_frame_def arp andthen_assoc ni_send_stage_datagram_def ni_stage_with
        split: option.split intro!: andthen_cong [OF refl])
qed

lemma deliver_with:
  "deliver sent (ai_with frames ai) = andthen (deliver sent ai) (\<lambda>ai. Inr (ai_with frames ai))"
proof (induction sent arbitrary: ai)
  case (Cons fr sent)
  have "ai_recv_frame fr (ai_with frames ai) = andthen (ai_recv_frame fr ai) (\<lambda>ai. Inr (ai_with frames ai))"
    for fr and ai :: async_interface
    by (auto simp: ai_recv_frame_def ai_with_def ni_recv_with andthen_assoc case_prod_beta
        split: option.split intro!: andthen_cong [OF refl])
  then show ?case by (simp add: andthen_assoc Cons.IH)
qed simp

text \<open>An interface whose queue has been taken away.\<close>

definition ai_emptied :: "async_interface \<Rightarrow> async_interface" where
  "ai_emptied ai = ai\<lparr>ai_interface := (ai_interface ai)\<lparr>ni_frames_out := []\<rparr>\<rparr>"

lemma deliver_emptied:
  "deliver sent ai = andthen (deliver sent (ai_emptied ai)) (\<lambda>ai'. Inr (ai_with (ai_frames_out ai) ai'))"
  by (subst deliver_with [symmetric]) (simp add: ai_with_def ni_with_def ai_emptied_def ai_frames_out_def)

lemma ai_clear_with [simp]: "ai_clear frames (ai_with frames ai) = Inr ai"
  by (simp add: ai_clear_def clear_queue_def ai_frames_out_def ai_with_def ni_with_def)

lemma exchange_frames_eq:
  "exchange_frames x y =
     andthen (deliver (ai_frames_out x) (ai_emptied y)) (\<lambda>y'.
     andthen (deliver (ai_frames_out y) (ai_emptied x)) (\<lambda>x'. Inr (x', y')))"
  unfolding exchange_frames_def Let_def
  by (simp add: deliver_emptied [of _ x] deliver_emptied [of _ y] andthen_assoc)

lemma exchange_frames3_eq:
  "exchange_frames3 x y z =
     andthen (deliver (ai_frames_out x) (ai_emptied y)) (\<lambda>y'.
     andthen (deliver (ai_frames_out x) (ai_emptied z)) (\<lambda>z'.
     andthen (deliver (ai_frames_out y) (ai_emptied x)) (\<lambda>x'.
     andthen (deliver (ai_frames_out y) z') (\<lambda>z'.
     andthen (deliver (ai_frames_out z) x') (\<lambda>x'.
     andthen (deliver (ai_frames_out z) y') (\<lambda>y'. Inr (x', y', z')))))))"
  unfolding exchange_frames3_def Let_def
  by (simp add: deliver_emptied [of _ x] deliver_emptied [of _ y] deliver_emptied [of _ z]
      andthen_assoc deliver_with)

section \<open>Property\<close>

text \<open>C22: (Carrying frames between interfaces.) The simulator copies the queues of the interfaces on a link,
  delivers each copy to the others, and then pops as many frames from a queue as its copy held. That is the
  same, whatever the frames say and whatever an exchange throws, as emptying the queues before anything is
  delivered: no queue is popped while it is empty, no frame that is queued in answer is lost, none is carried
  twice. The same holds for the link with three interfaces.\<close>

theorem exchange_empties_queues:
  "exchange_frames x y =
     andthen (deliver (ai_frames_out x) (ai_emptied y)) (\<lambda>y'.
     andthen (deliver (ai_frames_out y) (ai_emptied x)) (\<lambda>x'. Inr (x', y'))) \<and>
   exchange_frames3 x y z =
     andthen (deliver (ai_frames_out x) (ai_emptied y)) (\<lambda>y'.
     andthen (deliver (ai_frames_out x) (ai_emptied z)) (\<lambda>z'.
     andthen (deliver (ai_frames_out y) (ai_emptied x)) (\<lambda>x'.
     andthen (deliver (ai_frames_out y) z') (\<lambda>z'.
     andthen (deliver (ai_frames_out z) x') (\<lambda>x'.
     andthen (deliver (ai_frames_out z) y') (\<lambda>y'. Inr (x', y', z')))))))"
  by (intro conjI exchange_frames_eq exchange_frames3_eq)

end
