(* ===== verification/Simulation_Safety.thy ===== *)
theory Simulation_Safety
  imports Simulation ARP_Resolution
begin

text \<open>
  The network of the simulator stays well formed while it runs: what waits in an interface can be sent, a
  frame on a link can be read, a route leads to an interface of the router, a host is found under its name.
  So no access to a host, an interface or an address and no serialiser throws.
\<close>

section \<open>What can be thrown\<close>

text \<open>\<open>yields E P m\<close>: \<open>m\<close> gives a value with \<open>P\<close> or throws an exception of \<open>E\<close>.\<close>

definition yields :: "exn set \<Rightarrow> ('a \<Rightarrow> bool) \<Rightarrow> exn + 'a \<Rightarrow> bool" where
  "yields E P m \<longleftrightarrow> (case m of Inl e \<Rightarrow> e \<in> E | Inr x \<Rightarrow> P x)"

lemma yields_simps [simp]: "yields E P (Inl e) \<longleftrightarrow> e \<in> E" "yields E P (Inr x) \<longleftrightarrow> P x"
  by (simp_all add: yields_def)

lemma yields_andthen:
  "yields E P m \<Longrightarrow> (\<And>x. P x \<Longrightarrow> yields E Q (f x)) \<Longrightarrow> yields E Q (andthen m f)"
  by (cases m) auto

lemma yields_mono: "yields E P m \<Longrightarrow> E \<subseteq> E' \<Longrightarrow> (\<And>x. P x \<Longrightarrow> P' x) \<Longrightarrow> yields E' P' m"
  by (cases m) auto

section \<open>Interfaces\<close>

text \<open>
  A frame on a link carries an ARP message that parses or a datagram that parses; what waits in an interface
  can be sent.
\<close>

definition on_internet :: "address \<Rightarrow> bool" where
  "on_internet a \<longleftrightarrow> (\<exists>ip. ipv4_numeric a = Inr ip)"

definition frame_ok :: "ethernet_frame \<Rightarrow> bool" where
  "frame_ok fr \<longleftrightarrow>
     (eth_type (ef_header fr) = TYPE_ARP \<longrightarrow> (\<exists>m. supported m \<and> bl_concatenate (ef_payload fr) = arp_wire m)) \<and>
     (eth_type (ef_header fr) = TYPE_IPv4 \<longrightarrow>
        (\<exists>h pay. ip_header_ok h \<and> unat (ip_len h) = 4 * unat (ip_hlen h) + length pay \<and>
           bl_concatenate (ef_payload fr) = ip_wire h @ pay))"

definition ni_ok :: "network_interface \<Rightarrow> bool" where
  "ni_ok ni \<longleftrightarrow>
     ni_maps_ok UNIV ni \<and> on_internet (ni_ip_address ni) \<and> list_all frame_ok (ni_frames_out ni) \<and>
     list_all (\<lambda>(hop, d). on_internet hop \<and> dg_ok d) (ni_dgram_stage ni)"

definition ai_ok :: "async_interface \<Rightarrow> bool" where
  "ai_ok ai \<longleftrightarrow> ni_ok (ai_interface ai) \<and> list_all dg_ok (ai_datagrams_out ai)"

lemma on_internet_inet [simp]: "on_internet (inet_address ip port)"
  by (simp add: on_internet_def)

lemma ni_push_ok: "ni_ok (ni_push_frame fr ni) \<longleftrightarrow> ni_ok ni \<and> frame_ok fr"
  by (auto simp: ni_ok_def ni_maps_ok_def)

lemma frame_ok_arp: "supported m \<Longrightarrow> frame_ok (ni_frame ni TYPE_ARP dst (bl_of_string (arp_wire m)))"
  by (auto simp: frame_ok_def ni_frame_def TYPE_ARP_def TYPE_IPv4_def)

lemma frame_ok_datagram:
  assumes "dg_ok d" and "dg_serialize d = Inr payload"
  shows "frame_ok (ni_frame ni TYPE_IPv4 dst payload)"
proof -
  let ?h = "ip_with_cksum (dg_header d)"
  have "payload = buffer_of_string (ip_wire ?h) # dg_payload d" using assms dg_serialize_ok by simp
  then have "bl_concatenate payload = ip_wire ?h @ bl_concatenate (dg_payload d)"
    by simp
  moreover have "ip_header_ok ?h \<and>
      unat (ip_len ?h) = 4 * unat (ip_hlen ?h) + length (bl_concatenate (dg_payload d))"
    using assms(1) by (simp add: dg_ok_def)
  ultimately have "\<exists>h pay. ip_header_ok h \<and> unat (ip_len h) = 4 * unat (ip_hlen h) + length pay \<and>
      bl_concatenate payload = ip_wire h @ pay" by blast
  then show ?thesis by (simp add: frame_ok_def ni_frame_def TYPE_ARP_def TYPE_IPv4_def)
qed

lemma ni_send_ok:
  assumes ni: "ni_ok ni" and d: "dg_ok d" and hop: "on_internet hop"
  obtains ni' where "ni_send_datagram d hop ni = Inr ni'" and "ni_ok ni'"
    and "\<And>ip. ipv4_numeric hop = Inr ip \<Longrightarrow> ni_resolved ni ip \<Longrightarrow> ni_dgram_stage ni' = ni_dgram_stage ni"
proof -
  obtain ip own where ip: "ipv4_numeric hop = Inr ip" and own: "ipv4_numeric (ni_ip_address ni) = Inr own"
    using hop ni by (auto simp: on_internet_def ni_ok_def)
  have maps: "ni_maps_ok UNIV ni" using ni by (simp add: ni_ok_def)
  consider (known) mac where "map_of (ni_addr_map ni) ip = Some mac"
    | (new) "map_of (ni_addr_map ni) ip = None" "map_of (ni_map_status ni) ip = None"
    | (asked) status where "map_of (ni_addr_map ni) ip = None" "map_of (ni_map_status ni) ip = Some status"
    by fastforce
  then show thesis
  proof cases
    case known
    obtain payload where payload: "dg_serialize d = Inr payload" using dg_serialize_ok [OF d] by simp
    show thesis
      by (rule that [of "ni_push_frame (ni_frame ni TYPE_IPv4 mac payload) ni"])
        (use known ip payload ni frame_ok_datagram [OF d payload] in
          \<open>simp_all add: ni_send_datagram_def ni_push_ok\<close>)
  next
    case new
    let ?ni = "ni\<lparr>ni_dgram_stage := ni_dgram_stage ni @ [(hop, d)],
      ni_map_status := AList.update ip (- 1) (ni_map_status ni)\<rparr>"
    have req: "supported (ni_request ni own ip)" by (simp add: ni_request_def supported_def arp_new_def)
    have "ni_maps_ok UNIV ?ni"
      using maps new(1) by (auto simp: ni_maps_ok_def ni_resolved_def update_conv')
    then have "ni_ok ?ni" using ni d hop by (simp add: ni_ok_def)
    then show thesis
      by (intro that [of "ni_push_frame (ni_frame ni TYPE_ARP ethernet_broadcast
            (bl_of_string (arp_wire (ni_request ni own ip)))) ?ni"])
        (use new ip own req frame_ok_arp [OF req] in
          \<open>simp_all add: ni_send_datagram_def ni_push_ok arp_serialize_eq ni_resolved_def\<close>)
  next
    case asked
    have "\<not> ni_resolved ni ip" using maps asked(1) by (auto simp: ni_maps_ok_def)
    moreover from this have "sint status < 0" using asked(2) by (simp add: ni_resolved_def)
    moreover have "ni_ok (ni\<lparr>ni_dgram_stage := ni_dgram_stage ni @ [(hop, d)]\<rparr>)"
      using ni d hop by (simp add: ni_ok_def ni_maps_ok_def ni_resolved_def)
    ultimately show thesis
      by (intro that [of "ni\<lparr>ni_dgram_stage := ni_dgram_stage ni @ [(hop, d)]\<rparr>"])
        (use asked ip in \<open>simp_all add: ni_send_datagram_def\<close>)
  qed
qed

lemma ni_stage_ok: "ni_ok ni \<Longrightarrow> yields {past_the_end} ni_ok (ni_stage_loop pos k ni)"
proof (induction pos k ni rule: ni_stage_loop.induct)
  case (2 pos k ni)
  show ?case
  proof (cases "pos < length (ni_dgram_stage ni)")
    case True
    obtain hop d where at: "ni_dgram_stage ni ! pos = (hop, d)" by force
    then have "(hop, d) \<in> set (ni_dgram_stage ni)" using True by (metis nth_mem)
    then have hop: "on_internet hop" and d: "dg_ok d" using "2.prems" by (auto simp: ni_ok_def list_all_iff)
    obtain ip where ip: "ipv4_numeric hop = Inr ip" using hop by (auto simp: on_internet_def)
    obtain ni1 where ni1: "ni_send_datagram d hop ni = Inr ni1" "ni_ok ni1"
      using ni_send_ok [OF "2.prems" d hop] by metis
    let ?ni2 = "ni1\<lparr>ni_dgram_stage := take pos (ni_dgram_stage ni1) @ drop (Suc pos) (ni_dgram_stage ni1)\<rparr>"
    have "ni_ok ?ni2"
      using ni1(2) by (auto simp: ni_ok_def ni_maps_ok_def ni_resolved_def list_all_iff dest: in_set_takeD in_set_dropD)
    then show ?thesis
      using "2.IH"(1) [OF _ at [symmetric] refl ip _ ni1(1), of ] "2.IH"(2) [OF _ at [symmetric] refl ip _ "2.prems"]
        True at ip ni1(1) by (cases "ni_resolved ni ip") auto
  qed simp
qed simp

lemma ni_learn_ok: "ni_ok ni \<Longrightarrow> ni_ok (ni_learn msg ni)"
  by (auto simp: ni_ok_def ni_learn_def ni_maps_ok_def ni_resolved_def update_conv')

lemma ni_reply_ok:
  assumes "ni_ok ni" and "supported msg"
  shows "yields {} ni_ok (ni_reply msg ni)"
proof -
  obtain own where own: "ipv4_numeric (ni_ip_address ni) = Inr own"
    using assms(1) by (auto simp: ni_ok_def on_internet_def)
  let ?answer = "msg\<lparr>target_ethernet_address := sender_ethernet_address msg,
    target_ip_address := sender_ip_address msg, sender_ethernet_address := ni_ethernet_address ni,
    sender_ip_address := own, opcode := OPCODE_REPLY\<rparr>"
  have "supported ?answer" using assms(2) by (auto simp: supported_def)
  then show ?thesis
    using assms(1) own frame_ok_arp by (simp add: ni_reply_def Let_def arp_serialize_eq ni_push_ok)
qed

text \<open>A frame arrives with its payload in one buffer.\<close>

definition carried :: "ethernet_frame \<Rightarrow> ethernet_frame" where
  "carried frame = frame\<lparr>ef_payload := bl_of_string (bl_concatenate (ef_payload frame))\<rparr>"

lemma carried_eq: "carried fr =
    \<lparr>ef_header = ef_header fr, ef_payload = [buffer_of_string (bl_concatenate (ef_payload fr))]\<rparr>"
  by (simp add: carried_def bl_of_string_eq)

interpretation simulated_link: link carried
  by unfold_locales (simp add: carried_eq)

lemma ai_recv_ok:
  assumes ai: "ai_ok ai" and fr: "frame_ok fr"
  shows "yields {past_the_end} ai_ok (ai_recv_frame (carried fr) ai)"
proof -
  let ?ni = "ai_interface ai" and ?b = "buffer_of_string (bl_concatenate (ef_payload fr))"
  have ni: "ni_ok ?ni" using ai by (simp add: ai_ok_def)
  let ?Q = "\<lambda>(found, ni). (case found of None \<Rightarrow> True | Some d \<Rightarrow> dg_ok d) \<and> ni_ok ni"
  have stage: "yields {past_the_end} ?Q (andthen (ni_send_stage_datagram ni) (\<lambda>ni. Inr (None, ni)))"
    if "ni_ok ni" for ni
    using ni_stage_ok [OF that] unfolding ni_send_stage_datagram_def by (rule yields_andthen) simp
  have "yields {past_the_end} ?Q (ni_recv_frame (carried fr) ?ni)"
  proof (cases "eth_type (ef_header fr) = TYPE_ARP")
    case True
    then obtain m where m: "supported m" "bl_concatenate (ef_payload fr) = arp_wire m"
      using fr by (auto simp: frame_ok_def)
    have "arp_parse ?b arp_new = (NoError, m)" using arp_parse_wire [of ?b m "[]"] m by simp
    then have "yields {past_the_end} ni_ok (ni_handle_arp (ef_payload (carried fr)) ?ni)"
      using yields_mono [OF ni_reply_ok [OF ni_learn_ok [OF ni] m(1)]]
      by (simp add: ni_handle_arp_def carried_eq bl_to_buffer_def)
    from yields_andthen [OF this stage] show ?thesis
      using True by (simp add: ni_recv_frame_def ni_datagram_def carried_eq TYPE_ARP_def TYPE_IPv4_def)
  next
    case False
    then show ?thesis
    proof (cases "eth_type (ef_header fr) = TYPE_IPv4 \<and> eth_dst (ef_header fr) = ni_ethernet_address ?ni")
      case True
      then obtain h pay where h: "ip_header_ok h" "unat (ip_len h) = 4 * unat (ip_hlen h) + length pay"
          "bl_concatenate (ef_payload fr) = ip_wire h @ pay"
        using fr by (auto simp: frame_ok_def)
      obtain b where "dg_parse ?b dg_new = (NoError, \<lparr>dg_header = h, dg_payload = [b]\<rparr>)" "buffer_str b = pay"
        using dg_parse_bytes [OF h(1,2), of ?b] h(3) by auto
      then show ?thesis
        using True ni h by (simp add: ni_recv_frame_def ni_datagram_def carried_eq dg_ok_def bl_to_buffer_def)
    next
      case other: False
      then have "ni_datagram (carried fr) ?ni = Inr None" by (auto simp: ni_datagram_def carried_eq)
      then show ?thesis using False stage [OF ni] by (simp add: ni_recv_frame_def carried_eq)
    qed
  qed
  then show ?thesis
    using ai unfolding ai_recv_frame_def
    by (elim yields_andthen) (auto simp: ai_ok_def split: option.split)
qed

lemma deliver_ok:
  "ai_ok ai \<Longrightarrow> list_all frame_ok sent \<Longrightarrow> yields {past_the_end} ai_ok (deliver sent ai)"
proof (induction sent arbitrary: ai)
  case (Cons fr sent)
  have rest: "yields {past_the_end} ai_ok (deliver sent x)" if "ai_ok x" for x
    using Cons.IH [OF that] Cons.prems(2) by simp
  have "yields {past_the_end} ai_ok (ai_recv_frame (carried fr) ai)"
    using ai_recv_ok [OF Cons.prems(1)] Cons.prems(2) by simp
  from yields_andthen [OF this rest] show ?case by (simp add: carried_def)
qed simp

lemma ai_emptied_ok: "ai_ok ai \<Longrightarrow> ai_ok (ai_emptied ai)"
  by (simp add: ai_ok_def ai_emptied_def ni_ok_def ni_maps_ok_def ni_resolved_def)

lemma ai_frames_ok: "ai_ok ai \<Longrightarrow> list_all frame_ok (ai_frames_out ai)"
  by (simp add: ai_ok_def ai_frames_out_def ni_ok_def)

lemma exchange_ok:
  assumes "ai_ok x" and "ai_ok y"
  shows "yields {past_the_end} (\<lambda>(x, y). ai_ok x \<and> ai_ok y) (exchange_frames x y)"
  unfolding exchange_frames_eq
  by (rule yields_andthen [OF deliver_ok], simp_all add: assms ai_emptied_ok ai_frames_ok)
    (rule yields_andthen [OF deliver_ok], simp_all add: assms ai_emptied_ok ai_frames_ok)

lemma exchange3_ok:
  assumes "ai_ok x" and "ai_ok y" and "ai_ok z"
  shows "yields {past_the_end} (\<lambda>(x, y, z). ai_ok x \<and> ai_ok y \<and> ai_ok z) (exchange_frames3 x y z)"
proof -
  note ok = assms [THEN ai_emptied_ok] assms [THEN ai_frames_ok]
  show ?thesis
    unfolding exchange_frames3_eq
    by (rule yields_andthen [OF deliver_ok], simp_all add: ok)+
qed

section \<open>The router\<close>

definition route_ok :: "nat \<Rightarrow> route_elem \<Rightarrow> bool" where
  "route_ok n route \<longleftrightarrow> unat (re_prefix_length route) \<le> 32 \<and> re_interface_num route < n \<and>
     (case re_next_hop route of None \<Rightarrow> True | Some a \<Rightarrow> \<exists>ip port. a = inet_address ip port)"

definition rt_ok :: "nat \<Rightarrow> router \<Rightarrow> bool" where
  "rt_ok n rt \<longleftrightarrow> length (rt_interfaces rt) = n \<and> list_all ai_ok (rt_interfaces rt) \<and>
     list_all (route_ok n) (rt_routes rt)"

lemma rt_ok_update:
  "rt_ok n rt \<Longrightarrow> ai_ok ai \<Longrightarrow> rt_ok n (rt\<lparr>rt_interfaces := (rt_interfaces rt)[i := ai]\<rparr>)"
  by (auto simp: rt_ok_def list_all_iff dest: set_update_subset_insert [THEN subsetD])

lemma rt_interface_ok:
  "rt_ok n rt \<Longrightarrow> i < n \<Longrightarrow> rt_interface i rt = Inr (rt_interfaces rt ! i) \<and> ai_ok (rt_interfaces rt ! i)"
  by (auto simp: rt_ok_def rt_interface_def list_all_iff)

lemma rt_send_ok:
  assumes rt: "rt_ok n rt" and "i < n" and d: "dg_ok d" and hop: "hop () = Inr a" "on_internet a"
  shows "yields {} (rt_ok n) (rt_send i d hop rt)"
proof -
  let ?ai = "rt_interfaces rt ! i"
  have ai: "rt_interface i rt = Inr ?ai" "ai_ok ?ai" using rt_interface_ok [OF rt assms(2)] by simp_all
  then obtain ni where ni: "ni_send_datagram d a (ai_interface ?ai) = Inr ni" "ni_ok ni"
    using ni_send_ok [OF _ d hop(2)] unfolding ai_ok_def by metis
  then have "ai_ok (?ai\<lparr>ai_interface := ni\<rparr>)" using ai(2) by (simp add: ai_ok_def)
  then show ?thesis using rt_ok_update [OF rt] by (simp add: rt_send_def ai(1) hop(1) ni(1))
qed

lemma rt_route_one_ok:
  assumes rt: "rt_ok n rt" and d: "dg_ok d"
  shows "yields {} (rt_ok n) (rt_route_one_datagram numeric_resolver d rt)"
proof -
  have "rt_table_ok (rt_routes rt)" using rt by (auto simp: rt_ok_def rt_table_ok_def route_ok_def list_all_iff)
  then obtain idx where idx: "rt_find_longest_prefix (ip_dst (dg_header d)) rt = Inr idx"
      "rt_best (ip_dst (dg_header d)) (rt_routes rt) idx"
    using rt_find_best by metis
  show ?thesis
  proof (cases "ip_ttl (dg_header d) > 1 \<and> idx > - 1")
    case True
    then obtain i where i: "idx = int i" "i < length (rt_routes rt)" using idx(2) by (auto simp: rt_best_def)
    let ?route = "rt_routes rt ! i"
    have route: "route_ok n ?route" using rt i(2) by (auto simp: rt_ok_def list_all_iff)
    have "\<exists>a. rt_next_hop numeric_resolver ?route dst = Inr a \<and> on_internet a" for dst
    proof (cases "re_next_hop ?route")
      case (Some a)
      then obtain ip port where "a = inet_address ip port" using route by (auto simp: route_ok_def)
      then show ?thesis using Some by (simp add: rt_next_hop_def numeric.ip_inet numeric.numeric_inet)
    qed (simp add: rt_next_hop_def)
    then obtain a where a: "rt_next_hop numeric_resolver ?route (ip_dst (dg_header d)) = Inr a" "on_internet a"
      by blast
    have "dg_ok (dg_decrement_ttl d)" using d by (simp add: dg_ok_def dg_decrement_ttl_def ip_header_ok_def)
    then have "yields {} (rt_ok n) (rt_send (re_interface_num ?route) (dg_decrement_ttl d)
        (\<lambda>_. rt_next_hop numeric_resolver ?route (ip_dst (dg_header (dg_decrement_ttl d)))) rt)"
      using rt route a by (intro rt_send_ok) (auto simp: route_ok_def dg_decrement_ttl_def)
    then show ?thesis using True i(1) idx(1) by (simp add: rt_route_one_datagram_def Let_def)
  qed (use rt idx(1) in \<open>auto simp: rt_route_one_datagram_def\<close>)
qed

lemma rt_drain_ok: "rt_ok n rt \<Longrightarrow> yields {} (rt_ok n) (rt_drain numeric_resolver i rt)"
proof (induction "length (rt_queue i rt)" arbitrary: rt rule: less_induct)
  case less
  show ?case
  proof (cases "i < length (rt_interfaces rt) \<and> rt_queue i rt \<noteq> []")
    case True
    have queue: "list_all dg_ok (rt_queue i rt')" if "rt_ok n rt'" "i < length (rt_interfaces rt')" for rt'
      using that by (auto simp: rt_ok_def ai_ok_def rt_queue_def list_all_iff)
    have "dg_ok (hd (rt_queue i rt))" using queue [OF less.prems] True by (cases "rt_queue i rt") auto
    then obtain rt1 where rt1: "rt_route_one_datagram numeric_resolver (hd (rt_queue i rt)) rt = Inr rt1" "rt_ok n rt1"
      using rt_route_one_ok [OF less.prems]
      by (cases "rt_route_one_datagram numeric_resolver (hd (rt_queue i rt)) rt") force+
    have i: "i < length (rt_interfaces rt1)" "rt_queue i rt1 = rt_queue i rt"
      using rt_route_one_frame(1) [OF rt1(1)] rt_queue_frame [OF rt1(1)] True by simp_all
    have "ai_ok ((rt_interfaces rt1 ! i)\<lparr>ai_datagrams_out := tl (rt_queue i rt1)\<rparr>)"
      using rt1(2) i(1) queue [OF rt1(2) i(1)]
      by (cases "rt_queue i rt1") (auto simp: rt_ok_def ai_ok_def list_all_iff)
    then have "rt_ok n (rt_pop i rt1)" using rt_ok_update [OF rt1(2)] by (simp add: rt_pop_def)
    moreover have "length (rt_queue i (rt_pop i rt1)) < length (rt_queue i rt)"
      using True by (simp add: rt_pop_queue(1) i)
    ultimately show ?thesis
      using less.hyps True rt1(1) by (subst rt_drain.simps) auto
  qed (use less.prems in \<open>subst rt_drain.simps, simp\<close>)
qed

lemma rt_route_ok: "rt_ok n rt \<Longrightarrow> yields {} (rt_ok n) (rt_route numeric_resolver rt)"
proof -
  have "rt_ok n rt \<Longrightarrow> yields {} (rt_ok n) (rt_route_from numeric_resolver ids rt)" for ids
    by (induction ids arbitrary: rt) (auto intro: yields_andthen [OF rt_drain_ok])
  then show "rt_ok n rt \<Longrightarrow> ?thesis" by (simp add: rt_route_def)
qed

section \<open>The network\<close>

definition host_ok :: "string \<Rightarrow> host \<Rightarrow> bool" where
  "host_ok name h \<longleftrightarrow> ho_name h = name \<and> (\<exists>ip port. ho_my_address h = inet_address ip port) \<and>
     on_internet (ho_next_hop h) \<and> ai_ok (ho_interface h) \<and> list_all dg_ok (ho_expecting_to_receive h)"

definition host_names :: "string list" where
  "host_names = [''applesauce'', ''default_router'', ''cherrypie'', ''hs_router'', ''dm42'', ''dm43'']"

definition nw_ok :: "network \<Rightarrow> bool" where
  "nw_ok nw \<longleftrightarrow> rt_ok 7 (nw_router nw) \<and> map fst (nw_hosts nw) = host_names \<and>
     list_all (\<lambda>(name, h). host_ok name h) (nw_hosts nw)"

definition check_failures :: "exn set" where
  "check_failures = range (\<lambda>s. Runtime_Error (''Host '' @ s))"

lemma list_all_update:
  "list_all P al \<Longrightarrow> P (k, v) \<Longrightarrow> list_all P (AList.update k v al)"
  by (induction al) auto

lemma nw_host_ok:
  assumes "nw_ok nw" and "name \<in> set host_names"
  obtains h where "nw_host name nw = Inr h" and "host_ok name h"
proof -
  have "name \<in> set (map fst (nw_hosts nw))" using assms by (simp add: nw_ok_def)
  then obtain h where h: "map_of (nw_hosts nw) name = Some h" by (metis map_of_eq_None_iff not_Some_eq list.set_map)
  then have "host_ok name h" using assms(1) map_of_SomeD [OF h] by (auto simp: nw_ok_def list_all_iff)
  then show thesis using h that by (simp add: nw_host_def host_ok_def)
qed

lemma nw_set_host_ok:
  "nw_ok nw \<Longrightarrow> host_ok name h \<Longrightarrow> name \<in> set host_names \<Longrightarrow> nw_ok (nw_set_host h nw)"
  by (auto simp: nw_ok_def nw_set_host_def host_ok_def update_keys intro!: list_all_update)

lemma nw_set_interface_ok: "nw_ok nw \<Longrightarrow> ai_ok ai \<Longrightarrow> nw_ok (nw_set_interface i ai nw)"
  using rt_ok_update by (simp add: nw_ok_def nw_set_interface_def)

lemma nw_set_host_interface_ok:
  "nw_ok nw \<Longrightarrow> host_ok name h \<Longrightarrow> name \<in> set host_names \<Longrightarrow> ai_ok ai \<Longrightarrow> nw_ok (nw_set_host_interface h ai nw)"
  using nw_set_host_ok [of nw name "h\<lparr>ho_interface := ai\<rparr>"] by (simp add: nw_set_host_interface_def host_ok_def)

lemma nw_exchange_ok:
  assumes nw: "nw_ok nw" and i: "i < 7" and name: "name \<in> set host_names"
  shows "yields {past_the_end} nw_ok (nw_exchange i name nw)"
proof -
  obtain h where h: "nw_host name nw = Inr h" "host_ok name h" using nw_host_ok [OF nw name] by metis
  have x: "rt_interface i (nw_router nw) = Inr (rt_interfaces (nw_router nw) ! i)"
      "ai_ok (rt_interfaces (nw_router nw) ! i)"
    using nw rt_interface_ok [OF _ i] by (auto simp: nw_ok_def)
  have y: "ai_ok (ho_interface h)" using h(2) by (simp add: host_ok_def)
  show ?thesis
    unfolding nw_exchange_def x(1) h(1) andthen.simps
    by (rule yields_andthen [OF exchange_ok [OF x(2) y]])
      (auto intro: nw_set_host_interface_ok [OF nw_set_interface_ok [OF nw] h(2) name])
qed

lemma nw_exchange3_ok:
  assumes nw: "nw_ok nw" and i: "i < 7" and names: "name1 \<in> set host_names" "name2 \<in> set host_names"
  shows "yields {past_the_end} nw_ok (nw_exchange3 i name1 name2 nw)"
proof -
  obtain h1 where h1: "nw_host name1 nw = Inr h1" "host_ok name1 h1" using nw_host_ok [OF nw names(1)] by metis
  obtain h2 where h2: "nw_host name2 nw = Inr h2" "host_ok name2 h2" using nw_host_ok [OF nw names(2)] by metis
  have x: "rt_interface i (nw_router nw) = Inr (rt_interfaces (nw_router nw) ! i)"
      "ai_ok (rt_interfaces (nw_router nw) ! i)"
    using nw rt_interface_ok [OF _ i] by (auto simp: nw_ok_def)
  have yz: "ai_ok (ho_interface h1)" "ai_ok (ho_interface h2)" using h1(2) h2(2) by (simp_all add: host_ok_def)
  show ?thesis
    unfolding nw_exchange3_def x(1) h1(1) h2(1) andthen.simps
    by (rule yields_andthen [OF exchange3_ok [OF x(2) yz]])
      (auto intro: nw_set_host_interface_ok
        [OF nw_set_host_interface_ok [OF nw_set_interface_ok [OF nw] h1(2) names(1)] h2(2) names(2)])
qed

lemma nw_round_ok:
  assumes "nw_ok nw"
  shows "yields {past_the_end} nw_ok (nw_round numeric_resolver nw)"
proof -
  have links: "yields {past_the_end} nw_ok (nw_simulate_physical_connections nw)" if "nw_ok nw" for nw
    unfolding nw_simulate_physical_connections_def
    by (intro yields_andthen [OF nw_exchange_ok] nw_exchange3_ok that) (simp_all add: nw_ids host_names_def)
  have "yields {past_the_end} (rt_ok 7) (rt_route numeric_resolver (nw_router nw))"
    using assms by (intro yields_mono [OF rt_route_ok]) (auto simp: nw_ok_def)
  then show ?thesis
    unfolding nw_round_def by (rule yields_andthen) (use assms in \<open>intro links, simp add: nw_ok_def\<close>)
qed

lemma nw_rounds_ok: "nw_ok nw \<Longrightarrow> yields {past_the_end} nw_ok (nw_rounds numeric_resolver n nw)"
  by (induction n arbitrary: nw) (auto intro: yields_andthen [OF nw_round_ok])

section \<open>Checking the hosts\<close>

lemma dg_same_ok: "dg_ok x \<Longrightarrow> dg_ok y \<Longrightarrow> \<exists>b. dg_same x y = Inr b"
  by (simp add: dg_same_def dg_serialize_ok)

lemma ho_expecting_ok: "dg_ok d \<Longrightarrow> list_all dg_ok ds \<Longrightarrow> \<exists>b. ho_expecting d ds = Inr b"
proof (induction ds)
  case (Cons x ds)
  then obtain b where "dg_same x d = Inr b" using dg_same_ok by fastforce
  then show ?case using Cons by auto
qed (auto intro: exI [of _ False])

lemma ho_remove_ok:
  "dg_ok d \<Longrightarrow> list_all dg_ok ds \<Longrightarrow> \<exists>ds'. ho_remove_expectation d ds = Inr ds' \<and> list_all dg_ok ds'"
proof (induction ds)
  case (Cons x ds)
  then obtain b where "dg_same x d = Inr b" using dg_same_ok by fastforce
  then show ?case using Cons by auto
qed simp

lemma ho_check_received_ok:
  "list_all dg_ok ds \<Longrightarrow> list_all dg_ok expecting \<Longrightarrow>
     yields check_failures (list_all dg_ok) (ho_check_received name ds expecting)"
proof (induction ds arbitrary: expecting)
  case (Cons d ds)
  have d: "dg_ok d" using Cons.prems(1) by simp
  obtain b ds' where "ho_expecting d expecting = Inr b" "ho_remove_expectation d expecting = Inr ds'"
      "list_all dg_ok ds'"
    using ho_expecting_ok [OF d Cons.prems(2)] ho_remove_ok [OF d Cons.prems(2)] by metis
  then show ?case using Cons by (auto simp: check_failures_def)
qed simp

lemma ho_check_ok: "host_ok name h \<Longrightarrow> yields check_failures (host_ok name) (ho_check h)"
  unfolding ho_check_def
  by (rule yields_andthen [OF ho_check_received_ok])
    (auto simp: host_ok_def ai_ok_def check_failures_def Let_def)

lemma nw_check_ok:
  "nw_ok nw \<Longrightarrow> list_all (\<lambda>(name, h). name \<in> set host_names \<and> host_ok name h) hosts \<Longrightarrow>
     yields check_failures nw_ok (nw_check hosts nw)"
proof (induction hosts nw rule: nw_check.induct)
  case (2 name h hosts nw)
  have "yields check_failures (host_ok name) (ho_check h)" using "2.prems"(2) ho_check_ok by simp
  then show ?case
  proof (cases "ho_check h")
    case (Inr h')
    then have "host_ok name h'" using \<open>yields check_failures (host_ok name) (ho_check h)\<close> by simp
    then show ?thesis using "2.IH" [OF Inr nw_set_host_ok] "2.prems" Inr by auto
  qed simp
qed simp

definition simulator_failures :: "exn set" where
  "simulator_failures = insert past_the_end check_failures"

lemma nw_simulate_ok:
  assumes "nw_ok nw"
  shows "yields simulator_failures nw_ok (nw_simulate numeric_resolver nw)"
proof -
  have "yields simulator_failures nw_ok (nw_rounds numeric_resolver n nw)" for n
    using yields_mono [OF nw_rounds_ok [OF assms]] by (simp add: simulator_failures_def)
  moreover have "yields simulator_failures nw_ok (nw_check (nw_hosts nw) nw)" if "nw_ok nw" for nw
  proof -
    have "list_all (\<lambda>(name, h). name \<in> set host_names \<and> host_ok name h) (nw_hosts nw)"
      using that by (auto simp: nw_ok_def list_all_iff) (metis fst_conv image_eqI list.set_map)
    from nw_check_ok [OF that this] show ?thesis
      by (rule yields_mono) (auto simp: simulator_failures_def)
  qed
  ultimately show ?thesis unfolding nw_simulate_def by (rule yields_andthen)
qed

section \<open>A test\<close>

lemma length_in_base: "n < 10 ^ k \<Longrightarrow> 0 < k \<Longrightarrow> length (in_base 10 n) \<le> k"
proof (induction k arbitrary: n)
  case (Suc k)
  show ?case
  proof (cases "n < 10")
    case False
    then have "n div 10 < 10 ^ k" "0 < k" using Suc.prems by (auto intro: ccontr)
    then show ?thesis using Suc.IH [of "n div 10"] False by (subst in_base.simps) simp
  qed (subst in_base.simps, simp)
qed simp

lemma ho_send_ok:
  assumes h: "host_ok name h" and a: "on_internet a"
  shows "yields {} (\<lambda>(d, h). dg_ok d \<and> host_ok name h) (ho_send_to a ttl random h)"
proof -
  obtain src dst where ips: "ipv4_numeric (ho_my_address h) = Inr src" "ipv4_numeric a = Inr dst"
    using h a by (auto simp: host_ok_def on_internet_def)
  let ?text = "bytes_of_text (''random payload: {'' @ decimal (unat random) @ ''}'')"
  let ?d = "\<lparr>dg_header = ip_new\<lparr>ip_src := src, ip_dst := dst,
      ip_len := of_nat (unat (ip_hlen ip_new) * 4 + length ?text), ip_ttl := ttl\<rparr>,
    dg_payload = bl_of_string ?text\<rparr>"
  have "length (decimal (unat random)) \<le> 10"
    unfolding decimal_def using unsigned_less [of random, where 'a = nat] by (intro length_in_base) simp_all
  then have "20 + length ?text < 2 ^ 16" by (simp add: bytes_of_text_def)
  then have "unat (of_nat (20 + length ?text) :: u16) = 20 + length ?text"
    by (rule unat_of_nat_u16)
  then have d: "dg_ok ?d"
    unfolding dg_ok_def bl_size_eq by (simp del: append_Cons of_nat_add add: ip_header_ok_def ip_new_def ip_LENGTH_def)
  obtain ni where "ni_send_datagram ?d (ho_next_hop h) (ai_interface (ho_interface h)) = Inr ni" "ni_ok ni"
    using h ni_send_ok [OF _ d] unfolding host_ok_def ai_ok_def by metis
  then show ?thesis using h d by (simp add: ho_send_to_def ips host_ok_def ai_ok_def)
qed

text \<open>Numeric addresses, and what a test needs of its destination and hosts.\<close>

definition resolves :: "string \<Rightarrow> bool" where
  "resolves s \<longleftrightarrow> (\<exists>ip. ad_numeric numeric_resolver s 0 = Inr (inet_address ip 0))"

fun test_ok :: "string \<times> destination \<times> u8 \<times> string option \<Rightarrow> bool" where
  "test_ok (sender, dest, ttl, receiver) \<longleftrightarrow> sender \<in> set host_names \<and>
     (case dest of To_Host name \<Rightarrow> name \<in> set host_names | To_Ip s \<Rightarrow> resolves s) \<and>
     (case receiver of None \<Rightarrow> True | Some name \<Rightarrow> name \<in> set host_names)"

lemma resolves_inet_aton: "inet_aton s \<noteq> None \<Longrightarrow> resolves s"
  using numeric_text by (auto simp: resolves_def)

lemma nw_destination_ok:
  assumes "nw_ok nw" and "test_ok (sender, dest, ttl, receiver)"
  obtains a where "nw_destination numeric_resolver dest nw = Inr a" and "on_internet a"
proof (cases dest)
  case (To_Host name)
  then obtain h where "nw_host name nw = Inr h" "host_ok name h"
    using nw_host_ok [OF assms(1)] assms(2) by auto
  then show thesis using that To_Host by (auto simp: host_ok_def)
next
  case (To_Ip s)
  then show thesis using that assms(2) by (auto simp: resolves_def)
qed

lemma nw_test_ok:
  assumes nw: "nw_ok nw" and test: "test_ok (sender, dest, ttl, receiver)"
  shows "yields simulator_failures nw_ok (nw_test numeric_resolver sender dest ttl receiver random nw)"
proof -
  have sender: "sender \<in> set host_names" using test by simp
  obtain h where h: "nw_host sender nw = Inr h" "host_ok sender h" using nw_host_ok [OF nw sender] by metis
  obtain a where a: "nw_destination numeric_resolver dest nw = Inr a" "on_internet a"
    using nw_destination_ok [OF nw test] by metis
  obtain d h' where sent: "ho_send_to a ttl random h = Inr (d, h')" "dg_ok d" "host_ok sender h'"
    using ho_send_ok [OF h(2) a(2), of ttl random] by (cases "ho_send_to a ttl random h") auto
  let ?nw = "nw_set_host h' nw"
  have nw': "nw_ok ?nw" using nw_set_host_ok [OF nw sent(3) sender] .
  have "\<exists>nw2. nw_expect receiver d ?nw = Inr nw2 \<and> nw_ok nw2"
  proof (cases receiver)
    case (Some name)
    then have name: "name \<in> set host_names" using test by simp
    obtain r where r: "nw_host name ?nw = Inr r" "host_ok name r" using nw_host_ok [OF nw' name] by metis
    have "host_ok name (ho_expect (dg_decrement_ttl d) r)"
      using r(2) sent(2) by (simp add: host_ok_def ho_expect_def dg_ok_def dg_decrement_ttl_def ip_header_ok_def)
    then show ?thesis using nw_set_host_ok [OF nw' _ name] r(1) Some by (simp add: nw_expect_def)
  qed (simp add: nw_expect_def nw')
  then obtain nw2 where "nw_expect receiver d ?nw = Inr nw2" "nw_ok nw2" by blast
  then show ?thesis
    using nw_simulate_ok by (simp add: nw_test_def nw_send_def h(1) a(1) sent(1))
qed

lemma nw_run_tests_ok:
  "nw_ok nw \<Longrightarrow> list_all test_ok tests \<Longrightarrow>
     yields simulator_failures nw_ok (nw_run_tests numeric_resolver tests randoms nw)"
proof (induction tests arbitrary: nw randoms)
  case (Cons test tests)
  obtain sender dest ttl receiver where test: "test = (sender, dest, ttl, receiver)" by (cases test) auto
  show ?case
  proof (cases randoms)
    case (Cons r rs)
    have "yields simulator_failures nw_ok (nw_test numeric_resolver sender dest ttl receiver r nw)"
      using Cons.prems test by (intro nw_test_ok) simp_all
    then show ?thesis
      unfolding test Cons nw_run_tests.simps by (rule yields_andthen) (use Cons.IH Cons.prems in simp)
  qed (use Cons.prems in simp)
qed simp

section \<open>Building the network\<close>

lemma ni_new_ok:
  assumes "resolves s"
  obtains a where "ad_numeric numeric_resolver s 0 = Inr a" and "on_internet a"
    and "\<exists>ip port. a = inet_address ip port"
    and "\<And>mac. \<exists>ni. ni_new numeric_resolver mac a = Inr ni \<and> ni_ok ni"
proof -
  obtain ip where ip: "ad_numeric numeric_resolver s 0 = Inr (inet_address ip 0)"
    using assms by (auto simp: resolves_def)
  have "\<exists>ni. ni_new numeric_resolver mac (inet_address ip 0) = Inr ni \<and> ni_ok ni" for mac
    by (simp add: ni_new_def numeric.ip_inet ni_ok_def ni_maps_ok_def ni_resolved_def)
  then show thesis using that [OF ip] by auto
qed

lemma nw_add_interfaces_ok:
  "list_all (resolves \<circ> fst) ips \<Longrightarrow> rt_ok n rt \<and> rt_routes rt = [] \<Longrightarrow>
     yields {} (\<lambda>rt. rt_ok (n + length ips) rt \<and> rt_routes rt = []) (nw_add_interfaces numeric_resolver ips rt)"
proof (induction ips arbitrary: n rt)
  case (Cons e ips)
  obtain s mac where e: "e = (s, mac)" by force
  then have "resolves s" using Cons.prems(1) by simp
  then obtain a ni where a: "ad_numeric numeric_resolver s 0 = Inr a"
      "ni_new numeric_resolver (random_router_ethernet_address mac) a = Inr ni" "ni_ok ni"
    using ni_new_ok by metis
  have "rt_ok (Suc n) (snd (rt_add_interface (ai_new ni) rt)) \<and> rt_routes (snd (rt_add_interface (ai_new ni) rt)) = []"
    using Cons.prems(2) a(3) by (simp add: rt_ok_def rt_add_interface_def Let_def ai_ok_def ai_new_def)
  from Cons.IH [OF _ this] show ?case using Cons.prems(1) by (simp add: e a)
qed simp

definition hosts_ok :: "string list \<Rightarrow> network \<Rightarrow> bool" where
  "hosts_ok names nw \<longleftrightarrow> rt_ok 7 (nw_router nw) \<and> map fst (nw_hosts nw) = names \<and>
     list_all (\<lambda>(name, h). host_ok name h) (nw_hosts nw)"

lemma nw_add_hosts_ok:
  "list_all (\<lambda>((name, ip, hop), mac). resolves ip \<and> resolves hop) hs \<Longrightarrow> hosts_ok names nw \<Longrightarrow>
     yields {} (hosts_ok (names @ map (fst \<circ> fst) hs)) (nw_add_hosts numeric_resolver hs nw)"
proof (induction hs arbitrary: names nw)
  case (Cons e hs)
  obtain name ip hop mac where e: "e = ((name, ip, hop), mac)" by (metis surj_pair)
  then have "resolves ip" "resolves hop" using Cons.prems(1) by simp_all
  then obtain a b ni where a: "ad_numeric numeric_resolver ip 0 = Inr a" "\<exists>ip port. a = inet_address ip port"
      "ad_numeric numeric_resolver hop 0 = Inr b" "on_internet b"
      "ni_new numeric_resolver (random_host_ethernet_address mac) a = Inr ni" "ni_ok ni"
    using ni_new_ok by metis
  let ?h = "\<lparr>ho_name = name, ho_my_address = a, ho_interface = ai_new ni, ho_next_hop = b,
    ho_expecting_to_receive = []\<rparr>"
  have "hosts_ok (names @ [name]) (nw\<lparr>nw_hosts := nw_hosts nw @ [(name, ?h)]\<rparr>)"
    using Cons.prems(2) a(2,4,6) by (simp add: hosts_ok_def host_ok_def ai_ok_def ai_new_def)
  from Cons.IH [OF _ this] show ?case using Cons.prems(1) by (simp add: e a(1,3,5) ho_new_def)
qed simp

fun route_spec_ok :: "string \<times> u8 \<times> hop_spec \<times> nat \<Rightarrow> bool" where
  "route_spec_ok (prefix, len, hop, n) \<longleftrightarrow> resolves prefix \<and> unat len \<le> 32 \<and> n < 7 \<and>
     (case hop of Direct \<Rightarrow> True | Via_Host name \<Rightarrow> name \<in> set host_names | Via_Ip s \<Rightarrow> resolves s)"

lemma nw_add_routes_ok:
  "list_all route_spec_ok routes \<Longrightarrow> nw_ok nw \<Longrightarrow>
     yields {} nw_ok (nw_add_routes numeric_resolver routes nw)"
proof (induction routes arbitrary: nw)
  case (Cons e routes)
  obtain prefix len hop n where e: "e = (prefix, len, hop, n)" by (metis surj_pair)
  then have spec: "resolves prefix" "unat len \<le> 32" "n < 7" using Cons.prems(1) by simp_all
  obtain p where p: "ip_of numeric_resolver prefix = Inr p"
    using spec(1) by (auto simp: ip_of_def resolves_def)
  have "\<exists>a. nw_hop numeric_resolver hop nw = Inr a \<and>
      (case a of None \<Rightarrow> True | Some a \<Rightarrow> \<exists>ip port. a = inet_address ip port)"
  proof (cases hop)
    case (Via_Host name)
    then obtain h where "nw_host name nw = Inr h" "host_ok name h"
      using nw_host_ok [OF Cons.prems(2)] Cons.prems(1) e by auto
    then show ?thesis using Via_Host by (auto simp: host_ok_def)
  next
    case (Via_Ip s)
    then show ?thesis using Cons.prems(1) e by (auto simp: resolves_def)
  qed simp
  then obtain a where a: "nw_hop numeric_resolver hop nw = Inr a"
      "case a of None \<Rightarrow> True | Some a \<Rightarrow> \<exists>ip port. a = inet_address ip port" by blast
  let ?route = "\<lparr>re_route_prefix = p, re_prefix_length = len, re_next_hop = a, re_interface_num = n\<rparr>"
  let ?rt = "(nw_router nw)\<lparr>rt_routes := rt_routes (nw_router nw) @ [?route]\<rparr>"
  have rt: "rt_add_route numeric_resolver p len a n (nw_router nw) = Inr ?rt"
    using a(2) by (auto simp: rt_add_route_def numeric.ip_inet split: option.splits)
  have "nw_ok (nw\<lparr>nw_router := ?rt\<rparr>)"
    using Cons.prems(2) spec a(2) by (simp add: nw_ok_def rt_ok_def route_ok_def)
  from Cons.IH [OF _ this] show ?case using Cons.prems(1) by (simp add: e p a(1) rt)
qed simp

lemma texts_resolve:
  "list_all resolves nw_interface_ips"
  "list_all (\<lambda>(name, ip, hop). resolves ip \<and> resolves hop) nw_host_list"
  "list_all route_spec_ok nw_route_list" "list_all test_ok nw_tests"
  by (auto simp: nw_interface_ips_def nw_host_list_def nw_route_list_def nw_tests_def nw_ids host_names_def
      inet_aton_def dec_value_def is_digit_def Let_def intro!: resolves_inet_aton)

lemma nw_new_ok:
  assumes "length randoms = 13"
  shows "yields {} nw_ok (nw_new numeric_resolver randoms)"
proof -
  have "yields {} (\<lambda>rt. rt_ok 7 rt \<and> rt_routes rt = [])
      (nw_add_interfaces numeric_resolver (zip nw_interface_ips randoms) rt_new)"
  proof -
    have "rt_ok 0 rt_new \<and> rt_routes rt_new = []" by (simp add: rt_ok_def rt_new_def)
    moreover have "list_all (resolves \<circ> fst) (zip nw_interface_ips randoms)"
      using texts_resolve(1) by (auto simp: list_all_iff dest: set_zip_leftD)
    moreover have "length (zip nw_interface_ips randoms) = 7"
      using assms by (simp add: nw_interface_ips_def)
    ultimately show ?thesis
      using nw_add_interfaces_ok [of "zip nw_interface_ips randoms" 0 rt_new] by simp
  qed
  moreover have "yields {} nw_ok (andthen
      (nw_add_hosts numeric_resolver (zip nw_host_list (drop 7 randoms)) \<lparr>nw_router = rt, nw_hosts = []\<rparr>)
      (nw_add_routes numeric_resolver nw_route_list))" if "rt_ok 7 rt \<and> rt_routes rt = []" for rt
  proof -
    have "list_all (\<lambda>((name, ip, hop), mac). resolves ip \<and> resolves hop) (zip nw_host_list (drop 7 randoms))"
      using texts_resolve(2) by (fastforce simp: list_all_iff dest: set_zip_leftD)
    moreover have "hosts_ok [] \<lparr>nw_router = rt, nw_hosts = []\<rparr>" using that by (simp add: hosts_ok_def)
    moreover have "map (fst \<circ> fst) (zip nw_host_list (drop 7 randoms)) = host_names"
    proof -
      have "map fst (zip nw_host_list (drop 7 randoms)) = nw_host_list"
        using assms by (simp add: nw_host_list_def)
      then show ?thesis
        by (simp only: map_map [symmetric]) (simp add: nw_host_list_def host_names_def)
    qed
    ultimately have "yields {} (hosts_ok host_names)
        (nw_add_hosts numeric_resolver (zip nw_host_list (drop 7 randoms)) \<lparr>nw_router = rt, nw_hosts = []\<rparr>)"
      using nw_add_hosts_ok [of "zip nw_host_list (drop 7 randoms)" "[]" "\<lparr>nw_router = rt, nw_hosts = []\<rparr>"]
      by (simp only: append_Nil)
    then show ?thesis
      by (rule yields_andthen) (use nw_add_routes_ok texts_resolve(3) in \<open>simp add: hosts_ok_def nw_ok_def\<close>)
  qed
  ultimately show ?thesis unfolding nw_new_def by (rule yields_andthen)
qed

section \<open>Property\<close>

text \<open>C21: (The simulated network stays well formed.) With a resolver of numeric addresses and whatever the
  random generator gives, the network is built without an exception, and the whole run either ends with a
  well-formed network or throws one of two exceptions: a host's complaint about a datagram that it received or
  did not receive, or the interface's read past its list of waiting datagrams. No host or interface is ever
  looked up in vain, no address is unusable, no datagram or ARP message is one that its serialiser refuses, no
  queue is popped while empty. A network is well formed when its seven interfaces and six hosts are there
  under their names, every route leads to an interface, every frame on a link parses and whatever waits can be
  sent.\<close>

theorem simulated_network_well_formed:
  assumes "length randoms = 13"
  shows "(\<exists>nw. nw_new numeric_resolver randoms = Inr nw \<and> nw_ok nw) \<and>
    (case network_simulator numeric_resolver randoms numbers of
       Inr nw \<Rightarrow> nw_ok nw
     | Inl e \<Rightarrow> e = past_the_end \<or> (\<exists>s. e = Runtime_Error (''Host '' @ s)))"
proof -
  obtain nw where nw: "nw_new numeric_resolver randoms = Inr nw" "nw_ok nw"
    using nw_new_ok [OF assms] by (cases "nw_new numeric_resolver randoms") auto
  have "yields simulator_failures nw_ok (network_simulator numeric_resolver randoms numbers)"
    using nw_run_tests_ok [OF nw(2) texts_resolve(4)] by (simp add: network_simulator_def nw(1))
  then show ?thesis
    using nw by (auto simp: yields_def simulator_failures_def check_failures_def split: sum.split)
qed

theorem simulated_network_well_formed_witness:
  "\<exists>nw. nw_new numeric_resolver (replicate 13 (EA 1 2 3 4 5 6)) = Inr nw \<and> nw_ok nw"
  using simulated_network_well_formed [of "replicate 13 (EA 1 2 3 4 5 6)"] by simp

end
