(* ===== verification/Lab7.thy ===== *)
theory Lab7
  imports Network_Simulator Socket_Run
begin

text \<open>
  \<open>apps/lab7.cc\<close>: a TCP socket over a network interface whose frames go through a pair of datagram sockets
  to a router, which a second thread runs on an event loop, and on to the other side in UDP datagrams. The two
  random functions for Ethernet addresses are those of \<open>apps/network_simulator.cc\<close>, word for word.
\<close>

section \<open>Printing frames\<close>

definition lab7_summary :: "ethernet_frame \<Rightarrow> exn + string" where
  "lab7_summary frame =
     (let ret = eth_to_string (ef_header frame) in
      if eth_type (ef_header frame) = TYPE_IPv4 then
        let (result, dgram) = dg_parse (buffer_of_string (bl_concatenate (ef_payload frame))) dg_new in
        Inr (ret @
          (if result = NoError then
             '' '' @ ip_summary (dg_header dgram) @
             (if ip_proto (dg_header dgram) = PROTO_TCP then
                let (result, tcp_seg) =
                  seg_parse (buffer_of_string (bl_concatenate (dg_payload dgram))) (ip_pseudo_cksum (dg_header dgram)) seg_new in
                if result = NoError then '' '' @ th_summary (seg_header tcp_seg) else ''''
              else '''')
           else '' (bad IPv4)''))
      else if eth_type (ef_header frame) = TYPE_ARP then
        andthen (bl_to_buffer (ef_payload frame)) (\<lambda>buffer.
          let (result, arp) = arp_parse buffer arp_new in
          Inr (ret @ (if result = NoError then '' '' @ arp_to_string arp else '' (bad ARP)'')))
      else Inr ret)"

definition lab7_debug :: "bool \<Rightarrow> ethernet_frame \<Rightarrow> exn + unit" where
  "lab7_debug debug frame = (if debug then andthen (lab7_summary frame) (\<lambda>_. Inr ()) else Inr ())"

section \<open>NetworkInterfaceAdapter\<close>

text \<open>The two ends of the pair of datagram sockets are two descriptors.\<close>

record interface_adapter =
  la_base :: fd_adapter
  la_interface :: network_interface
  la_next_hop :: address
  la_first :: fd_wrapper
  la_second :: fd_wrapper

definition la_new ::
  "resolver \<Rightarrow> 'k kernel \<Rightarrow> address \<Rightarrow> address \<Rightarrow> ethernet_address \<Rightarrow> 'k \<Rightarrow> exn + interface_adapter \<times> 'k" where
  "la_new R K ip_address next_hop random k =
     andthen (fa_new R) (\<lambda>base.
     andthen (ni_new R (random_host_ethernet_address random) ip_address) (\<lambda>ni.
     andthen (socket_pair_helper K SOCK_DGRAM k) (\<lambda>(first, second, k).
       Inr (\<lparr>la_base = base, la_interface = ni, la_next_hop = next_hop, la_first = first, la_second = second\<rparr>, k))))"

fun la_write_frames :: "'k kernel \<Rightarrow> ethernet_frame list \<Rightarrow> fd_wrapper \<Rightarrow> 'k \<Rightarrow> exn + fd_wrapper \<times> 'k" where
  "la_write_frames K [] fd k = Inr (fd, k)"
| "la_write_frames K (frame # frames) fd k =
     andthen (fd_write K (bvl_of_buffer_list (ef_serialize frame)) True fd k) (\<lambda>(n, fd, k).
       la_write_frames K frames fd k)"

definition la_send_pending :: "'k kernel \<Rightarrow> interface_adapter \<Rightarrow> 'k \<Rightarrow> exn + interface_adapter \<times> 'k" where
  "la_send_pending K a k =
     andthen (la_write_frames K (ni_frames_out (la_interface a)) (la_first a) k) (\<lambda>(fd, k).
       Inr (a\<lparr>la_first := fd, la_interface := (la_interface a)\<lparr>ni_frames_out := []\<rparr>\<rparr>, k))"

definition la_read ::
  "resolver \<Rightarrow> 'k kernel \<Rightarrow> interface_adapter \<Rightarrow> 'k \<Rightarrow> exn + tcp_segment option \<times> interface_adapter \<times> 'k" where
  "la_read R K a k =
     andthen (fd_read K (2 ^ 64 - 1) (la_first a) k) (\<lambda>(bytes, fd, k).
       let a = a\<lparr>la_first := fd\<rparr>; (state, frame) = ef_parse (buffer_of_string bytes) ef_new in
       if state \<noteq> NoError then Inr (None, a, k)
       else
         andthen (ni_recv_frame frame (la_interface a)) (\<lambda>(ip_dgram, ni).
         andthen (la_send_pending K (a\<lparr>la_interface := ni\<rparr>) k) (\<lambda>(a, k).
           case ip_dgram of
             None \<Rightarrow> Inr (None, a, k)
           | Some d \<Rightarrow> andthen (ipa_unwrap R d (la_base a)) (\<lambda>(seg, base). Inr (seg, a\<lparr>la_base := base\<rparr>, k)))))"

definition la_write ::
  "resolver \<Rightarrow> 'k kernel \<Rightarrow> tcp_segment \<Rightarrow> interface_adapter \<Rightarrow> 'k \<Rightarrow> exn + interface_adapter \<times> 'k" where
  "la_write R K seg a k =
     andthen (ipa_wrap R seg (la_base a)) (\<lambda>(d, seg).
     andthen (ni_send_datagram d (la_next_hop a) (la_interface a)) (\<lambda>ni.
       la_send_pending K (a\<lparr>la_interface := ni\<rparr>) k))"

definition la_tick :: "'k kernel \<Rightarrow> u64 \<Rightarrow> interface_adapter \<Rightarrow> 'k \<Rightarrow> exn + interface_adapter \<times> 'k" where
  "la_tick K ms a k =
     andthen (ni_tick ms (la_interface a)) (\<lambda>ni. la_send_pending K (a\<lparr>la_interface := ni\<rparr>) k)"

definition la_ops :: "resolver \<Rightarrow> 'k kernel \<Rightarrow> (interface_adapter, 'k) adapter_ops" where
  "la_ops R K =
     \<lparr>ao_fd = la_first, ao_read = la_read R K, ao_write = la_write R K, ao_tick = la_tick K,
      ao_set_config = (\<lambda>cfg a. a\<lparr>la_base := (la_base a)\<lparr>fa_cfg := cfg\<rparr>\<rparr>),
      ao_set_listening = (\<lambda>l a. a\<lparr>la_base := fa_set_listening l (la_base a)\<rparr>)\<rparr>"

section \<open>TCPSocketLab7\<close>

record 'k lab7_socket =
  ls_local_address :: address
  ls_sponge :: "(interface_adapter, 'k) sponge"

definition ls_new ::
  "resolver \<Rightarrow> 'k kernel \<Rightarrow> address \<Rightarrow> address \<Rightarrow> ethernet_address \<Rightarrow> 'k \<Rightarrow> exn + 'k lab7_socket" where
  "ls_new R K ip_address next_hop random k =
     andthen (la_new R K ip_address next_hop random k) (\<lambda>(adapter, k).
     andthen (sp_new K adapter k) (\<lambda>w. Inr \<lparr>ls_local_address = ip_address, ls_sponge = w\<rparr>))"

text \<open>\<open>port\<close> is the number drawn; the debugging line prints the local address.\<close>

definition ls_connect_config ::
  "resolver \<Rightarrow> u16 \<Rightarrow> address \<Rightarrow> 'k lab7_socket \<Rightarrow> exn + 'k lab7_socket \<times> fd_adapter_config" where
  "ls_connect_config R port address s =
     andthen (fc_new R) (\<lambda>multiplexer_config.
     andthen (ad_ip R (ls_local_address s)) (\<lambda>ip.
     andthen (ad_numeric R ip port) (\<lambda>local_address.
     andthen (ad_to_string R local_address) (\<lambda>_.
       Inr (s\<lparr>ls_local_address := local_address\<rparr>,
            multiplexer_config\<lparr>fc_source := local_address, fc_destination := address\<rparr>)))))"

definition ls_bind :: "resolver \<Rightarrow> address \<Rightarrow> 'k lab7_socket \<Rightarrow> exn + 'k lab7_socket" where
  "ls_bind R address s =
     andthen (ad_ip R address) (\<lambda>ip.
     andthen (ad_ip R (ls_local_address s)) (\<lambda>own.
       if ip \<noteq> own then
         andthen (ad_to_string R address) (\<lambda>text. Inl (Runtime_Error (''Cannot bind to '' @ text)))
       else
         andthen (ad_port R address) (\<lambda>port.
         andthen (ad_numeric R own port) (\<lambda>local_address. Inr (s\<lparr>ls_local_address := local_address\<rparr>)))))"

definition ls_listen_config :: "resolver \<Rightarrow> 'k lab7_socket \<Rightarrow> exn + fd_adapter_config" where
  "ls_listen_config R s =
     andthen (fc_new R) (\<lambda>multiplexer_config. Inr (multiplexer_config\<lparr>fc_source := ls_local_address s\<rparr>))"

definition ls_connect ::
  "nat \<Rightarrow> (interface_adapter, 'k) sponge poll \<Rightarrow> resolver \<Rightarrow> 'k kernel \<Rightarrow> 'k clock \<Rightarrow> u16 \<Rightarrow> u32 \<Rightarrow> address \<Rightarrow>
     'k lab7_socket \<Rightarrow>
     (exn + (interface_adapter, 'k) sponge el_rule list \<times> (interface_adapter, 'k) sponge) option" where
  "ls_connect fuel poll R K clock port random address s =
     (case ls_connect_config R port address s of
        Inl e \<Rightarrow> Some (Inl e)
      | Inr (s, config) \<Rightarrow>
          sp_connect fuel poll K (la_ops R K) clock tcp_config_default random config (ls_sponge s))"

definition ls_listen_and_accept ::
  "nat \<Rightarrow> (interface_adapter, 'k) sponge poll \<Rightarrow> resolver \<Rightarrow> 'k kernel \<Rightarrow> 'k clock \<Rightarrow> u32 \<Rightarrow> 'k lab7_socket \<Rightarrow>
     (exn + (interface_adapter, 'k) sponge el_rule list \<times> (interface_adapter, 'k) sponge) option" where
  "ls_listen_and_accept fuel poll R K clock random s =
     (case ls_listen_config R s of
        Inl e \<Rightarrow> Some (Inl e)
      | Inr config \<Rightarrow>
          sp_listen_and_accept fuel poll K (la_ops R K) clock tcp_config_default random config (ls_sponge s))"

section \<open>The network thread\<close>

record 'k lab7_network =
  ln_kernel :: 'k
  ln_frame_fd :: fd_wrapper
  ln_internet_socket :: fd_wrapper
  ln_bounce_address :: address
  ln_router :: router
  ln_exit_flag :: bool

text \<open>\<open>host_side\<close> and \<open>internet_side\<close>, as \<open>add_interface\<close> numbers them.\<close>

definition host_side :: nat where "host_side = 0"
definition internet_side :: nat where "internet_side = 1"

definition ln_frames :: "nat \<Rightarrow> 'k lab7_network \<Rightarrow> ethernet_frame list" where
  "ln_frames side w = ni_frames_out (ai_interface (rt_interfaces (ln_router w) ! side))"

definition ln_interface ::
  "nat \<Rightarrow> (async_interface \<Rightarrow> exn + async_interface) \<Rightarrow> 'k lab7_network \<Rightarrow> exn + 'k lab7_network" where
  "ln_interface side f w =
     andthen (rt_interface side (ln_router w)) (\<lambda>ai.
     andthen (f ai) (\<lambda>ai.
       Inr (w\<lparr>ln_router := (ln_router w)\<lparr>rt_interfaces := (rt_interfaces (ln_router w))[side := ai]\<rparr>\<rparr>)))"

text \<open>A frame from the host or from the Internet, given by its bytes.\<close>

definition ln_received ::
  "resolver \<Rightarrow> bool \<Rightarrow> nat \<Rightarrow> byte list \<Rightarrow> 'k lab7_network \<Rightarrow> exn + 'k lab7_network" where
  "ln_received R debug side bytes w =
     (let (state, frame) = ef_parse (buffer_of_string bytes) ef_new in
      if state \<noteq> NoError then Inr w
      else
        andthen (lab7_debug debug frame) (\<lambda>_.
        andthen (ln_interface side (ai_recv_frame frame) w) (\<lambda>w.
        andthen (rt_route R (ln_router w)) (\<lambda>rt. Inr (w\<lparr>ln_router := rt\<rparr>)))))"

definition ln_host_in :: "resolver \<Rightarrow> 'k kernel \<Rightarrow> bool \<Rightarrow> 'k lab7_network \<Rightarrow> exn + 'k lab7_network" where
  "ln_host_in R K debug w =
     andthen (fd_read K (2 ^ 64 - 1) (ln_frame_fd w) (ln_kernel w)) (\<lambda>(bytes, fd, k).
       ln_received R debug host_side bytes (w\<lparr>ln_frame_fd := fd, ln_kernel := k\<rparr>))"

definition ln_internet_in :: "resolver \<Rightarrow> 'k kernel \<Rightarrow> bool \<Rightarrow> 'k lab7_network \<Rightarrow> exn + 'k lab7_network" where
  "ln_internet_in R K debug w =
     andthen (fd_read K (2 ^ 64 - 1) (ln_internet_socket w) (ln_kernel w)) (\<lambda>(bytes, fd, k).
       ln_received R debug internet_side bytes (w\<lparr>ln_internet_socket := fd, ln_kernel := k\<rparr>))"

text \<open>The frame at the front of a queue; the front of an empty queue is undefined.\<close>

definition ln_front :: "nat \<Rightarrow> 'k lab7_network \<Rightarrow> exn + ethernet_frame" where
  "ln_front side w =
     andthen (rt_interface side (ln_router w)) (\<lambda>ai.
       case ni_frames_out (ai_interface ai) of
         [] \<Rightarrow> Inl (Undefined_Behaviour ''queue::front'') | frame # _ \<Rightarrow> Inr frame)"

definition ln_pop :: "nat \<Rightarrow> 'k lab7_network \<Rightarrow> exn + 'k lab7_network" where
  "ln_pop side =
     ln_interface side (\<lambda>ai. Inr (ai\<lparr>ai_interface := (ai_interface ai)
       \<lparr>ni_frames_out := tl (ni_frames_out (ai_interface ai))\<rparr>\<rparr>))"

definition ln_host_out :: "'k kernel \<Rightarrow> bool \<Rightarrow> 'k lab7_network \<Rightarrow> exn + 'k lab7_network" where
  "ln_host_out K debug w =
     andthen (ln_front host_side w) (\<lambda>f.
     andthen (lab7_debug debug f) (\<lambda>_.
     andthen (fd_write K (bvl_of_buffer_list (ef_serialize f)) True (ln_frame_fd w) (ln_kernel w)) (\<lambda>(n, fd, k).
       ln_pop host_side (w\<lparr>ln_frame_fd := fd, ln_kernel := k\<rparr>))))"

definition ln_internet_out :: "'k kernel \<Rightarrow> bool \<Rightarrow> 'k lab7_network \<Rightarrow> exn + 'k lab7_network" where
  "ln_internet_out K debug w =
     andthen (ln_front internet_side w) (\<lambda>f.
     andthen (lab7_debug debug f) (\<lambda>_.
     andthen (us_sendto K (ln_bounce_address w) (bvl_of_buffer_list (ef_serialize f)) (ln_internet_socket w)
         (ln_kernel w)) (\<lambda>(fd, k).
       ln_pop internet_side (w\<lparr>ln_internet_socket := fd, ln_kernel := k\<rparr>))))"

definition ln_rules :: "resolver \<Rightarrow> 'k kernel \<Rightarrow> bool \<Rightarrow> 'k lab7_network el_rule list" where
  "ln_rules R K debug =
     el_add_rule ln_internet_socket Dir_In (ln_internet_in R K debug) (\<lambda>_. True) Inr
     (el_add_rule ln_internet_socket Dir_Out (ln_internet_out K debug) (\<lambda>w. ln_frames internet_side w \<noteq> []) Inr
     (el_add_rule ln_frame_fd Dir_Out (ln_host_out K debug) (\<lambda>w. ln_frames host_side w \<noteq> []) Inr
     (el_add_rule ln_frame_fd Dir_In (ln_host_in R K debug) (\<lambda>_. True) Inr [])))"

definition ai_tick :: "u64 \<Rightarrow> async_interface \<Rightarrow> exn + async_interface" where
  "ai_tick ms ai = andthen (ni_tick ms (ai_interface ai)) (\<lambda>ni. Inr (ai\<lparr>ai_interface := ni\<rparr>))"

definition ln_tick :: "'k lab7_network \<Rightarrow> exn + 'k lab7_network" where
  "ln_tick w =
     andthen (ln_interface host_side (ai_tick 50) w) (\<lambda>w. ln_interface internet_side (ai_tick 50) w)"

text \<open>At most \<open>fuel\<close> rounds; the main thread sets the flag while \<open>poll\<close> waits. An exception ends the thread.\<close>

fun ln_thread ::
  "nat \<Rightarrow> 'k lab7_network poll \<Rightarrow> 'k lab7_network el_rule list \<Rightarrow> 'k lab7_network \<Rightarrow>
     (exn + 'k lab7_network) option" where
  "ln_thread 0 poll rules w = None"
| "ln_thread (Suc fuel) poll rules w =
     (case el_wait_next_event poll 50 rules w of
        Inl e \<Rightarrow> Some (Inl e)
      | Inr (ret, rules, w) \<Rightarrow>
          if ret = El_Exit then Some (Inr w)
          else
            case ln_tick w of
              Inl e \<Rightarrow> Some (Inl e)
            | Inr w \<Rightarrow> if ln_exit_flag w then Some (Inr w) else ln_thread fuel poll rules w)"

section \<open>The program\<close>

text \<open>The interface on the host's side, that on the Internet's, and the three routes.\<close>

definition lab7_setup ::
  "resolver \<Rightarrow> string \<Rightarrow> string \<Rightarrow> (string \<times> u8 \<times> string option \<times> nat) list \<Rightarrow>
     ethernet_address \<Rightarrow> ethernet_address \<Rightarrow> exn + router" where
  "lab7_setup R host_ip internet_ip routes random1 random2 =
     andthen (nw_add_interfaces R [(host_ip, random1), (internet_ip, random2)] rt_new) (\<lambda>rt.
       fold (\<lambda>(prefix, len, hop, side) m. andthen m (\<lambda>rt.
           andthen (ip_of R prefix) (\<lambda>p.
           andthen (case hop of None \<Rightarrow> Inr None | Some ip \<Rightarrow> andthen (ad_numeric R ip 0) (\<lambda>a. Inr (Some a))) (\<lambda>next_hop.
             rt_add_route R p len next_hop side rt))))
         routes (Inr rt))"

definition lab7_router :: "resolver \<Rightarrow> bool \<Rightarrow> ethernet_address \<Rightarrow> ethernet_address \<Rightarrow> exn + router" where
  "lab7_router R is_client =
     (if is_client
      then lab7_setup R ''192.168.0.1'' ''10.0.0.192''
        [(''192.168.0.0'', 16, None, host_side), (''10.0.0.0'', 8, None, internet_side),
         (''172.16.0.0'', 12, Some ''10.0.0.172'', internet_side)]
      else lab7_setup R ''172.16.0.1'' ''10.0.0.172''
        [(''172.16.0.0'', 12, None, host_side), (''10.0.0.0'', 8, None, internet_side),
         (''192.168.0.0'', 16, Some ''10.0.0.192'', internet_side)])"

fun send_empty :: "nat \<Rightarrow> 'k kernel \<Rightarrow> address \<Rightarrow> fd_wrapper \<Rightarrow> 'k \<Rightarrow> exn + fd_wrapper \<times> 'k" where
  "send_empty 0 K bounce_address fd k = Inr (fd, k)"
| "send_empty (Suc n) K bounce_address fd k =
     andthen (us_sendto K bounce_address (bvl_of_string []) fd k) (\<lambda>(fd, k). send_empty n K bounce_address fd k)"

text \<open>What the body sets up before it starts the thread; the kernel is the one inside both results.\<close>

definition lab7_start ::
  "resolver \<Rightarrow> 'k kernel \<Rightarrow> bool \<Rightarrow> string \<Rightarrow> string \<Rightarrow> ethernet_address \<Rightarrow> ethernet_address \<Rightarrow> ethernet_address \<Rightarrow>
     'k \<Rightarrow> exn + 'k lab7_socket \<times> 'k lab7_network" where
  "lab7_start R K is_client bounce_host bounce_port random1 random2 random3 k =
     andthen (so_new K DOMAIN_INET SOCK_DGRAM k) (\<lambda>(internet_socket, k).
     andthen (ad_host R bounce_host bounce_port) (\<lambda>bounce_address.
     andthen (send_empty 3 K bounce_address internet_socket k) (\<lambda>(internet_socket, k).
     andthen (lab7_router R is_client random1 random2) (\<lambda>rt.
     andthen (ad_numeric R (if is_client then ''192.168.0.50'' else ''172.16.0.100'') 0) (\<lambda>ip_address.
     andthen (ad_numeric R (if is_client then ''192.168.0.1'' else ''172.16.0.1'') 0) (\<lambda>next_hop.
     andthen (ls_new R K ip_address next_hop random3 k) (\<lambda>s.
       Inr (s, \<lparr>ln_kernel = sp_kernel (ls_sponge s), ln_frame_fd = la_second (sp_adapter (ls_sponge s)),
         ln_internet_socket = internet_socket, ln_bounce_address = bounce_address, ln_router = rt,
         ln_exit_flag = False\<rparr>))))))))"

text \<open>How the main thread opens its connection; \<open>port\<close> and \<open>random\<close> are the numbers drawn on the way.\<close>

definition lab7_open ::
  "nat \<Rightarrow> (interface_adapter, 'k) sponge poll \<Rightarrow> resolver \<Rightarrow> 'k kernel \<Rightarrow> 'k clock \<Rightarrow> u16 \<Rightarrow> u32 \<Rightarrow> bool \<Rightarrow>
     'k lab7_socket \<Rightarrow>
     (exn + (interface_adapter, 'k) sponge el_rule list \<times> (interface_adapter, 'k) sponge) option" where
  "lab7_open fuel poll R K clock port random is_client s =
     (case ad_numeric R ''172.16.0.100'' 1234 of
        Inl e \<Rightarrow> Some (Inl e)
      | Inr address \<Rightarrow>
          if is_client then ls_connect fuel poll R K clock port random address s
          else
            case ls_bind R address s of
              Inl e \<Rightarrow> Some (Inl e)
            | Inr s \<Rightarrow> ls_listen_and_accept fuel poll R K clock random s)"

definition lab7_usage :: "string \<Rightarrow> string" where
  "lab7_usage argv0 =
     ''Usage: '' @ argv0 @ '' client HOST PORT [debug]'' @ newline @
     ''or     '' @ argv0 @ '' server HOST PORT [debug]'' @ newline"

datatype lab7_command = Lab7_Abort | Lab7_Usage | Lab7_Run bool string string bool

definition lab7_args :: "string list \<Rightarrow> lab7_command" where
  "lab7_args argv =
     (if length argv \<le> 0 then Lab7_Abort
      else if length argv \<noteq> 4 \<and> length argv \<noteq> 5 then Lab7_Usage
      else if argv ! 1 \<noteq> ''client'' \<and> argv ! 1 \<noteq> ''server'' then Lab7_Usage
      else Lab7_Run (argv ! 1 = ''client'') (argv ! 2) (argv ! 3) (length argv = 5))"

section \<open>The adapter leaves the owner's descriptor alone\<close>

lemma la_write_frames_quiet:
  assumes "la_write_frames (logged K) frames fd s = Inr (fd', s')" and "fd_num fd \<noteq> n"
  shows "fd_num fd' = fd_num fd \<and> same_traffic n s s'"
  using assms
proof (induction frames arbitrary: fd s)
  case (Cons frame frames)
  obtain m fd1 s1 where "fd_write (logged K) (bvl_of_buffer_list (ef_serialize frame)) True fd s = Inr (m, fd1, s1)"
    and rest: "la_write_frames (logged K) frames fd1 s1 = Inr (fd', s')"
    using Cons.prems(1) by auto
  then have "fd_num fd1 = fd_num fd \<and> same_traffic n s s1"
    using fd_write_loop_quiet [of K _ True 0 fd s m fd1 s1 n] Cons.prems(2) unfolding fd_write_def by blast
  then show ?case using Cons.IH [OF rest] Cons.prems(2) same_traffic_trans by metis
qed (simp add: same_traffic_def)

lemma la_send_pending_quiet:
  assumes "la_send_pending (logged K) a s = Inr (a', s')" and "fd_num (la_first a) \<noteq> n"
  shows "fd_num (la_first a') \<noteq> n \<and> same_traffic n s s'"
  using assms la_write_frames_quiet by (fastforce simp: la_send_pending_def)

interpretation interface_quiet: quiet_adapter "la_ops R (logged K)" n "\<lambda>a. fd_num (la_first a) \<noteq> n" for R K n
proof
  fix a s seg a' s'
  assume n: "fd_num (la_first a) \<noteq> n" and "ao_read (la_ops R (logged K)) a s = Inr (seg, a', s')"
  then obtain bytes fd s1 where got: "fd_read (logged K) (2 ^ 64 - 1) (la_first a) s = Inr (bytes, fd, s1)"
    and rest: "(let a = a\<lparr>la_first := fd\<rparr>; (state, frame) = ef_parse (buffer_of_string bytes) ef_new in
       if state \<noteq> NoError then Inr (None, a, s1)
       else
         andthen (ni_recv_frame frame (la_interface a)) (\<lambda>(ip_dgram, ni).
         andthen (la_send_pending (logged K) (a\<lparr>la_interface := ni\<rparr>) s1) (\<lambda>(a, k).
           case ip_dgram of
             None \<Rightarrow> Inr (None, a, k)
           | Some d \<Rightarrow> andthen (ipa_unwrap R d (la_base a)) (\<lambda>(seg, base). Inr (seg, a\<lparr>la_base := base\<rparr>, k)))))
      = Inr (seg, a', s')"
    unfolding la_ops_def la_read_def by (auto simp del: Let_def)
  have fd: "fd_num fd = fd_num (la_first a)" "same_traffic n s s1"
    using fd_read_logged [OF got, of n] n by (simp_all add: same_traffic_def)
  obtain state frame where parse: "ef_parse (buffer_of_string bytes) ef_new = (state, frame)" by force
  show "fd_num (la_first a') \<noteq> n \<and> same_traffic n s s'"
  proof (cases "state = NoError")
    case True
    then obtain ni a1 where
      pending: "la_send_pending (logged K) (a\<lparr>la_first := fd, la_interface := ni\<rparr>) s1 = Inr (a1, s')"
      and "la_first a' = la_first a1"
      using rest parse by (auto simp: Let_def split: option.splits)
    moreover have "fd_num (la_first a1) \<noteq> n \<and> same_traffic n s1 s'"
      using la_send_pending_quiet [OF pending, of n] fd(1) n by simp
    ultimately show ?thesis using same_traffic_trans [OF fd(2)] by simp
  qed (use rest parse fd n in auto)
next
  fix a s seg a' s'
  assume "fd_num (la_first a) \<noteq> n" "ao_write (la_ops R (logged K)) seg a s = Inr (a', s')"
  then show "fd_num (la_first a') \<noteq> n \<and> same_traffic n s s'"
    by (auto simp: la_ops_def la_write_def dest!: la_send_pending_quiet [where n = n])
next
  fix a s ms a' s'
  assume "fd_num (la_first a) \<noteq> n" "ao_tick (la_ops R (logged K)) ms a s = Inr (a', s')"
  then show "fd_num (la_first a') \<noteq> n \<and> same_traffic n s s'"
    by (auto simp: la_ops_def la_tick_def dest!: la_send_pending_quiet [where n = n])
qed

section \<open>The routes\<close>

lemma lab7_texts:
  "ad_numeric numeric_resolver ''192.168.0.1'' 0 = Inr (inet_address 0xC0A80001 0)"
  "ad_numeric numeric_resolver ''10.0.0.192'' 0 = Inr (inet_address 0x0A0000C0 0)"
  "ad_numeric numeric_resolver ''172.16.0.1'' 0 = Inr (inet_address 0xAC100001 0)"
  "ad_numeric numeric_resolver ''10.0.0.172'' 0 = Inr (inet_address 0x0A0000AC 0)"
  "ad_numeric numeric_resolver ''192.168.0.0'' 0 = Inr (inet_address 0xC0A80000 0)"
  "ad_numeric numeric_resolver ''10.0.0.0'' 0 = Inr (inet_address 0x0A000000 0)"
  "ad_numeric numeric_resolver ''172.16.0.0'' 0 = Inr (inet_address 0xAC100000 0)"
  by (simp_all add: numeric_text inet_aton_def Let_def dec_value_def is_digit_def)

definition lab7_routes :: "bool \<Rightarrow> route_elem list" where
  "lab7_routes is_client =
     (if is_client
      then [\<lparr>re_route_prefix = 0xC0A80000, re_prefix_length = 16, re_next_hop = None, re_interface_num = host_side\<rparr>,
            \<lparr>re_route_prefix = 0x0A000000, re_prefix_length = 8, re_next_hop = None, re_interface_num = internet_side\<rparr>,
            \<lparr>re_route_prefix = 0xAC100000, re_prefix_length = 12, re_next_hop = Some (inet_address 0x0A0000AC 0),
             re_interface_num = internet_side\<rparr>]
      else [\<lparr>re_route_prefix = 0xAC100000, re_prefix_length = 12, re_next_hop = None, re_interface_num = host_side\<rparr>,
            \<lparr>re_route_prefix = 0x0A000000, re_prefix_length = 8, re_next_hop = None, re_interface_num = internet_side\<rparr>,
            \<lparr>re_route_prefix = 0xC0A80000, re_prefix_length = 16, re_next_hop = Some (inet_address 0x0A0000C0 0),
             re_interface_num = internet_side\<rparr>])"

lemma lab7_router_routes:
  "\<exists>rt. lab7_router numeric_resolver is_client random1 random2 = Inr rt \<and> rt_routes rt = lab7_routes is_client"
  by (simp add: lab7_router_def lab7_setup_def lab7_texts ni_new_def numeric.ip_inet rt_add_route_def ip_of_def
      rt_add_interface_def rt_new_def lab7_routes_def Let_def)

lemma lab7_matches:
  "length (lab7_routes is_client) = Suc (Suc (Suc 0))"
  "rt_matches dst (lab7_routes True ! 0) \<longleftrightarrow> drop_bit 16 dst = 0xC0A8"
  "rt_matches dst (lab7_routes True ! Suc 0) \<longleftrightarrow> drop_bit 24 dst = 0x0A"
  "rt_matches dst (lab7_routes True ! Suc (Suc 0)) \<longleftrightarrow> drop_bit 20 dst = 0xAC1"
  "rt_matches dst (lab7_routes False ! 0) \<longleftrightarrow> drop_bit 20 dst = 0xAC1"
  "rt_matches dst (lab7_routes False ! Suc 0) \<longleftrightarrow> drop_bit 24 dst = 0x0A"
  "rt_matches dst (lab7_routes False ! Suc (Suc 0)) \<longleftrightarrow> drop_bit 16 dst = 0xC0A8"
  by (simp_all add: rt_matches_def lab7_routes_def)

lemma lab7_disjoint:
  fixes dst :: u32
  shows "drop_bit 16 dst = 0xC0A8 \<Longrightarrow> drop_bit 24 dst = 0xC0 \<and> drop_bit 20 dst = 0xC0A"
    and "drop_bit 20 dst = 0xAC1 \<Longrightarrow> drop_bit 24 dst = 0xAC"
proof -
  have "drop_bit 24 dst = drop_bit 8 (drop_bit 16 dst)" "drop_bit 20 dst = drop_bit 4 (drop_bit 16 dst)" by simp_all
  then show "drop_bit 16 dst = 0xC0A8 \<Longrightarrow> drop_bit 24 dst = 0xC0 \<and> drop_bit 20 dst = 0xC0A" by simp
  have "drop_bit 24 dst = drop_bit 4 (drop_bit 20 dst)" by simp
  then show "drop_bit 20 dst = 0xAC1 \<Longrightarrow> drop_bit 24 dst = 0xAC" by simp
qed

lemma lab7_best:
  "rt_best dst (lab7_routes is_client)
     (if drop_bit 16 dst = 0xC0A8 then if is_client then 0 else 2
      else if drop_bit 20 dst = 0xAC1 then if is_client then 2 else 0
      else if drop_bit 24 dst = 0x0A then 1 else - 1)"
proof -
  note found = rt_best_def list_all_length lab7_matches(1) All_less_Suc Ex_less_Suc
  have "rt_best dst (lab7_routes is_client) (if is_client then 0 else 2)" if "drop_bit 16 dst = 0xC0A8"
    using lab7_disjoint(1) [OF that] that unfolding found by (cases is_client) (simp_all add: lab7_matches)
  moreover have "rt_best dst (lab7_routes is_client) (if is_client then 2 else 0)"
    if "drop_bit 16 dst \<noteq> 0xC0A8" "drop_bit 20 dst = 0xAC1"
    using lab7_disjoint(2) [OF that(2)] that unfolding found by (cases is_client) (simp_all add: lab7_matches)
  moreover have "rt_best dst (lab7_routes is_client) 1"
    if "drop_bit 16 dst \<noteq> 0xC0A8" "drop_bit 20 dst \<noteq> 0xAC1" "drop_bit 24 dst = 0x0A"
    using that unfolding found by (cases is_client) (simp_all add: lab7_matches)
  moreover have "rt_best dst (lab7_routes is_client) (- 1)"
    if "drop_bit 16 dst \<noteq> 0xC0A8" "drop_bit 20 dst \<noteq> 0xAC1" "drop_bit 24 dst \<noteq> 0x0A"
    using that unfolding found by (cases is_client) (simp_all add: lab7_matches)
  ultimately show ?thesis by simp
qed

section \<open>Property\<close>

text \<open>C23: (The two routers of the lab.) Both routers can be built, whatever the random Ethernet addresses.
  A datagram for 192.168.0.0/16 goes to the client's own network on the client and to the client's router,
  10.0.0.192, on the server; one for 172.16.0.0/12 goes to the server's own network on the server and to the
  server's router, 10.0.0.172, on the client; one for 10.0.0.0/8 goes to its destination on the link between
  the two. Everything else, and what has no time left to live, is dropped.\<close>

theorem lab7_routing:
  "\<exists>rt. lab7_router numeric_resolver is_client random1 random2 = Inr rt \<and>
     (\<forall>d. rt_route_one_datagram numeric_resolver d rt =
        (let dst = ip_dst (dg_header d);
             send = (\<lambda>side hop. rt_send side (dg_decrement_ttl d) (\<lambda>_. Inr (inet_address hop 0)) rt) in
         if unat (ip_ttl (dg_header d)) \<le> 1 then Inr rt
         else if drop_bit 16 dst = 0xC0A8 then if is_client then send host_side dst else send internet_side 0x0A0000C0
         else if drop_bit 20 dst = 0xAC1 then if is_client then send internet_side 0x0A0000AC else send host_side dst
         else if drop_bit 24 dst = 0x0A then send internet_side dst
         else Inr rt))"
proof -
  obtain rt where rt: "lab7_router numeric_resolver is_client random1 random2 = Inr rt"
      "rt_routes rt = lab7_routes is_client"
    using lab7_router_routes by blast
  have table: "rt_table_ok (rt_routes rt)"
    "list_all (\<lambda>route. re_next_hop route = None \<or> (\<exists>ip port. re_next_hop route = Some (inet_address ip port))) (rt_routes rt)"
    by (auto simp: rt(2) lab7_routes_def rt_table_ok_def)
  have "rt_route_one_datagram numeric_resolver d rt =
        (let dst = ip_dst (dg_header d);
             send = (\<lambda>side hop. rt_send side (dg_decrement_ttl d) (\<lambda>_. Inr (inet_address hop 0)) rt) in
         if unat (ip_ttl (dg_header d)) \<le> 1 then Inr rt
         else if drop_bit 16 dst = 0xC0A8 then if is_client then send host_side dst else send internet_side 0x0A0000C0
         else if drop_bit 20 dst = 0xAC1 then if is_client then send internet_side 0x0A0000AC else send host_side dst
         else if drop_bit 24 dst = 0x0A then send internet_side dst
         else Inr rt)" for d
    unfolding rt_route_one_best [OF numeric.numeric_service_axioms table lab7_best [of _ is_client, folded rt(2)]] Let_def
    unfolding rt(2) by (simp add: lab7_routes_def)
  then show ?thesis using rt(1) by blast
qed

end
