(* ===== verification/Benchmark.thy ===== *)
theory Benchmark
  imports TCP_Network Text "HOL-Library.Sublist"
begin

text \<open>
  \<open>apps/tcp_benchmark.cc\<close>: two connections in one process hand each other their segments, in order or
  reversed, until one has received what the other sends. What the clock measures and what is printed is left
  out; the random bytes are an argument, and so is the number of bytes.
\<close>

section \<open>The program\<close>

record benchmark =
  bm_x :: tcp_connection
  bm_y :: tcp_connection
  bm_bytes_to_send :: "byte list"
  bm_x_closed :: bool
  bm_string_received :: "byte list"

definition move_segments :: "bool \<Rightarrow> tcp_connection \<Rightarrow> tcp_connection \<Rightarrow> tcp_connection \<times> tcp_connection" where
  "move_segments reorder x y =
     (let segments = cn_segments_out x in
      (x\<lparr>cn_segments_out := []\<rparr>, fold cn_segment_received (if reorder then rev segments else segments) y))"

function bm_write_loop :: "benchmark \<Rightarrow> exn + benchmark" where
  "bm_write_loop b =
     (if bm_bytes_to_send b = [] \<or> cn_remaining_outbound_capacity (bm_x b) = 0 then Inr b
      else
        let want = min (cn_remaining_outbound_capacity (bm_x b)) (length (bm_bytes_to_send b));
            (written, x) = cn_write (take want (bm_bytes_to_send b)) (bm_x b) in
        if want \<noteq> written
        then Inl (Runtime_Error (''want = '' @ decimal want @ '', written = '' @ decimal written))
        else bm_write_loop (b\<lparr>bm_x := x, bm_bytes_to_send := drop written (bm_bytes_to_send b)\<rparr>))"
  by auto
termination by (relation "measure (\<lambda>b. length (bm_bytes_to_send b))") auto

declare bm_write_loop.simps [simp del]

definition bm_close :: "benchmark \<Rightarrow> benchmark" where
  "bm_close b =
     (if bm_bytes_to_send b = [] \<and> \<not> bm_x_closed b
      then b\<lparr>bm_x := cn_end_input_stream (bm_x b), bm_x_closed := True\<rparr> else b)"

definition bm_exchange :: "bool \<Rightarrow> benchmark \<Rightarrow> benchmark" where
  "bm_exchange reorder b =
     (let (x, y) = move_segments reorder (bm_x b) (bm_y b);
          (y, x) = move_segments False y x in
      b\<lparr>bm_x := x, bm_y := y\<rparr>)"

definition bm_read :: "benchmark \<Rightarrow> exn + benchmark" where
  "bm_read b =
     (let available_output = bs_buffer_size (cn_inbound_stream (bm_y b)) in
      if available_output > 0 then
        andthen (bs_read available_output (cn_inbound_stream (bm_y b))) (\<lambda>(data, inbound).
          Inr (b\<lparr>bm_string_received := bm_string_received b @ data,
                 bm_y := (bm_y b)\<lparr>cn_receiver := rx_with_output inbound (cn_receiver (bm_y b))\<rparr>\<rparr>))
      else Inr b)"

definition bm_loop :: "bool \<Rightarrow> benchmark \<Rightarrow> exn + benchmark" where
  "bm_loop reorder b =
     andthen (bm_write_loop b) (\<lambda>b.
     andthen (bm_read (bm_exchange reorder (bm_close b))) (\<lambda>b.
       Inr (b\<lparr>bm_x := cn_tick 1000 (bm_x b), bm_y := cn_tick 1000 (bm_y b)\<rparr>)))"

text \<open>\<open>while (condition) loop();\<close> for at most \<open>fuel\<close> rounds.\<close>

fun bm_while :: "nat \<Rightarrow> (benchmark \<Rightarrow> bool) \<Rightarrow> bool \<Rightarrow> benchmark \<Rightarrow> (exn + benchmark) option" where
  "bm_while 0 condition reorder b = (if condition b then None else Some (Inr b))"
| "bm_while (Suc fuel) condition reorder b =
     (if \<not> condition b then Some (Inr b)
      else case bm_loop reorder b of Inl e \<Rightarrow> Some (Inl e) | Inr b \<Rightarrow> bm_while fuel condition reorder b)"

definition bm_start :: "tcp_config \<Rightarrow> u32 \<Rightarrow> u32 \<Rightarrow> byte list \<Rightarrow> benchmark" where
  "bm_start config random_x random_y string_to_send =
     \<lparr>bm_x = cn_connect (cn_new config random_x), bm_y = cn_end_input_stream (cn_new config random_y),
      bm_bytes_to_send = string_to_send, bm_x_closed = False, bm_string_received = []\<rparr>"

definition bm_main_loop ::
  "nat \<Rightarrow> nat \<Rightarrow> bool \<Rightarrow> tcp_config \<Rightarrow> u32 \<Rightarrow> u32 \<Rightarrow> byte list \<Rightarrow> (exn + benchmark) option" where
  "bm_main_loop fuel fuel' reorder config random_x random_y string_to_send =
     (case bm_while fuel (\<lambda>b. \<not> bs_eof (cn_inbound_stream (bm_y b))) reorder
         (bm_start config random_x random_y string_to_send) of
        None \<Rightarrow> None
      | Some (Inl e) \<Rightarrow> Some (Inl e)
      | Some (Inr b) \<Rightarrow>
          if bm_string_received b \<noteq> string_to_send
          then Some (Inl (Runtime_Error ''strings sent vs. received don't match''))
          else bm_while fuel' (\<lambda>b. cn_active (bm_x b) \<or> cn_active (bm_y b)) reorder b)"

section \<open>What an operation does to the two streams\<close>

lemma tx_fill_loop_written [simp]: "bs_written (tx_stream (tx_fill_loop win tx)) = bs_written (tx_stream tx)"
proof (induction win tx rule: tx_fill_loop.induct)
  case (1 win tx)
  obtain seg stream where cut: "tx_cut win tx = (seg, stream)" by force
  then have "bs_written stream = bs_written (tx_stream tx)"
    using tx_cut_stream [of win tx] by (simp add: bs_read_snd)
  then show ?case using 1 cut by (subst tx_fill_loop.simps) (auto simp: Let_def)
qed

lemma tx_written [simp]:
  "bs_written (tx_stream (tx_fill_window tx)) = bs_written (tx_stream tx)"
  "bs_written (tx_stream (tx_pop_acked n segs tx)) = bs_written (tx_stream tx)"
  "bs_written (tx_stream (tx_ack_received a win tx)) = bs_written (tx_stream tx)"
  "bs_written (tx_stream (tx_tick ms tx)) = bs_written (tx_stream tx)"
  "bs_written (tx_stream (tx_send_empty_segment tx)) = bs_written (tx_stream tx)"
proof -
  show fill: "bs_written (tx_stream (tx_fill_window tx)) = bs_written (tx_stream tx)" for tx
    by (simp add: tx_fill_window_def Let_def)
  show pop: "bs_written (tx_stream (tx_pop_acked n segs tx)) = bs_written (tx_stream tx)" for n segs tx
    by (induction n segs tx rule: tx_pop_acked.induct) (simp_all add: Let_def)
  show "bs_written (tx_stream (tx_ack_received a win tx)) = bs_written (tx_stream tx)"
    by (simp add: tx_ack_received_def Let_def fill pop)
  show "bs_written (tx_stream (tx_tick ms tx)) = bs_written (tx_stream tx)"
    "bs_written (tx_stream (tx_send_empty_segment tx)) = bs_written (tx_stream tx)"
    by (simp_all add: tx_tick_def tx_send_empty_segment_def Let_def)
qed

definition cn_written :: "tcp_connection \<Rightarrow> nat" where
  "cn_written cn = bs_written (tx_stream (cn_sender cn))"

definition cn_readden :: "tcp_connection \<Rightarrow> nat" where
  "cn_readden cn = bs_readden (rx_stream_out (cn_receiver cn))"

lemma cn_clean_shutdown_ends [simp]:
  "cn_written (snd (cn_clean_shutdown cn)) = cn_written cn"
  "cn_readden (snd (cn_clean_shutdown cn)) = cn_readden cn"
  by (simp_all add: cn_written_def cn_readden_def)

lemma cn_segment_sends_ends [simp]:
  "cn_written (cn_segment_sends b cn) = cn_written cn" "cn_readden (cn_segment_sends b cn) = cn_readden cn"
  by (simp_all add: cn_segment_sends_def Let_def) (simp_all add: cn_written_def cn_readden_def)

lemma rx_with_output_stream [simp]: "rx_stream_out (rx_with_output out rx) = out"
  by (simp add: rx_with_output_def rx_stream_out_def)

lemma cn_unclean_shutdown_ends [simp]:
  "cn_written (cn_unclean_shutdown b cn) = cn_written cn" "cn_readden (cn_unclean_shutdown b cn) = cn_readden cn"
  by (simp_all add: cn_unclean_shutdown_def Let_def) (simp_all add: cn_written_def cn_readden_def bs_set_error_def)

lemma cn_ends:
  assumes "local_op op \<or> (\<exists>seg. op = Cn_Segment seg)" and "\<And>d. op \<noteq> Cn_Write d" and "\<And>n. op \<noteq> Cn_Read n"
  shows "cn_written (cn_step op cn) = cn_written cn \<and> cn_readden (cn_step op cn) = cn_readden cn"
proof (cases op)
  case Cn_End
  then show ?thesis
    by (simp add: cn_end_input_stream_def Let_def) (simp add: cn_written_def cn_readden_def bs_end_input_def)
next
  case (Cn_Segment seg)
  have ack: "cn_written (cn_take_ack h c) = cn_written c" "cn_readden (cn_take_ack h c) = cn_readden c" for h c
    by (simp_all add: cn_take_ack_def cn_written_def cn_readden_def)
  have answer: "cn_written (cn_answer s c) = cn_written c" "cn_readden (cn_answer s c) = cn_readden c" for s c
    by (simp_all add: cn_answer_def cn_written_def cn_readden_def)
  have rx: "cn_written (c\<lparr>cn_receiver := rx_segment_received seg (cn_receiver c)\<rparr>) = cn_written c"
    "cn_readden (c\<lparr>cn_receiver := rx_segment_received seg (cn_receiver c)\<rparr>) = cn_readden c" for c
    by (simp_all add: cn_written_def cn_readden_def)
  have time: "cn_written (c\<lparr>cn_time := t\<rparr>) = cn_written c" "cn_readden (c\<lparr>cn_time := t\<rparr>) = cn_readden c" for c t
    by (simp_all add: cn_written_def cn_readden_def)
  show ?thesis
    using rx [of "cn_take_ack (seg_header seg) (cn\<lparr>cn_time := 0\<rparr>)"]
    by (auto simp: Cn_Segment cn_segment_received_def Let_def cn_connect_def ack answer time)
next
  case (Cn_Tick ms)
  have "cn_written (c\<lparr>cn_time := t, cn_sender := tx_tick ms (cn_sender c)\<rparr>) = cn_written c"
    "cn_readden (c\<lparr>cn_time := t, cn_sender := tx_tick ms (cn_sender c)\<rparr>) = cn_readden c" for c t
    by (simp_all add: cn_written_def cn_readden_def)
  then show ?thesis by (simp add: Cn_Tick cn_tick_def Let_def)
qed (use assms in \<open>simp_all add: cn_connect_def\<close>)

section \<open>The benchmark is a run of the network\<close>

text \<open>The two endpoints, reached from a start over a network that is seen from either side.\<close>

definition nt_swap :: "network \<Rightarrow> network" where
  "nt_swap w = \<lparr>nt_a = nt_b w, nt_b = nt_a w, nt_to_b = nt_to_a w, nt_to_a = nt_to_b w\<rparr>"

lemma nt_swap_step: "nt_step f g w w' \<Longrightarrow> nt_step g f (nt_swap w) (nt_swap w')"
proof (induction rule: nt_step.induct)
  case (local_a op n)
  then show ?case using nt_step.local_b [of op f "nt_swap n" g] by (simp add: nt_swap_def)
next
  case (local_b op n)
  then show ?case using nt_step.local_a [of op g "nt_swap n" f] by (simp add: nt_swap_def)
next
  case (leave_a n seg rest)
  then show ?case using nt_step.leave_b [of "nt_swap n" seg rest g f] by (simp add: nt_swap_def)
next
  case (leave_b n seg rest)
  then show ?case using nt_step.leave_a [of "nt_swap n" seg rest g f] by (simp add: nt_swap_def)
next
  case (arrive_a seg n)
  then show ?case using nt_step.arrive_b [of seg "nt_swap n" g f] by (simp add: nt_swap_def)
next
  case (arrive_b seg n)
  then show ?case using nt_step.arrive_a [of seg "nt_swap n" g f] by (simp add: nt_swap_def)
qed

lemma nt_swap_reach: "nt_reach f g n0 w \<Longrightarrow> nt_reach g f (nt_swap n0) (nt_swap w)"
  by (induction rule: nt_reach.induct) (auto intro: nt_reach.intros nt_swap_step)

definition bm_reach ::
  "(nat \<Rightarrow> byte) \<Rightarrow> (nat \<Rightarrow> byte) \<Rightarrow> network \<Rightarrow> tcp_connection \<Rightarrow> tcp_connection \<Rightarrow> bool" where
  "bm_reach f g n0 x y \<longleftrightarrow> (\<exists>w. nt_reach f g n0 w \<and> nt_a w = x \<and> nt_b w = y)"

lemma nt_swap_swap [simp]: "nt_swap (nt_swap w) = w"
  by (simp add: nt_swap_def)

lemma bm_reach_swap: "bm_reach f g n0 x y \<longleftrightarrow> bm_reach g f (nt_swap n0) y x"
proof -
  have "bm_reach g f (nt_swap n0) y x" if "bm_reach f g n0 x y" for f g n0 x y
    using that nt_swap_reach unfolding bm_reach_def by (metis nt_swap_def network.select_convs(1,2))
  then show ?thesis by (metis nt_swap_swap)
qed

lemma bm_reach_local:
  "bm_reach f g n0 x y \<Longrightarrow> local_op op \<Longrightarrow> cn_fair f op x \<Longrightarrow> bm_reach f g n0 (cn_step op x) y"
  unfolding bm_reach_def by (metis nt_reach.step nt_step.local_a network.select_convs(1,2) network.surjective network.update_convs(1))

lemma leave_all:
  "nt_reach f g n0 w \<Longrightarrow> \<exists>w'. nt_reach f g n0 w' \<and> nt_a w' = (nt_a w)\<lparr>cn_segments_out := []\<rparr> \<and> nt_b w' = nt_b w \<and>
     set (cn_segments_out (nt_a w)) \<union> set (nt_to_b w) \<subseteq> set (nt_to_b w')"
proof (induction "length (cn_segments_out (nt_a w))" arbitrary: w)
  case 0
  then show ?case by (intro exI [of _ w]) simp
next
  case (Suc n)
  then obtain seg rest where out: "cn_segments_out (nt_a w) = seg # rest" by (cases "cn_segments_out (nt_a w)") auto
  let ?w = "w\<lparr>nt_a := cn_step Cn_Take (nt_a w), nt_to_b := seg # nt_to_b w\<rparr>"
  have "nt_reach f g n0 ?w" using nt_reach.step [OF Suc.prems nt_step.leave_a [OF out]] .
  moreover have "n = length (cn_segments_out (nt_a ?w))" using Suc.hyps(2) out by simp
  ultimately show ?case using Suc.hyps(1) [of ?w] out by auto
qed

lemma arrive_all:
  "nt_reach f g n0 w \<Longrightarrow> set segs \<subseteq> set (nt_to_b w) \<Longrightarrow>
     bm_reach f g n0 (nt_a w) (fold cn_segment_received segs (nt_b w))"
proof (induction segs arbitrary: w)
  case (Cons seg segs)
  let ?w = "w\<lparr>nt_b := cn_step (Cn_Segment seg) (nt_b w)\<rparr>"
  have "nt_reach f g n0 ?w" by (rule nt_reach.step [OF Cons.prems(1) nt_step.arrive_b]) (use Cons.prems(2) in simp)
  from Cons.IH [OF this] show ?case using Cons.prems(2) by simp
qed (auto simp: bm_reach_def)

lemma bm_reach_move:
  assumes "bm_reach f g n0 x y" and "move_segments reorder x y = (x', y')"
  shows "bm_reach f g n0 x' y'"
proof -
  obtain w where w: "nt_reach f g n0 w" "nt_a w = x" "nt_b w = y" using assms(1) by (auto simp: bm_reach_def)
  obtain w1 where w1: "nt_reach f g n0 w1" "nt_a w1 = x\<lparr>cn_segments_out := []\<rparr>" "nt_b w1 = y"
      "set (cn_segments_out x) \<subseteq> set (nt_to_b w1)"
    using leave_all [OF w(1)] w(2,3) by auto
  show ?thesis
    using arrive_all [OF w1(1), of "if reorder then rev (cn_segments_out x) else cn_segments_out x"] w1(2-4) assms(2)
    by (auto simp: move_segments_def Let_def split: if_splits)
qed

lemma fold_ends:
  "cn_written (fold cn_segment_received segs cn) = cn_written cn \<and>
   cn_readden (fold cn_segment_received segs cn) = cn_readden cn"
proof (induction segs arbitrary: cn)
  case (Cons seg segs)
  then show ?case using cn_ends [of "Cn_Segment seg" cn] by simp
qed simp

lemma move_ends:
  "move_segments reorder x y = (x', y') \<Longrightarrow> cn_written x' = cn_written x \<and> cn_readden x' = cn_readden x \<and>
     cn_written y' = cn_written y \<and> cn_readden y' = cn_readden y"
  using fold_ends by (auto simp: move_segments_def Let_def) (simp_all add: cn_written_def cn_readden_def)

section \<open>The invariant of the loop\<close>

definition bm_inv :: "byte list \<Rightarrow> network \<Rightarrow> benchmark \<Rightarrow> bool" where
  "bm_inv sent n0 b \<longleftrightarrow>
     bm_reach (\<lambda>i. sent ! i) (\<lambda>_. 0) n0 (bm_x b) (bm_y b) \<and>
     cn_written (bm_x b) \<le> length sent \<and> bm_bytes_to_send b = drop (cn_written (bm_x b)) sent \<and>
     cn_readden (bm_y b) \<le> length sent \<and> bm_string_received b = take (cn_readden (bm_y b)) sent"

lemma bm_write_loop_inv:
  "bm_inv sent n0 b \<Longrightarrow> length sent + 2 ^ 33 \<le> 2 ^ 64 \<Longrightarrow>
     \<exists>b'. bm_write_loop b = Inr b' \<and> bm_inv sent n0 b' \<and> bm_x_closed b' = bm_x_closed b"
proof (induction b rule: bm_write_loop.induct)
  case (1 b)
  let ?x = "bm_x b" and ?bytes = "bm_bytes_to_send b"
  show ?case
  proof (cases "?bytes = [] \<or> cn_remaining_outbound_capacity ?x = 0")
    case True
    then show ?thesis using "1.prems" by (subst bm_write_loop.simps) simp
  next
    case False
    let ?want = "min (cn_remaining_outbound_capacity ?x) (length ?bytes)" let ?d = "take ?want ?bytes"
    let ?x' = "cn_step (Cn_Write ?d) ?x"
    have inv: "cn_written ?x \<le> length sent" "?bytes = drop (cn_written ?x) sent" using "1.prems"(1) by (simp_all add: bm_inv_def)
    have len: "cn_written ?x + ?want \<le> length sent" using inv by simp
    have wrote: "cn_write ?d ?x = (?want, ?x')" "cn_written ?x' = cn_written ?x + ?want" "cn_readden ?x' = cn_readden ?x"
    proof -
      have "fst (cn_write ?d ?x) = ?want"
        by (simp add: cn_write_def case_prod_beta bs_write_fst cn_remaining_outbound_capacity_def stream_simps)
      then show "cn_write ?d ?x = (?want, ?x')" by (simp add: prod_eq_iff)
      have "cn_written (snd (cn_write ?d ?x)) = bs_written (snd (bs_write ?d (tx_stream (cn_sender ?x))))"
        by (simp add: cn_write_def case_prod_beta) (simp add: cn_written_def)
      then show "cn_written ?x' = cn_written ?x + ?want"
        by (simp add: bs_write_snd cn_written_def cn_remaining_outbound_capacity_def stream_simps)
      show "cn_readden ?x' = cn_readden ?x" by (simp add: cn_write_def case_prod_beta) (simp add: cn_readden_def)
    qed
    have "?d = excerpt (\<lambda>i. sent ! i) (cn_written ?x) (length ?d)"
      using excerpt_take_drop [of "cn_written ?x" ?want sent] len inv(2) by simp
    moreover have "int (cn_written ?x) + int (length ?d) + 2 ^ 33 \<le> 2 ^ 64" using len "1.prems"(2) by simp
    ultimately have "cn_fair (\<lambda>i. sent ! i) (Cn_Write ?d) ?x" by (simp add: cn_written_def)
    then have "bm_reach (\<lambda>i. sent ! i) (\<lambda>_. 0) n0 ?x' (bm_y b)"
      using "1.prems"(1) by (intro bm_reach_local) (simp_all add: bm_inv_def del: cn_step.simps)
    then have inv': "bm_inv sent n0 (b\<lparr>bm_x := ?x', bm_bytes_to_send := drop ?want ?bytes\<rparr>)"
      using "1.prems"(1) wrote(2) len inv(2) by (simp add: bm_inv_def add.commute del: cn_step.simps)
    show ?thesis
      using "1.IH" [OF False refl wrote(1) [symmetric] refl _ inv' "1.prems"(2)] False wrote(1)
      by (subst bm_write_loop.simps) (simp add: Let_def del: cn_step.simps)
  qed
qed

lemma bm_close_inv: "bm_inv sent n0 b \<Longrightarrow> bm_inv sent n0 (bm_close b)"
  using bm_reach_local [of "\<lambda>i. sent ! i" "\<lambda>_. 0" n0 "bm_x b" "bm_y b" Cn_End] cn_ends [of Cn_End "bm_x b"]
  by (simp add: bm_inv_def bm_close_def)

lemma bm_exchange_inv: "bm_inv sent n0 b \<Longrightarrow> bm_inv sent n0 (bm_exchange reorder b)"
proof -
  assume inv: "bm_inv sent n0 b"
  obtain x y where one: "move_segments reorder (bm_x b) (bm_y b) = (x, y)" by force
  obtain y' x' where two: "move_segments False y x = (y', x')" by force
  have "bm_reach (\<lambda>i. sent ! i) (\<lambda>_. 0) n0 x y" using bm_reach_move [OF _ one] inv by (simp add: bm_inv_def)
  then have "bm_reach (\<lambda>i. sent ! i) (\<lambda>_. 0) n0 x' y'" using bm_reach_move [OF _ two] bm_reach_swap by blast
  moreover have "cn_written x' = cn_written (bm_x b)" "cn_readden y' = cn_readden (bm_y b)"
    using move_ends [OF one] move_ends [OF two] by simp_all
  ultimately show "bm_inv sent n0 (bm_exchange reorder b)"
    using inv by (simp add: bm_inv_def bm_exchange_def one two)
qed

lemma bm_read_inv:
  assumes inv: "bm_inv sent n0 b" and n0: "n0 = nt_start acfg ar bcfg br" and small: "int (length sent) + 2 < 2 ^ 31"
  shows "\<exists>b'. bm_read b = Inr b' \<and> bm_inv sent n0 b'"
proof -
  let ?out = "cn_inbound_stream (bm_y b)" and ?f = "\<lambda>i. sent ! i"
  let ?n = "length (bs_content ?out)"
  obtain w where w: "nt_reach ?f (\<lambda>_. 0) n0 w" "nt_a w = bm_x b" "nt_b w = bm_y b"
    using inv by (auto simp: bm_inv_def bm_reach_def)
  have written: "cn_written (bm_x b) \<le> length sent" using inv by (simp add: bm_inv_def)
  then have "int (bs_written (tx_stream (cn_sender (nt_a w)))) + 2 < 2 ^ 31"
    using small by (simp add: w(2) cn_written_def)
  note out = nt_output [OF w(1) [unfolded n0] this, unfolded w(2,3)]
  have at: "bs_readden ?out = cn_readden (bm_y b)" by (simp add: cn_readden_def cn_inbound_stream_def)
  have len: "cn_readden (bm_y b) + ?n \<le> length sent" using out(2,3) written by (simp add: at cn_written_def)
  then have content: "bs_content ?out = take ?n (drop (cn_readden (bm_y b)) sent)"
    using out(1) excerpt_take_drop [OF len] by (simp add: at)
  show ?thesis
  proof (cases "?n = 0")
    case True
    then show ?thesis using inv by (simp add: bm_read_def stream_simps)
  next
    case False
    obtain inbound where read: "bs_read ?n ?out = Inr (bs_content ?out, inbound)" "bs_readden inbound = bs_readden ?out + ?n"
      using bs_read_total [of ?n ?out] by auto
    define y where "y = (bm_y b)\<lparr>cn_receiver := rx_with_output inbound (cn_receiver (bm_y b))\<rparr>"
    have step: "y = cn_step (Cn_Read ?n) (bm_y b)" using read(1) by (simp add: y_def cn_inbound_stream_def)
    have "bm_reach (\<lambda>_. 0) ?f (nt_swap n0) (bm_y b) (bm_x b)" using inv bm_reach_swap by (simp add: bm_inv_def)
    from bm_reach_local [OF this, of "Cn_Read ?n"] have "bm_reach (\<lambda>_. 0) ?f (nt_swap n0) y (bm_x b)"
      by (simp only: step local_op.simps cn_fair.simps simp_thms)
    then have "bm_reach ?f (\<lambda>_. 0) n0 (bm_x b) y" using bm_reach_swap by blast
    moreover have "cn_readden y = cn_readden (bm_y b) + ?n" using read(2) by (simp add: y_def cn_readden_def at)
    moreover have "take (cn_readden (bm_y b)) sent @ bs_content ?out = take (cn_readden (bm_y b) + ?n) sent"
      using content by (metis take_add)
    ultimately show ?thesis
      using inv False read(1) len by (simp add: bm_read_def stream_simps bm_inv_def y_def [symmetric])
  qed
qed

lemma bm_loop_inv:
  assumes inv: "bm_inv sent n0 b" and n0: "n0 = nt_start acfg ar bcfg br" and small: "int (length sent) + 2 < 2 ^ 31"
  shows "\<exists>b'. bm_loop reorder b = Inr b' \<and> bm_inv sent n0 b'"
proof -
  obtain b1 where b1: "bm_write_loop b = Inr b1" "bm_inv sent n0 b1"
    using bm_write_loop_inv [OF inv] small by auto
  obtain b2 where b2: "bm_read (bm_exchange reorder (bm_close b1)) = Inr b2" "bm_inv sent n0 b2"
    using bm_read_inv [OF bm_exchange_inv [OF bm_close_inv [OF b1(2)]] n0 small] by blast
  let ?b = "b2\<lparr>bm_x := cn_step (Cn_Tick 1000) (bm_x b2), bm_y := cn_step (Cn_Tick 1000) (bm_y b2)\<rparr>"
  have "bm_reach (\<lambda>i. sent ! i) (\<lambda>_. 0) n0 (cn_step (Cn_Tick 1000) (bm_x b2)) (bm_y b2)"
    by (rule bm_reach_local) (use b2(2) in \<open>simp_all add: bm_inv_def\<close>)
  then have "bm_reach (\<lambda>_. 0) (\<lambda>i. sent ! i) (nt_swap n0) (bm_y b2) (cn_step (Cn_Tick 1000) (bm_x b2))"
    using bm_reach_swap by blast
  from bm_reach_local [OF this, of "Cn_Tick 1000"]
  have "bm_reach (\<lambda>i. sent ! i) (\<lambda>_. 0) n0 (cn_step (Cn_Tick 1000) (bm_x b2)) (cn_step (Cn_Tick 1000) (bm_y b2))"
    using bm_reach_swap by (metis cn_fair.simps local_op.simps(3-) local_op.simps)
  then have "bm_inv sent n0 ?b"
    using b2(2) cn_ends [of "Cn_Tick 1000"] by (simp add: bm_inv_def del: cn_step.simps)
  then show ?thesis using b1(1) b2(1) by (simp add: bm_loop_def)
qed

text \<open>What has been received stays.\<close>

lemma bm_write_loop_received: "bm_write_loop b = Inr b' \<Longrightarrow> bm_string_received b' = bm_string_received b"
proof (induction b rule: bm_write_loop.induct)
  case (1 b)
  from "1.prems" show ?case
    by (subst (asm) bm_write_loop.simps) (auto simp: Let_def dest!: "1.IH" [rotated 5] split: if_splits prod.splits)
qed

lemma bm_loop_received: "bm_loop reorder b = Inr b' \<Longrightarrow> prefix (bm_string_received b) (bm_string_received b')"
proof -
  have read: "bm_read c = Inr c' \<Longrightarrow> prefix (bm_string_received c) (bm_string_received c')" for c c'
    by (auto simp: bm_read_def Let_def split: if_splits)
  have "bm_string_received (bm_exchange reorder (bm_close c)) = bm_string_received c" for c
    by (simp add: bm_exchange_def bm_close_def case_prod_beta Let_def)
  then show "bm_loop reorder b = Inr b' \<Longrightarrow> ?thesis"
    using read by (fastforce simp: bm_loop_def dest: bm_write_loop_received)
qed

lemma bm_while_received:
  "bm_while fuel condition reorder b = Some (Inr b') \<Longrightarrow> prefix (bm_string_received b) (bm_string_received b')"
proof (induction fuel arbitrary: b)
  case (Suc fuel)
  show ?case
  proof (cases "condition b")
    case True
    then obtain b1 where "bm_loop reorder b = Inr b1" "bm_while fuel condition reorder b1 = Some (Inr b')"
      using Suc.prems by (auto split: sum.splits)
    then show ?thesis using Suc.IH bm_loop_received prefix_order.trans by blast
  qed (use Suc.prems in simp)
qed (simp split: if_splits)

lemma bm_start_inv: "bm_inv sent (nt_start config rx config ry) (bm_start config rx ry sent)"
proof -
  let ?n0 = "nt_start config rx config ry" and ?x = "cn_new config rx" and ?y = "cn_new config ry"
  have "bm_reach (\<lambda>i. sent ! i) (\<lambda>_. 0) ?n0 ?x ?y"
    unfolding bm_reach_def by (intro exI [of _ ?n0] conjI nt_reach.start) (simp_all add: nt_start_def)
  then have "bm_reach (\<lambda>i. sent ! i) (\<lambda>_. 0) ?n0 (cn_step Cn_Connect ?x) ?y"
    by (rule bm_reach_local) simp_all
  then have "bm_reach (\<lambda>_. 0) (\<lambda>i. sent ! i) (nt_swap ?n0) ?y (cn_connect ?x)" using bm_reach_swap by simp
  then have "bm_reach (\<lambda>_. 0) (\<lambda>i. sent ! i) (nt_swap ?n0) (cn_step Cn_End ?y) (cn_connect ?x)"
    by (rule bm_reach_local) simp_all
  then have "bm_reach (\<lambda>i. sent ! i) (\<lambda>_. 0) ?n0 (cn_connect ?x) (cn_end_input_stream ?y)"
    using bm_reach_swap by simp
  moreover have "cn_written ?x = 0" "cn_readden ?y = 0"
    by (simp_all add: cn_written_def cn_readden_def cn_new_def tx_new_def rx_new_def rx_stream_out_def ra_new_def bs_new_def)
  then have "cn_written (cn_connect ?x) = 0" "cn_readden (cn_end_input_stream ?y) = 0"
    using cn_ends [of Cn_Connect ?x] cn_ends [of Cn_End ?y] by simp_all
  ultimately show ?thesis by (simp add: bm_inv_def bm_start_def)
qed

lemma bm_while_inv:
  assumes n0: "n0 = nt_start acfg ar bcfg br" and small: "int (length sent) + 2 < 2 ^ 31"
  shows "bm_inv sent n0 b \<Longrightarrow> bm_while fuel condition reorder b = Some r \<Longrightarrow> \<exists>b'. r = Inr b' \<and> bm_inv sent n0 b'"
proof (induction fuel arbitrary: b)
  case (Suc fuel)
  obtain b1 where "bm_loop reorder b = Inr b1" "bm_inv sent n0 b1" using bm_loop_inv [OF Suc.prems(1) n0 small] by blast
  then show ?case using Suc by (auto split: if_splits)
qed (auto split: if_splits)

text \<open>\<open>n\<close> rounds of the loop.\<close>

fun bm_rounds :: "nat \<Rightarrow> bool \<Rightarrow> benchmark \<Rightarrow> exn + benchmark" where
  "bm_rounds 0 reorder b = Inr b"
| "bm_rounds (Suc n) reorder b = andthen (bm_loop reorder b) (bm_rounds n reorder)"

lemma bm_rounds_inv:
  assumes n0: "n0 = nt_start acfg ar bcfg br" and small: "int (length sent) + 2 < 2 ^ 31"
  shows "bm_inv sent n0 b \<Longrightarrow> \<exists>b'. bm_rounds n reorder b = Inr b' \<and> bm_inv sent n0 b'"
proof (induction n arbitrary: b)
  case (Suc n)
  obtain b1 where "bm_loop reorder b = Inr b1" "bm_inv sent n0 b1" using bm_loop_inv [OF Suc.prems n0 small] by blast
  then show ?case using Suc.IH by auto
qed simp

section \<open>Property\<close>

text \<open>C24: (The benchmark.) For any fewer than \<open>2^31 - 2\<close> bytes, any configuration and initial sequence numbers, with
  the segments in order or reversed, every round of the loop succeeds: a write takes all that the free
  capacity allows. After any number of rounds the bytes received are a prefix of the bytes to send, and what is
  still to be written are the bytes after those that were written. So the whole program throws nothing
  but its last complaint, and only about an end of stream that came before the last byte.\<close>

theorem benchmark_receives_prefix:
  assumes "int (length sent) + 2 < 2 ^ 31"
  shows "(\<exists>b. bm_rounds n reorder (bm_start config random_x random_y sent) = Inr b \<and>
      prefix (bm_string_received b) sent \<and>
      bm_bytes_to_send b = drop (bs_bytes_written (tx_stream (cn_sender (bm_x b)))) sent) \<and>
    (case bm_main_loop fuel fuel' reorder config random_x random_y sent of
       Some (Inl e) \<Rightarrow> e = Runtime_Error ''strings sent vs. received don't match''
     | Some (Inr b) \<Rightarrow> bm_string_received b = sent
     | None \<Rightarrow> True)"
proof
  let ?n0 = "nt_start config random_x config random_y"
  note start = bm_start_inv [of sent config random_x random_y]
  obtain b where "bm_rounds n reorder (bm_start config random_x random_y sent) = Inr b" "bm_inv sent ?n0 b"
    using bm_rounds_inv [OF refl assms start] by blast
  then show "\<exists>b. bm_rounds n reorder (bm_start config random_x random_y sent) = Inr b \<and>
      prefix (bm_string_received b) sent \<and>
      bm_bytes_to_send b = drop (bs_bytes_written (tx_stream (cn_sender (bm_x b)))) sent"
    by (auto simp: bm_inv_def take_is_prefix cn_written_def stream_simps)
  show "case bm_main_loop fuel fuel' reorder config random_x random_y sent of
       Some (Inl e) \<Rightarrow> e = Runtime_Error ''strings sent vs. received don't match''
     | Some (Inr b) \<Rightarrow> bm_string_received b = sent
     | None \<Rightarrow> True"
  proof (cases "bm_while fuel (\<lambda>b. \<not> bs_eof (cn_inbound_stream (bm_y b))) reorder
      (bm_start config random_x random_y sent)")
    case (Some r)
    then obtain b1 where b1: "r = Inr b1" "bm_inv sent ?n0 b1" using bm_while_inv [OF refl assms start] by blast
    show ?thesis
    proof (cases "bm_string_received b1 = sent")
      case True
      let ?again = "bm_while fuel' (\<lambda>b. cn_active (bm_x b) \<or> cn_active (bm_y b)) reorder b1"
      have main: "bm_main_loop fuel fuel' reorder config random_x random_y sent = ?again"
        using Some b1(1) True by (simp add: bm_main_loop_def)
      show ?thesis
      proof (cases ?again)
        case (Some r2)
        then obtain b2 where b2: "r2 = Inr b2" "bm_inv sent ?n0 b2" using bm_while_inv [OF refl assms b1(2)] by blast
        have "prefix sent (bm_string_received b2)" using bm_while_received [of fuel' _ reorder b1 b2] Some b2(1) True by simp
        moreover have "prefix (bm_string_received b2) sent" using b2(2) by (simp add: bm_inv_def take_is_prefix)
        ultimately show ?thesis using Some b2(1) main prefix_order.antisym by auto
      qed (simp add: main)
    qed (use Some b1(1) in \<open>simp add: bm_main_loop_def\<close>)
  qed (simp add: bm_main_loop_def)
qed

theorem benchmark_receives_prefix_witness:
  "\<exists>b. bm_rounds 5 True (bm_start tcp_config_default 5 7 [1, 2, 3]) = Inr b \<and> prefix (bm_string_received b) [1, 2, 3]"
  using benchmark_receives_prefix [of "[1, 2, 3]" 5 True tcp_config_default 5 7] by auto

end
