(* ===== verification/Delivery.thy ===== *)
theory Delivery
  imports Benchmark Handshake
begin

text \<open>
  The data gets through: two new endpoints whose segments are handed over without loss open a connection and carry
  every message written to one of them to the other, for arbitrary messages of at most one segment each. The
  messages may be as many as the sequence numbers allow; \<open>move_segments\<close>, the exchange and the reading are those of
  \<open>apps/tcp_benchmark.cc\<close>.
\<close>

section \<open>An established sender\<close>

text \<open>\<open>tx_open n a fl tx\<close>: \<open>n\<close> is the next sequence number, \<open>a\<close> the first not acknowledged, nothing waits in the stream.\<close>

definition tx_open :: "nat \<Rightarrow> nat \<Rightarrow> tcp_segment list \<Rightarrow> tcp_sender \<Rightarrow> bool" where
  "tx_open n a fl tx \<longleftrightarrow>
     tx_syn tx \<and> \<not> tx_fin tx \<and> tx_next_seqno tx = of_nat n \<and> tx_receive_ack tx = of_nat a \<and>
     tx_checkpoint tx = of_nat a \<and> tx_segments_in_flight tx = fl \<and> tx_bytes_in_flight tx = of_nat (n - a) \<and>
     tx_consecutive_retrans tx = 0 \<and> bs_content (tx_stream tx) = [] \<and> \<not> bs_input_end (tx_stream tx) \<and>
     \<not> bs_err (tx_stream tx)"

text \<open>What no operation of the rounds changes.\<close>

definition tx_fixed :: "tcp_sender \<Rightarrow> wrapping_int32 \<times> nat" where
  "tx_fixed tx = (tx_isn tx, bs_capacity (tx_stream tx))"

lemma tx_open_updates [simp]:
  "tx_open n a fl (tx\<lparr>tx_window_is_zero := z\<rparr>) = tx_open n a fl tx"
  "tx_open n a fl (tx\<lparr>tx_window_size := w\<rparr>) = tx_open n a fl tx"
  "tx_open n a fl (tx\<lparr>tx_segments_out := q\<rparr>) = tx_open n a fl tx"
  "tx_fixed (tx\<lparr>tx_window_is_zero := z\<rparr>) = tx_fixed tx" "tx_fixed (tx\<lparr>tx_window_size := w\<rparr>) = tx_fixed tx"
  "tx_fixed (tx\<lparr>tx_segments_out := q\<rparr>) = tx_fixed tx"
  by (simp_all add: tx_open_def tx_fixed_def)

text \<open>With nothing in the stream the loop sends nothing.\<close>

lemma tx_fill_loop_empty:
  assumes "bs_content (tx_stream tx) = []" "\<not> bs_input_end (tx_stream tx)"
  obtains st where "tx_fill_loop win tx = tx\<lparr>tx_stream := st\<rparr>" "bs_content st = []" "\<not> bs_input_end st"
    "bs_err st = bs_err (tx_stream tx)" "bs_capacity st = bs_capacity (tx_stream tx)"
proof (cases "tx_remain win tx = 0 \<or> tx_fin tx")
  case True
  then have "tx_fill_loop win tx = tx\<lparr>tx_stream := tx_stream tx\<rparr>" by (simp add: tx_fill_loop_stop)
  then show ?thesis using that assms by blast
next
  case False
  obtain seg st where cut: "tx_cut win tx = (seg, st)" by force
  have eqs: "seg = fst (tx_cut win tx)" "st = snd (tx_cut win tx)" using cut by simp_all
  have st: "bs_content st = []" "\<not> bs_input_end st" "bs_err st = bs_err (tx_stream tx)"
    "bs_capacity st = bs_capacity (tx_stream tx)"
    using assms by (simp_all add: eqs tx_cut_stream bs_read_snd)
  have "length_in_sequence_space seg = 0" "\<not> th_fin (seg_header seg)"
    using assms st tx_cut_header [of win tx]
    by (simp_all add: eqs length_in_sequence_space_def tx_cut_payload bs_accessors)
  then have "tx_fill_loop win tx = tx\<lparr>tx_stream := st\<rparr>"
    using tx_fill_loop_round [OF _ _ cut] False by simp
  then show ?thesis using that st by blast
qed

lemma tx_fill_window_open:
  assumes "tx_open n a fl tx"
  shows "tx_open n a fl (tx_fill_window tx) \<and> tx_segments_out (tx_fill_window tx) = tx_segments_out tx \<and>
    tx_fixed (tx_fill_window tx) = tx_fixed tx \<and> tx_window_size (tx_fill_window tx) = tx_window_size tx"
proof -
  have "tx_syn tx" using assms by (simp add: tx_open_def)
  then obtain win tx0 where tx0: "tx0 = tx\<lparr>tx_window_is_zero := (tx_window_size tx = 0)\<rparr>"
    "tx_fill_window tx = tx_fill_loop win tx0"
    using tx_fill_window_sent by metis
  have "tx_open n a fl tx0" using assms tx0(1) by simp
  moreover from this obtain st where "tx_fill_loop win tx0 = tx0\<lparr>tx_stream := st\<rparr>" "bs_content st = []"
    "\<not> bs_input_end st" "bs_err st = bs_err (tx_stream tx0)" "bs_capacity st = bs_capacity (tx_stream tx0)"
    using tx_fill_loop_empty [of tx0 win] by (auto simp: tx_open_def)
  ultimately show ?thesis by (simp add: tx0 tx_open_def tx_fixed_def)
qed

text \<open>A message that fits one segment, the window and the stream goes out at once.\<close>

lemma tx_fill_window_message:
  assumes tx: "tx_open n n [] tx" and d: "d \<noteq> []" "length d \<le> MAX_PAYLOAD_SIZE" "length d \<le> unat (tx_window_size tx)"
    and st: "bs_content st = d" "\<not> bs_input_end st" "\<not> bs_err st" "bs_capacity st = bs_capacity (tx_stream tx)"
  defines "tx' \<equiv> tx_fill_window (tx\<lparr>tx_stream := st\<rparr>)"
  obtains seg where "tx_open (n + length d) n [seg] tx'" "tx_segments_out tx' = tx_segments_out tx @ [seg]"
    "seg_header seg = th_new\<lparr>th_seqno := wrap (of_nat n) (tx_isn tx)\<rparr>" "buffer_str (seg_payload seg) = d"
    "tx_fixed tx' = tx_fixed tx"
proof -
  let ?tx1 = "tx\<lparr>tx_stream := st\<rparr>"
  have "tx_syn ?tx1" using tx by (simp add: tx_open_def)
  then obtain win tx0 where tx0: "tx0 = ?tx1\<lparr>tx_window_is_zero := (tx_window_size tx = 0)\<rparr>"
    "unat win = tx_window tx0" "tx_fill_window ?tx1 = tx_fill_loop win tx0"
    by (rule tx_fill_window_sent) simp
  have rem: "tx_remain win tx0 = win" using tx by (simp add: tx_remain_def tx0(1) tx_open_def)
  have win: "length d \<le> unat win" using d(3) by (simp add: tx0(1,2) tx_window_def)
  then have nz: "tx_remain win tx0 \<noteq> 0" "\<not> tx_fin tx0" using d(1) rem tx by (auto simp: tx0(1) tx_open_def)
  let ?n = "unat (min (tx_remain win tx0) (of_nat MAX_PAYLOAD_SIZE))"
  have n: "length d \<le> ?n"
    using win d(2) by (simp add: rem min_def MAX_PAYLOAD_SIZE_def)
  obtain seg st' where cut: "tx_cut win tx0 = (seg, st')" by force
  have eqs: "seg = fst (tx_cut win tx0)" "st' = snd (tx_cut win tx0)" using cut by simp_all
  have st': "bs_content st' = []" "\<not> bs_input_end st'" "\<not> bs_err st'" "bs_capacity st' = bs_capacity (tx_stream tx)"
    using n st by (simp_all add: eqs tx_cut_stream bs_read_snd tx0(1))
  have pay: "buffer_str (seg_payload seg) = d"
    using n st(1) by (simp add: eqs tx_cut_payload tx0(1))
  have hdr: "seg_header seg = th_new"
    using st'(2) unfolding eqs by (auto simp: tx_cut_def Let_def seg_new_def bs_accessors split: prod.split)
  have len: "length_in_sequence_space seg = length d"
    using pay hdr by (simp add: length_in_sequence_space_def th_new_def)
  let ?tx2 = "tx_send_segment seg (tx0\<lparr>tx_stream := st', tx_fin := False\<rparr>)"
  let ?seg = "seg\<lparr>seg_header := th_new\<lparr>th_seqno := wrap (of_nat n) (tx_isn tx)\<rparr>\<rparr>"
  have loop: "tx' = tx_fill_loop win ?tx2"
    using tx_fill_loop_round [OF nz cut] len d(1) hdr by (simp add: tx'_def tx0(3) th_new_def)
  have len': "length_in_sequence_space ?seg = length d"
    using len hdr by (simp add: length_in_sequence_space_def th_new_def)
  have 2: "tx_open (n + length d) n [?seg] ?tx2 \<and> tx_segments_out ?tx2 = tx_segments_out tx @ [?seg] \<and>
      tx_fixed ?tx2 = tx_fixed tx"
    using tx st' len' hdr by (simp add: tx_send_segment_def Let_def tx_open_def tx0(1) tx_fixed_def)
  obtain st2 where "tx' = ?tx2\<lparr>tx_stream := st2\<rparr>" "bs_content st2 = []" "\<not> bs_input_end st2"
    "bs_err st2 = bs_err (tx_stream ?tx2)" "bs_capacity st2 = bs_capacity (tx_stream ?tx2)"
    using tx_fill_loop_empty [of ?tx2 win] st' unfolding loop by auto
  then have "tx_open (n + length d) n [?seg] tx'" "tx_segments_out tx' = tx_segments_out tx @ [?seg]" "tx_fixed tx' = tx_fixed tx"
    using 2 by (simp_all add: tx_open_def tx_fixed_def)
  then show ?thesis using that [of ?seg] pay by simp
qed

lemma unwrap_ack:
  assumes "a \<le> n" "n \<le> a + 2 ^ 30" "int n + 2 ^ 33 \<le> 2 ^ 64"
  shows "unwrap (wrap (of_nat n) isn) isn (of_nat a) = of_nat n"
  using assms by (intro unwrap_of_wrap) (simp_all add: uint_of_nat_u64)

text \<open>An acknowledgment that is not news sets the window.\<close>

lemma tx_ack_old:
  assumes tx: "tx_open n n [] tx" and n: "int n + 2 ^ 33 \<le> 2 ^ 64"
  shows "tx_ack_received (wrap (of_nat n) (tx_isn tx)) w tx = tx\<lparr>tx_window_size := w\<rparr>"
  using tx unwrap_ack [of n n "tx_isn tx"] n
  by (simp add: tx_ack_received_def Let_def tx_open_def)

text \<open>The acknowledgment of the one segment in flight.\<close>

lemma tx_ack_new:
  fixes w :: u16
  assumes tx: "tx_open (n + m) n [seg] tx" and n: "int n + int m + 2 ^ 33 \<le> 2 ^ 64" and m: "0 < m" "m \<le> 2 ^ 30"
    and seg: "th_seqno (seg_header seg) = wrap (of_nat n) (tx_isn tx)" "length_in_sequence_space seg = m"
  defines "tx' \<equiv> tx_ack_received (wrap (of_nat (n + m)) (tx_isn tx)) w tx"
  shows "tx_open (n + m) (n + m) [] tx' \<and> tx_segments_out tx' = tx_segments_out tx \<and>
    tx_fixed tx' = tx_fixed tx \<and> tx_window_size tx' = w"
proof -
  let ?abs = "of_nat (n + m) :: u64"
  have u: "uint (of_nat n :: u64) = int n" "uint ?abs = int (n + m)"
    using n uint_of_nat_u64 [of n] uint_of_nat_u64 [of "n + m"] by (simp_all del: of_nat_add)
  have abs: "unwrap (wrap ?abs (tx_isn tx)) (tx_isn tx) (tx_checkpoint tx) = ?abs"
    using unwrap_ack [of n "n + m" "tx_isn tx"] tx n m by (simp add: tx_open_def)
  have first: "unwrap (th_seqno (seg_header seg)) (tx_isn tx) ?abs = of_nat n"
    unfolding seg(1) using n m by (intro unwrap_of_wrap) (simp_all only: u, simp_all)
  have less: "\<not> ?abs \<le> of_nat n" using m by (simp add: word_le_def u del: of_nat_add)
  let ?tx1 = "tx\<lparr>tx_window_size := w, tx_receive_ack := ?abs, tx_checkpoint := ?abs\<rparr>"
  let ?tx2 = "?tx1\<lparr>tx_bytes_in_flight := 0, tx_segments_in_flight := []\<rparr>"
  have pop: "tx_pop_acked ?abs (tx_segments_in_flight tx) ?tx1 = ?tx2"
    using tx first seg(2) by (simp add: tx_open_def Let_def)
  have 2: "tx_open (n + m) (n + m) [] ?tx2" using tx by (simp add: tx_open_def)
  note fill = tx_fill_window_open [OF 2]
  have "tx' = (tx_fill_window ?tx2)\<lparr>tx_retrans_timeout := tx_initial_retransmission_timeout (tx_fill_window ?tx2),
      tx_consecutive_retrans := 0\<rparr>"
    using abs less pop tx fill
    by (simp add: tx'_def tx_ack_received_def Let_def tx_open_def del: of_nat_add)
  then show ?thesis using fill by (simp add: tx_open_def tx_fixed_def)
qed

text \<open>Time does nothing to it.\<close>

lemma tx_tick_open:
  assumes "tx_open n n [] tx"
  shows "tx_open n n [] (tx_tick ms tx) \<and> tx_segments_out (tx_tick ms tx) = tx_segments_out tx \<and>
    tx_fixed (tx_tick ms tx) = tx_fixed tx \<and> tx_window_size (tx_tick ms tx) = tx_window_size tx"
  using assms by (simp add: tx_tick_def Let_def tx_open_def tx_fixed_def)

section \<open>An established receiver\<close>

text \<open>\<open>rx_open w d rx\<close>: the next byte expected has index \<open>w\<close>, and \<open>d\<close> is waiting to be read.\<close>

definition rx_open :: "nat \<Rightarrow> byte list \<Rightarrow> tcp_receiver \<Rightarrow> bool" where
  "rx_open w d rx \<longleftrightarrow>
     rx_synced rx \<and> bs_written (rx_stream_out rx) = w \<and> bs_content (rx_stream_out rx) = d \<and>
     \<not> ra_eof_flag (rx_reassembler rx) \<and> \<not> bs_input_end (rx_stream_out rx) \<and> \<not> bs_err (rx_stream_out rx)"

lemma rx_open_ackno:
  assumes "rx_open w d rx"
  shows "rx_ackno rx = wrap (of_nat (Suc w)) (rx_isn rx)" and "rx_syn rx"
  using assms rx_synced_next [of rx] by (auto simp: rx_open_def rx_synced_def)

lemma rx_open_window:
  "rx_open w d rx \<Longrightarrow> rx_window_size rx = rx_capacity rx - length d"
  by (simp add: rx_open_def rx_window_size_def stream_simps)

text \<open>Pushing at the next index keeps the flags.\<close>

lemma ra_flags [simp]:
  "ra_eof_flag (ra_flush r) = ra_eof_flag r" "bs_input_end (ra_output (ra_flush r)) = bs_input_end (ra_output r)"
  "bs_err (ra_output (ra_flush r)) = bs_err (ra_output r)"
  "ra_eof_flag (ra_store elm r) = ra_eof_flag r" "ra_output (ra_store elm r) = ra_output r"
  by (simp_all add: ra_flush_def ra_store_def Let_def case_prod_beta bs_write_snd)

lemma push_substring_flags:
  "\<not> ra_eof_flag r \<Longrightarrow> \<not> bs_input_end (ra_output r) \<Longrightarrow> \<not> bs_err (ra_output r) \<Longrightarrow>
   \<not> ra_eof_flag (push_substring d i False r) \<and> \<not> bs_input_end (ra_output (push_substring d i False r)) \<and>
   \<not> bs_err (ra_output (push_substring d i False r))"
  by (simp add: push_substring_def ra_judge_eof_def Let_def)

lemma rx_open_segment:
  assumes rx: "rx_open w d rx" and seq: "th_seqno (seg_header seg) = wrap (of_nat (Suc w)) (rx_isn rx)"
    and flags: "\<not> th_syn (seg_header seg)" "\<not> th_fin (seg_header seg)"
    and p: "buffer_str (seg_payload seg) = p" "length d + length p \<le> rx_capacity rx" "0 < rx_capacity rx"
      "int w + int (length p) + 2 ^ 32 \<le> 2 ^ 64"
  shows "rx_open (w + length p) (d @ p) (rx_segment_received seg rx)"
proof -
  let ?rx' = "rx_segment_received seg rx" and ?r = "rx_reassembler rx"
  let ?r' = "push_substring p w False ?r"
  have s: "rx_synced rx" and w: "bs_written (rx_stream_out rx) = w" using rx by (simp_all add: rx_open_def)
  have st: "rx_syn rx" "\<not> rx_fin rx" "ra_blocks ?r = []" "ra_unassembled_byte ?r = 0" "ra_inv any_bytes ?r"
    "ra_capacity ?r = rx_capacity rx" "ra_head_index ?r = w" "rx_fin_not_count rx"
    using s w by (auto simp: rx_synced_def rx_inv_def ra_inv_def rx_stream_out_def)
  have room: "w + length p \<le> ra_limit ?r"
    using rx_synced_window [OF s, of "length p"] rx_open_window [OF rx] p w by simp
  have idx: "unat (rx_index (th_seqno (seg_header seg)) rx) = w"
    unfolding seq by (rule rx_synced_index [OF s]) (simp_all add: w)
  have rx': "rx_reassembler ?rx' = ?r' \<and> \<not> rx_fin ?rx' \<and> rx_fin_not_count ?rx' \<and> rx_syn ?rx'"
    using st flags idx p(1)
    by (simp add: rx_segment_received_def rx_push_def rx_finish_def Let_def buffer_copy_def)
  note emp = push_into_empty [OF st(5,3,4), of w p False, unfolded st(6,7), OF order.refl _ room p(3)]
  have inv: "rx_inv any_bytes ?rx'"
    using rx_machine.step_inv [of rx "rx_capacity rx" "Rx_Segment seg"] s by (simp add: rx_synced_def)
  have ack: "rx_ackno ?rx' = wi_plus (rx_ackno rx) (of_nat (length p))"
    using rx_synced_push(3) [OF s, of w seg] w seq flags p room by simp
  have "rx_ackno rx = wi_plus (rx_isn rx) (1 + of_nat w)"
    using s w st(8) by (simp add: rx_synced_def rx_acks_def)
  then have acks: "rx_acks (w + length p) ?rx'"
    using ack rx' flags by (simp add: rx_acks_def algebra_simps)
  have content: "bs_content (rx_stream_out ?rx') = d @ p" "bs_written (rx_stream_out ?rx') = w + length p"
    using emp(1,2) rx' rx by (simp_all add: rx_stream_out_def rx_open_def)
  have "rx_synced ?rx'"
    using inv rx' acks content emp(3,4) p(4) by (simp add: rx_synced_def)
  then show ?thesis
    using content rx' push_substring_flags [of ?r p w] rx by (simp add: rx_open_def rx_stream_out_def)
qed

lemma rx_open_ackno_opt:
  "rx_open w d rx \<Longrightarrow> wrap (of_nat (Suc w)) (rx_isn rx) \<noteq> WrappingInt32 0 \<Longrightarrow>
   rx_ackno_opt rx = Some (wrap (of_nat (Suc w)) (rx_isn rx))"
  using rx_open_ackno [of w d rx] by (simp add: rx_ackno_opt_def)

section \<open>Established endpoints\<close>

definition cn_open :: "nat \<Rightarrow> nat \<Rightarrow> tcp_segment list \<Rightarrow> nat \<Rightarrow> byte list \<Rightarrow> tcp_connection \<Rightarrow> bool" where
  "cn_open n a fl w d cn \<longleftrightarrow>
     cn_active cn \<and> cn_linger cn \<and> cn_syn_sended cn \<and> \<not> cn_need_send_rst cn \<and>
     tx_open n a fl (cn_sender cn) \<and> tx_segments_out (cn_sender cn) = [] \<and> rx_open w d (cn_receiver cn)"

definition cn_fixed :: "tcp_connection \<Rightarrow> (wrapping_int32 \<times> nat) \<times> wrapping_int32 \<times> nat" where
  "cn_fixed cn = (tx_fixed (cn_sender cn), rx_isn (cn_receiver cn), rx_capacity (cn_receiver cn))"

definition stamped :: "wrapping_int32 \<Rightarrow> u16 \<Rightarrow> tcp_segment \<Rightarrow> tcp_segment" where
  "stamped a win seg = seg\<lparr>seg_header := (seg_header seg)\<lparr>th_ack := True, th_ackno := a, th_win := win\<rparr>\<rparr>"

text \<open>What goes out, when the receiver has an acknowledgment number.\<close>

lemma cn_segment_sends_open:
  assumes "cn_syn_sended cn" "\<not> cn_need_send_rst cn" "rx_open w d (cn_receiver cn)"
    "wrap (of_nat (Suc w)) (rx_isn (cn_receiver cn)) \<noteq> WrappingInt32 0"
  shows "cn_segment_sends False cn = cn\<lparr>cn_sender := (tx_fill_window (cn_sender cn))\<lparr>tx_segments_out := []\<rparr>,
    cn_segments_out := cn_segments_out cn @
      map (stamped (wrap (of_nat (Suc w)) (rx_isn (cn_receiver cn))) (of_nat (rx_capacity (cn_receiver cn) - length d)))
        (tx_segments_out (tx_fill_window (cn_sender cn)))\<rparr>"
proof -
  have "\<not> bs_input_end (rx_stream_out (cn_receiver cn))" using assms(3) by (simp add: rx_open_def)
  moreover have "cn_stamp cn' = stamped (wrap (of_nat (Suc w)) (rx_isn (cn_receiver cn)))
      (of_nat (rx_capacity (cn_receiver cn) - length d))"
    if "cn_receiver cn' = cn_receiver cn" "\<not> cn_need_send_rst cn'" for cn'
    using that rx_open_ackno_opt [OF assms(3,4)] rx_open_window [OF assms(3)]
    by (simp add: cn_stamp_def stamped_def fun_eq_iff)
  ultimately show ?thesis
    using assms(1,2) by (simp add: cn_segment_sends_def Let_def cn_clean_shutdown_def bs_accessors)
qed

text \<open>Nothing is sent when there is nothing to send.\<close>

lemma cn_segment_sends_quiet:
  assumes "cn_open n a fl w d cn" "wrap (of_nat (Suc w)) (rx_isn (cn_receiver cn)) \<noteq> WrappingInt32 0"
  shows "cn_open n a fl w d (cn_segment_sends False cn) \<and> cn_segments_out (cn_segment_sends False cn) = cn_segments_out cn \<and>
    cn_fixed (cn_segment_sends False cn) = cn_fixed cn \<and>
    tx_window_size (cn_sender (cn_segment_sends False cn)) = tx_window_size (cn_sender cn)"
  using assms tx_fill_window_open [of n a fl "cn_sender cn"] cn_segment_sends_open [of cn w d]
  by (simp add: cn_open_def cn_fixed_def)

lemma cn_write_open:
  assumes cn: "cn_open n n [] w d0 cn" and out: "cn_segments_out cn = []"
    and nz: "wrap (of_nat (Suc w)) (rx_isn (cn_receiver cn)) \<noteq> WrappingInt32 0"
    and d: "d \<noteq> []" "length d \<le> MAX_PAYLOAD_SIZE" "length d \<le> unat (tx_window_size (cn_sender cn))"
      "length d \<le> bs_capacity (tx_stream (cn_sender cn))"
  obtains seg where "cn_open (n + length d) n [seg] w d0 (snd (cn_write d cn))"
    "cn_segments_out (snd (cn_write d cn)) = [stamped (wrap (of_nat (Suc w)) (rx_isn (cn_receiver cn)))
      (of_nat (rx_capacity (cn_receiver cn) - length d0)) seg]"
    "seg_header seg = th_new\<lparr>th_seqno := wrap (of_nat n) (tx_isn (cn_sender cn))\<rparr>" "buffer_str (seg_payload seg) = d"
    "cn_fixed (snd (cn_write d cn)) = cn_fixed cn"
proof -
  let ?tx = "cn_sender cn"
  obtain len st where st: "bs_write d (tx_stream ?tx) = (len, st)" by force
  let ?cn = "cn\<lparr>cn_sender := ?tx\<lparr>tx_stream := st\<rparr>\<rparr>"
  have tx: "tx_open n n [] ?tx" "tx_segments_out ?tx = []" using cn by (simp_all add: cn_open_def)
  have eqs: "st = snd (bs_write d (tx_stream ?tx))" using st by simp
  have "bs_content st = d" "\<not> bs_input_end st" "\<not> bs_err st" "bs_capacity st = bs_capacity (tx_stream ?tx)"
    using tx(1) d(4) by (simp_all add: eqs bs_write_snd tx_open_def)
  from tx_fill_window_message [OF tx(1) d(1,2,3) this]
  obtain seg where seg: "tx_open (n + length d) n [seg] (tx_fill_window (?tx\<lparr>tx_stream := st\<rparr>))"
    "tx_segments_out (tx_fill_window (?tx\<lparr>tx_stream := st\<rparr>)) = tx_segments_out ?tx @ [seg]"
    "seg_header seg = th_new\<lparr>th_seqno := wrap (of_nat n) (tx_isn ?tx)\<rparr>" "buffer_str (seg_payload seg) = d"
    "tx_fixed (tx_fill_window (?tx\<lparr>tx_stream := st\<rparr>)) = tx_fixed ?tx" .
  have "snd (cn_write d cn) = cn_segment_sends False ?cn" by (simp add: cn_write_def st)
  then show ?thesis
    using that [of seg] seg cn_segment_sends_open [of ?cn w d0] cn nz tx(2) out
    by (simp add: cn_open_def cn_fixed_def)
qed

text \<open>A segment of data arrives and is answered.\<close>

lemma cn_data_received:
  assumes cn: "cn_open n n [] w d0 cn" and out: "cn_segments_out cn = []"
    and n: "0 < n" "int n + 2 ^ 33 \<le> 2 ^ 64" "int w + int (length p) + 2 ^ 33 \<le> 2 ^ 64"
    and h: "th_seqno (seg_header seg) = wrap (of_nat (Suc w)) (rx_isn (cn_receiver cn))" "\<not> th_syn (seg_header seg)"
      "\<not> th_fin (seg_header seg)" "\<not> th_rst (seg_header seg)" "th_ack (seg_header seg)"
      "th_ackno (seg_header seg) = wrap (of_nat n) (tx_isn (cn_sender cn))"
    and p: "buffer_str (seg_payload seg) = p" "p \<noteq> []" "length d0 + length p \<le> rx_capacity (cn_receiver cn)"
    and nz: "wrap (of_nat (Suc (w + length p))) (rx_isn (cn_receiver cn)) \<noteq> WrappingInt32 0"
  defines "cn' \<equiv> cn_segment_received seg cn"
  shows "cn_open n n [] (w + length p) (d0 @ p) cn' \<and> cn_fixed cn' = cn_fixed cn \<and>
    cn_segments_out cn' = [stamped (wrap (of_nat (Suc (w + length p))) (rx_isn (cn_receiver cn)))
      (of_nat (rx_capacity (cn_receiver cn) - length (d0 @ p)))
      (seg_new\<lparr>seg_header := th_new\<lparr>th_seqno := wrap (of_nat n) (tx_isn (cn_sender cn))\<rparr>\<rparr>)]"
proof -
  let ?tx = "(cn_sender cn)\<lparr>tx_window_size := th_win (seg_header seg)\<rparr>" and ?rx = "rx_segment_received seg (cn_receiver cn)"
  let ?cn = "cn\<lparr>cn_time := 0, cn_sender := ?tx, cn_receiver := ?rx\<rparr>"
  have tx: "tx_open n n [] (cn_sender cn)" "tx_segments_out (cn_sender cn) = []" and rx0: "rx_open w d0 (cn_receiver cn)"
    and act: "cn_active cn" "cn_linger cn" "cn_syn_sended cn" "\<not> cn_need_send_rst cn"
    using cn by (simp_all add: cn_open_def)
  have pos: "(of_nat n :: u64) \<noteq> 0" using n(1,2) by (simp add: word_of_nat_eq_0_iff nat_dvd_not_less)
  then have not_sent: "tx_summary (cn_sender cn) \<noteq> TX_SYN_SENT"
    using tx(1) summaries_differ(2) by (auto simp: tx_summary_def tx_open_def bs_accessors)
  have rx: "rx_open (w + length p) (d0 @ p) ?rx"
    using rx_open_segment [OF rx0 h(1,2,3) p(1,3)] p n(3) by (cases p) simp_all
  have isn: "rx_isn ?rx = rx_isn (cn_receiver cn)" "rx_capacity ?rx = rx_capacity (cn_receiver cn)" using h(2) by simp_all
  have take_ack: "cn_take_ack (seg_header seg) (cn\<lparr>cn_time := 0\<rparr>) = cn\<lparr>cn_time := 0, cn_sender := ?tx\<rparr>"
    using tx_ack_old [OF tx(1) n(2), of "th_win (seg_header seg)"] h(5,6) pos tx(1)
    by (simp add: cn_take_ack_def tx_open_def word_gt_0)
  have len: "length_in_sequence_space seg > 0" using p by (simp add: length_in_sequence_space_def)
  let ?e = "seg_new\<lparr>seg_header := th_new\<lparr>th_seqno := wrap (of_nat n) (tx_isn (cn_sender cn))\<rparr>\<rparr>"
  let ?txe = "?tx\<lparr>tx_segments_out := [?e]\<rparr>"
  have ans: "cn_answer seg ?cn = ?cn\<lparr>cn_sender := ?txe\<rparr>"
    using len rx_open_ackno_opt [OF rx] nz isn tx by (simp add: cn_answer_def tx_send_empty_segment_def tx_open_def)
  have 1: "cn' = cn_segment_sends False (?cn\<lparr>cn_sender := ?txe\<rparr>)"
    using act not_sent h ans take_ack by (simp add: cn'_def cn_segment_received_def Let_def)
  have "tx_open n n [] ?txe" using tx(1) by simp
  note fill = tx_fill_window_open [OF this]
  have "cn' = ?cn\<lparr>cn_sender := (tx_fill_window ?txe)\<lparr>tx_segments_out := []\<rparr>,
      cn_segments_out := [stamped (wrap (of_nat (Suc (w + length p))) (rx_isn (cn_receiver cn)))
        (of_nat (rx_capacity (cn_receiver cn) - length (d0 @ p))) ?e]\<rparr>"
    unfolding 1 using cn_segment_sends_open [of "?cn\<lparr>cn_sender := ?txe\<rparr>" "w + length p" "d0 @ p"] act rx nz isn fill out by simp
  then show ?thesis using fill act rx isn by (simp add: cn_open_def cn_fixed_def)
qed

text \<open>The answer arrives.\<close>

lemma cn_ack_received_open:
  assumes cn: "cn_open (n + m) n [seg] w [] cn" and out: "cn_segments_out cn = []"
    and n: "0 < m" "m \<le> 2 ^ 30" "int n + int m + 2 ^ 33 \<le> 2 ^ 64" "int w + 2 ^ 33 \<le> 2 ^ 64"
    and seg: "th_seqno (seg_header seg) = wrap (of_nat n) (tx_isn (cn_sender cn))" "length_in_sequence_space seg = m"
    and h: "th_seqno (seg_header ack) = wrap (of_nat (Suc w)) (rx_isn (cn_receiver cn))" "\<not> th_syn (seg_header ack)"
      "\<not> th_fin (seg_header ack)" "\<not> th_rst (seg_header ack)" "th_ack (seg_header ack)"
      "th_ackno (seg_header ack) = wrap (of_nat (n + m)) (tx_isn (cn_sender cn))" "buffer_str (seg_payload ack) = []"
    and nz: "wrap (of_nat (Suc w)) (rx_isn (cn_receiver cn)) \<noteq> WrappingInt32 0" "0 < rx_capacity (cn_receiver cn)"
  defines "cn' \<equiv> cn_segment_received ack cn"
  shows "cn_open (n + m) (n + m) [] w [] cn' \<and> cn_fixed cn' = cn_fixed cn \<and> cn_segments_out cn' = [] \<and>
    tx_window_size (cn_sender cn') = th_win (seg_header ack)"
proof -
  let ?tx = "tx_ack_received (wrap (of_nat (n + m)) (tx_isn (cn_sender cn))) (th_win (seg_header ack)) (cn_sender cn)"
  let ?rx = "rx_segment_received ack (cn_receiver cn)"
  let ?cn = "cn\<lparr>cn_time := 0, cn_sender := ?tx, cn_receiver := ?rx\<rparr>"
  have tx0: "tx_open (n + m) n [seg] (cn_sender cn)" "tx_segments_out (cn_sender cn) = []"
    and rx0: "rx_open w [] (cn_receiver cn)"
    and act: "cn_active cn" "cn_linger cn" "cn_syn_sended cn" "\<not> cn_need_send_rst cn"
    using cn by (simp_all add: cn_open_def)
  note tx = tx_ack_new [OF tx0(1) n(3,1,2) seg, of "th_win (seg_header ack)"]
  have rx: "rx_open w [] ?rx" using rx_open_segment [OF rx0 h(1,2,3,7)] nz(2) n(4) by simp
  have isn: "rx_isn ?rx = rx_isn (cn_receiver cn)" "rx_capacity ?rx = rx_capacity (cn_receiver cn)" using h(2) by simp_all
  have "(of_nat (n + m) :: u64) \<noteq> 0" using n by (simp add: word_of_nat_eq_0_iff nat_dvd_not_less del: of_nat_add)
  then have take_ack: "cn_take_ack (seg_header ack) (cn\<lparr>cn_time := 0\<rparr>) = cn\<lparr>cn_time := 0, cn_sender := ?tx\<rparr>"
    using h(5,6) tx0(1) by (simp add: cn_take_ack_def tx_open_def word_gt_0 del: of_nat_add)
  have "length_in_sequence_space ack = 0" "buffer_size (seg_payload ack) = 0"
    using h by (simp_all add: length_in_sequence_space_def buffer_size_def buffer_str_def)
  then have 1: "cn' = cn_segment_sends False ?cn"
    using act h take_ack by (simp add: cn'_def cn_segment_received_def Let_def cn_answer_def)
  have "cn_open (n + m) (n + m) [] w [] ?cn" using act tx tx0 rx by (simp add: cn_open_def)
  from cn_segment_sends_quiet [OF this] show ?thesis
    using nz(1) isn tx out unfolding 1 by (simp add: cn_fixed_def)
qed

text \<open>The application reads all, and time passes.\<close>

lemma rx_open_read:
  assumes "rx_open w d rx" and "bs_read (length d) (rx_stream_out rx) = Inr (data, out)"
  shows "data = d \<and> rx_open w [] (rx_with_output out rx)"
proof -
  have out: "data = fst (projr (bs_read (length d) (rx_stream_out rx)))" "out = snd (projr (bs_read (length d) (rx_stream_out rx)))"
    using assms(2) by simp_all
  have "rx_inv any_bytes (rx_with_output out rx)"
    using rx_machine.step_inv [of rx "rx_capacity rx" "Rx_Read (length d)"] assms(1)
    by (simp add: rx_open_def rx_synced_def out(2))
  then show ?thesis
    using assms(1) unfolding rx_open_def rx_synced_def
    by (simp add: rx_with_output_def rx_stream_out_def rx_acks_def out bs_read_fst bs_read_snd)
qed

lemma cn_tick_open:
  assumes cn: "cn_open n n [] w d cn" and nz: "wrap (of_nat (Suc w)) (rx_isn (cn_receiver cn)) \<noteq> WrappingInt32 0"
  shows "cn_open n n [] w d (cn_tick ms cn) \<and> cn_fixed (cn_tick ms cn) = cn_fixed cn \<and>
    cn_segments_out (cn_tick ms cn) = cn_segments_out cn \<and>
    tx_window_size (cn_sender (cn_tick ms cn)) = tx_window_size (cn_sender cn)"
proof -
  let ?cn = "cn\<lparr>cn_time := cn_time cn + ms, cn_sender := tx_tick ms (cn_sender cn)\<rparr>"
  have tx: "tx_open n n [] (cn_sender cn)" using cn by (simp add: cn_open_def)
  note t = tx_tick_open [OF tx, of ms]
  have "tx_consecutive_retrans (tx_tick ms (cn_sender cn)) = 0" using t by (simp add: tx_open_def)
  then have "cn_tick ms cn = cn_segment_sends False ?cn" using cn by (simp add: cn_tick_def Let_def cn_open_def)
  moreover have "cn_open n n [] w d ?cn" using cn t by (simp add: cn_open_def)
  ultimately show ?thesis using cn_segment_sends_quiet [of n n "[]" w d ?cn] nz t by (simp add: cn_fixed_def)
qed

section \<open>Rounds\<close>

text \<open>
  A round: \<open>x\<close> writes a message, the segments are exchanged, \<open>y\<close> reads, and time passes, as in the loop of the
  benchmark.
\<close>

definition bm_deliver :: "byte list \<Rightarrow> u64 \<Rightarrow> benchmark \<Rightarrow> exn + benchmark" where
  "bm_deliver d ms b =
     andthen (bm_read (bm_exchange False (b\<lparr>bm_x := snd (cn_write d (bm_x b))\<rparr>))) (\<lambda>b.
       Inr (b\<lparr>bm_x := cn_tick ms (bm_x b), bm_y := cn_tick ms (bm_y b)\<rparr>))"

primrec bm_deliver_all :: "(byte list \<times> u64) list \<Rightarrow> benchmark \<Rightarrow> exn + benchmark" where
  "bm_deliver_all [] b = Inr b"
| "bm_deliver_all (r # rs) b = andthen (bm_deliver (fst r) (snd r) b) (bm_deliver_all rs)"

text \<open>Two endpoints between rounds: all that was written has been read and acknowledged.\<close>

definition bm_peers :: "wrapping_int32 \<Rightarrow> wrapping_int32 \<Rightarrow> nat \<Rightarrow> benchmark \<Rightarrow> bool" where
  "bm_peers isn isn' n b \<longleftrightarrow>
     cn_open n n [] 0 [] (bm_x b) \<and> cn_open 1 1 [] (n - 1) [] (bm_y b) \<and>
     cn_segments_out (bm_x b) = [] \<and> cn_segments_out (bm_y b) = [] \<and>
     tx_isn (cn_sender (bm_x b)) = isn \<and> rx_isn (cn_receiver (bm_y b)) = isn \<and>
     tx_isn (cn_sender (bm_y b)) = isn' \<and> rx_isn (cn_receiver (bm_x b)) = isn' \<and>
     MAX_PAYLOAD_SIZE \<le> bs_capacity (tx_stream (cn_sender (bm_x b))) \<and> 0 < rx_capacity (cn_receiver (bm_x b)) \<and>
     2 * MAX_PAYLOAD_SIZE \<le> rx_capacity (cn_receiver (bm_y b)) \<and> rx_capacity (cn_receiver (bm_y b)) < 2 ^ 16 \<and>
     MAX_PAYLOAD_SIZE \<le> unat (tx_window_size (cn_sender (bm_x b)))"

lemma wrap_nonzero:
  assumes "0 < n" "unat (raw_value isn) + n < 2 ^ 32"
  shows "wrap (of_nat n) isn \<noteq> WrappingInt32 0"
proof
  assume "wrap (of_nat n) isn = WrappingInt32 0"
  then have "raw_value isn + of_nat n = 0" using wrap_of_nat [of n isn] assms(2) by (simp add: wi_plus_def)
  then have "unat (raw_value isn + of_nat n) = 0" by simp
  moreover have "unat (of_nat n :: u32) = n" using assms(2) by (simp add: unat_of_nat)
  ultimately show False using assms by (simp add: unat_word_ariths)
qed

lemma bm_deliver_peers:
  assumes peers: "bm_peers isn isn' n b" and d: "d \<noteq> []" "length d \<le> MAX_PAYLOAD_SIZE"
    and n: "0 < n" "unat (raw_value isn) + n + length d < 2 ^ 32" and nz: "wi_plus isn' 1 \<noteq> WrappingInt32 0"
  shows "\<exists>b'. bm_deliver d ms b = Inr b' \<and> bm_peers isn isn' (n + length d) b' \<and>
    bm_string_received b' = bm_string_received b @ d"
proof -
  let ?x = "bm_x b" and ?y = "bm_y b" and ?m = "length d"
  have P: "cn_open n n [] 0 [] ?x" "cn_open 1 1 [] (n - 1) [] ?y" "cn_segments_out ?x = []" "cn_segments_out ?y = []"
    "tx_isn (cn_sender ?x) = isn" "rx_isn (cn_receiver ?y) = isn" "tx_isn (cn_sender ?y) = isn'"
    "rx_isn (cn_receiver ?x) = isn'" "MAX_PAYLOAD_SIZE \<le> bs_capacity (tx_stream (cn_sender ?x))"
    "0 < rx_capacity (cn_receiver ?x)" "2 * MAX_PAYLOAD_SIZE \<le> rx_capacity (cn_receiver ?y)"
    "rx_capacity (cn_receiver ?y) < 2 ^ 16" "MAX_PAYLOAD_SIZE \<le> unat (tx_window_size (cn_sender ?x))"
    using peers by (simp_all add: bm_peers_def)
  have m: "0 < ?m" "?m \<le> 1000" using d by (simp_all add: MAX_PAYLOAD_SIZE_def)
  have one: "wrap (of_nat (Suc 0)) isn' = wi_plus isn' 1" by (simp add: wrap_1)
  have fits: "?m \<le> unat (tx_window_size (cn_sender ?x))" "?m \<le> bs_capacity (tx_stream (cn_sender ?x))"
    using d(2) P(9,13) by simp_all
  obtain seg where x1: "cn_open (n + ?m) n [seg] 0 [] (snd (cn_write d ?x))"
    "cn_segments_out (snd (cn_write d ?x)) = [stamped (wi_plus isn' 1) (of_nat (rx_capacity (cn_receiver ?x))) seg]"
    "seg_header seg = th_new\<lparr>th_seqno := wrap (of_nat n) isn\<rparr>" "buffer_str (seg_payload seg) = d"
    "cn_fixed (snd (cn_write d ?x)) = cn_fixed ?x"
    by (rule cn_write_open [OF P(1,3), unfolded P(5,8) one list.size(3) diff_zero, OF nz d fits])
  let ?seg = "stamped (wi_plus isn' 1) (of_nat (rx_capacity (cn_receiver ?x))) seg"
  let ?y2 = "cn_segment_received ?seg ?y"
  let ?ack = "stamped (wrap (of_nat (n + ?m)) isn) (of_nat (rx_capacity (cn_receiver ?y) - ?m))
    (seg_new\<lparr>seg_header := th_new\<lparr>th_seqno := wi_plus isn' 1\<rparr>\<rparr>)"
  have suc: "Suc (n - 1) = n" "Suc (n - 1 + ?m) = n + ?m" using n(1) by simp_all
  have big: "int n + 2 ^ 33 \<le> 2 ^ 64" "int (n - 1) + int ?m + 2 ^ 33 \<le> 2 ^ 64" "int n + int ?m + 2 ^ 33 \<le> 2 ^ 64"
    using n(2) by auto
  have nz': "wrap (of_nat (n + ?m)) isn \<noteq> WrappingInt32 0" using wrap_nonzero [of "n + ?m" isn] n by simp
  have y2: "cn_open 1 1 [] (n - 1 + ?m) d ?y2" "cn_fixed ?y2 = cn_fixed ?y" "cn_segments_out ?y2 = [?ack]"
    using cn_data_received [OF P(2,4), of d ?seg, unfolded suc P(6,7)] big x1(3,4) d P(11) m nz' n(1)
    by (simp_all add: stamped_def th_new_def wrap_1)
  let ?x1 = "(snd (cn_write d ?x))\<lparr>cn_segments_out := []\<rparr>" and ?y3 = "?y2\<lparr>cn_segments_out := []\<rparr>"
  let ?x3 = "cn_segment_received ?ack ?x1"
  have fx: "tx_isn (cn_sender ?x1) = isn" "rx_isn (cn_receiver ?x1) = isn'" "rx_capacity (cn_receiver ?x1) = rx_capacity (cn_receiver ?x)"
    using x1(5) P by (simp_all add: cn_fixed_def tx_fixed_def)
  have x3: "cn_open (n + ?m) (n + ?m) [] 0 [] ?x3" "cn_fixed ?x3 = cn_fixed ?x" "cn_segments_out ?x3 = []"
    "tx_window_size (cn_sender ?x3) = of_nat (rx_capacity (cn_receiver ?y) - ?m)"
    using cn_ack_received_open [of n ?m seg 0 ?x1 ?ack, unfolded fx] x1 m big P(10) nz
    by (simp_all add: cn_open_def stamped_def th_new_def length_in_sequence_space_def seg_new_def wrap_1 cn_fixed_def)
  have ex: "bm_exchange False (b\<lparr>bm_x := snd (cn_write d ?x)\<rparr>) = b\<lparr>bm_x := ?x3, bm_y := ?y3\<rparr>"
    using x1(2) y2(3) by (simp add: bm_exchange_def move_segments_def Let_def)
  have rx: "rx_open (n - 1 + ?m) d (cn_receiver ?y3)" using y2(1) by (simp add: cn_open_def)
  obtain data out where rd: "bs_read ?m (rx_stream_out (cn_receiver ?y3)) = Inr (data, out)"
    using bs_read_total [of ?m "rx_stream_out (cn_receiver ?y3)"] by auto
  note got = rx_open_read [OF rx rd]
  let ?y4 = "?y3\<lparr>cn_receiver := rx_with_output out (cn_receiver ?y3)\<rparr>"
  have "bs_buffer_size (cn_inbound_stream ?y3) = ?m" using rx by (simp add: cn_inbound_stream_def bs_accessors rx_open_def)
  then have bm: "bm_deliver d ms b = Inr (b\<lparr>bm_x := cn_tick ms ?x3, bm_y := cn_tick ms ?y4,
      bm_string_received := bm_string_received b @ d\<rparr>)"
    using rd got m(1) by (simp add: bm_deliver_def ex bm_read_def cn_inbound_stream_def Let_def)
  have y4: "cn_open 1 1 [] (n - 1 + ?m) [] ?y4" "cn_fixed ?y4 = cn_fixed ?y" "cn_segments_out ?y4 = []"
    using y2 got by (simp_all add: cn_open_def cn_fixed_def)
  have nzx: "wrap (of_nat (Suc 0)) (rx_isn (cn_receiver ?x3)) \<noteq> WrappingInt32 0"
    and nzy: "wrap (of_nat (Suc (n - 1 + ?m))) (rx_isn (cn_receiver ?y4)) \<noteq> WrappingInt32 0"
    using x3(2) y4(2) P nz nz' one suc(2) by (simp_all add: cn_fixed_def del: of_nat_Suc of_nat_add)
  have win: "MAX_PAYLOAD_SIZE \<le> unat (of_nat (rx_capacity (cn_receiver ?y) - ?m) :: u16)"
    by (subst unat_of_nat_u16) (use P(11,12) d(2) in linarith)+
  show ?thesis
    unfolding bm using cn_tick_open [OF x3(1) nzx, of ms] cn_tick_open [OF y4(1) nzy, of ms] x3 y4 P win n(1)
    by (simp add: bm_peers_def cn_fixed_def tx_fixed_def)
qed

lemma bm_deliver_all_peers:
  assumes "bm_peers isn isn' n b" and "\<forall>r\<in>set rounds. fst r \<noteq> [] \<and> length (fst r) \<le> MAX_PAYLOAD_SIZE"
    and "0 < n" "unat (raw_value isn) + n + length (concat (map fst rounds)) < 2 ^ 32"
    and "wi_plus isn' 1 \<noteq> WrappingInt32 0"
  shows "\<exists>b'. bm_deliver_all rounds b = Inr b' \<and> bm_peers isn isn' (n + length (concat (map fst rounds))) b' \<and>
    bm_string_received b' = bm_string_received b @ concat (map fst rounds)"
  using assms
proof (induction rounds arbitrary: n b)
  case (Cons r rounds)
  obtain b1 where b1: "bm_deliver (fst r) (snd r) b = Inr b1" "bm_peers isn isn' (n + length (fst r)) b1"
    "bm_string_received b1 = bm_string_received b @ fst r"
    using bm_deliver_peers [of isn isn' n b "fst r" "snd r"] Cons.prems by auto
  then show ?case using Cons.IH [OF b1(2)] Cons.prems by (simp add: add.assoc)
qed simp

section \<open>Opening\<close>

definition bm_open :: "tcp_config \<Rightarrow> u32 \<Rightarrow> tcp_config \<Rightarrow> u32 \<Rightarrow> benchmark" where
  "bm_open ccfg cr scfg sr =
     bm_exchange False (bm_exchange False
       \<lparr>bm_x = cn_connect (cn_new ccfg cr), bm_y = cn_new scfg sr, bm_bytes_to_send = [], bm_x_closed = False,
        bm_string_received = []\<rparr>)"

lemma tx_open_established:
  "tx_open 1 1 [] (tx_established c rto isn w)" "tx_segments_out (tx_established c rto isn w) = []"
  "tx_isn (tx_established c rto isn w) = isn" "bs_capacity (tx_stream (tx_established c rto isn w)) = c"
  "tx_window_size (tx_established c rto isn w) = w"
  by (simp_all add: tx_open_def tx_established_def tx_syn_sent_def tx_new_def)

lemma rx_open_syn_recv: "rx_open 0 [] (rx_syn_recv c isn)"
proof -
  have rx: "rx_segment_received (syn_seg isn) (rx_new c) = rx_syn_recv c isn"
    by (rule rx_first_syn) (simp_all add: syn_seg_def seg_new_def th_new_def buffer_copy_def)
  have "rx_inv any_bytes (rx_syn_recv c isn)"
    using rx_machine.step_inv [of "rx_new c" c "Rx_Segment (syn_seg isn)"] rx_machine.start_inv [of "rx_new c" c] rx by simp
  then show ?thesis
    by (simp add: rx_open_def rx_synced_def rx_acks_def rx_syn_recv_def rx_new_def rx_stream_out_def ra_new_def)
qed

lemma bm_open_peers:
  assumes nz: "wi_plus (cn_isn ccfg cr) 1 \<noteq> WrappingInt32 0" "wi_plus (cn_isn scfg sr) 1 \<noteq> WrappingInt32 0"
    and cap: "MAX_PAYLOAD_SIZE \<le> send_capacity ccfg" "0 < recv_capacity ccfg"
      "2 * MAX_PAYLOAD_SIZE \<le> recv_capacity scfg" "recv_capacity scfg < 2 ^ 16"
  shows "bm_peers (cn_isn ccfg cr) (cn_isn scfg sr) 1 (bm_open ccfg cr scfg sr) \<and>
    bm_string_received (bm_open ccfg cr scfg sr) = []"
proof -
  define client1 where "client1 = cn_connect (cn_new ccfg cr)"
  define server1 where "server1 = fold cn_segment_received (cn_segments_out client1) (cn_new scfg sr)"
  define client2 where "client2 = fold cn_segment_received (cn_segments_out server1) (client1\<lparr>cn_segments_out := []\<rparr>)"
  define server2 where "server2 = fold cn_segment_received (cn_segments_out client2) (server1\<lparr>cn_segments_out := []\<rparr>)"
  note defs = client1_def [symmetric] server1_def [symmetric] client2_def [symmetric] server2_def [symmetric]
  note states = handshake_states [OF nz, unfolded defs]
  have out: "cn_segments_out server2 = []" by (simp add: states(4))
  have opened: "bm_open ccfg cr scfg sr = \<lparr>bm_x = client2\<lparr>cn_segments_out := []\<rparr>,
      bm_y = server2\<lparr>cn_segments_out := []\<rparr>, bm_bytes_to_send = [], bm_x_closed = False, bm_string_received = []\<rparr>"
    by (simp add: bm_open_def bm_exchange_def move_segments_def Let_def defs out)
  have rx: "rx_isn (rx_syn_recv c isn) = isn" "rx_capacity (rx_syn_recv c isn) = c" "rx_window_size (rx_syn_recv c isn) = c" for c isn
    using rx_open_window [OF rx_open_syn_recv, of c isn] by (simp_all add: rx_syn_recv_def rx_new_def)
  have win: "MAX_PAYLOAD_SIZE \<le> unat (of_nat (recv_capacity scfg) :: u16)"
    by (subst unat_of_nat_u16) (use cap(3,4) in linarith)+
  show ?thesis
    unfolding opened states(3,4) using rx_open_syn_recv win cap
    by (simp add: bm_peers_def cn_open_def tx_open_established [simplified] rx)
qed

lemma cn_open_state:
  assumes "cn_open n n [] w d cn" "0 < n" "int n < 2 ^ 64" "wrap (of_nat (Suc w)) (rx_isn (cn_receiver cn)) \<noteq> WrappingInt32 0"
  shows "cn_state cn = ts_official ESTABLISHED" and "cn_bytes_in_flight cn = 0"
proof -
  have tx: "tx_open n n [] (cn_sender cn)" and rx: "rx_open w d (cn_receiver cn)" and act: "cn_active cn" "cn_linger cn"
    using assms(1) by (simp_all add: cn_open_def)
  have "(of_nat n :: u64) \<noteq> 0" using assms(2,3) by (simp add: word_of_nat_eq_0_iff nat_dvd_not_less)
  then have "tx_summary (cn_sender cn) = TX_SYN_ACKED"
    using tx by (simp add: tx_summary_def tx_open_def bs_accessors)
  moreover have "rx_summary (cn_receiver cn) = RX_SYN_RECV"
    using rx rx_open_ackno_opt [OF rx assms(4)] by (simp add: rx_summary_def rx_open_def bs_accessors)
  ultimately show "cn_state cn = ts_official ESTABLISHED" using act by (simp add: cn_state_def ts_of_def)
  show "cn_bytes_in_flight cn = 0" using tx by (simp add: cn_bytes_in_flight_def tx_open_def)
qed

section \<open>Property\<close>

text \<open>C3: (The data gets through.) Take two new endpoints with any configuration whose buffers hold a segment or two and
  any initial sequence numbers, one of which leaves room for what is sent. One connects, the segments are exchanged
  twice without loss, and then it writes messages, each of 1 to 1000 bytes, any number of them, with an exchange, a read and
  any time to wait after each. Nothing throws, the other side has read exactly the messages in order, nothing is left
  in flight, and both are still ESTABLISHED.\<close>

theorem messages_delivered:
  assumes "wi_plus (tx_isn (cn_sender (cn_new scfg sr))) 1 \<noteq> WrappingInt32 0"
    and "MAX_PAYLOAD_SIZE \<le> send_capacity ccfg" "0 < recv_capacity ccfg"
    and "2 * MAX_PAYLOAD_SIZE \<le> recv_capacity scfg" "recv_capacity scfg < 2 ^ 16"
    and "\<forall>r\<in>set rounds. fst r \<noteq> [] \<and> length (fst r) \<le> MAX_PAYLOAD_SIZE"
    and "unat (raw_value (tx_isn (cn_sender (cn_new ccfg cr)))) + 1 + length (concat (map fst rounds)) < 2 ^ 32"
  shows "\<exists>b. bm_deliver_all rounds (bm_open ccfg cr scfg sr) = Inr b \<and>
    bm_string_received b = concat (map fst rounds) \<and>
    cn_bytes_in_flight (bm_x b) = 0 \<and> cn_bytes_in_flight (bm_y b) = 0 \<and>
    cn_state (bm_x b) = ts_official ESTABLISHED \<and> cn_state (bm_y b) = ts_official ESTABLISHED"
proof -
  let ?isn = "cn_isn ccfg cr" and ?isn' = "cn_isn scfg sr" and ?n = "1 + length (concat (map fst rounds))"
  have isn: "unat (raw_value ?isn) + ?n < 2 ^ 32" and nz': "wi_plus ?isn' 1 \<noteq> WrappingInt32 0"
    using assms(1,7) by (simp_all add: cn_isn_def)
  then have "wi_plus ?isn 1 \<noteq> WrappingInt32 0" using wrap_nonzero [of 1 ?isn] by (simp add: wrap_1)
  note opened = bm_open_peers [OF this nz' assms(2-5)]
  obtain b where b: "bm_deliver_all rounds (bm_open ccfg cr scfg sr) = Inr b" "bm_peers ?isn ?isn' ?n b"
    "bm_string_received b = concat (map fst rounds)"
    using bm_deliver_all_peers [OF conjunct1 [OF opened] assms(6)] opened isn nz' by auto
  have x: "cn_open ?n ?n [] 0 [] (bm_x b)" and y: "cn_open 1 1 [] (?n - 1) [] (bm_y b)"
    and isns: "rx_isn (cn_receiver (bm_x b)) = ?isn'" "rx_isn (cn_receiver (bm_y b)) = ?isn"
    using b(2) by (simp_all add: bm_peers_def)
  have nzx: "wrap (of_nat (Suc 0)) (rx_isn (cn_receiver (bm_x b))) \<noteq> WrappingInt32 0"
    using nz' isns by (simp add: wrap_1)
  have nzy: "wrap (of_nat (Suc (?n - 1))) (rx_isn (cn_receiver (bm_y b))) \<noteq> WrappingInt32 0"
    using wrap_nonzero [of ?n ?isn] isn isns by (simp del: of_nat_Suc of_nat_add)
  have small: "int ?n < 2 ^ 64" using isn by simp
  show ?thesis
    using b(1,3) cn_open_state [OF x _ small nzx] cn_open_state [OF y _ _ nzy] by simp
qed

theorem messages_delivered_witness:
  "\<exists>b. bm_deliver_all [([1, 2], 100), ([3], 2000)] (bm_open tcp_config_default 5 tcp_config_default 7) = Inr b \<and>
    bm_string_received b = [1, 2, 3]"
proof -
  have "unat (5 :: u32) + 1 + 3 < 2 ^ 32" "wi_plus (WrappingInt32 7) 1 \<noteq> WrappingInt32 0" by (simp_all add: wi_plus_def)
  then show ?thesis
    using messages_delivered [of tcp_config_default 7 tcp_config_default "[([1, 2], 100), ([3], 2000)]" 5]
    by (fastforce simp: tcp_config_default_def tx_new_def MAX_PAYLOAD_SIZE_def DEFAULT_CAPACITY_def)
qed

end
