(* ===== verification/Tcpdump.thy ===== *)
theory Tcpdump
  imports Printers
begin

text \<open>
  \<open>apps/udp_tcpdump.cc\<close>: captured packets whose UDP payload is read as a TCP segment. libpcap and the text of
  an IPv6 address (\<open>inet_ntop\<close>) are parameters. A packet is the list of its captured bytes, and reading
  beyond them is undefined.
\<close>

section \<open>Arguments\<close>

text \<open>\<open>show_usage\<close>: what it prints, \<open>errmsg\<close> being null or a message.\<close>

definition show_usage :: "string \<Rightarrow> string option \<Rightarrow> string" where
  "show_usage arg0 errmsg =
     ''Usage: '' @ arg0 @ '' [-i <intf>] [-F <file>] [-h|--help] <expression>'' @ newline @ newline @
     ''  -i <intf>    only capture packets from <intf> (default: all)'' @ newline @ newline @
     ''  -F <file>    reads in a filter expression from <file>'' @ newline @
     ''               <expression> is ignored if -F is supplied.'' @ newline @ newline @
     ''  -h, --help   show this message'' @ newline @ newline @
     ''  <expression> a filter expression in pcap-filter(7) syntax'' @ newline @
     (case errmsg of None \<Rightarrow> [] | Some m \<Rightarrow> newline @ m) @ newline"

datatype dump_command = Dump_Exit int string | Dump_Start "string option" nat

text \<open>\<open>strncmp\<close> with a length that covers the null character compares whole strings.\<close>

function parse_arguments :: "string list \<Rightarrow> nat \<Rightarrow> string option \<Rightarrow> dump_command" where
  "parse_arguments argv cur dev =
     (if \<not> cur < length argv then Dump_Start dev cur
      else if argv ! cur = ''-i'' then
        (if cur + 1 \<ge> length argv then Dump_Exit 1 (show_usage (argv ! 0) (Some ''ERROR: -i requires an argument''))
         else parse_arguments argv (cur + 2) (Some (argv ! (cur + 1))))
      else if argv ! cur = ''-h'' \<or> argv ! cur = ''--help'' then Dump_Exit 0 (show_usage (argv ! 0) None)
      else Dump_Start dev cur)"
  by auto
termination by (relation "measure (\<lambda>(argv, cur, dev). length argv - cur)") auto

declare parse_arguments.simps [simp del]

definition filter_expression :: "string list \<Rightarrow> nat \<Rightarrow> string" where
  "filter_expression argv exp_start = concat (map (\<lambda>arg. arg @ '' '') (drop exp_start argv))"

section \<open>The IP header\<close>

definition byte_at :: "byte list \<Rightarrow> nat \<Rightarrow> exn + byte" where
  "byte_at data i =
     (if i < length data then Inr (data ! i) else Inl (Undefined_Behaviour ''read past the captured packet''))"

definition bytes_at :: "byte list \<Rightarrow> nat \<Rightarrow> nat \<Rightarrow> exn + byte list" where
  "bytes_at data i n =
     (if i + n \<le> length data then Inr (take n (drop i data))
      else Inl (Undefined_Behaviour ''read past the captured packet''))"

definition inet4_addr :: "byte list \<Rightarrow> nat \<Rightarrow> exn + string" where
  "inet4_addr data i =
     andthen (bytes_at data i 4) (\<lambda>s. Inr (inet_ntoa (of_be32 (s ! 0) (s ! 1) (s ! 2) (s ! 3))))"

definition inet6_addr :: "(byte list \<Rightarrow> string) \<Rightarrow> byte list \<Rightarrow> nat \<Rightarrow> exn + string" where
  "inet6_addr ntop6 data i = andthen (bytes_at data i 16) (\<lambda>s. Inr (ntop6 s))"

text \<open>The extension headers of IPv6, up to UDP. The reasons that go to \<open>cerr\<close> before a packet is skipped are left out.\<close>

function skip_extensions :: "byte list \<Rightarrow> byte \<Rightarrow> nat \<Rightarrow> exn + nat option" where
  "skip_extensions data nxt data_offset =
     (if nxt = 0x11 then Inr (Some data_offset)
      else if nxt \<noteq> 0 \<and> nxt \<noteq> 43 \<and> nxt \<noteq> 60 then Inr None
      else
        andthen (byte_at data data_offset) (\<lambda>nxt.
        andthen (byte_at data (data_offset + 1)) (\<lambda>n.
          let data_offset = data_offset + 8 * (1 + unat n) in
          if length data < data_offset + 2 then Inr None else skip_extensions data nxt data_offset)))"
  by auto
termination by (relation "measure (\<lambda>(data, nxt, data_offset). length data - data_offset)") auto

declare skip_extensions.simps [simp del]

definition process_ipv4_ipv6 ::
  "(byte list \<Rightarrow> string) \<Rightarrow> byte list \<Rightarrow> exn + (nat \<times> string \<times> string) option" where
  "process_ipv4_ipv6 ntop6 data =
     (if length data < 1 then Inr None
      else
        let pt = data ! 0 AND 0xf0 in
        if pt = 0x40 then
          let data_offset = unat (data ! 0 AND 0x0f) * 4 in
          if length data < data_offset then Inr None
          else
            andthen (byte_at data 9) (\<lambda>proto.
              if proto \<noteq> 0x11 then Inr None
              else
                andthen (inet4_addr data 12) (\<lambda>src_addr.
                andthen (inet4_addr data 16) (\<lambda>dst_addr. Inr (Some (data_offset + 8, src_addr, dst_addr)))))
        else if pt = 0x60 then
          if length data < 42 then Inr None
          else
            andthen (byte_at data 6) (\<lambda>nxt.
            andthen (skip_extensions data nxt 40) (\<lambda>found.
              case found of
                None \<Rightarrow> Inr None
              | Some data_offset \<Rightarrow>
                  andthen (inet6_addr ntop6 data 8) (\<lambda>src_addr.
                  andthen (inet6_addr ntop6 data 24) (\<lambda>dst_addr. Inr (Some (data_offset + 8, src_addr, dst_addr))))))
        else Inr None)"

section \<open>A packet\<close>

datatype datalink = DLT_RAW | DLT_NULL | DLT_EN10MB | DLT_LINUX_SLL | DLT_LINUX_SLL2 | DLT_Other

datatype dump_line = Skipped string | Dumped string

text \<open>Where the IP header starts, or why the packet is skipped.\<close>

definition ether_type_at :: "byte list \<Rightarrow> nat \<Rightarrow> bool" where
  "ether_type_at pkt i = ((pkt ! i, pkt ! (i + 1)) \<in> {(0x08, 0x00), (0x86, 0xdd)})"

definition link_header :: "datalink \<Rightarrow> byte list \<Rightarrow> string + nat" where
  "link_header dl_type pkt =
     (let hdr_off = (case dl_type of DLT_RAW \<Rightarrow> 0 | DLT_NULL \<Rightarrow> 4 | DLT_EN10MB \<Rightarrow> 14 | DLT_LINUX_SLL \<Rightarrow> 16
                       | DLT_LINUX_SLL2 \<Rightarrow> 20);
          is_ip = (case dl_type of DLT_RAW \<Rightarrow> True | DLT_NULL \<Rightarrow> pkt ! 3 \<in> {2, 24, 28, 30}
                       | DLT_EN10MB \<Rightarrow> ether_type_at pkt 12 | DLT_LINUX_SLL \<Rightarrow> ether_type_at pkt 14
                       | DLT_LINUX_SLL2 \<Rightarrow> ether_type_at pkt 0) in
      if length pkt < hdr_off then Inl ''[INFO] Skipping malformed packet.''
      else if \<not> is_ip then Inl ''[INFO] Skipping non-IP packet.''
      else Inr hdr_off)"

text \<open>The line for a segment. \<open>res\<close> is \<open>NoError\<close> or \<open>BadChecksum\<close>.\<close>

definition dump_segment :: "string \<Rightarrow> string \<Rightarrow> nat \<Rightarrow> parse_result \<Rightarrow> tcp_segment \<Rightarrow> string" where
  "dump_segment src dst payload_len res seg =
     (let h = seg_header seg; seqlen = length_in_sequence_space seg in
      src @ '':'' @ decimal (unat (th_sport h)) @ '' > '' @ dst @ '':'' @ decimal (unat (th_dport h)) @ newline @
      ''    Flags ['' @
      (if th_urg h then ''U'' else '''') @ (if th_psh h then ''P'' else '''') @ (if th_rst h then ''R'' else '''') @
      (if th_syn h then ''S'' else '''') @ (if th_fin h then ''F'' else '''') @ (if th_ack h then ''.'' else '''') @
      ''] cksum 0x'' @ padded 4 CHR ''0'' (hexadecimal (unat (th_cksum h))) @
      (if res = NoError then '' (correct)'' else '' (incorrect!)'') @
      '' seq '' @ decimal (unat (raw_value (th_seqno h))) @
      (if seqlen > 0 then '':'' @ decimal (unat (raw_value (wi_plus (th_seqno h) (of_nat seqlen)))) else '''') @
      '' ack '' @ decimal (unat (raw_value (th_ackno h))) @ '' win '' @ decimal (unat (th_win h)) @
      '' length '' @ decimal payload_len @ newline)"

text \<open>The view of the payload must not start behind the end of the packet, or its length wraps.\<close>

definition dump_packet ::
  "(byte list \<Rightarrow> string) \<Rightarrow> datalink \<Rightarrow> byte list \<Rightarrow> exn + dump_line" where
  "dump_packet ntop6 dl_type pkt =
     (case link_header dl_type pkt of
        Inl why \<Rightarrow> Inr (Skipped why)
      | Inr hdr_off \<Rightarrow>
          andthen (process_ipv4_ipv6 ntop6 (drop hdr_off pkt)) (\<lambda>found.
            case found of
              None \<Rightarrow> Inr (Skipped ''Error parsing IPv4/IPv6 packet. Skipping.'')
            | Some (start_off, src, dst) \<Rightarrow>
                let payload_off = hdr_off + start_off in
                if length pkt < payload_off
                then Inl (Undefined_Behaviour ''a view that ends before it begins'')
                else
                  let payload = drop payload_off pkt;
                      (res, seg) = seg_parse (buffer_of_string payload) 0 seg_new in
                  Inr (Dumped
                    ((if res \<notin> {NoError, BadChecksum}
                      then ''(did not recognize TCP header) src: '' @ src @ '' dst: '' @ dst @ newline
                      else dump_segment src dst (length payload) res seg) @
                     hexdump payload 8))))"

section \<open>main\<close>

text \<open>What \<open>pcap_next_ex\<close> returns: 0 at a time-out, 1 with a packet, a negative number at the end.
  The loop prints lines and gives that number, None while it is still waiting for packets.\<close>

datatype pcap_next = Timed_Out | Captured "byte list" | Ended int

primrec capture_loop ::
  "(byte list \<Rightarrow> string) \<Rightarrow> datalink \<Rightarrow> pcap_next list \<Rightarrow> exn + (dump_line list \<times> int option)" where
  "capture_loop ntop6 dl_type [] = Inr ([], None)"
| "capture_loop ntop6 dl_type (p # ps) =
     (case p of
        Timed_Out \<Rightarrow> capture_loop ntop6 dl_type ps
      | Captured pkt \<Rightarrow>
          andthen (dump_packet ntop6 dl_type pkt) (\<lambda>l.
          andthen (capture_loop ntop6 dl_type ps) (\<lambda>(ls, next_ret). Inr (l # ls, next_ret)))
      | Ended next_ret \<Rightarrow> Inr ([], Some next_ret))"

record pcap =
  open_live :: "string option \<Rightarrow> string + datalink"
  describe :: "datalink \<Rightarrow> string"
  compile_filter :: "string \<Rightarrow> string option"
  set_filter :: "string \<Rightarrow> string option"
  next_ex :: "pcap_next list"
  get_error :: string

definition dump_main ::
  "(byte list \<Rightarrow> string) \<Rightarrow> pcap \<Rightarrow> string list \<Rightarrow> exn + (dump_line list \<times> int option)" where
  "dump_main ntop6 lib argv =
     (case parse_arguments argv 1 None of
        Dump_Exit status text \<Rightarrow> Inr ([Dumped text], Some status)
      | Dump_Start dev exp_start \<Rightarrow>
          let capturing = (case dev of Some d \<Rightarrow> ''Capturing on interface '' @ d
                             | None \<Rightarrow> ''Capturing on all interfaces'') in
          case open_live lib dev of
            Inl err \<Rightarrow> Inr ([Dumped (capturing @ newline @ ''Error initiating capture: '' @ err @ newline)], Some 1)
          | Inr dlt \<Rightarrow>
              if dlt = DLT_Other
              then Inr ([Dumped (capturing @ newline @ ''Error: unsupported datalink type '' @ describe lib dlt @
                                 newline)], Some 1)
              else
                let flt = filter_expression argv exp_start;
                    started = Dumped (capturing @ '' (type: '' @ describe lib dlt @ '')'' @ newline @
                                      ''Using filter expression: '' @ flt @ newline) in
                case compile_filter lib flt of
                  Some err \<Rightarrow> Inr ([started, Dumped (''Error compiling filter expression: '' @ err @ newline)], Some 1)
                | None \<Rightarrow>
                    case set_filter lib flt of
                      Some err \<Rightarrow> Inr ([started, Dumped (''Error configuring packet filter: '' @ err @ newline)], Some 1)
                    | None \<Rightarrow>
                        andthen (capture_loop ntop6 dlt (next_ex lib)) (\<lambda>(ls, next_ret).
                          if next_ret = None then Inr (started # ls, None)
                          else if next_ret = Some (- 1)
                          then Inr (started # ls @ [Dumped (''Error listening for packet: '' @ get_error lib @ newline)], Some 1)
                          else Inr (started # ls, Some 0)))"

section \<open>Bounds of the header check\<close>

lemma byte_at_in [simp]: "i < length data \<Longrightarrow> byte_at data i = Inr (data ! i)"
  by (simp add: byte_at_def)

lemma bytes_at_in [simp]: "i + n \<le> length data \<Longrightarrow> bytes_at data i n = Inr (take n (drop i data))"
  by (simp add: bytes_at_def)

text \<open>The walk over the extension headers of IPv6 reads only captured bytes.\<close>

lemma skip_extensions_in_bounds:
  "data_offset + 2 \<le> length data \<Longrightarrow> \<exists>r. skip_extensions data nxt data_offset = Inr r"
proof (induction data nxt data_offset rule: skip_extensions.induct)
  case (1 data nxt data_offset)
  then show ?case
    by (subst skip_extensions.simps) (auto simp: Let_def not_less)
qed

lemma ipv6_in_bounds:
  assumes "data ! 0 AND 0xf0 = 0x60" "data \<noteq> []"
  shows "\<exists>r. process_ipv4_ipv6 ntop6 data = Inr r"
proof (cases "length data < 42")
  case True
  then show ?thesis using assms by (simp add: process_ipv4_ipv6_def Let_def)
next
  case False
  then obtain r where "skip_extensions data (data ! 6) 40 = Inr r"
    using skip_extensions_in_bounds [of 40 data "data ! 6"] by auto
  with False assms show ?thesis
    by (cases r) (simp_all add: process_ipv4_ipv6_def Let_def inet6_addr_def)
qed

text \<open>C35: The check of the IP header before it is read is too weak for IPv4 and right for IPv6. The code reads past the
  captured bytes exactly when the packet is IPv4, no shorter than its header-length field says, and either has fewer
  than 10 bytes or is UDP with fewer than the 20 bytes of a header without options.\<close>

theorem ip_header_over_read:
  "(\<exists>e. process_ipv4_ipv6 ntop6 data = Inl e) =
   (data \<noteq> [] \<and> data ! 0 AND 0xf0 = 0x40 \<and> unat (data ! 0 AND 0x0f) * 4 \<le> length data \<and>
    (length data < 10 \<or> data ! 9 = 0x11 \<and> length data < 20))"
proof (cases "data = [] \<or> data ! 0 AND 0xf0 \<noteq> 0x40")
  case True
  then show ?thesis
    using ipv6_in_bounds [of data ntop6]
    by (cases "data = [] \<or> data ! 0 AND 0xf0 \<noteq> 0x60") (auto simp: process_ipv4_ipv6_def Let_def)
next
  case False
  then show ?thesis
    by (auto simp: process_ipv4_ipv6_def Let_def byte_at_def inet4_addr_def bytes_at_def)
qed

end
