(* ===== verification/Command_Line.thy ===== *)
theory Command_Line
  imports Sponge_Socket Stream_Copy Printers
begin

text \<open>
  The command line programs \<open>tcp_ipv4\<close>, \<open>tcp_udp\<close>, \<open>tcp_ip_ethernet\<close>, \<open>tcp_native\<close>, \<open>webget\<close> and \<open>tun\<close> of apps/: how
  they read their arguments, and what the last three do. \<open>argv\<close> is the list of the arguments, the program's name
  first. What a loss rate (a C \<open>float\<close>) becomes as a 16-bit fraction is a parameter, None where the conversion is
  undefined.
\<close>

section \<open>Numbers\<close>

text \<open>\<open>strtol\<close> with base 0: white space, a sign, a prefix that gives the base, the longest run of digits.\<close>

definition digit_value :: "char \<Rightarrow> nat" where
  "digit_value c =
     (let n = of_char c in
      if 48 \<le> n \<and> n \<le> 57 then n - 48
      else if 97 \<le> n \<and> n \<le> 122 then n - 87
      else if 65 \<le> n \<and> n \<le> 90 then n - 55
      else 36)"

fun run_value :: "nat \<Rightarrow> string \<Rightarrow> nat \<Rightarrow> nat" where
  "run_value base [] v = v"
| "run_value base (c # cs) v = (if digit_value c < base then run_value base cs (base * v + digit_value c) else v)"

fun unsigned_value :: "string \<Rightarrow> nat" where
  "unsigned_value (c0 # x # d # cs) =
     (if c0 = CHR ''0'' \<and> x \<in> {CHR ''x'', CHR ''X''} \<and> digit_value d < 16 then run_value 16 (d # cs) 0
      else run_value (if c0 = CHR ''0'' then 8 else 10) (c0 # x # d # cs) 0)"
| "unsigned_value s = run_value (if s \<noteq> [] \<and> hd s = CHR ''0'' then 8 else 10) s 0"

definition strtol :: "string \<Rightarrow> int" where
  "strtol s =
     (let s = dropWhile is_space s;
          neg = (s \<noteq> [] \<and> hd s = CHR ''-'');
          s = (if s \<noteq> [] \<and> hd s \<in> {CHR ''-'', CHR ''+''} then tl s else s);
          v = int (unsigned_value s) in
      if neg then max (- v) (- (2 ^ 63)) else min v (2 ^ 63 - 1))"

section \<open>Options\<close>

datatype 'a outcome = Exits int string | Proceeds 'a

definition arg :: "string list \<Rightarrow> nat \<Rightarrow> exn + string" where
  "arg argv i = (if i < length argv then Inr (argv ! i) else Inl (Undefined_Behaviour ''argv''))"

text \<open>The local variables of \<open>get_config\<close>; each program has some of them.\<close>

record options =
  op_fsm :: tcp_config
  op_filt :: fd_adapter_config
  op_listen :: bool
  op_device :: "string option"
  op_source_address :: string
  op_source_port :: string
  op_next_hop_address :: string

definition options_new :: "fd_adapter_config \<Rightarrow> string \<Rightarrow> u16 \<Rightarrow> string \<Rightarrow> options" where
  "options_new filt source_address random next_hop_address =
     \<lparr>op_fsm = tcp_config_default, op_filt = filt, op_listen = False, op_device = None,
      op_source_address = source_address, op_source_port = decimal (unat random),
      op_next_hop_address = next_hop_address\<rparr>"

text \<open>
  What a program does with an option: set a flag, take an argument (with the message when it is missing), print the
  usage, or reject it. The comparisons are \<open>strncmp\<close> with 3 characters: \<open>-Lu\<close> and \<open>-Ld\<close> match as prefixes.
\<close>

datatype choice = Switch options | With_Arg string "string \<Rightarrow> exn + options" | Help | Unrecognized

definition set_window :: "options \<Rightarrow> string \<Rightarrow> exn + options" where
  "set_window v s = Inr (v\<lparr>op_fsm := op_fsm v\<lparr>recv_capacity := nat (strtol s mod 2 ^ 64)\<rparr>\<rparr>)"

definition set_timeout :: "options \<Rightarrow> string \<Rightarrow> exn + options" where
  "set_timeout v s = Inr (v\<lparr>op_fsm := op_fsm v\<lparr>rt_timeout := of_int (strtol s)\<rparr>\<rparr>)"

definition loss_rate :: "(string \<Rightarrow> u16 option) \<Rightarrow> string \<Rightarrow> exn + u16" where
  "loss_rate to_u16 s =
     (case to_u16 s of None \<Rightarrow> Inl (Undefined_Behaviour ''loss rate'') | Some r \<Rightarrow> Inr r)"

definition set_loss_up :: "(string \<Rightarrow> u16 option) \<Rightarrow> options \<Rightarrow> string \<Rightarrow> exn + options" where
  "set_loss_up to_u16 v s =
     andthen (loss_rate to_u16 s) (\<lambda>r. Inr (v\<lparr>op_filt := op_filt v\<lparr>fc_loss_rate_up := r\<rparr>\<rparr>))"

definition set_loss_dn :: "(string \<Rightarrow> u16 option) \<Rightarrow> options \<Rightarrow> string \<Rightarrow> exn + options" where
  "set_loss_dn to_u16 v s =
     andthen (loss_rate to_u16 s) (\<lambda>r. Inr (v\<lparr>op_filt := op_filt v\<lparr>fc_loss_rate_dn := r\<rparr>\<rparr>))"

definition ipv4_choose :: "(string \<Rightarrow> u16 option) \<Rightarrow> string \<Rightarrow> options \<Rightarrow> choice" where
  "ipv4_choose to_u16 s v =
     (if s = ''-l'' then Switch (v\<lparr>op_listen := True\<rparr>)
      else if s = ''-a'' then
        With_Arg ''ERROR: -a requires one argument.'' (\<lambda>a. Inr (v\<lparr>op_source_address := a\<rparr>))
      else if s = ''-s'' then With_Arg ''ERROR: -s requires one argument.'' (\<lambda>a. Inr (v\<lparr>op_source_port := a\<rparr>))
      else if s = ''-w'' then With_Arg ''ERROR: -w requires one argument.'' (set_window v)
      else if s = ''-t'' then With_Arg ''ERROR: -t requires one argument.'' (set_timeout v)
      else if s = ''-d'' then With_Arg ''ERROR: -t requires one argument.'' (\<lambda>a. Inr (v\<lparr>op_device := Some a\<rparr>))
      else if take 3 s = ''-Lu'' then With_Arg ''ERROR: -Lu requires one argument.'' (set_loss_up to_u16 v)
      else if take 3 s = ''-Ld'' then With_Arg ''ERROR: -Lu requires one argument.'' (set_loss_dn to_u16 v)
      else if s = ''-h'' then Help
      else Unrecognized)"

definition udp_choose :: "(string \<Rightarrow> u16 option) \<Rightarrow> string \<Rightarrow> options \<Rightarrow> choice" where
  "udp_choose to_u16 s v =
     (if s = ''-l'' then Switch (v\<lparr>op_listen := True\<rparr>)
      else if s = ''-w'' then With_Arg ''ERROR: -w requires one argument.'' (set_window v)
      else if s = ''-t'' then With_Arg ''ERROR: -t requires one argument.'' (set_timeout v)
      else if take 3 s = ''-Lu'' then With_Arg ''ERROR: -Lu requires one argument.'' (set_loss_up to_u16 v)
      else if take 3 s = ''-Ld'' then With_Arg ''ERROR: -Lu requires one argument.'' (set_loss_dn to_u16 v)
      else if s = ''-h'' then Help
      else Unrecognized)"

definition ethernet_choose :: "string \<Rightarrow> options \<Rightarrow> choice" where
  "ethernet_choose s v =
     (if s = ''-a'' then
        With_Arg ''ERROR: -a requires one argument.'' (\<lambda>a. Inr (v\<lparr>op_source_address := a\<rparr>))
      else if s = ''-s'' then With_Arg ''ERROR: -s requires one argument.'' (\<lambda>a. Inr (v\<lparr>op_source_port := a\<rparr>))
      else if s = ''-n'' then
        With_Arg ''ERROR: -n requires one argument.'' (\<lambda>a. Inr (v\<lparr>op_next_hop_address := a\<rparr>))
      else if s = ''-w'' then With_Arg ''ERROR: -w requires one argument.'' (set_window v)
      else if s = ''-t'' then With_Arg ''ERROR: -t requires one argument.'' (set_timeout v)
      else if s = ''-d'' then With_Arg ''ERROR: -t requires one argument.'' (\<lambda>a. Inr (v\<lparr>op_device := Some a\<rparr>))
      else if s = ''-h'' then Help
      else Unrecognized)"

text \<open>
  The loop of \<open>get_config\<close>, with \<open>check_argc\<close>. It returns where it stopped. \<open>usage\<close> is the text that \<open>show_usage\<close>
  prints before its message.
\<close>

definition show_message :: "string \<Rightarrow> string option \<Rightarrow> string" where
  "show_message usage msg = usage @ (case msg of None \<Rightarrow> [] | Some m \<Rightarrow> m) @ newline"

function get_options ::
  "(string \<Rightarrow> options \<Rightarrow> choice) \<Rightarrow> string \<Rightarrow> string list \<Rightarrow> nat \<Rightarrow> options \<Rightarrow> exn + (nat \<times> options) outcome" where
  "get_options pick usage argv cur v =
     (if \<not> cur + 2 < length argv then Inr (Proceeds (cur, v))
      else
        case pick (argv ! cur) v of
          Switch v \<Rightarrow> get_options pick usage argv (cur + 1) v
        | With_Arg err take_arg \<Rightarrow>
            if cur + 3 \<ge> length argv then Inr (Exits 1 (show_message usage (Some err)))
            else
              andthen (arg argv (cur + 1)) (\<lambda>a.
              andthen (take_arg a) (\<lambda>v. get_options pick usage argv (cur + 2) v))
        | Help \<Rightarrow> Inr (Exits 0 (show_message usage None))
        | Unrecognized \<Rightarrow>
            Inr (Exits 1 (show_message usage (Some (''ERROR: unrecognized option '' @ argv ! cur)))))"
  by auto
termination by (relation "measure (\<lambda>(pick, usage, argv, cur, v). length argv - cur)") auto

declare get_options.simps [simp del]

section \<open>Configurations\<close>

definition resume :: "exn + 'a outcome \<Rightarrow> ('a \<Rightarrow> exn + 'b outcome) \<Rightarrow> exn + 'b outcome" where
  "resume m f = andthen m (\<lambda>r. case r of Exits status text \<Rightarrow> Inr (Exits status text) | Proceeds v \<Rightarrow> f v)"

lemma resume_Proceeds [simp]:
  "resume m f = Inr (Proceeds y) \<longleftrightarrow> (\<exists>x. m = Inr (Proceeds x) \<and> f x = Inr (Proceeds y))"
proof (cases m)
  case (Inr r)
  then show ?thesis by (cases r) (simp_all add: resume_def)
qed (simp add: resume_def)

definition LOCAL_ADDRESS_DFLT_tun :: string where "LOCAL_ADDRESS_DFLT_tun = ''169.254.144.9''"
definition TUN_DFLT :: string where "TUN_DFLT = ''tun144''"
definition LOCAL_ADDRESS_DFLT_tap :: string where "LOCAL_ADDRESS_DFLT_tap = ''169.254.10.9''"
definition GATEWAY_DFLT :: string where "GATEWAY_DFLT = ''169.254.10.1''"
definition TAP_DFLT :: string where "TAP_DFLT = ''tap10''"

definition ipv4_usage :: "string \<Rightarrow> string" where
  "ipv4_usage argv0 =
     ''Usage: '' @ argv0 @ '' [options] <host> <port>'' @ newline @ newline @
     ''   Option                                                          Default'' @ newline @
     ''   --                                                              --'' @ newline @ newline @
     ''   -l              Server (listen) mode.                           (client mode)'' @ newline @
     ''                   In server mode, <host>:<port> is the address to bind.'' @ newline @ newline @
     ''   -a <addr>       Set source address (client mode only)           '' @ LOCAL_ADDRESS_DFLT_tun @
     newline @ ''   -s <port>       Set source port (client mode only)              (random)'' @ newline @
     newline @ ''   -w <winsz>      Use a window of <winsz> bytes                   '' @
     decimal MAX_PAYLOAD_SIZE @ newline @ newline @
     ''   -t <tmout>      Set rt_timeout to tmout                         '' @ decimal (unat TIMEOUT_DFLT) @
     newline @ newline @ ''   -d <tundev>     Connect to tun <tundev>                         '' @ TUN_DFLT @
     newline @ newline @ ''   -Lu <loss>      Set uplink loss to <rate> (float in 0..1)       (no loss)'' @
     newline @ ''   -Ld <loss>      Set downlink loss to <rate> (float in 0..1)     (no loss)'' @ newline @
     newline @ ''   -h              Show this message.'' @ newline @ newline"

definition udp_usage :: "string \<Rightarrow> string" where
  "udp_usage argv0 =
     ''Usage: '' @ argv0 @ '' [options] <host> <port>'' @ newline @ newline @
     ''   Option                                                          Default'' @ newline @
     ''   --                                                              --'' @ newline @ newline @
     ''   -l              Server (listen) mode.                           (client mode)'' @ newline @
     ''                   In server mode, <host>:<port> is the address to bind.'' @ newline @ newline @
     ''   -w <winsz>      Use a window of <winsz> bytes                   '' @ decimal MAX_PAYLOAD_SIZE @
     newline @ newline @ ''   -t <tmout>      Set rt_timeout to tmout                         '' @
     decimal (unat TIMEOUT_DFLT) @ newline @ newline @
     ''   -Lu <loss>      Set uplink loss to <rate> (float in 0..1)       (no loss)'' @ newline @
     ''   -Ld <loss>      Set downlink loss to <rate> (float in 0..1)     (no loss)'' @ newline @ newline @
     ''   -h              Show this message and quit.'' @ newline @ newline"

definition ethernet_usage :: "string \<Rightarrow> string" where
  "ethernet_usage argv0 =
     ''Usage: '' @ argv0 @ '' [options] <host> <port>'' @ newline @ newline @
     ''   Option                                                          Default'' @ newline @
     ''   --                                                              --'' @ newline @ newline @
     ''   -a <addr>       Set IP source address (client mode only)        '' @ LOCAL_ADDRESS_DFLT_tap @
     newline @ ''   -s <port>       Set TCP source port (client mode only)          (random)'' @ newline @
     newline @ ''   -n <addr>       Set IP next-hop address                         '' @ GATEWAY_DFLT @
     newline @ ''   -w <winsz>      Use a window of <winsz> bytes                   '' @
     decimal MAX_PAYLOAD_SIZE @ newline @ newline @
     ''   -t <tmout>      Set rt_timeout to tmout                         '' @ decimal (unat TIMEOUT_DFLT) @
     newline @ newline @ ''   -d <tapdev>     Connect to tap <tapdev>                         '' @ TAP_DFLT @
     newline @ newline @ ''   -h              Show this message.'' @ newline @ newline"

definition ipv4_get_config ::
  "resolver \<Rightarrow> (string \<Rightarrow> u16 option) \<Rightarrow> u16 \<Rightarrow> string \<Rightarrow> string list \<Rightarrow>
     exn + (tcp_config \<times> fd_adapter_config \<times> bool \<times> string option) outcome" where
  "ipv4_get_config R to_u16 random usage argv =
     andthen (fc_new R) (\<lambda>filt.
     resume (get_options (ipv4_choose to_u16) usage argv 1 (options_new filt LOCAL_ADDRESS_DFLT_tun random []))
       (\<lambda>(cur, v).
         if op_listen v then
           andthen (arg argv (cur + 1)) (\<lambda>port.
           andthen (ad_host R ''0'' port) (\<lambda>source.
           andthen (ad_port R source) (\<lambda>n.
             if n = 0 then
               Inr (Exits 1 (show_message usage (Some ''ERROR: listen port cannot be zero in server mode.'')))
             else Inr (Proceeds (op_fsm v, (op_filt v)\<lparr>fc_source := source\<rparr>, True, op_device v)))))
         else
           andthen (arg argv cur) (\<lambda>hostname.
           andthen (arg argv (cur + 1)) (\<lambda>port.
           andthen (ad_host R hostname port) (\<lambda>destination.
           andthen (ad_host R (op_source_address v) (op_source_port v)) (\<lambda>source.
             Inr (Proceeds (op_fsm v, (op_filt v)\<lparr>fc_destination := destination, fc_source := source\<rparr>, False,
                            op_device v))))))))"

definition udp_get_config ::
  "resolver \<Rightarrow> (string \<Rightarrow> u16 option) \<Rightarrow> string \<Rightarrow> string list \<Rightarrow>
     exn + (tcp_config \<times> fd_adapter_config \<times> bool) outcome" where
  "udp_get_config R to_u16 usage argv =
     andthen (fc_new R) (\<lambda>filt.
     resume (get_options (udp_choose to_u16) usage argv 1 (options_new filt [] 0 []))
       (\<lambda>(cur, v).
         if op_listen v then
           andthen (arg argv (length argv - 1)) (\<lambda>port.
           andthen (ad_host R ''0'' port) (\<lambda>source.
             Inr (Proceeds (op_fsm v, (op_filt v)\<lparr>fc_source := source\<rparr>, True))))
         else
           andthen (arg argv (length argv - 2)) (\<lambda>hostname.
           andthen (arg argv (length argv - 1)) (\<lambda>port.
           andthen (ad_host R hostname port) (\<lambda>destination.
             Inr (Proceeds (op_fsm v, (op_filt v)\<lparr>fc_destination := destination\<rparr>, False)))))))"

definition ethernet_get_config ::
  "resolver \<Rightarrow> u16 \<Rightarrow> string \<Rightarrow> string list \<Rightarrow>
     exn + (tcp_config \<times> fd_adapter_config \<times> address \<times> string) outcome" where
  "ethernet_get_config R random usage argv =
     andthen (fc_new R) (\<lambda>filt.
     resume (get_options ethernet_choose usage argv 1 (options_new filt LOCAL_ADDRESS_DFLT_tap random GATEWAY_DFLT))
       (\<lambda>(cur, v).
         andthen (arg argv cur) (\<lambda>hostname.
         andthen (arg argv (cur + 1)) (\<lambda>port.
         andthen (ad_host R hostname port) (\<lambda>destination.
         andthen (ad_host R (op_source_address v) (op_source_port v)) (\<lambda>source.
         andthen (ad_host R (op_next_hop_address v) ''0'') (\<lambda>next_hop.
           Inr (Proceeds (op_fsm v, (op_filt v)\<lparr>fc_destination := destination, fc_source := source\<rparr>, next_hop,
                          case op_device v of None \<Rightarrow> TAP_DFLT | Some d \<Rightarrow> d)))))))))"

text \<open>\<open>main\<close> up to the configuration, and the device it opens.\<close>

definition ipv4_main_config where
  "ipv4_main_config R to_u16 random argv =
     (if length argv < 3
      then andthen (arg argv 0) (\<lambda>name.
             Inr (Exits 1 (show_message (ipv4_usage name) (Some ''ERROR: required arguments are missing.''))))
      else ipv4_get_config R to_u16 random (ipv4_usage (argv ! 0)) argv)"

definition ipv4_device :: "string option \<Rightarrow> string" where
  "ipv4_device tun_dev_name = (case tun_dev_name of None \<Rightarrow> TUN_DFLT | Some d \<Rightarrow> d)"

definition udp_main_config where
  "udp_main_config R to_u16 argv =
     (if length argv < 3
      then andthen (arg argv 0) (\<lambda>name.
             Inr (Exits 1 (show_message (udp_usage name) (Some ''ERROR: required arguments are missing.''))))
      else udp_get_config R to_u16 (udp_usage (argv ! 0)) argv)"

definition ethernet_main_config where
  "ethernet_main_config R random argv =
     (if length argv < 3
      then andthen (arg argv 0) (\<lambda>name.
             Inr (Exits 1 (show_message (ethernet_usage name) (Some ''ERROR: required arguments are missing.''))))
      else ethernet_get_config R random (ethernet_usage (argv ! 0)) argv)"

section \<open>tcp_native\<close>

text \<open>The status, and the copy that ended; an exception is caught and gives the status 1.\<close>

definition native_server_mode :: "string list \<Rightarrow> bool" where
  "native_server_mode argv = (argv ! 1 = ''-l'')"

definition native_socket :: "'k kernel \<Rightarrow> resolver \<Rightarrow> string list \<Rightarrow> 'k \<Rightarrow> exn + fd_wrapper \<times> 'k" where
  "native_socket K R argv k =
     (if native_server_mode argv then
        andthen (so_new K DOMAIN_INET SOCK_STREAM k) (\<lambda>(listening_socket, k).
        andthen (so_set_reuseaddr K listening_socket k) (\<lambda>k.
        andthen (ad_host R (argv ! 2) (argv ! 3)) (\<lambda>address.
        andthen (so_bind K address listening_socket k) (\<lambda>k.
        andthen (tcp_listen K 16 listening_socket k) (\<lambda>k.
        andthen (tcp_accept K listening_socket k) (\<lambda>(socket, listening_socket, k).
          Inr (socket, fd_destructor K listening_socket k)))))))
      else
        andthen (so_new K DOMAIN_INET SOCK_STREAM k) (\<lambda>(connecting_socket, k).
        andthen (ad_host R (argv ! 1) (argv ! 2)) (\<lambda>address.
        andthen (so_connect K address connecting_socket k) (\<lambda>k. Inr (connecting_socket, k)))))"

definition native_main ::
  "'k kernel \<Rightarrow> 'k poll \<Rightarrow> nat \<Rightarrow> resolver \<Rightarrow> string list \<Rightarrow> 'k \<Rightarrow> (int \<times> 'k copy option) option" where
  "native_main K poll fuel R argv k =
     (if length argv < 3 \<or> native_server_mode argv \<and> length argv < 4 then Some (1, None)
      else
        case native_socket K R argv k of
          Inl e \<Rightarrow> Some (1, None)
        | Inr (socket, k) \<Rightarrow>
            case bidirectional_stream_copy K poll fuel socket k of
              None \<Rightarrow> None
            | Some (Inl e) \<Rightarrow> Some (1, None)
            | Some (Inr w) \<Rightarrow> Some (0, Some w))"

section \<open>webget\<close>

text \<open>What is written to the socket, in four calls.\<close>

definition cr :: char where "cr = char_of (13 :: nat)"
definition lf :: char where "lf = char_of (10 :: nat)"

definition web_request :: "string \<Rightarrow> string \<Rightarrow> string list" where
  "web_request host path =
     [''GET '' @ path @ '' HTTP/1.1'' @ [cr, lf], ''Host: '' @ host @ [cr, lf], ''Connection: close'' @ [cr, lf], [cr, lf]]"

definition push_text :: "string \<Rightarrow> string \<Rightarrow> string" where
  "push_text res recvd = fold (\<lambda>c res. if c \<noteq> lf \<and> c \<noteq> cr then res @ [c] else res) recvd res"

text \<open>
  The loop over \<open>sock.read()\<close>, given what the successive calls return; None when it is still waiting after the last
  of them.
\<close>

fun web_loop :: "string \<Rightarrow> string \<Rightarrow> string list \<Rightarrow> string option" where
  "web_loop recvd res reads =
     (if length recvd = 0 then Some res
      else case reads of
             [] \<Rightarrow> None
           | recvd # reads \<Rightarrow>
               if recvd = [] \<or> recvd = [lf] \<or> recvd = [cr, lf] \<or> recvd = [cr] then web_loop recvd res reads
               else web_loop recvd (push_text res recvd) reads)"

declare web_loop.simps [simp del]

definition web_body :: "string list \<Rightarrow> (exn + string) option" where
  "web_body reads =
     (case reads of
        [] \<Rightarrow> None
      | recvd # reads \<Rightarrow>
          case web_loop recvd (push_text [] recvd) reads of
            None \<Rightarrow> None
          | Some res \<Rightarrow>
              Some (if length res < 56 then Inl (Out_Of_Range ''basic_string::substr'')
                    else Inr (drop 56 res @ newline)))"

section \<open>tun\<close>

text \<open>What the loop prints for a packet.\<close>

definition tun_segment :: "ipv4_header \<Rightarrow> buffer \<Rightarrow> string" where
  "tun_segment h payload =
     newline @ ''Attempting to parse as a TCP segment... '' @
     (let (res, tcp_seg) = seg_parse payload (ip_pseudo_cksum h) seg_new in
      if res \<noteq> NoError then ''failed.'' @ newline
      else
        ''success! payload len='' @ decimal (buffer_size (seg_payload tcp_seg)) @ '', TCP header contents:'' @ newline @
        th_to_string (seg_header tcp_seg) @ newline)"

definition tun_packet :: "byte list \<Rightarrow> exn + string" where
  "tun_packet bytes =
     (let intro = newline @ newline @ ''***'' @ newline @ ''*** Got packet:'' @ newline @ ''***'' @ newline @
                  hexdump bytes 0 @ ''attempting to parse as ipv4 datagram... '';
          (res, ip_dgram) = dg_parse (buffer_of_string bytes) dg_new;
          h = dg_header ip_dgram in
      if res \<noteq> NoError then Inr (intro @ ''failed.'' @ newline)
      else
        let intro = intro @ ''success! totlen='' @ decimal (unat (ip_len h)) @ '', IPv4 header contents:'' @ newline @
                    ip_to_string h in
        if ip_proto h \<noteq> PROTO_TCP then Inr (intro @ newline @ ''Not TCP, skipping.'' @ newline)
        else andthen (bl_to_buffer (dg_payload ip_dgram)) (\<lambda>payload. Inr (intro @ tun_segment h payload)))"

text \<open>The loop, given what the successive calls of \<open>tun.read()\<close> return or throw; the exception ends the program.\<close>

primrec tun_main :: "(exn + byte list) list \<Rightarrow> string \<times> exn option" where
  "tun_main [] = ([], None)"
| "tun_main (r # rs) =
     (case andthen r tun_packet of
        Inl e \<Rightarrow> ([], Some e)
      | Inr text \<Rightarrow> let (out, ended) = tun_main rs in (text @ out, ended))"

section \<open>Arguments are read within bounds\<close>

text \<open>The options leave two arguments, the host and the port.\<close>

lemma get_options_leaves_two:
  "get_options pick usage argv cur v = Inr (Proceeds (cur', v')) \<Longrightarrow> cur + 2 \<le> length argv \<Longrightarrow> cur' + 2 = length argv"
proof (induction pick usage argv cur v rule: get_options.induct)
  case (1 pick usage argv cur v)
  show ?case
  proof (cases "cur + 2 < length argv")
    case False
    then show ?thesis using "1.prems" by (simp add: get_options.simps)
  next
    case True
    note go = "1.prems"(1) [unfolded get_options.simps [of pick usage argv cur v]]
    show ?thesis
    proof (cases "pick (argv ! cur) v")
      case (Switch w)
      then show ?thesis using "1.IH"(1) [of w] True go by simp
    next
      case (With_Arg err take_arg)
      then obtain a w where "arg argv (cur + 1) = Inr a" "take_arg a = Inr w" "cur + 3 < length argv"
        and "get_options pick usage argv (cur + 2) w = Inr (Proceeds (cur', v'))"
        using True go by (auto split: if_splits simp: not_le)
      then show ?thesis using "1.IH"(2) True With_Arg by simp
    qed (use True go in simp_all)
  qed
qed

definition within_argv :: "exn + 'a \<Rightarrow> bool" where
  "within_argv m = (m \<noteq> Inl (Undefined_Behaviour ''argv''))"

lemma within_argv_simps [simp]: "within_argv (Inr x)" "within_argv (Inl e) = (e \<noteq> Undefined_Behaviour ''argv'')"
  by (simp_all add: within_argv_def)

lemma within_argv_andthen:
  "within_argv m \<Longrightarrow> (\<And>x. m = Inr x \<Longrightarrow> within_argv (f x)) \<Longrightarrow> within_argv (andthen m f)"
  by (cases m) auto

lemma within_argv_arg [simp]: "i < length argv \<Longrightarrow> within_argv (arg argv i)"
  by (simp add: arg_def)

lemma within_argv_address [simp]:
  "within_argv (ad_host R host port)" "within_argv (fc_new R)" "within_argv (ad_port R a)"
  by (auto simp: ad_host_def ad_numeric_def ad_resolve_def ad_raw_def fc_new_def ad_port_def ad_ip_port_def stoi_def
      Let_def split: prod.splits option.splits intro!: within_argv_andthen)

text \<open>No program's options give the error.\<close>

definition proper :: "(string \<Rightarrow> options \<Rightarrow> choice) \<Rightarrow> bool" where
  "proper pick = (\<forall>s v err take_arg a. pick s v = With_Arg err take_arg \<longrightarrow> within_argv (take_arg a))"

lemma loss_rate_within [simp]: "within_argv (set_loss_up to_u16 v a)" "within_argv (set_loss_dn to_u16 v a)"
  by (auto simp: set_loss_up_def set_loss_dn_def loss_rate_def split: option.splits intro!: within_argv_andthen)

lemma proper_options [simp]: "proper (ipv4_choose to_u16)" "proper (udp_choose to_u16)" "proper ethernet_choose"
  by (auto simp: proper_def ipv4_choose_def udp_choose_def ethernet_choose_def set_window_def set_timeout_def
      split: if_splits)

lemma within_argv_options:
  "proper pick \<Longrightarrow> within_argv (get_options pick usage argv cur v)"
proof (induction pick usage argv cur v rule: get_options.induct)
  case (1 pick usage argv cur v)
  then show ?case
    by (subst get_options.simps)
      (auto simp: proper_def split: choice.split intro!: within_argv_andthen)
qed

lemma within_argv_resume:
  assumes "proper pick" "start + 2 \<le> length argv"
    and "\<And>cur v. cur + 2 = length argv \<Longrightarrow> within_argv (f (cur, v))"
  shows "within_argv (resume (get_options pick usage argv start v) f)"
  unfolding resume_def
  using get_options_leaves_two [of pick usage argv start v] assms within_argv_options
  by (auto intro!: within_argv_andthen split: outcome.split)

text \<open>The three programs read their arguments within bounds, whatever the arguments are: as long as the program's
  name is there, no option, no option's argument and no positional argument is looked up past the end of \<open>argv\<close>.\<close>

theorem arguments_within_bounds:
  assumes "argv \<noteq> []"
  shows "within_argv (ipv4_main_config R to_u16 random argv) \<and>
         within_argv (udp_main_config R to_u16 argv) \<and>
         within_argv (ethernet_main_config R random argv)"
proof (cases "length argv < 3")
  case True
  then show ?thesis
    using assms
    by (auto simp: ipv4_main_config_def udp_main_config_def ethernet_main_config_def intro!: within_argv_andthen)
next
  case False
  have "within_argv (ipv4_get_config R to_u16 random usage argv)" for usage
    unfolding ipv4_get_config_def using False
    by (auto intro!: within_argv_andthen within_argv_resume split: prod.split)
  moreover have "within_argv (udp_get_config R to_u16 usage argv)" for usage
    unfolding udp_get_config_def using False
    by (auto intro!: within_argv_andthen within_argv_resume split: prod.split)
  moreover have "within_argv (ethernet_get_config R random usage argv)" for usage
    unfolding ethernet_get_config_def using False
    by (auto intro!: within_argv_andthen within_argv_resume split: prod.split)
  ultimately show ?thesis
    using False by (simp add: ipv4_main_config_def udp_main_config_def ethernet_main_config_def)
qed

text \<open>A client connects to the last two arguments.\<close>

lemma client_destination:
  assumes "ipv4_main_config R to_u16 random argv = Inr (Proceeds (c_fsm, c_filt, False, dev))"
  shows "ad_host R (argv ! (length argv - 2)) (argv ! (length argv - 1)) = Inr (fc_destination c_filt)"
proof -
  have len: "\<not> length argv < 3"
    using assms by (auto simp: ipv4_main_config_def arg_def split: if_splits)
  then obtain filt cur v where opts: "get_options (ipv4_choose to_u16) (ipv4_usage (argv ! 0)) argv 1
        (options_new filt LOCAL_ADDRESS_DFLT_tun random []) = Inr (Proceeds (cur, v))"
    and rest: "\<exists>hostname port. arg argv cur = Inr hostname \<and> arg argv (cur + 1) = Inr port \<and>
        ad_host R hostname port = Inr (fc_destination c_filt)"
    using assms by (auto simp: ipv4_main_config_def ipv4_get_config_def split: if_splits)
  have "cur + 2 = length argv" using get_options_leaves_two [OF opts] len by simp
  then have "cur = length argv - 2" "cur + 1 = length argv - 1" by auto
  with rest show ?thesis by (auto simp: arg_def split: if_splits)
qed

section \<open>What webget prints\<close>

lemma push_text_filter: "push_text res recvd = res @ filter (\<lambda>c. c \<noteq> lf \<and> c \<noteq> cr) recvd"
  unfolding push_text_def by (induction recvd arbitrary: res) auto

lemma web_loop_chunks:
  "recvd \<noteq> [] \<Longrightarrow> [] \<notin> set chunks \<Longrightarrow>
   web_loop recvd res (chunks @ [] # rest) = Some (res @ filter (\<lambda>c. c \<noteq> lf \<and> c \<noteq> cr) (concat chunks))"
proof (induction chunks arbitrary: recvd res)
  case Nil
  then show ?case by (simp add: web_loop.simps)
next
  case (Cons c cs)
  have "filter (\<lambda>c. c \<noteq> lf \<and> c \<noteq> cr) c = []" if "c = [lf] \<or> c = [cr, lf] \<or> c = [cr]"
    using that by auto
  then show ?case
    using Cons by (subst web_loop.simps) (auto simp: push_text_filter)
qed

text \<open>However the reply is split into reads, what is printed is the reply up to the end of the stream without
  its line breaks and its first 56 characters; a shorter one throws.\<close>

lemma webget_prints_stripped_reply:
  assumes "[] \<notin> set chunks"
  shows "web_body (chunks @ [] # rest) =
         (let text = filter (\<lambda>c. c \<noteq> lf \<and> c \<noteq> cr) (concat chunks) in
          Some (if length text < 56 then Inl (Out_Of_Range ''basic_string::substr'') else Inr (drop 56 text @ newline)))"
proof (cases chunks)
  case Nil
  then show ?thesis by (simp add: web_body_def web_loop.simps push_text_def Let_def)
next
  case (Cons c cs)
  then show ?thesis
    using assms web_loop_chunks [of c cs "push_text [] c" rest]
    by (auto simp: web_body_def Let_def push_text_filter)
qed

end
