(* ===== verification/Spec2Isabelle.thy ===== *)
theory Spec2Isabelle
  imports Handshake Connection_Lifetime TCP_Network Stream_Copy Socket_Run Simulation_Safety
    Lab7 Delivery Tcpdump Command_Line
begin

text \<open>
  \<^bold>\<open>Sponge\<close>: a model of the user-space TCP/IP stack under \<open>src/sponge\<close>, with the theorems that make it
  correct.

  \<^bold>\<open>The program.\<close> An application writes bytes into a \<open>ByteStream\<close>. \<open>TCPSender\<close> cuts them into segments,
  keeps what is outstanding and retransmits; \<open>TCPReceiver\<close> takes segments apart, \<open>StreamReassembler\<close> puts
  the substrings in order and writes the inbound \<open>ByteStream\<close>. \<open>WrappingInt32\<close> turns 64-bit indices into
  32-bit sequence numbers and back. \<open>TCPConnection\<close> joins a sender and a receiver into one endpoint and
  \<open>TCPState\<close> names its states. Segments, datagrams, ARP messages and frames are written and read by
  \<open>NetUnparser\<close> and \<open>NetParser\<close> over shared \<open>Buffer\<close>s, with the \<open>InternetChecksum\<close>. Below TCP, the
  adapters carry segments in UDP or IPv4; \<open>NetworkInterface\<close> resolves addresses with ARP and puts
  datagrams into Ethernet frames; \<open>Router\<close> forwards datagrams between interfaces. \<open>FileDescriptor\<close>,
  \<open>Socket\<close> and \<open>TunTapFD\<close> wrap the system calls, \<open>EventLoop\<close> calls back the rules whose descriptor is
  ready, and \<open>TCPSpongeSocket\<close> runs an endpoint with an adapter on such a loop.

  \<^bold>\<open>Theories and sources\<close> (under \<open>libsponge\<close> unless said otherwise):
  \<^item> \<open>Sponge_Prelude\<close>: types of bytes and words, exceptions as \<open>exn + 'a\<close> with \<open>andthen\<close>, excerpts of a stream,
    and the locales \<open>machine\<close> (an invariant kept by every operation), \<open>simulation\<close> (equal observations, for the clients a specification allows)
    and \<open>codec\<close> (a parser that inverts a printer), each interpreted by the components.
  \<^item> \<open>Buffers\<close> (\<open>util/buffer\<close>), \<open>Byte_Stream\<close> (\<open>byte_stream\<close>), \<open>Reassembler\<close> (\<open>stream_reassembler\<close>),
    \<open>Wrapping_Integers\<close> (\<open>wrapping_integers\<close>).
  \<^item> \<open>Net_Parser\<close> (\<open>util/parser\<close>), \<open>Checksum\<close> (\<open>InternetChecksum\<close> of \<open>util/util\<close>), \<open>Link_Layer\<close>
    (\<open>ethernet_header\<close>, \<open>ethernet_frame\<close>, \<open>arp_message\<close>), \<open>IPv4\<close> (\<open>ipv4_header\<close>, \<open>ipv4_datagram\<close>),
    \<open>TCP_Segment\<close> (\<open>tcp_header\<close>, \<open>tcp_segment\<close>, \<open>tcp_config\<close>), all of \<open>tcp_helpers\<close>.
  \<^item> \<open>TCP_Receiver\<close>, \<open>TCP_Sender\<close> and \<open>Sender_Safety\<close>, \<open>TCP_State\<close>, \<open>TCP_Connection\<close>: the classes of these names.
    \<open>Handshake\<close>, \<open>Connection_Lifetime\<close> and \<open>TCP_Network\<close> hold the properties of one endpoint and of two
    endpoints over a network that loses, repeats and reorders segments, \<open>Delivery\<close> those of two endpoints without loss.
  \<^item> \<open>Text\<close> (the conversions of numbers and dotted addresses that the sources use), \<open>Address\<close> (\<open>util/address\<close>),
    \<open>Network_Interface\<close> and \<open>ARP_Resolution\<close> (\<open>network_interface\<close>), \<open>Router\<close> and \<open>Routing\<close> (\<open>router\<close>),
    \<open>TCP_Over_IP\<close> (\<open>tcp_helpers/tcp_over_ip\<close>), \<open>Adapters\<close> (\<open>fd_adapter\<close>, \<open>tuntap_adapter\<close>, \<open>lossy_fd_adapter\<close>).
  \<^item> \<open>File_Descriptor\<close> (\<open>util/file_descriptor\<close>, \<open>util/socket\<close>, \<open>util/tun\<close>, \<open>SystemCall\<close>), \<open>Kernel_Log\<close> (a kernel
    that records its calls), \<open>Event_Loop\<close> (\<open>util/eventloop\<close>), \<open>Stream_Copy\<close>
    (\<open>apps/bidirectional_stream_copy\<close>), \<open>Sponge_Socket\<close> and \<open>Socket_Run\<close> (\<open>tcp_helpers/tcp_sponge_socket\<close>).
  \<^item> \<open>Printers\<close> (\<open>to_string\<close> and \<open>summary\<close> of the headers, \<open>hexdump\<close>), \<open>Network_Simulator\<close>, \<open>Simulation\<close> and
    \<open>Simulation_Safety\<close> (\<open>apps/network_simulator\<close>), \<open>Lab7\<close> (\<open>apps/lab7\<close>), \<open>Benchmark\<close> (\<open>apps/tcp_benchmark\<close>),
    \<open>Tcpdump\<close> (\<open>apps/udp_tcpdump\<close>), \<open>Command_Line\<close> (\<open>tcp_ipv4\<close>, \<open>tcp_udp\<close>, \<open>tcp_ip_ethernet\<close>, \<open>tcp_native\<close>,
    \<open>webget\<close> and \<open>tun\<close> of \<open>apps\<close>).

  \<^bold>\<open>How the model reads.\<close> A class is a record with its members, a member function a function from the
  record to the record (and its result), a throw an \<open>Inl\<close>. Integers keep their width wherever they can
  wrap (sequence numbers, time, windows, header fields); \<open>size_t\<close> counts of bytes in memory are \<open>nat\<close>.
  What the C++ standard leaves undefined and the code can reach is the exception
  \<open>Undefined_Behaviour\<close>: so are the loops of \<open>NetworkInterface::tick\<close> over its tables once an entry expires (the
  iterator is used after \<open>erase\<close>). The loop of \<open>send_stage_datagram\<close> erases from the vector that it
  walks through, which the standard leaves undefined as well; there the model follows the pointer iterators of
  libstdc++: the elements behind the erased one move down, erasing the last one ends the loop, and only reading past the
  vector's end is \<open>Undefined_Behaviour\<close>. Queues and lists are lists with their front first; an unordered map is a map or an
  association list, where the order of iteration matters.

  \<^bold>\<open>What the theorems show.\<close> Stream side: for a client that writes nothing after \<open>end_input\<close>, the results and all accessors of
  a \<open>ByteStream\<close> are those of the history of what was written and read; the reassembler's output is a prefix of the stream its substrings come from and everything contiguous is
  written at once. Receiver: an acknowledgment stands for the SYN, bytes that were written, and one more once the
  receiver has ended its stream. Sender: segments carry the stream's bytes at the right place, lie back to back and
  stay within the window of a peer that does not shrink it (but for the FIN), and retransmission doubles its timeout.
  Endpoint: handshake, reset of an opened connection, give-up, lingering; two endpoints over a hostile network deliver a prefix, and
  over a loss-free one everything that is written; the benchmark throws nothing but its last complaint.
  Wire: every format survives serialising and parsing, the checksum equals its reference. Network side:
  no datagram given to an interface is lost track of, two interfaces resolve each other, lookup is
  longest-prefix match, \<open>route\<close> ends with empty queues. System side: \<open>write\<close> ends and what the kernel took
  is a prefix; the event loop serves each ready rule once; a copy loses nothing; a run of
  \<open>TCPSpongeSocket\<close> is a sequence of operations of its \<open>TCPConnection\<close>, with the owner's bytes in order. The
  simulated network of six hosts around a router stays well formed and loses no frame on a link; the routers of
  lab 7 send every datagram to the side its destination asks for.
  Where the code does not do what it means to, the theorem states what it does (a write
  accepted after the end of the input, a FIN that ends the stream and is acknowledged before the bytes in front of
  it have come, a FIN past the window, a window shrunk by the peer and overrun, a listener killed by a RST, a dropped
  segment in SYN_RCVD, a window advertised modulo \<open>2^16\<close>, iterators used after \<open>erase\<close>, a wrong header
  checksum that is accepted, a packet dump that reads past the packet, a write to a socket that has been shut down, a failed \<open>poll\<close> taken for success).

  \<^bold>\<open>Loops and bounds.\<close> The loops of the components are total functions with measures. Four loops of the program
  can run for ever (the copying loop, \<open>_tcp_loop\<close> while connected, the network thread of lab 7 and the loops of the
  benchmark): they take the number of rounds as fuel and
  give \<open>None\<close> when it does not suffice; the theorems about them hold for every fuel. Hypotheses of the form \<open>_ + 2^33 \<le> 2^64\<close> keep the
  64-bit counters of a stream from wrapping; unwrapping needs distances below \<open>2^31\<close>.

  \<^bold>\<open>Parameters.\<close> The kernel, \<open>poll\<close>, the clock, the name resolver (\<open>getaddrinfo\<close>, \<open>getnameinfo\<close>) and the random
  generators are arguments of the definitions that use them, and so are libpcap, the text of an IPv6 address and the
  value of a loss rate given as a \<open>float\<close>. \<open>Address\<close> states the documented behaviour of a
  resolver on numeric hosts as the locale \<open>numeric_service\<close> and \<open>numeric_resolver\<close> meets it.

  \<^bold>\<open>Not modelled.\<close> The start and the joining of threads (the TCP thread and that of lab 7; another thread acts while
  \<open>poll\<close> waits), debugging output, the seeding of the random generator, floating point (the throughput that the
  benchmark prints), the run of a socket inside the command line programs after its configuration is read (the
  sockets themselves are modelled), the closing of the standard descriptors at the end of
  \<open>bidirectional_stream_copy\<close>, the narrowing of a system call's \<open>ssize_t\<close> to the \<open>int\<close> that \<open>SystemCall\<close> takes (the
  replies the kernel gives to the sizes asked for fit), and the tests.
\<close>

end
